(* ===== verification/SimPrelude.thy ===== *)
theory SimPrelude
  imports Main "HOL-Library.Word"
begin

text \<open>
  Shared vocabulary of the development: the machine-integer types of the C++
  code, big-endian packing of bytes into 16-bit words, the run of a clocked
  component over a list of inputs, and the interface (a locale) under which a
  component's invariant is lifted from one clock tick to a whole run.
\<close>

unbundle bit_operations_syntax

section \<open>Integer types\<close>

type_synonym u8 = "8 word"
type_synonym u16 = "16 word"
type_synonym u32 = "32 word"
type_synonym u64 = "64 word"

named_theorems sim_step "one-step unfolding rules of the clocked components"

section \<open>Bits and bytes\<close>

definition be16 :: "u8 \<Rightarrow> u8 \<Rightarrow> u16" where
  "be16 h l = push_bit 8 (ucast h) OR ucast l"

definition hi8 :: "u16 \<Rightarrow> u8" where
  "hi8 w = ucast (drop_bit 8 w)"

definition lo8 :: "u16 \<Rightarrow> u8" where
  "lo8 w = ucast w"

lemma hi8_be16 [simp]: "hi8 (be16 h l) = h"
  unfolding hi8_def be16_def
  by (rule bit_word_eqI) (auto simp: bit_simps dest: bit_imp_le_length)

lemma lo8_be16 [simp]: "lo8 (be16 h l) = l"
  unfolding lo8_def be16_def
  by (rule bit_word_eqI) (auto simp: bit_simps)

lemma be16_hi8_lo8 [simp]: "be16 (hi8 w) (lo8 w) = w"
  unfolding hi8_def lo8_def be16_def
  by (rule bit_word_eqI) (auto simp: bit_simps)

lemma be16_inject [simp]: "be16 h l = be16 h' l' \<longleftrightarrow> h = h' \<and> l = l'"
  by (metis hi8_be16 lo8_be16)

text \<open>The C++ idiom (a << 8) | (b & 0xFF), narrowed to 16 bits, for any two ints.\<close>

lemma of_int_pack:
  "(of_int (push_bit 8 a OR (b AND 0xFF)) :: u16) = be16 (of_int a) (of_int b)"
proof -
  have m: "(0xFF::int) = mask 8" by (simp add: mask_eq_exp_minus_1)
  show ?thesis unfolding be16_def m take_bit_eq_mask [symmetric]
    by (rule bit_word_eqI) (auto simp: bit_simps)
qed

text \<open>Shifting in one more bit extends the low part of a word that is already known.\<close>

lemma take_bit_Suc_or:
  fixes b :: "'a::len word"
  shows "take_bit k b OR (if bit b k then push_bit k 1 else 0) = take_bit (Suc k) b"
  by (rule bit_word_eqI) (auto simp: bit_simps less_Suc_eq)

lemma of_nat_eq_0_word_iff:
  "n < 2 ^ LENGTH('a) \<Longrightarrow> (of_nat n :: 'a::len word) = 0 \<longleftrightarrow> n = 0"
  by (auto simp: word_of_nat_eq_0_iff dest: nat_dvd_not_less)

lemma of_nat_Suc_minus_1 [simp]: "(of_nat (Suc n) :: 'a::len word) - 1 = of_nat n"
  by simp

lemma take_bit_eq_self_word:
  fixes w :: "'a::len word"
  assumes "unat w < 2 ^ n"
  shows "take_bit n w = w"
  using assms by (simp add: word_unat_eq_iff unsigned_take_bit_eq take_bit_nat_eq_self)

lemma sint_eq_uint_small:
  fixes w :: u32
  assumes "unat w < 2 ^ 31"
  shows "sint w = uint w"
proof -
  have "uint w < 2 ^ 31" using assms unfolding uint_nat by (metis of_nat_less_iff of_nat_numeral of_nat_power)
  moreover have "- (2 ^ 31) \<le> uint w" using uint_ge_0 [of w] by (rule order_trans [rotated]) simp
  ultimately have "signed_take_bit 31 (uint w) = uint w" by (intro signed_take_bit_int_eq_self)
  then show ?thesis by (simp only: sint_uint) simp
qed

section \<open>Running a clocked component\<close>

fun run :: "('s \<Rightarrow> 'i \<Rightarrow> 's \<times> 'o) \<Rightarrow> 's \<Rightarrow> 'i list \<Rightarrow> 's \<times> 'o list" where
  "run step s [] = (s, [])"
| "run step s (i # is) =
     (case step s i of (s1, x) \<Rightarrow> (case run step s1 is of (s2, xs) \<Rightarrow> (s2, x # xs)))"

lemma run_append:
  "run step s (xs @ ys) =
     (case run step s xs of (s1, os1) \<Rightarrow>
        (case run step s1 ys of (s2, os2) \<Rightarrow> (s2, os1 @ os2)))"
  by (induction xs arbitrary: s) (simp_all add: case_prod_beta)

lemma length_run [simp]: "length (snd (run step s xs)) = length xs"
proof (induction xs arbitrary: s)
  case (Cons x xs)
  obtain s1 y where 1: "step s x = (s1, y)" by fastforce
  show ?case using Cons.IH [of s1] 1 by (simp add: case_prod_beta)
qed simp

text \<open>
  The contract of a clocked component: an invariant inv kept by every tick whose
  input is acceptable, and a promise on the output of the tick.
\<close>

locale clocked =
  fixes step :: "'s \<Rightarrow> 'i \<Rightarrow> 's \<times> 'o"
    and inv :: "'s \<Rightarrow> bool"
    and okin :: "'i \<Rightarrow> bool"
    and okout :: "'i \<Rightarrow> 'o \<Rightarrow> bool"
  assumes step_inv: "inv s \<Longrightarrow> okin i \<Longrightarrow> inv (fst (step s i))"
    and step_out: "inv s \<Longrightarrow> okin i \<Longrightarrow> okout i (snd (step s i))"
begin

lemma run_inv: "inv s \<Longrightarrow> \<forall>i\<in>set is. okin i \<Longrightarrow> inv (fst (run step s is))"
proof (induction "is" arbitrary: s)
  case (Cons i "is")
  then have "inv (fst (step s i))" using step_inv by simp
  with Cons show ?case by (simp add: case_prod_beta)
qed simp

lemma run_out:
  "inv s \<Longrightarrow> \<forall>i\<in>set is. okin i \<Longrightarrow> list_all2 okout is (snd (run step s is))"
proof (induction "is" arbitrary: s)
  case (Cons i "is")
  then have "inv (fst (step s i))" and "okout i (snd (step s i))"
    using step_inv step_out by simp_all
  with Cons show ?case by (simp add: case_prod_beta)
qed simp

end

section \<open>Text\<close>

text \<open>What snprintf writes for %02X, %X, %u and friends.\<close>

definition hexd :: "nat \<Rightarrow> char" where
  "hexd n = ''0123456789ABCDEF'' ! n"

definition hex2 :: "u8 \<Rightarrow> string" where
  "hex2 b = [hexd (unat b div 16), hexd (unat b mod 16)]"

fun dec :: "nat \<Rightarrow> string" where
  "dec n = (if n < 10 then [hexd n] else dec (n div 10) @ [hexd (n mod 10)])"

declare dec.simps [simp del]

definition chr_u8 :: "u8 \<Rightarrow> char" where
  "chr_u8 b = char_of (unat b)"

lemma length_hex2 [simp]: "length (hex2 b) = 2"
  by (simp add: hex2_def)

lemma hexd_inject:
  assumes "m < 16" "n < 16" "hexd m = hexd n"
  shows "m = n"
proof -
  have "distinct ''0123456789ABCDEF''" by simp
  with assms show ?thesis by (simp add: hexd_def nth_eq_iff_index_eq)
qed

lemma hex2_inject [simp]: "hex2 a = hex2 b \<longleftrightarrow> a = b"
proof
  assume e: "hex2 a = hex2 b"
  have "unat a < 256" "unat b < 256"
    using unsigned_less [of a, where 'a = nat] unsigned_less [of b, where 'a = nat] by simp_all
  then have "unat a div 16 = unat b div 16 \<and> unat a mod 16 = unat b mod 16"
    using e by (auto simp: hex2_def intro!: hexd_inject)
  then have "unat a = unat b" by (metis div_mult_mod_eq)
  then show "a = b" by (simp add: word_unat_eq_iff)
qed simp

lemma chr_u8_inject [simp]: "chr_u8 a = chr_u8 b \<longleftrightarrow> a = b"
proof
  assume "chr_u8 a = chr_u8 b"
  then have "(of_char (chr_u8 a) :: nat) = of_char (chr_u8 b)" by simp
  then have "unat a mod 256 = unat b mod 256" by (simp add: chr_u8_def)
  moreover have "unat a < 256" "unat b < 256"
    using unsigned_less [of a, where 'a = nat] unsigned_less [of b, where 'a = nat] by simp_all
  ultimately show "a = b" by (simp add: word_unat_eq_iff)
qed simp

section \<open>Bounded logs\<close>

text \<open>The loop that erases the oldest entry while there are more than k.\<close>

fun trim_front :: "nat \<Rightarrow> 'a list \<Rightarrow> 'a list" where
  "trim_front k [] = []"
| "trim_front k (x # xs) = (if Suc (length xs) > k then trim_front k xs else x # xs)"

lemma trim_front_drop: "trim_front k xs = drop (length xs - k) xs"
  by (induction xs) (auto simp: Suc_diff_le)

lemma length_trim_front [simp]: "length (trim_front k xs) = min (length xs) k"
  by (simp add: trim_front_drop)

lemma trim_front_id [simp]: "length xs \<le> k \<Longrightarrow> trim_front k xs = xs"
  by (simp add: trim_front_drop)

text \<open>
  The contract of a component that keeps the newest entries only: pushing an entry appends it
  and drops the oldest ones beyond the capacity.
\<close>

locale bounded_log =
  fixes push :: "'m \<Rightarrow> 's \<Rightarrow> 's"
    and items :: "'s \<Rightarrow> 'a list"
    and entry :: "'m \<Rightarrow> 'a"
    and cap :: nat
  assumes push_items:
    "items (push m s) = drop (Suc (length (items s)) - cap) (items s @ [entry m])"
begin

lemma bounded: "length (items (push m s)) \<le> cap"
  by (simp add: push_items)

lemma push_all:
  "length (items s) \<le> cap \<Longrightarrow>
   items (fold push ms s) = drop (length (items s) + length ms - cap) (items s @ map entry ms)"
proof (induction ms arbitrary: s)
  case (Cons m ms)
  have b: "length (items (push m s)) \<le> cap" by (rule bounded)
  show ?case
  proof (cases "length (items s) < cap")
    case True
    with Cons.IH [OF b] show ?thesis by (simp add: push_items)
  next
    case False
    with Cons.prems have "length (items s) = cap" by simp
    with Cons.IH [OF b] show ?thesis by (cases cap) (simp_all add: push_items)
  qed
qed simp

lemma newest_kept:
  assumes "length (items s) \<le> cap" "length ms \<le> cap"
  shows "drop (length (items (fold push ms s)) - length ms) (items (fold push ms s)) = map entry ms"
  using assms by (simp add: push_all)

end

section \<open>Regions of bytes\<close>

text \<open>What memcpy does to a buffer, and the part of a buffer it reads.\<close>

definition blit :: "nat \<Rightarrow> 'a list \<Rightarrow> 'a list \<Rightarrow> 'a list" where
  "blit p xs ys = take p ys @ xs @ drop (p + length xs) ys"

definition slice :: "nat \<Rightarrow> nat \<Rightarrow> 'a list \<Rightarrow> 'a list" where
  "slice p n xs = take n (drop p xs)"

lemma length_blit [simp]: "p + length xs \<le> length ys \<Longrightarrow> length (blit p xs ys) = length ys"
  by (simp add: blit_def)

lemma slice_blit_same: "p \<le> length ys \<Longrightarrow> slice p (length xs) (blit p xs ys) = xs"
  by (simp add: blit_def slice_def)

lemma slice_blit_other:
  assumes "p + length xs \<le> length ys" "q + n \<le> p \<or> p + length xs \<le> q"
  shows "slice q n (blit p xs ys) = slice q n ys"
  using assms(2)
proof
  assume "q + n \<le> p"
  then show ?thesis using assms(1) by (simp add: blit_def slice_def min_def) (simp add: drop_take)
next
  assume "p + length xs \<le> q"
  then show ?thesis using assms(1) by (simp add: blit_def slice_def)
qed

lemma slice_add: "slice p (m + n) xs = slice p m xs @ slice (p + m) n xs"
  by (simp add: slice_def take_add add.commute)

lemma slice_whole: "slice 0 (length xs) xs = xs"
  by (simp add: slice_def)

text \<open>A store that grows: a write past the end fills the gap with z.\<close>

definition put_grow :: "'a \<Rightarrow> nat \<Rightarrow> 'a list \<Rightarrow> 'a list \<Rightarrow> 'a list" where
  "put_grow z pos xs ys =
     blit pos xs (if length ys < pos + length xs then ys @ replicate (pos + length xs - length ys) z else ys)"

lemma put_grow_alt:
  "put_grow z p xs ys = take p ys @ replicate (p - length ys) z @ xs @ drop (p + length xs) ys"
  by (simp add: put_grow_def blit_def min_def)

lemma length_put_grow [simp]: "length (put_grow z p c u) = max (length u) (p + length c)"
  by (simp add: put_grow_alt)

lemma put_grow_append:
  "put_grow z (p + length xs) zs (put_grow z p xs ys) = put_grow z p (xs @ zs) ys"
proof -
  let ?h = "take p ys @ replicate (p - length ys) z @ xs"
  have h: "length ?h = p + length xs" by simp
  have "put_grow z p xs ys = ?h @ drop (p + length xs) ys" by (simp add: put_grow_alt)
  then have "put_grow z (p + length xs) zs (put_grow z p xs ys) =
    ?h @ replicate (p + length xs - length (put_grow z p xs ys)) z @ zs @
      drop (p + length xs + length zs) (?h @ drop (p + length xs) ys)"
    using h by (simp add: put_grow_alt [of z "p + length xs"])
  also have "\<dots> = put_grow z p (xs @ zs) ys" using h by (simp add: put_grow_alt [of z p "xs @ zs"] ac_simps)
  finally show ?thesis .
qed

text \<open>
  The contract of a store that is written and read in regions: a region reads back as it was
  written, other regions are untouched. What may be written (room) and what may be read (fits)
  can differ, because some stores grow.
\<close>

locale region_store =
  fixes put :: "nat \<Rightarrow> 'b list \<Rightarrow> 's \<Rightarrow> 's"
    and get :: "nat \<Rightarrow> nat \<Rightarrow> 's \<Rightarrow> 'b list"
    and room :: "nat \<Rightarrow> 's \<Rightarrow> bool"
    and fits :: "nat \<Rightarrow> 's \<Rightarrow> bool"
  assumes get_put_same: "room (p + length xs) s \<Longrightarrow> get p (length xs) (put p xs s) = xs"
    and put_fits: "room (p + length xs) s \<Longrightarrow> fits (p + length xs) (put p xs s)"
    and get_put_other: "room (p + length xs) s \<Longrightarrow> fits (q + n) s \<Longrightarrow>
      q + n \<le> p \<or> p + length xs \<le> q \<Longrightarrow> get q n (put p xs s) = get q n s"
    and fits_put: "room (p + length xs) s \<Longrightarrow> fits n s \<Longrightarrow> fits n (put p xs s)"
    and room_put: "room (p + length xs) s \<Longrightarrow> room n s \<Longrightarrow> room n (put p xs s)"
    and room_le: "room n s \<Longrightarrow> m \<le> n \<Longrightarrow> room m s"
    and get_add: "get p (m + n) s = get p m s @ get (p + m) n s"
    and get_0: "get p 0 s = []"
begin

fun put_all :: "nat \<Rightarrow> 'b list list \<Rightarrow> 's \<Rightarrow> 's" where
  "put_all p [] s = s"
| "put_all p (c # cs) s = put_all (p + length c) cs (put p c s)"

lemma put_all_below:
  "room (p + length (concat cs)) s \<Longrightarrow> fits (q + n) s \<Longrightarrow> q + n \<le> p \<Longrightarrow>
   get q n (put_all p cs s) = get q n s"
proof (induction cs arbitrary: p s)
  case (Cons c cs)
  have r: "room (p + length c) s" using Cons.prems(1) room_le by fastforce
  have "room (p + length c + length (concat cs)) (put p c s)"
    using room_put [OF r] Cons.prems(1) by (simp add: add.assoc)
  moreover have "fits (q + n) (put p c s)" using fits_put [OF r Cons.prems(2)] .
  ultimately show ?case
    using Cons.IH [of "p + length c" "put p c s"] get_put_other [OF r Cons.prems(2)] Cons.prems(3) by simp
qed simp

lemma put_all_concat:
  "room (p + length (concat cs)) s \<Longrightarrow> get p (length (concat cs)) (put_all p cs s) = concat cs"
proof (induction cs arbitrary: p s)
  case Nil
  then show ?case by (simp add: get_0)
next
  case (Cons c cs)
  have r: "room (p + length c) s" using Cons.prems(1) room_le by fastforce
  have r': "room (p + length c + length (concat cs)) (put p c s)"
    using room_put [OF r] Cons.prems(1) by (simp add: add.assoc)
  have "get p (length c) (put_all p (c # cs) s) = c"
    using put_all_below [OF r', of p "length c"] put_fits [OF r] get_put_same [OF r] by simp
  with Cons.IH [OF r'] show ?case by (simp add: get_add)
qed

end

lemma put_grow_region:
  "region_store (put_grow z) slice (\<lambda>_ _. True) (\<lambda>n xs. n \<le> length xs)"
proof unfold_locales
  fix p q n :: nat and xs s :: "'a list"
  show "slice p (length xs) (put_grow z p xs s) = xs"
    unfolding put_grow_def by (rule slice_blit_same) simp
  assume f: "q + n \<le> length s" and d: "q + n \<le> p \<or> p + length xs \<le> q"
  let ?s = "if length s < p + length xs then s @ replicate (p + length xs - length s) z else s"
  have "slice q n (blit p xs ?s) = slice q n ?s" by (rule slice_blit_other) (use d in auto)
  also have "\<dots> = slice q n s" using f by (simp add: slice_def)
  finally show "slice q n (put_grow z p xs s) = slice q n s" by (simp add: put_grow_def)
qed (simp_all add: slice_add, simp add: slice_def)

section \<open>Sectors\<close>

text \<open>The bytes of a sector buffer of 16-bit words, high byte first.\<close>

definition sector_bytes :: "(nat \<Rightarrow> u16) \<Rightarrow> nat \<Rightarrow> u8 list" where
  "sector_bytes buf n = concat (map (\<lambda>k. [hi8 (buf k), lo8 (buf k)]) [0..<n])"

lemma length_sector_bytes [simp]: "length (sector_bytes buf n) = 2 * n"
  by (induction n) (simp_all add: sector_bytes_def)

lemma sector_bytes_Suc: "sector_bytes buf (Suc n) = sector_bytes buf n @ [hi8 (buf n), lo8 (buf n)]"
  by (simp add: sector_bytes_def)

lemma list_update_sector:
  assumes "base + 2 * k + 2 \<le> length d"
  shows "(take base d @ sector_bytes buf k @ drop (base + 2 * k) d)
           [base + 2 * k := x, base + 2 * k + 1 := y] =
         take base d @ sector_bytes buf k @ [x, y] @ drop (base + 2 * k + 2) d"
proof -
  have e: "drop (base + 2 * k) d = d ! (base + 2 * k) # d ! (base + 2 * k + 1) # drop (base + 2 * k + 2) d"
    using assms by (simp add: Cons_nth_drop_Suc [symmetric])
  show ?thesis using assms by (simp add: e list_update_append)
qed

text \<open>A stream that shows a word in every other step.\<close>

lemma filter_alternate:
  assumes "length os = 2 * n" "\<forall>j<2 * n. P (os ! j) \<longleftrightarrow> even j" "\<forall>k<n. f (os ! (2 * k)) = g k"
  shows "map f (filter P os) = map g [0..<n]"
  using assms
proof (induction n arbitrary: os)
  case (Suc n)
  let ?i = "take (2 * n) os"
  have e: "os = ?i @ [os ! (2 * n), os ! Suc (2 * n)]"
    using Suc.prems(1) id_take_nth_drop [of "2 * n" os]
    by (simp add: Cons_nth_drop_Suc [symmetric])
  have "map f (filter P ?i) = map g [0..<n]"
    using Suc.prems by (intro Suc.IH) simp_all
  moreover have "P (os ! (2 * n))" "\<not> P (os ! Suc (2 * n))" "f (os ! (2 * n)) = g n"
    using Suc.prems(2,3) by simp_all
  ultimately show ?case by (subst e) simp
qed simp

section \<open>Closed loops\<close>

text \<open>
  n steps of a component against a partner, which may look at the step number and at what it sees
  of the component before it answers.
\<close>

fun drive :: "('i \<Rightarrow> 's \<Rightarrow> 's) \<Rightarrow> ('s \<Rightarrow> 'o) \<Rightarrow> (nat \<Rightarrow> 'o \<Rightarrow> 'i) \<Rightarrow> nat \<Rightarrow> nat \<Rightarrow> 's \<Rightarrow> 's \<times> 'o list" where
  "drive step see core 0 t s = (s, [])"
| "drive step see core (Suc n) t s =
     (let s1 = step (core t (see s)) s
      in case drive step see core n (Suc t) s1 of (s2, os) \<Rightarrow> (s2, see s1 # os))"

lemma drive_add:
  assumes "drive step see core m t s = (s1, os1)" "drive step see core n (t + m) s1 = (s2, os2)"
  shows "drive step see core (m + n) t s = (s2, os1 @ os2)"
  using assms
  by (induction m arbitrary: t s s1 os1) (auto simp: Let_def split: prod.splits)

lemma drive_1: "drive step see core 1 t s = (step (core t (see s)) s, [see (step (core t (see s)) s)])"
  by (simp add: Let_def)

lemma drive_length: "drive step see core n t s = (s', os) \<Longrightarrow> length os = n"
  by (induction n arbitrary: t s s' os) (auto simp: Let_def split: prod.splits)

text \<open>
  The contract of a phase: a stretch of len steps in which the component is, after k of them, in a
  state described by at k and shows what emit k describes, as long as the partner answers
  acceptably.
\<close>

locale phase =
  fixes step :: "'i \<Rightarrow> 's \<Rightarrow> 's"
    and see :: "'s \<Rightarrow> 'o"
    and at :: "nat \<Rightarrow> 's \<Rightarrow> bool"
    and okin :: "'o \<Rightarrow> 'i \<Rightarrow> bool"
    and emit :: "nat \<Rightarrow> 'o \<Rightarrow> bool"
    and len :: nat
  assumes adv: "at k s \<Longrightarrow> k < len \<Longrightarrow> okin (see s) i \<Longrightarrow> at (Suc k) (step i s)"
    and adv_out: "at k s \<Longrightarrow> k < len \<Longrightarrow> okin (see s) i \<Longrightarrow> emit k (see (step i s))"
begin

lemma steps:
  assumes "at k s" "k + n \<le> len" "\<forall>t x. okin x (core t x)" "drive step see core n t s = (s', os)"
  shows "at (k + n) s' \<and> (\<forall>j<n. emit (k + j) (os ! j))"
  using assms(1,2,4)
proof (induction n arbitrary: k s t os)
  case (Suc n)
  let ?s1 = "step (core t (see s)) s"
  obtain xs where d: "drive step see core n (Suc t) ?s1 = (s', xs)" "os = see ?s1 # xs"
    using Suc.prems(3) by (auto simp: Let_def split: prod.splits)
  have a: "at (Suc k) ?s1" "emit k (see ?s1)" using adv adv_out Suc.prems(1,2) assms(3) by simp_all
  have "at (Suc k + n) s' \<and> (\<forall>j<n. emit (Suc k + j) (xs ! j))"
    using Suc.IH [OF a(1) _ d(1)] Suc.prems(2) by simp
  then show ?case using a(2) d(2) by (auto simp: nth_Cons split: nat.split)
qed simp

lemma whole:
  assumes "at 0 s" "\<forall>t x. okin x (core t x)"
  obtains s' os where "drive step see core len t s = (s', os)" "at len s'" "length os = len"
    "\<forall>j<len. emit j (os ! j)"
proof -
  obtain s' os where d: "drive step see core len t s = (s', os)" by fastforce
  from steps [OF assms(1) _ assms(2) d] drive_length [OF d] d show ?thesis by (intro that) auto
qed

end

end
