(* ===== verification/Toolbox.thy ===== *)
theory Toolbox
  imports SimPrelude
begin

text \<open>
  The BlueSCSI Toolbox service of verilator/scsi_bench/scsi_bench.cpp (struct TbHps): the host
  side of the file transfer commands, driven by 512-byte request blocks and answering with a status
  block and data blocks. Blocks are byte lists of length 512.
\<close>

section \<open>State\<close>

definition TB_SIG :: u8 where "TB_SIG = 0xB5"
definition CHUNK_MAX :: nat where "CHUNK_MAX = 65536"
definition TAIL_BLKS :: nat where "TAIL_BLKS = (CHUNK_MAX + 16 - 1) div 512"

record TbFile =
  tf_name :: "u8 list"
  tf_data :: "u8 list"

record TbHps =
  files :: "TbFile list"
  resp :: "u8 list"
  tb_status :: u8
  get_idx :: int
  upload :: "u8 list"
  upload_name :: "u8 list"
  upload_open :: bool
  tail :: "u8 list"
  reqs :: u64
  fills :: u64
  tail_seen :: "nat \<Rightarrow> bool"
  last_missing :: int
  last_missing_cnt :: int

definition tb_init :: TbHps where
  "tb_init = \<lparr>files = [], resp = [], tb_status = 0x02, get_idx = -1, upload = [], upload_name = [],
     upload_open = False, tail = replicate (TAIL_BLKS * 512) 0, reqs = 0, fills = 0,
     tail_seen = (\<lambda>_. False), last_missing = -1, last_missing_cnt = 0\<rparr>"

definition tb_reset :: "TbHps \<Rightarrow> TbHps" where
  "tb_reset t = t\<lparr>resp := [], tb_status := 0x02, get_idx := -1, upload := [], upload_name := [],
     upload_open := False, tail := replicate (TAIL_BLKS * 512) 0, reqs := 0, fills := 0\<rparr>"

section \<open>Operations\<close>

text \<open>Big-endian numbers in a command block.\<close>

definition be24 :: "u8 \<Rightarrow> u8 \<Rightarrow> u8 \<Rightarrow> nat" where
  "be24 a b c = unat a * 65536 + unat b * 256 + unat c"

definition be32 :: "u8 \<Rightarrow> u8 \<Rightarrow> u8 \<Rightarrow> u8 \<Rightarrow> nat" where
  "be32 a b c d = unat a * 16777216 + unat b * 65536 + unat c * 256 + unat d"

definition op_count :: "TbHps \<Rightarrow> TbHps" where
  "op_count t = t\<lparr>resp := resp t @ [of_nat (length (files t))], tb_status := 0\<rparr>"

text \<open>One directory entry: index, type, 32 bytes of name, two spare bytes, the size.\<close>

definition list_entry :: "nat \<Rightarrow> TbFile \<Rightarrow> u8 list" where
  "list_entry i f =
    (let nm = take 32 (tf_name f);
         sz = (of_nat (length (tf_data f)) :: u32)
     in [of_nat i, 1] @ nm @ replicate (32 - length nm) 0 @ [0, 0] @
        [ucast (drop_bit 24 sz), ucast (drop_bit 16 sz), ucast (drop_bit 8 sz), ucast sz])"

definition op_list :: "TbHps \<Rightarrow> TbHps" where
  "op_list t = t\<lparr>resp := resp t @ concat (map (\<lambda>i. list_entry i (files t ! i)) [0..<length (files t)]),
                 tb_status := 0\<rparr>"

definition get_offset :: "u8 list \<Rightarrow> nat" where
  "get_offset cdb = be32 (cdb ! 2) (cdb ! 3) (cdb ! 4) (cdb ! 5)"

definition get_want :: "u8 list \<Rightarrow> nat" where
  "get_want cdb = min ((if cdb ! 6 \<noteq> 0 then unat (cdb ! 6) else 1) * 4096) CHUNK_MAX"

text \<open>Offset zero opens the file named by the index; a bad index closes it.\<close>

definition get_select :: "u8 list \<Rightarrow> TbHps \<Rightarrow> int" where
  "get_select cdb t =
     (if get_offset cdb = 0
      then (if unat (cdb ! 1) < length (files t) then int (unat (cdb ! 1)) else -1)
      else get_idx t)"

definition op_get :: "u8 list \<Rightarrow> TbHps \<Rightarrow> TbHps" where
  "op_get cdb t =
    (let i = get_select cdb t
     in if i < 0 then t\<lparr>get_idx := i, tb_status := 0x02\<rparr>
        else
          (let d = tf_data (files t ! nat i);
               base = get_offset cdb * 4096;
               got = (if base \<ge> length d then 0 else min (get_want cdb) (length d - base))
           in t\<lparr>resp := slice base got d, get_idx := (if got = 0 then -1 else i), tb_status := 0\<rparr>))"

definition op_send_prep :: "u8 list \<Rightarrow> TbHps \<Rightarrow> TbHps" where
  "op_send_prep buf t =
    (let name = takeWhile (\<lambda>c. c \<noteq> 0) (slice 16 32 buf)
     in if name = [] then t\<lparr>tb_status := 0x02\<rparr>
        else t\<lparr>upload_name := name, upload := [], upload_open := True, tb_status := 0\<rparr>)"

text \<open>The number of payload bytes a SEND block announces, capped at the chunk size.\<close>

definition send_bytes :: "u8 list \<Rightarrow> nat" where
  "send_bytes buf = min (if buf ! 6 \<noteq> 0 then unat (buf ! 6) * 512
                         else unat (buf ! 1) * 256 + unat (buf ! 2)) CHUNK_MAX"

text \<open>The diagnosis of op_send_data: which tail blocks the chunk needs and which did not arrive.\<close>

definition tail_need :: "nat \<Rightarrow> nat" where
  "tail_need nb = (if nb > 496 then (nb - 496 + 511) div 512 else 0)"

definition note_missing :: "nat \<Rightarrow> TbHps \<Rightarrow> TbHps" where
  "note_missing nb t =
    (let miss = filter (\<lambda>k. \<not> tail_seen t k) [1..<Suc (tail_need nb)]
     in t\<lparr>last_missing := (case miss of [] \<Rightarrow> -1 | k # _ \<Rightarrow> int k),
          last_missing_cnt := int (length miss),
          tail_seen := (\<lambda>k. if k \<le> TAIL_BLKS then False else tail_seen t k)\<rparr>)"

text \<open>fseek and fwrite: a write past the end leaves a hole of zeros.\<close>

definition store_at :: "nat \<Rightarrow> u8 list \<Rightarrow> u8 list \<Rightarrow> u8 list" where
  "store_at pos chunk u = put_grow 0 pos chunk u"

text \<open>The chunk: what travelled under the command, then the contents of the tail buffer.\<close>

definition assemble :: "nat \<Rightarrow> u8 list \<Rightarrow> u8 list \<Rightarrow> u8 list" where
  "assemble bytes buf tailb =
     (let head = (if bytes < 496 then bytes else 496)
      in slice 16 head buf @ (if bytes > 496 then slice 0 (bytes - 496) tailb else []))"

definition op_send_data :: "u8 list \<Rightarrow> TbHps \<Rightarrow> TbHps" where
  "op_send_data buf t =
    (if \<not> upload_open t then t\<lparr>tb_status := 0x02\<rparr>
     else
       (let bytes = send_bytes buf;
            t1 = note_missing bytes t;
            off = be24 (buf ! 3) (buf ! 4) (buf ! 5);
            chunk = assemble bytes buf (tail t1);
            pos = off * 512
        in t1\<lparr>upload := store_at pos chunk (upload t1), tb_status := 0\<rparr>))"

definition op_send_end :: "TbHps \<Rightarrow> TbHps" where
  "op_send_end t = (if \<not> upload_open t then t\<lparr>tb_status := 0x02\<rparr>
                    else t\<lparr>upload_open := False, tb_status := 0\<rparr>)"

definition tb_request :: "nat \<Rightarrow> u8 list \<Rightarrow> TbHps \<Rightarrow> TbHps" where
  "tb_request lba buf t0 =
    (let t = t0\<lparr>reqs := reqs t0 + 1\<rparr>
     in if 1 \<le> lba \<and> lba \<le> TAIL_BLKS then
          t\<lparr>tail := blit ((lba - 1) * 512) buf (tail t), tail_seen := (tail_seen t)(lba := True)\<rparr>
        else if lba \<noteq> 0 then t
        else
          (let t1 = t\<lparr>resp := [], tb_status := 0x02\<rparr>; c = buf ! 0
           in if c = 0xD2 then op_count t1
              else if c = 0xD0 then op_list t1
              else if c = 0xD1 then op_get buf t1
              else if c = 0xD3 then op_send_prep buf t1
              else if c = 0xD4 then op_send_data buf t1
              else if c = 0xD5 then op_send_end t1
              else t1\<lparr>tb_status := 0x02\<rparr>))"

text \<open>The block the core reads: the status block at 0, the response data after it.\<close>

definition status_block :: "u8 \<Rightarrow> nat \<Rightarrow> u8 list" where
  "status_block st n =
    (let full = (if n > 0x1FFFF then 0x1FFFF else n);
         len = (of_nat full :: u16)
     in [st, TB_SIG, hi8 len, lo8 len, of_nat (full div 65536 mod 2)] @ replicate 507 0)"

definition tb_fill :: "nat \<Rightarrow> TbHps \<Rightarrow> u8 list \<times> TbHps" where
  "tb_fill lba t =
    (let t1 = t\<lparr>fills := fills t + 1\<rparr>
     in if lba = 0 then (status_block (tb_status t) (length (resp t)), t1)
        else
          (let part = slice ((lba - 1) * 512) 512 (resp t)
           in (part @ replicate (512 - length part) 0, t1)))"

section \<open>Well-formed service states\<close>

definition tb_ok :: "TbHps \<Rightarrow> bool" where
  "tb_ok t \<longleftrightarrow> length (tail t) = TAIL_BLKS * 512 \<and> -1 \<le> get_idx t \<and> get_idx t < int (length (files t))"

lemma tail_size: "TAIL_BLKS = 128" "CHUNK_MAX = 65536"
  by (simp_all add: TAIL_BLKS_def CHUNK_MAX_def)

lemma tb_ok_ops:
  assumes "tb_ok t"
  shows "tb_ok (op_count t)" "tb_ok (op_list t)" "tb_ok (op_send_prep buf t)" "tb_ok (op_send_data buf t)"
    "tb_ok (op_send_end t)"
  using assms
  by (simp_all add: tb_ok_def op_count_def op_list_def op_send_prep_def op_send_data_def op_send_end_def
      note_missing_def Let_def)

lemma get_select_bounds:
  assumes "tb_ok t"
  shows "-1 \<le> get_select cdb t" "get_select cdb t < int (length (files t))"
  using assms by (simp_all add: get_select_def tb_ok_def del: of_nat_unat)

lemma tb_ok_get: "tb_ok t \<Longrightarrow> tb_ok (op_get cdb t)"
  using get_select_bounds [of t cdb] by (simp add: tb_ok_def op_get_def Let_def)

lemma tb_ok_request:
  assumes "tb_ok t" "length buf = 512"
  shows "tb_ok (tb_request lba buf t)"
proof -
  have r: "tb_ok (t\<lparr>reqs := n, resp := x, tb_status := s\<rparr>)" for n x s
    using assms(1) by (simp add: tb_ok_def)
  have u: "tb_ok (t\<lparr>reqs := n\<rparr>)" for n using assms(1) by (simp add: tb_ok_def)
  have b: "(lba - 1) * 512 + 512 \<le> length (tail t)" if "1 \<le> lba" "lba \<le> TAIL_BLKS"
    using that assms(1) by (simp add: tb_ok_def tail_size)
  show ?thesis
  proof (cases "1 \<le> lba \<and> lba \<le> TAIL_BLKS")
    case True
    then show ?thesis using assms b by (simp add: tb_request_def tb_ok_def)
  next
    case False
    then show ?thesis using r u tb_ok_ops tb_ok_get by (auto simp: tb_request_def Let_def)
  qed
qed

lemma length_tb_fill: "length (fst (tb_fill lba t)) = 512"
  by (simp add: tb_fill_def status_block_def slice_def Let_def)

section \<open>The tail and the upload are region stores\<close>

interpretation tailr: region_store blit slice "\<lambda>n xs. n \<le> length xs" "\<lambda>n xs. n \<le> length xs"
  by unfold_locales (simp_all add: slice_blit_same slice_blit_other slice_add, simp_all add: slice_def)

lemma length_store_at [simp]: "length (store_at p c u) = max (length u) (p + length c)"
  by (simp add: store_at_def)

interpretation upl: region_store store_at slice "\<lambda>_ _. True" "\<lambda>n xs. n \<le> length xs"
proof -
  have "store_at = put_grow 0" by (intro ext) (simp add: store_at_def)
  then show "region_store store_at slice (\<lambda>_ _. True) (\<lambda>n xs. n \<le> length xs)"
    using put_grow_region [of "0 :: u8"] by simp
qed

section \<open>Sending a chunk\<close>

text \<open>
  The client's side of SEND: the first 496 payload bytes travel under the 16-byte command, the rest
  in tail blocks of 512 bytes, sent before the command block.
\<close>

definition pad_block :: "u8 list \<Rightarrow> u8 list" where
  "pad_block xs = xs @ replicate (512 - length xs) 0"

definition tail_block :: "u8 list \<Rightarrow> nat \<Rightarrow> u8 list" where
  "tail_block p k = pad_block (slice (496 + 512 * (k - 1)) 512 p)"

definition chunk_ok :: "u8 list \<Rightarrow> bool" where
  "chunk_ok p \<longleftrightarrow> length p < 65536 \<or> length p = 65536"

text \<open>Whole 512-byte blocks are announced as a block count, other lengths as a byte count.\<close>

definition send_cdb :: "nat \<Rightarrow> u8 list \<Rightarrow> u8 list" where
  "send_cdb off p =
    (let n = length p; nb = (if n mod 512 = 0 then n div 512 else 0)
     in [0xD4, of_nat (n div 256), of_nat n,
         of_nat (off div 65536), of_nat (off div 256), of_nat off, of_nat nb] @ replicate 9 0)"

definition send_chunk :: "nat \<Rightarrow> u8 list \<Rightarrow> TbHps \<Rightarrow> TbHps" where
  "send_chunk off p t =
     tb_request 0 (pad_block (send_cdb off p @ take 496 p))
       (fold (\<lambda>k. tb_request k (tail_block p k)) [1..<Suc (tail_need (length p))] t)"

lemma length_pad_block [simp]: "length xs \<le> 512 \<Longrightarrow> length (pad_block xs) = 512"
  by (simp add: pad_block_def)

lemma length_send_cdb [simp]: "length (send_cdb off p) = 16"
  by (simp add: send_cdb_def Let_def)

lemma length_tail_block [simp]: "length (tail_block p k) = 512"
  by (simp add: tail_block_def slice_def)

lemma unat_of_nat_u8: "unat (of_nat n :: u8) = n mod 256"
  by (simp add: unsigned_of_nat take_bit_eq_mod)

lemma send_bytes_cdb:
  assumes "length p \<le> 65536"
  shows "send_bytes (pad_block (send_cdb off p @ xs)) = length p"
proof -
  let ?n = "length p"
  have b: "send_bytes (pad_block (send_cdb off p @ xs)) =
    min (if (of_nat (if ?n mod 512 = 0 then ?n div 512 else 0) :: u8) \<noteq> 0
         then unat (of_nat (if ?n mod 512 = 0 then ?n div 512 else 0) :: u8) * 512
         else unat (of_nat (?n div 256) :: u8) * 256 + unat (of_nat ?n :: u8)) 65536"
    by (simp add: send_bytes_def send_cdb_def pad_block_def Let_def tail_size)
  show ?thesis
  proof (cases "?n mod 512 = 0 \<and> ?n \<noteq> 0")
    case True
    then have k: "?n = ?n div 512 * 512" by auto
    have q: "?n div 512 < 256" "?n div 512 \<noteq> 0" using assms True k by (simp, metis mult_0)
    have "unat (of_nat (?n div 512) :: u8) = ?n div 512" using q(1) by (simp add: unat_of_nat_u8)
    moreover from this have "(of_nat (?n div 512) :: u8) \<noteq> 0" using q(2) by (metis unat_0)
    moreover have "?n div 512 * 512 = ?n" using True by auto
    ultimately show ?thesis using b True assms by simp
  next
    case False
    then have "?n < 65536" using assms by (cases "?n = 65536") auto
    then have "?n div 256 mod 256 = ?n div 256" by simp
    then have "unat (of_nat (?n div 256) :: u8) * 256 + unat (of_nat ?n :: u8) = ?n"
      by (simp only: unat_of_nat_u8) simp
    then show ?thesis using b False assms by auto
  qed
qed

lemma offset_cdb:
  assumes "off < 2 ^ 24"
  shows "be24 (pad_block (send_cdb off p @ xs) ! 3) (pad_block (send_cdb off p @ xs) ! 4)
           (pad_block (send_cdb off p @ xs) ! 5) = off"
proof -
  have "be24 (pad_block (send_cdb off p @ xs) ! 3) (pad_block (send_cdb off p @ xs) ! 4)
           (pad_block (send_cdb off p @ xs) ! 5) =
        off div 65536 mod 256 * 65536 + off div 256 mod 256 * 256 + off mod 256"
    by (simp add: send_cdb_def pad_block_def Let_def be24_def unat_of_nat_u8)
  also have "off div 65536 mod 256 = off div 65536" using assms by simp
  also have "off div 65536 * 65536 + off div 256 mod 256 * 256 + off mod 256 = off"
  proof -
    have "off div 256 div 256 = off div 65536" by (simp add: div_mult2_eq [symmetric])
    then have "off div 256 = off div 65536 * 256 + off div 256 mod 256"
      using div_mult_mod_eq [of "off div 256" 256] by simp
    moreover have "off = off div 256 * 256 + off mod 256" by simp
    ultimately show ?thesis by linarith
  qed
  finally show ?thesis .
qed

lemma tail_need_bounds:
  "n - 496 \<le> 512 * tail_need n" "n \<le> 65536 \<Longrightarrow> tail_need n \<le> 128"
proof -
  have "(15 + n) div 512 * 512 + (15 + n) mod 512 = 15 + n" "(15 + n) mod 512 < 512" by simp_all
  then have "n - 496 \<le> 512 * ((15 + n) div 512)" by linarith
  then show "n - 496 \<le> 512 * tail_need n" by (simp add: tail_need_def)
  show "tail_need n \<le> 128" if "n \<le> 65536"
  proof -
    have "(15 + n) div 512 \<le> (15 + 65536) div 512" using that by (intro div_le_mono) simp
    then show ?thesis by (simp add: tail_need_def)
  qed
qed

text \<open>The tail blocks of a payload, in order, fill the tail buffer with the rest of the payload.\<close>

lemma concat_blocks:
  "length q \<le> 512 * n \<Longrightarrow>
   take (length q) (concat (map (\<lambda>k. pad_block (slice (512 * k) 512 q)) [0..<n])) = q"
proof (induction n arbitrary: q)
  case (Suc n)
  have e: "map (\<lambda>k. pad_block (slice (512 * k) 512 q)) [0..<Suc n] =
      pad_block (slice 0 512 q) # map (\<lambda>k. pad_block (slice (512 * k) 512 (drop 512 q))) [0..<n]"
    by (simp add: map_upt_Suc slice_def add.commute del: upt_Suc)
  show ?case
  proof (cases "length q \<le> 512")
    case True
    then show ?thesis by (simp only: e concat.simps) (simp add: pad_block_def slice_def)
  next
    case False
    have "length (drop 512 q) \<le> 512 * n" using Suc.prems by auto
    note IH = Suc.IH [OF this]
    have "slice 0 512 q = take 512 q" by (simp add: slice_def)
    then show ?thesis using False IH
      by (simp only: e concat.simps) (simp add: pad_block_def)
  qed
qed simp

lemma concat_tail_blocks:
  "take (length p - 496) (concat (map (tail_block p) [1..<Suc (tail_need (length p))])) = drop 496 p"
proof -
  have m: "map (tail_block p) [1..<Suc k] = map (\<lambda>k. pad_block (slice (512 * k) 512 (drop 496 p))) [0..<k]" for k
    by (rule nth_equalityI) (simp_all add: tail_block_def slice_def add.commute nth_upt del: upt_Suc)
  show ?thesis
    unfolding m using concat_blocks [of "drop 496 p" "tail_need (length p)"] tail_need_bounds(1) by simp
qed

text \<open>Storing tail blocks only touches the tail, its arrival marks and the request count.\<close>

lemma send_tail:
  fixes f :: "nat \<Rightarrow> u8 list"
  assumes "tb_ok t" "n \<le> 128" and len: "\<forall>k. length (f k) = 512"
  shows "\<exists>c. fold (\<lambda>k. tb_request k (f k)) [1..<Suc n] t =
     t\<lparr>reqs := c, tail := tailr.put_all 0 (map f [1..<Suc n]) (tail t),
       tail_seen := (\<lambda>k. 1 \<le> k \<and> k \<le> n \<or> tail_seen t k)\<rparr>"
  using assms(2)
proof (induction n)
  case 0
  have "t = t\<lparr>reqs := reqs t, tail := tail t, tail_seen := (\<lambda>k. 1 \<le> k \<and> k \<le> (0::nat) \<or> tail_seen t k)\<rparr>"
    by (cases t) (auto simp: fun_eq_iff)
  then show ?case by (intro exI [of _ "reqs t"]) simp
next
  case (Suc n)
  then obtain c where c: "fold (\<lambda>k. tb_request k (f k)) [1..<Suc n] t =
     t\<lparr>reqs := c, tail := tailr.put_all 0 (map f [1..<Suc n]) (tail t),
       tail_seen := (\<lambda>k. 1 \<le> k \<and> k \<le> n \<or> tail_seen t k)\<rparr>" by auto
  have pa: "tailr.put_all p (xs @ [x]) s = blit (p + length (concat xs)) x (tailr.put_all p xs s)" for p xs x s
    by (induction xs arbitrary: p s) (simp_all add: add.assoc)
  have l: "length (concat (map f [1..<Suc n])) = n * 512"
    by (induction n) (simp_all add: len)
  have e: "[1..<Suc (Suc n)] = [1..<Suc n] @ [Suc n]" by simp
  have sn: "(\<lambda>k. 1 \<le> k \<and> k \<le> n \<or> tail_seen t k)(Suc n := True) =
        (\<lambda>k. 1 \<le> k \<and> k \<le> Suc n \<or> tail_seen t k)" by (rule ext) auto
  have lba: "1 \<le> Suc n \<and> Suc n \<le> TAIL_BLKS" using Suc.prems by (simp add: tail_size)
  show ?case
    by (rule exI [of _ "c + 1"])
      (simp only: e fold_append map_append fold.simps o_apply id_apply c list.map pa l,
        simp add: tb_request_def lba sn [unfolded One_nat_def])
qed

lemma length_concat_512:
  assumes "\<forall>k. length (f k) = 512"
  shows "length (concat (map f [1..<Suc n])) = n * 512"
  by (induction n) (simp_all add: assms)

lemma send_tail_content:
  assumes "tb_ok t" "length p \<le> 65536"
  shows "slice 0 (length p - 496) (tailr.put_all 0 (map (tail_block p) [1..<Suc (tail_need (length p))]) (tail t)) =
         drop 496 p"
proof -
  let ?bs = "map (tail_block p) [1..<Suc (tail_need (length p))]"
  have l: "length (concat ?bs) = tail_need (length p) * 512"
    by (rule length_concat_512) simp
  have r: "0 + length (concat ?bs) \<le> length (tail t)"
    using assms tail_need_bounds(2) [OF assms(2)] unfolding l by (simp add: tb_ok_def tail_size)
  have "length p - 496 \<le> length (concat ?bs)"
    using tail_need_bounds(1) [of "length p"] unfolding l by simp
  then have "slice 0 (length p - 496) xs = take (length p - 496) (slice 0 (length (concat ?bs)) xs)" for xs :: "u8 list"
    by (simp add: slice_def del: length_concat)
  then show ?thesis using tailr.put_all_concat [OF r] concat_tail_blocks [of p] by simp
qed

lemma send_chunk_exact:
  assumes "tb_ok t" "upload_open t" "length p \<le> 65536" "off < 2 ^ 24"
  shows "upload (send_chunk off p t) = store_at (off * 512) p (upload t)"
    "tb_status (send_chunk off p t) = 0" "upload_open (send_chunk off p t)" "tb_ok (send_chunk off p t)"
    "upload_name (send_chunk off p t) = upload_name t" "last_missing (send_chunk off p t) = -1"
proof -
  let ?n = "tail_need (length p)" and ?b = "pad_block (send_cdb off p @ take 496 p)"
  obtain c where c: "fold (\<lambda>k. tb_request k (tail_block p k)) [1..<Suc ?n] t =
     t\<lparr>reqs := c, tail := tailr.put_all 0 (map (tail_block p) [1..<Suc ?n]) (tail t),
       tail_seen := (\<lambda>k. 1 \<le> k \<and> k \<le> ?n \<or> tail_seen t k)\<rparr>"
    using send_tail [OF assms(1) tail_need_bounds(2) [OF assms(3)], of "tail_block p"] by auto
  let ?t = "t\<lparr>reqs := c, tail := tailr.put_all 0 (map (tail_block p) [1..<Suc ?n]) (tail t),
       tail_seen := (\<lambda>k. 1 \<le> k \<and> k \<le> ?n \<or> tail_seen t k)\<rparr>"
  have b0: "?b ! 0 = 0xD4" by (simp add: send_cdb_def pad_block_def Let_def)
  have head: "slice 16 (min (length p) 496) ?b = take 496 p"
    by (simp add: slice_def pad_block_def min_def)
  have body: "assemble (length p) ?b (tail ?t) = p"
    using head send_tail_content [OF assms(1,3)] by (auto simp: assemble_def min_def not_less split: if_splits)
  have miss: "filter (\<lambda>k. \<not> tail_seen ?t k) [1..<Suc ?n] = []" by (auto simp: filter_empty_conv)
  have sc: "send_chunk off p t = op_send_data ?b (?t\<lparr>reqs := c + 1, resp := [], tb_status := 0x02\<rparr>)"
    by (simp only: send_chunk_def c) (simp add: tb_request_def b0 Let_def)
  note sb = send_bytes_cdb [OF assms(3), of off "take 496 p"] and ob = offset_cdb [OF assms(4), of p "take 496 p"]
  have "upload (send_chunk off p t) = store_at (off * 512) (assemble (length p) ?b (tail ?t)) (upload t)"
    using assms(2) by (simp add: sc op_send_data_def sb ob note_missing_def Let_def del: upt_Suc)
  then show "upload (send_chunk off p t) = store_at (off * 512) p (upload t)" unfolding body .
  show "tb_status (send_chunk off p t) = 0" "upload_open (send_chunk off p t)"
    "upload_name (send_chunk off p t) = upload_name t" "last_missing (send_chunk off p t) = -1"
    using assms(2) miss
    by (simp_all add: sc op_send_data_def sb ob note_missing_def Let_def del: upt_Suc)
  have "tb_ok (fold (\<lambda>k. tb_request k (tail_block p k)) xs t)" for xs
    using assms(1) by (induction xs arbitrary: t) (simp_all add: tb_ok_request)
  then show "tb_ok (send_chunk off p t)" unfolding send_chunk_def by (intro tb_ok_request) simp_all
qed

section \<open>Sending a file\<close>

definition prep_block :: "u8 list \<Rightarrow> u8 list" where
  "prep_block name = pad_block ([0xD3] @ replicate 15 0 @ name)"

definition end_block :: "u8 list" where
  "end_block = pad_block [0xD5]"

fun send_all :: "nat \<Rightarrow> u8 list list \<Rightarrow> TbHps \<Rightarrow> TbHps" where
  "send_all off [] t = t"
| "send_all off (c # cs) t = send_all (off + length c div 512) cs (send_chunk off c t)"

definition send_file :: "u8 list \<Rightarrow> u8 list list \<Rightarrow> TbHps \<Rightarrow> TbHps" where
  "send_file name cs t = tb_request 0 end_block (send_all 0 cs (tb_request 0 (prep_block name) t))"

text \<open>All chunks but the last are whole blocks, and every offset fits the command.\<close>

fun chunks_ok :: "nat \<Rightarrow> u8 list list \<Rightarrow> bool" where
  "chunks_ok off [] = True"
| "chunks_ok off (c # cs) =
     (length c \<le> 65536 \<and> off < 2 ^ 24 \<and> (cs \<noteq> [] \<longrightarrow> length c mod 512 = 0) \<and>
      chunks_ok (off + length c div 512) cs)"

lemma send_all_exact:
  "tb_ok t \<Longrightarrow> upload_open t \<Longrightarrow> chunks_ok off cs \<Longrightarrow>
   upload (send_all off cs t) = upl.put_all (off * 512) cs (upload t) \<and>
   tb_ok (send_all off cs t) \<and> upload_open (send_all off cs t) \<and>
   upload_name (send_all off cs t) = upload_name t"
proof (induction cs arbitrary: off t)
  case (Cons c cs)
  then have c: "length c \<le> 65536" "off < 2 ^ 24" "chunks_ok (off + length c div 512) cs" by simp_all
  note e = send_chunk_exact [OF Cons.prems(1,2) c(1,2)]
  note IH = Cons.IH [OF e(4,3) c(3)]
  show ?case
  proof (cases "cs = []")
    case True
    then show ?thesis using e by simp
  next
    case False
    then have "(off + length c div 512) * 512 = off * 512 + length c"
      using Cons.prems(3) by (auto simp: add_mult_distrib)
    then show ?thesis using IH e by simp
  qed
qed simp

lemma length_put_all: "length (upl.put_all p cs u) = max (length u) (if cs = [] then length u else p + length (concat cs))"
  by (induction cs arbitrary: p u) auto

lemma slice_prefix_takeWhile:
  assumes "length name \<le> 32" "0 \<notin> set name" "length name < 32 \<longrightarrow> n > 0"
  shows "takeWhile (\<lambda>c. c \<noteq> 0) (take 32 (name @ replicate n (0::u8))) = name"
proof -
  have "takeWhile (\<lambda>c. c \<noteq> 0) (name @ xs) = name" if "xs = [] \<or> hd xs = 0" for xs
    using assms(2) that by (subst takeWhile_append2) (auto, cases xs, auto)
  then show ?thesis using assms(1,2) by (cases "min n (32 - length name)") (auto simp: min_def split: if_splits)
qed

section \<open>Receiving a response\<close>

text \<open>What a client makes of the status block, and the data blocks it then asks for.\<close>

definition status_len :: "u8 list \<Rightarrow> nat" where
  "status_len b = unat (b ! 4 AND 1) * 65536 + unat (b ! 2) * 256 + unat (b ! 3)"

definition read_response :: "TbHps \<Rightarrow> u8 list" where
  "read_response t =
    (let n = status_len (fst (tb_fill 0 t))
     in take n (concat (map (\<lambda>k. fst (tb_fill (Suc k) t)) [0..<(n + 511) div 512])))"

lemma status_len_fill:
  assumes "length (resp t) \<le> 0x1FFFF"
  shows "status_len (fst (tb_fill 0 t)) = length (resp t)"
proof -
  let ?n = "length (resp t)"
  have h: "unat (hi8 (of_nat ?n :: u16)) = ?n div 256 mod 256" "unat (lo8 (of_nat ?n :: u16)) = ?n mod 256"
  proof -
    have "?n mod 65536 = 256 * (?n div 256 mod 256) + ?n mod 256" using mod_mult2_eq [of ?n 256 256] by simp
    then have "?n mod 65536 div 256 = ?n div 256 mod 256" by simp
    then show "unat (hi8 (of_nat ?n :: u16)) = ?n div 256 mod 256"
      by (simp add: hi8_def unsigned_ucast_eq unsigned_of_nat drop_bit_eq_div unat_div take_bit_eq_mod)
    show "unat (lo8 (of_nat ?n :: u16)) = ?n mod 256"
      by (simp add: lo8_def unsigned_ucast_eq unsigned_of_nat take_bit_eq_mod mod_mod_cancel)
  qed
  have o: "unat ((of_nat (?n div 65536 mod 2) :: u8) AND 1) = ?n div 65536"
  proof -
    have "?n div 65536 < 2" using assms by simp
    then consider "?n div 65536 = 0" | "?n div 65536 = 1" by linarith
    then show ?thesis by cases simp_all
  qed
  have "?n div 65536 * 65536 + ?n div 256 mod 256 * 256 + ?n mod 256 = ?n"
  proof -
    have "?n div 256 div 256 = ?n div 65536" by (simp add: div_mult2_eq [symmetric])
    then have "?n div 256 = ?n div 65536 * 256 + ?n div 256 mod 256"
      using div_mult_mod_eq [of "?n div 256" 256] by simp
    moreover have "?n = ?n div 256 * 256 + ?n mod 256" by simp
    ultimately show ?thesis by linarith
  qed
  moreover have "status_len (fst (tb_fill 0 t)) =
      unat ((of_nat (?n div 65536 mod 2) :: u8) AND 1) * 65536 + unat (hi8 (of_nat ?n)) * 256 + unat (lo8 (of_nat ?n))"
    using assms by (simp add: tb_fill_def status_block_def status_len_def Let_def del: One_nat_def)
  ultimately show ?thesis by (simp only: h o)
qed

lemma read_response_exact:
  assumes "length (resp t) \<le> 0x1FFFF"
  shows "read_response t = resp t"
proof -
  let ?n = "length (resp t)"
  have f: "fst (tb_fill (Suc k) t) = pad_block (slice (512 * k) 512 (resp t))" for k
    by (simp add: tb_fill_def pad_block_def Let_def mult.commute)
  have "(?n + 511) div 512 * 512 + (?n + 511) mod 512 = ?n + 511" "(?n + 511) mod 512 < 512" by simp_all
  then have "?n \<le> 512 * ((?n + 511) div 512)" by linarith
  then show ?thesis
    unfolding read_response_def status_len_fill [OF assms] Let_def f by (rule concat_blocks)
qed

section \<open>Fetching a file\<close>

definition get_cdb :: "nat \<Rightarrow> nat \<Rightarrow> nat \<Rightarrow> u8 list" where
  "get_cdb idx off b = pad_block [0xD1, of_nat idx, of_nat (off div 16777216), of_nat (off div 65536),
     of_nat (off div 256), of_nat off, of_nat b]"

fun get_loop :: "nat \<Rightarrow> nat \<Rightarrow> nat \<Rightarrow> nat \<Rightarrow> TbHps \<Rightarrow> (u8 list \<times> TbHps) option" where
  "get_loop 0 idx off b t = None"
| "get_loop (Suc n) idx off b t =
    (let t1 = tb_request 0 (get_cdb idx off b) t;
         r = read_response t1
     in if r = [] then Some ([], t1)
        else (case get_loop n idx (off + b) b t1 of
                None \<Rightarrow> None | Some (x, t2) \<Rightarrow> Some (r @ x, t2)))"

lemma get_cdb_fields:
  assumes "idx < 256" "off < 2 ^ 32" "1 \<le> b" "b \<le> 16"
  shows "get_cdb idx off b ! 0 = 0xD1" "unat (get_cdb idx off b ! 1) = idx"
    "get_offset (get_cdb idx off b) = off" "get_want (get_cdb idx off b) = b * 4096"
proof -
  show "get_cdb idx off b ! 0 = 0xD1" "unat (get_cdb idx off b ! 1) = idx"
    using assms(1) by (simp_all add: get_cdb_def pad_block_def unat_of_nat_u8)
  have "get_offset (get_cdb idx off b) =
      off div 16777216 mod 256 * 16777216 + off div 65536 mod 256 * 65536 + off div 256 mod 256 * 256 + off mod 256"
    by (simp add: get_offset_def get_cdb_def pad_block_def be32_def unat_of_nat_u8)
  moreover have "off div 16777216 mod 256 = off div 16777216" using assms(2) by simp
  moreover have "off div 65536 = off div 16777216 * 256 + off div 65536 mod 256"
    using div_mult_mod_eq [of "off div 65536" 256] by (simp add: div_mult2_eq [symmetric])
  moreover have "off div 256 = off div 65536 * 256 + off div 256 mod 256"
    using div_mult_mod_eq [of "off div 256" 256] by (simp add: div_mult2_eq [symmetric])
  moreover have "off = off div 256 * 256 + off mod 256" by simp
  ultimately show "get_offset (get_cdb idx off b) = off" by linarith
  have "unat (of_nat b :: u8) = b" using assms(4) by (simp add: unat_of_nat_u8)
  moreover from this have "(of_nat b :: u8) \<noteq> 0" using assms(3) by (metis unat_0 not_one_le_zero)
  ultimately show "get_want (get_cdb idx off b) = b * 4096"
    using assms(4) by (simp add: get_want_def get_cdb_def pad_block_def tail_size)
qed

lemma get_step:
  assumes "idx < length (files t)" "idx < 256" "off < 2 ^ 32" "1 \<le> b" "b \<le> 16"
    "off = 0 \<or> get_idx t = int idx"
  shows "resp (tb_request 0 (get_cdb idx off b) t) = slice (off * 4096) (b * 4096) (tf_data (files t ! idx))"
    "files (tb_request 0 (get_cdb idx off b) t) = files t"
    "get_idx (tb_request 0 (get_cdb idx off b) t) =
       (if length (tf_data (files t ! idx)) \<le> off * 4096 then -1 else int idx)"
    "tb_status (tb_request 0 (get_cdb idx off b) t) = 0"
proof -
  let ?t = "t\<lparr>reqs := reqs t + 1, resp := [], tb_status := 0x02\<rparr>" and ?c = "get_cdb idx off b"
  note f = get_cdb_fields [OF assms(2-5)]
  have r: "tb_request 0 ?c t = op_get ?c ?t" by (simp add: tb_request_def f(1))
  have s: "get_select ?c ?t = int idx"
    unfolding get_select_def f(2,3) using assms(1,6) by auto
  show "resp (tb_request 0 ?c t) = slice (off * 4096) (b * 4096) (tf_data (files t ! idx))"
    "files (tb_request 0 ?c t) = files t" "tb_status (tb_request 0 ?c t) = 0"
    "get_idx (tb_request 0 ?c t) = (if length (tf_data (files t ! idx)) \<le> off * 4096 then -1 else int idx)"
    using assms(4) by (auto simp: r op_get_def s f Let_def slice_def min_def)
qed

lemma get_loop_exact:
  "idx < length (files t) \<Longrightarrow> idx < 256 \<Longrightarrow> 1 \<le> b \<Longrightarrow> b \<le> 16 \<Longrightarrow> off = 0 \<or> get_idx t = int idx \<Longrightarrow>
   tf_data (files t ! idx) = d \<Longrightarrow> length d < 2 ^ 40 \<Longrightarrow> off * 4096 < length d + 2 ^ 17 \<Longrightarrow>
   length d - off * 4096 \<le> n * (b * 4096) \<Longrightarrow>
   \<exists>t'. get_loop (Suc n) idx off b t = Some (drop (off * 4096) d, t') \<and> get_idx t' = -1 \<and> tb_status t' = 0"
proof (induction n arbitrary: off t)
  case 0
  have "off < 2 ^ 32" using "0.prems"(7,8) by simp
  note g = get_step [OF "0.prems"(1,2) this "0.prems"(3,4,5), unfolded "0.prems"(6)]
  have "length (resp (tb_request 0 (get_cdb idx off b) t)) \<le> 0x1FFFF"
    using "0.prems"(4) by (simp add: g(1) slice_def min_def)
  note r = read_response_exact [OF this, unfolded g(1)]
  show ?case using r g "0.prems"(9) by (simp add: slice_def Let_def)
next
  case (Suc n)
  let ?t1 = "tb_request 0 (get_cdb idx off b) t"
  have "off < 2 ^ 32" using Suc.prems(7,8) by simp
  note g = get_step [OF Suc.prems(1,2) this Suc.prems(3,4,5), unfolded Suc.prems(6)]
  have "length (resp ?t1) \<le> 0x1FFFF" using Suc.prems(4) by (simp add: g(1) slice_def min_def)
  note r = read_response_exact [OF this, unfolded g(1)]
  show ?case
  proof (cases "length d \<le> off * 4096")
    case True
    then show ?thesis using r g by (simp add: slice_def Let_def)
  next
    case False
    have ne: "slice (off * 4096) (b * 4096) d \<noteq> []" using False Suc.prems(3) by (simp add: slice_def)
    have idx1: "idx < length (files ?t1)" "tf_data (files ?t1 ! idx) = d" "off + b = 0 \<or> get_idx ?t1 = int idx"
      using Suc.prems(1,6) g(2,3) False by simp_all
    have off1: "(off + b) * 4096 < length d + 2 ^ 17" using False Suc.prems(4) by simp
    have rem: "length d - (off + b) * 4096 \<le> n * (b * 4096)"
      using Suc.prems(9) by (simp add: add_mult_distrib)
    obtain t' where t': "get_loop (Suc n) idx (off + b) b ?t1 = Some (drop ((off + b) * 4096) d, t')"
      "get_idx t' = -1" "tb_status t' = 0"
      using Suc.IH [OF idx1(1) Suc.prems(2-4) idx1(3,2) Suc.prems(7) off1 rem] by auto
    have e: "slice (off * 4096) (b * 4096) d @ drop ((off + b) * 4096) d = drop (off * 4096) d"
      by (simp add: slice_def add_mult_distrib add.commute [of "off * 4096"] drop_drop [symmetric] del: drop_drop)
    show ?thesis
      by (subst get_loop.simps) (use r ne t' e in \<open>simp add: Let_def del: get_loop.simps\<close>)
  qed
qed

section \<open>A tail block that never arrives\<close>

lemma tail_requests:
  assumes "\<forall>k\<in>set ks. 1 \<le> k \<and> k \<le> 128"
  shows "\<exists>c. fold (\<lambda>k. tb_request k (f k)) ks t =
     t\<lparr>reqs := c, tail := fold (\<lambda>k. blit ((k - 1) * 512) (f k)) ks (tail t),
       tail_seen := (\<lambda>j. j \<in> set ks \<or> tail_seen t j)\<rparr>"
  using assms
proof (induction ks arbitrary: t)
  case Nil
  have "t = t\<lparr>reqs := reqs t, tail := tail t, tail_seen := (\<lambda>j. False \<or> tail_seen t j)\<rparr>" by simp
  then show ?case by (intro exI [of _ "reqs t"]) simp
next
  case (Cons k ks)
  let ?t = "tb_request k (f k) t"
  have t: "?t = t\<lparr>reqs := reqs t + 1, tail := blit ((k - 1) * 512) (f k) (tail t),
                  tail_seen := (tail_seen t)(k := True)\<rparr>"
    using Cons.prems by (simp add: tb_request_def tail_size)
  obtain c where c: "fold (\<lambda>k. tb_request k (f k)) ks ?t =
     ?t\<lparr>reqs := c, tail := fold (\<lambda>k. blit ((k - 1) * 512) (f k)) ks (tail ?t),
       tail_seen := (\<lambda>j. j \<in> set ks \<or> tail_seen ?t j)\<rparr>"
    using Cons.IH [of ?t] Cons.prems by auto
  have "(\<lambda>j. j \<in> set ks \<or> ((tail_seen t)(k := True)) j) = (\<lambda>j. j \<in> set (k # ks) \<or> tail_seen t j)"
    by (rule ext) auto
  with c show ?case by (intro exI [of _ c]) (simp add: t)
qed

lemma length_fold_blit:
  assumes "\<forall>k. length (f k) = 512" "\<forall>k\<in>set ks. 1 \<le> k \<and> k * 512 \<le> length xs"
  shows "length (fold (\<lambda>k. blit ((k - 1) * 512) (f k)) ks xs) = length xs"
  using assms(2)
proof (induction ks arbitrary: xs)
  case (Cons k ks)
  then have "(k - 1) * 512 + 512 \<le> length xs" by (cases k) auto
  with Cons assms(1) show ?case by simp
qed simp

lemma fold_blit_other:
  fixes xs :: "u8 list"
  assumes "\<forall>k. length (f k) = 512" "\<forall>k\<in>set ks. 1 \<le> k \<and> k * 512 \<le> length xs \<and> k \<noteq> j" "1 \<le> j" "m \<le> 512"
  shows "slice ((j - 1) * 512) m (fold (\<lambda>k. blit ((k - 1) * 512) (f k)) ks xs) = slice ((j - 1) * 512) m xs"
  using assms(2)
proof (induction ks arbitrary: xs)
  case (Cons k ks)
  have k: "(k - 1) * 512 + 512 \<le> length xs" "k \<noteq> j" "1 \<le> k" using Cons.prems by (auto simp: diff_mult_distrib)
  have "(j - 1) * 512 + m \<le> (k - 1) * 512 \<or> (k - 1) * 512 + 512 \<le> (j - 1) * 512"
    using k(2,3) assms(3,4) by (cases k; cases j) (auto simp: not_less dest!: nat_neq_iff [THEN iffD1])
  then have "slice ((j - 1) * 512) m (blit ((k - 1) * 512) (f k) xs) = slice ((j - 1) * 512) m xs"
    using k(1) assms(1) by (intro slice_blit_other) simp_all
  moreover have "length (blit ((k - 1) * 512) (f k) xs) = length xs" using k(1) assms(1) by simp
  ultimately show ?case using Cons by simp
qed simp

lemma slice_slice: "a + m \<le> n \<Longrightarrow> slice a m (slice p n xs) = slice (p + a) m xs"
  by (simp add: slice_def drop_take min_def add.commute)

text \<open>The same chunk with tail block j lost on the way.\<close>

definition send_chunk_without :: "nat \<Rightarrow> nat \<Rightarrow> u8 list \<Rightarrow> TbHps \<Rightarrow> TbHps" where
  "send_chunk_without j off p t =
     tb_request 0 (pad_block (send_cdb off p @ take 496 p))
       (fold (\<lambda>k. tb_request k (tail_block p k)) (filter (\<lambda>k. k \<noteq> j) [1..<Suc (tail_need (length p))]) t)"

lemma filter_single: "j \<in> set xs \<Longrightarrow> distinct xs \<Longrightarrow> filter (\<lambda>k. k = j) xs = [j]"
  by (induction xs) (auto simp: filter_empty_conv)

lemma lost_block:
  assumes "tb_ok t" "upload_open t" "length p \<le> 65536" "off < 2 ^ 24" "\<forall>k\<le>TAIL_BLKS. \<not> tail_seen t k"
    "1 \<le> j" "j \<le> tail_need (length p)" "m \<le> 512" "496 + (j - 1) * 512 + m \<le> length p"
  shows "slice (off * 512 + (496 + (j - 1) * 512)) m (upload (send_chunk_without j off p t)) =
           slice ((j - 1) * 512) m (tail t)"
    "last_missing (send_chunk_without j off p t) = int j"
    "last_missing_cnt (send_chunk_without j off p t) = 1"
    "tb_status (send_chunk_without j off p t) = 0"
proof -
  let ?n = "tail_need (length p)" and ?b = "pad_block (send_cdb off p @ take 496 p)"
  let ?ks = "filter (\<lambda>k. k \<noteq> j) [1..<Suc ?n]"
  have n: "?n \<le> 128" by (rule tail_need_bounds(2) [OF assms(3)])
  have ks: "\<forall>k\<in>set ?ks. 1 \<le> k \<and> k \<le> 128" using n by auto
  obtain c where c: "fold (\<lambda>k. tb_request k (tail_block p k)) ?ks t =
     t\<lparr>reqs := c, tail := fold (\<lambda>k. blit ((k - 1) * 512) (tail_block p k)) ?ks (tail t),
       tail_seen := (\<lambda>j. j \<in> set ?ks \<or> tail_seen t j)\<rparr>"
    using tail_requests [OF ks, of "tail_block p" t] by blast
  define tl where "tl = fold (\<lambda>k. blit ((k - 1) * 512) (tail_block p k)) ?ks (tail t)"
  let ?t = "t\<lparr>reqs := c, tail := tl, tail_seen := (\<lambda>j. j \<in> set ?ks \<or> tail_seen t j)\<rparr>"
  have lt: "length (tail t) = 65536" using assms(1) by (simp add: tb_ok_def tail_size)
  have old: "slice ((j - 1) * 512) m tl = slice ((j - 1) * 512) m (tail t)"
    unfolding tl_def using n lt assms(6,8) by (intro fold_blit_other) auto
  have b0: "?b ! 0 = 0xD4" by (simp add: send_cdb_def pad_block_def Let_def)
  have sc: "send_chunk_without j off p t = op_send_data ?b (?t\<lparr>reqs := c + 1, resp := [], tb_status := 0x02\<rparr>)"
    by (simp only: send_chunk_without_def c tl_def) (simp add: tb_request_def b0 Let_def)
  note sb = send_bytes_cdb [OF assms(3), of off "take 496 p"] and ob = offset_cdb [OF assms(4), of p "take 496 p"]
  have up: "upload (send_chunk_without j off p t) =
      store_at (off * 512) (assemble (length p) ?b tl) (upload t)"
    using assms(2) by (simp add: sc op_send_data_def sb ob note_missing_def Let_def del: upt_Suc)
  have "496 < length p" using assms(6,7) by (auto simp: tail_need_def split: if_splits)
  moreover have "length tl = 65536" unfolding tl_def using n lt by (subst length_fold_blit) auto
  ultimately have as: "assemble (length p) ?b tl = take 496 p @ slice 0 (length p - 496) tl"
    "length (assemble (length p) ?b tl) = length p"
    using assms(3) by (simp_all add: assemble_def slice_def pad_block_def)
  have "slice (off * 512 + (496 + (j - 1) * 512)) m (upload (send_chunk_without j off p t)) =
        slice (496 + (j - 1) * 512) m (assemble (length p) ?b tl)"
    using slice_slice [of "496 + (j - 1) * 512" m "length p" "off * 512" "upload (send_chunk_without j off p t)"]
      upl.get_put_same [of "off * 512" "assemble (length p) ?b tl" "upload t"] assms(9) as(2)
    by (simp add: up)
  also have "\<dots> = slice ((j - 1) * 512) m tl"
  proof -
    have "m \<le> length p - (496 + (j - 1) * 512)" using assms(9) by linarith
    then show ?thesis using assms(9) \<open>496 < length p\<close>
      by (simp add: as(1) slice_def drop_take min_def)
  qed
  finally show "slice (off * 512 + (496 + (j - 1) * 512)) m (upload (send_chunk_without j off p t)) =
           slice ((j - 1) * 512) m (tail t)" using old by simp
  have "filter (\<lambda>k. \<not> tail_seen ?t k) [1..<Suc ?n] = filter (\<lambda>k. k = j) [1..<Suc ?n]"
    using assms(5) n by (intro filter_cong) (auto simp: tail_size)
  also have "\<dots> = [j]" using assms(6,7) by (intro filter_single) auto
  finally have miss: "filter (\<lambda>k. \<not> tail_seen ?t k) [1..<Suc ?n] = [j]" .
  show "last_missing (send_chunk_without j off p t) = int j"
    "last_missing_cnt (send_chunk_without j off p t) = 1" "tb_status (send_chunk_without j off p t) = 0"
    using assms(2) miss by (simp_all add: sc op_send_data_def sb ob note_missing_def Let_def del: upt_Suc)
qed

lemma send_file_exact:
  assumes "tb_ok t" "name \<noteq> []" "length name \<le> 32" "0 \<notin> set name" "chunks_ok 0 cs"
  shows "upload (send_file name cs t) = concat cs \<and> upload_name (send_file name cs t) = name \<and>
         \<not> upload_open (send_file name cs t) \<and> tb_status (send_file name cs t) = 0"
proof -
  let ?t1 = "tb_request 0 (prep_block name) t"
  have n: "takeWhile (\<lambda>c. c \<noteq> 0) (slice 16 32 (prep_block name)) = name"
    using assms(3) slice_prefix_takeWhile [OF assms(3,4), of "496 - length name"]
    by (simp add: prep_block_def pad_block_def slice_def)
  have p0: "prep_block name ! 0 = 0xD3" by (simp add: prep_block_def pad_block_def)
  have t1: "?t1 = t\<lparr>reqs := reqs t + 1, resp := [], tb_status := 0, upload_name := name, upload := [],
                    upload_open := True\<rparr>"
    using n assms(2) by (simp add: tb_request_def p0 op_send_prep_def Let_def)
  have o: "tb_ok ?t1" "upload_open ?t1" "upload ?t1 = []" "upload_name ?t1 = name"
    using assms(1) by (simp_all add: t1 tb_ok_def)
  note s = send_all_exact [OF o(1,2) assms(5)]
  let ?t2 = "send_all 0 cs ?t1"
  have "length (upload ?t2) = length (concat cs)" using s o(3) by (simp add: length_put_all)
  then have "upload ?t2 = slice 0 (length (concat cs)) (upload ?t2)" by (simp add: slice_def)
  also have "\<dots> = concat cs" using s o(3) upl.put_all_concat [of 0 cs "[]"] by simp
  finally have u: "upload ?t2 = concat cs" .
  have e0: "end_block ! 0 = 0xD5" by (simp add: end_block_def pad_block_def)
  have "send_file name cs t = ?t2\<lparr>reqs := reqs ?t2 + 1, resp := [], upload_open := False, tb_status := 0\<rparr>"
    using s by (simp add: send_file_def tb_request_def e0 op_send_end_def Let_def)
  then show ?thesis using u s o(4) by simp
qed

text \<open>The blocks of an upload in the order they are sent, as (block number, contents).\<close>

definition chunk_blocks :: "nat \<Rightarrow> u8 list \<Rightarrow> (nat \<times> u8 list) list" where
  "chunk_blocks off p = map (\<lambda>k. (k, tail_block p k)) [1..<Suc (tail_need (length p))] @
     [(0, pad_block (send_cdb off p @ take 496 p))]"

fun all_blocks :: "nat \<Rightarrow> u8 list list \<Rightarrow> (nat \<times> u8 list) list" where
  "all_blocks off [] = []"
| "all_blocks off (c # cs) = chunk_blocks off c @ all_blocks (off + length c div 512) cs"

definition file_blocks :: "u8 list \<Rightarrow> u8 list list \<Rightarrow> (nat \<times> u8 list) list" where
  "file_blocks name cs = (0, prep_block name) # all_blocks 0 cs @ [(0, end_block)]"

lemma fold_chunk_blocks: "fold (\<lambda>(l, b). tb_request l b) (chunk_blocks off p) t = send_chunk off p t"
  by (simp add: chunk_blocks_def send_chunk_def fold_map comp_def)

lemma fold_all_blocks: "fold (\<lambda>(l, b). tb_request l b) (all_blocks off cs) t = send_all off cs t"
  by (induction cs arbitrary: off t) (simp_all add: fold_chunk_blocks)

lemma fold_file_blocks: "fold (\<lambda>(l, b). tb_request l b) (file_blocks name cs) t = send_file name cs t"
  by (simp add: file_blocks_def send_file_def fold_all_blocks)

lemma all_blocks_fit:
  "chunks_ok off cs \<Longrightarrow> (l, b) \<in> set (all_blocks off cs) \<Longrightarrow> l \<le> TAIL_BLKS \<and> length b = 512"
proof (induction cs arbitrary: off)
  case (Cons c cs)
  have "length c \<le> 65536" using Cons.prems(1) by simp
  then have "(15 + length c) div 512 \<le> 128" by linarith
  then have "tail_need (length c) \<le> TAIL_BLKS" by (simp add: tail_need_def tail_size)
  then have "l \<le> TAIL_BLKS \<and> length b = 512" if "(l, b) \<in> set (chunk_blocks off c)"
    using that by (auto simp: chunk_blocks_def tail_size simp del: upt_Suc)
  then show ?case using Cons by auto
qed simp

lemma file_blocks_fit:
  assumes "chunks_ok 0 cs" "length name \<le> 32" "(l, b) \<in> set (file_blocks name cs)"
  shows "l \<le> TAIL_BLKS \<and> length b = 512"
  using assms all_blocks_fit [OF assms(1)]
  by (auto simp: file_blocks_def prep_block_def end_block_def)

section \<open>Properties\<close>

text \<open>C12. Uploading a file is exact: announcing a name of 1 to 32 characters, sending the contents in
  chunks of up to 64 KB (all but the last a multiple of 512 bytes), each with its tail blocks, and
  closing it leaves the service with exactly the concatenated bytes under that name, closed,
  with a good status, whatever was uploaded or left in the tail buffer before.\<close>

theorem tb_send_file:
  assumes "tb_ok t" "name \<noteq> []" "length name \<le> 32" "0 \<notin> set name" "chunks_ok 0 cs"
  shows "upload (send_file name cs t) = concat cs \<and> upload_name (send_file name cs t) = name \<and>
         \<not> upload_open (send_file name cs t) \<and> tb_status (send_file name cs t) = 0"
  using send_file_exact [OF assms] .

theorem tb_send_file_witness:
  "upload (send_file [0x61] [replicate 65024 7, replicate 700 9] tb_init) = replicate 65024 7 @ replicate 700 9"
  using tb_send_file [of tb_init "[0x61]" "[replicate 65024 7, replicate 700 9]"]
  by (simp add: tb_init_def tb_ok_def)

text \<open>A lost tail block is stale data that is noticed: when exactly tail block j of a chunk does
  not arrive, the chunk is still accepted with a good status, the bytes of that block in the
  upload are those an earlier chunk left in the tail buffer, and the diagnosis names block j as
  the only one missing.\<close>

theorem tb_lost_tail_block_is_stale:
  assumes "tb_ok t" "upload_open t" "length p \<le> 65536" "off < 2 ^ 24" "\<forall>k\<le>TAIL_BLKS. \<not> tail_seen t k"
    "1 \<le> j" "j \<le> tail_need (length p)" "m \<le> 512" "496 + (j - 1) * 512 + m \<le> length p"
  shows "slice (off * 512 + (496 + (j - 1) * 512)) m (upload (send_chunk_without j off p t)) =
           slice ((j - 1) * 512) m (tail t) \<and>
         last_missing (send_chunk_without j off p t) = int j \<and>
         last_missing_cnt (send_chunk_without j off p t) = 1 \<and>
         tb_status (send_chunk_without j off p t) = 0"
  using lost_block [OF assms] by blast

theorem tb_lost_tail_block_is_stale_witness:
  "slice (496 + 512) 16 (upload (send_chunk_without 2 0 (replicate 1024 9)
      (tb_init\<lparr>upload_open := True\<rparr>))) = replicate 16 0"
  using tb_lost_tail_block_is_stale [of "tb_init\<lparr>upload_open := True\<rparr>" "replicate 1024 9" 0 2 16]
  by (simp add: tb_init_def tb_ok_def tail_need_def tail_size slice_def)

text \<open>C23. A response is read back exactly: decoding the 17-bit length of the status block and taking
  that many bytes of the data blocks gives the response, for every response up to 131071 bytes, the
  64 KB ones included.\<close>

theorem tb_response_roundtrip:
  assumes "length (resp t) \<le> 0x1FFFF"
  shows "read_response t = resp t \<and> fst (tb_fill 0 t) ! 0 = tb_status t \<and> fst (tb_fill 0 t) ! 1 = TB_SIG"
  using read_response_exact [OF assms] by (simp add: tb_fill_def status_block_def Let_def)

theorem tb_response_roundtrip_witness:
  "read_response (tb_init\<lparr>resp := replicate 65536 5\<rparr>) = replicate 65536 5"
  using tb_response_roundtrip [of "tb_init\<lparr>resp := replicate 65536 5\<rparr>"] by (simp add: tb_init_def)

text \<open>C28. Downloading one of the first 256 files is exact and ends: asking for b blocks of 4096 bytes (1 to 16) at
  increasing offsets until an empty answer returns exactly the bytes of the file within one more
  request than it takes to cover it, and closes the file.\<close>

theorem tb_get_file:
  assumes "idx < 256" "idx < length (files t)" "1 \<le> b" "b \<le> 16" "length (tf_data (files t ! idx)) < 2 ^ 40"
    "length (tf_data (files t ! idx)) \<le> n * (b * 4096)"
  shows "\<exists>t'. get_loop (Suc n) idx 0 b t = Some (tf_data (files t ! idx), t') \<and> get_idx t' = -1 \<and>
              tb_status t' = 0"
  using get_loop_exact [OF assms(2,1,3,4) _ refl assms(5), of 0 n] assms(6) by simp

theorem tb_get_file_witness:
  "\<exists>t'. get_loop 3 0 0 1 (tb_init\<lparr>files := [\<lparr>tf_name = [0x41], tf_data = replicate 5000 3\<rparr>]\<rparr>) =
     Some (replicate 5000 3, t') \<and> get_idx t' = -1 \<and> tb_status t' = 0"
  using tb_get_file [of 0 "tb_init\<lparr>files := [\<lparr>tf_name = [0x41], tf_data = replicate 5000 3\<rparr>]\<rparr>" 1 2]
  by (simp add: tb_init_def tb_ok_def numeral_3_eq_3 del: get_loop.simps)

end
