(* ===== verification/HpsModel.thy ===== *)
theory HpsModel
  imports Toolbox
begin

text \<open>
  The host block-device server of verilator/scsi_bench/scsi_bench.cpp (struct Hps): a state machine
  called once per clock that watches the request lines of the core and serves sector reads,
  sector writes and Toolbox blocks, with the injected delays the bench uses to reproduce stalls of
  the host. Lines driven by the core are the input of a call, lines driven by the server are
  fields of its state.
\<close>

section \<open>State\<close>

text \<open>The data pattern of the bench disk.\<close>

definition ramp :: "u64 \<Rightarrow> u8" where
  "ramp off = ucast ((off AND 0xff) XOR (drop_bit 8 off AND 0xff) XOR (drop_bit 16 off AND 0xff))"

datatype St = IDLE | WAIT | STREAM | WWAIT | WCAP | FINISH
  | TBWWAIT | TBWCAP | TBRWAIT | TBRSTREAM | TBFINISH | TBAHOLD | TBRDEFER | TBWDEFER

text \<open>The lines the server reads from the core and those it drives.\<close>

record CoreLines =
  top_io_rd :: u8
  top_io_wr :: u8
  top_io_lba_0 :: u32
  top_io_lba_1 :: u32
  top_sd_buff_din_0 :: u16
  top_sd_buff_din_1 :: u16
  top_tb_wr :: bool
  top_tb_rd :: bool
  top_tb_lba :: u32
  top_tb_buff_din :: u16

record HpsLines =
  top_sd_buff_wr :: bool
  top_sd_buff_addr :: u8
  top_sd_buff_dout :: u16
  top_io_ack :: u8
  top_tb_ack :: bool

text \<open>The fields of the struct, after those of the lines and with the global Toolbox service.\<close>

record Hps = HpsLines +
  h_st :: St
  h_t :: nat
  h_wi :: nat
  h_tgt :: nat
  was_write :: bool
  h_lba :: u32
  h_latency :: int
  fetches :: u64
  flushes :: u64
  written :: "u8 list"
  tbblk :: "u8 list"
  tb_slow_every :: int
  tb_slow_latency :: int
  tb_reads :: u64
  cur_tb_latency :: int
  tb_defer_every :: int
  tb_defer_latency :: int
  tb_defers :: u64
  tb_wdefer_every :: int
  tb_wdefer_latency :: int
  tb_writes :: u64
  tb_wdefers :: u64
  tb_wlost :: u64
  lba_at_defer :: u32
  tb_ack_hold :: int
  tbx :: TbHps

definition hps_init :: "TbHps \<Rightarrow> Hps" where
  "hps_init tb = \<lparr>top_sd_buff_wr = False, top_sd_buff_addr = 0, top_sd_buff_dout = 0, top_io_ack = 0,
     top_tb_ack = False, h_st = IDLE, h_t = 0, h_wi = 0, h_tgt = 0, was_write = False, h_lba = 0,
     h_latency = 600, fetches = 0, flushes = 0, written = [], tbblk = replicate 512 0,
     tb_slow_every = 0, tb_slow_latency = 0, tb_reads = 0, cur_tb_latency = 600,
     tb_defer_every = 0, tb_defer_latency = 0, tb_defers = 0, tb_wdefer_every = 0,
     tb_wdefer_latency = 0, tb_writes = 0, tb_wdefers = 0, tb_wlost = 0, lba_at_defer = 0,
     tb_ack_hold = 0, tbx = tb\<rparr>"

definition hps_reset :: "Hps \<Rightarrow> Hps" where
  "hps_reset h = h\<lparr>h_st := IDLE, h_t := 0, h_wi := 0, h_tgt := 0, was_write := False, fetches := 0,
     flushes := 0, written := [], tb_reads := 0, cur_tb_latency := h_latency h, tb_defers := 0,
     tb_writes := 0, tb_wdefers := 0, tb_wlost := 0\<rparr>"

section \<open>Operations\<close>

text \<open>Every n-th event, with C++'s conversion of the period to an unsigned 64-bit number.\<close>

definition every_nth :: "int \<Rightarrow> u64 \<Rightarrow> bool" where
  "every_nth n c \<longleftrightarrow> n \<noteq> 0 \<and> c mod of_int n = 0"

text \<open>The scan of the two disk slots: the first request found is latched.\<close>

fun hps_poll :: "nat list \<Rightarrow> CoreLines \<Rightarrow> Hps \<Rightarrow> Hps" where
  "hps_poll [] c h = h"
| "hps_poll (i # is) c h =
    (if bit (top_io_rd c) i then
       h\<lparr>h_tgt := i, h_lba := (if i = 0 then top_io_lba_0 c else top_io_lba_1 c), was_write := False,
         h_st := WAIT, h_t := 0\<rparr>
     else if bit (top_io_wr c) i then
       h\<lparr>h_tgt := i, h_lba := (if i = 0 then top_io_lba_0 c else top_io_lba_1 c), was_write := True,
         h_st := WWAIT, h_t := 0\<rparr>
     else hps_poll is c h)"

definition tb_poll_write :: "CoreLines \<Rightarrow> Hps \<Rightarrow> Hps" where
  "tb_poll_write c h0 =
    (let h = h0\<lparr>tb_writes := tb_writes h0 + 1\<rparr>
     in if every_nth (tb_wdefer_every h) (tb_writes h) then
          h\<lparr>tb_wdefers := tb_wdefers h + 1, lba_at_defer := top_tb_lba c, h_st := TBWDEFER, h_t := 0\<rparr>
        else h\<lparr>h_lba := top_tb_lba c, h_st := TBWWAIT, h_t := 0\<rparr>)"

text \<open>tbx.fill(lba, tbblk): the response block is staged when the request is latched.\<close>

definition stage_fill :: "u32 \<Rightarrow> Hps \<Rightarrow> Hps" where
  "stage_fill l h = (case tb_fill (unat l) (tbx h) of (blk, tb) \<Rightarrow> h\<lparr>h_lba := l, tbblk := blk, tbx := tb\<rparr>)"

definition tb_poll_read :: "CoreLines \<Rightarrow> Hps \<Rightarrow> Hps" where
  "tb_poll_read c h0 =
    (let h = h0\<lparr>tb_reads := tb_reads h0 + 1\<rparr>
     in if every_nth (tb_defer_every h) (tb_reads h) then
          h\<lparr>tb_defers := tb_defers h + 1, h_st := TBRDEFER, h_t := 0\<rparr>
        else (stage_fill (top_tb_lba c) h)
               \<lparr>cur_tb_latency := (if every_nth (tb_slow_every h) (tb_reads h) then tb_slow_latency h
                                    else h_latency h), h_st := TBRWAIT, h_t := 0\<rparr>)"

definition hps_idle :: "CoreLines \<Rightarrow> Hps \<Rightarrow> Hps" where
  "hps_idle c h0 =
    (let h = hps_poll [0, 1] c (h0\<lparr>top_sd_buff_wr := False, top_io_ack := 0, top_tb_ack := False\<rparr>)
     in if h_st h = IDLE \<and> top_tb_wr c then tb_poll_write c h
        else if h_st h = IDLE \<and> top_tb_rd c then tb_poll_read c h
        else h)"

definition hps_stream :: "Hps \<Rightarrow> Hps" where
  "hps_stream h =
    (let h1 = (if even (h_t h) then
                 h\<lparr>top_sd_buff_addr := of_nat (h_wi h),
                   top_sd_buff_dout := be16 (ramp (ucast (h_lba h) * 512 + of_nat (h_wi h) * 2))
                                            (ramp (ucast (h_lba h) * 512 + of_nat (h_wi h) * 2 + 1)),
                   top_sd_buff_wr := True\<rparr>
               else
                 (let h2 = h\<lparr>top_sd_buff_wr := False, h_wi := h_wi h + 1\<rparr>
                  in if h_wi h2 = 256 then h2\<lparr>h_st := FINISH\<rparr> else h2))
     in h1\<lparr>h_t := h_t h + 1\<rparr>)"

text \<open>written.resize(off + 2, 0xEE) and the two stores.\<close>

definition capture_word :: "nat \<Rightarrow> u16 \<Rightarrow> u8 list \<Rightarrow> u8 list" where
  "capture_word off w img = put_grow 0xEE off [hi8 w, lo8 w] img"

definition hps_wcap :: "CoreLines \<Rightarrow> Hps \<Rightarrow> Hps" where
  "hps_wcap c h =
    (let h1 = (if h_t h mod 3 = 0 then h\<lparr>top_sd_buff_addr := of_nat (h_wi h)\<rparr>
               else if h_t h mod 3 = 2 then
                 (let w = (if h_tgt h = 0 then top_sd_buff_din_0 c else top_sd_buff_din_1 c);
                      h2 = h\<lparr>written := capture_word (unat (h_lba h) * 512 + h_wi h * 2) w (written h),
                             h_wi := h_wi h + 1\<rparr>
                  in if h_wi h2 = 256 then h2\<lparr>h_st := FINISH\<rparr> else h2)
               else h)
     in h1\<lparr>h_t := h_t h + 1\<rparr>)"

definition hps_finish :: "Hps \<Rightarrow> Hps" where
  "hps_finish h0 =
    (let h = h0\<lparr>top_sd_buff_wr := False, top_io_ack := 0\<rparr>
     in (if was_write h then h\<lparr>flushes := flushes h + 1\<rparr> else h\<lparr>fetches := fetches h + 1\<rparr>)\<lparr>h_st := IDLE\<rparr>)"

definition hps_tbwcap :: "CoreLines \<Rightarrow> Hps \<Rightarrow> Hps" where
  "hps_tbwcap c h =
    (let h1 = (if h_t h mod 3 = 0 then h\<lparr>top_sd_buff_addr := of_nat (h_wi h)\<rparr>
               else if h_t h mod 3 = 2 then
                 (let w = top_tb_buff_din c;
                      h2 = h\<lparr>tbblk := (tbblk h)[h_wi h * 2 := hi8 w, h_wi h * 2 + 1 := lo8 w],
                             h_wi := h_wi h + 1\<rparr>
                  in if h_wi h2 = 256
                     then h2\<lparr>tbx := tb_request (unat (h_lba h2)) (tbblk h2) (tbx h2), h_st := TBFINISH\<rparr>
                     else h2)
               else h)
     in h1\<lparr>h_t := h_t h + 1\<rparr>)"

definition hps_tbrstream :: "Hps \<Rightarrow> Hps" where
  "hps_tbrstream h =
    (let h1 = (if even (h_t h) then
                 h\<lparr>top_sd_buff_addr := of_nat (h_wi h),
                   top_sd_buff_dout := be16 (tbblk h ! (h_wi h * 2)) (tbblk h ! (h_wi h * 2 + 1)),
                   top_sd_buff_wr := True\<rparr>
               else
                 (let h2 = h\<lparr>top_sd_buff_wr := False, h_wi := h_wi h + 1\<rparr>
                  in if h_wi h2 = 256 then h2\<lparr>h_st := TBFINISH\<rparr> else h2))
     in h1\<lparr>h_t := h_t h + 1\<rparr>)"

definition hps_tbfinish :: "Hps \<Rightarrow> Hps" where
  "hps_tbfinish h0 =
    (let h = h0\<lparr>top_sd_buff_wr := False\<rparr>
     in if tb_ack_hold h \<noteq> 0 then h\<lparr>h_st := TBAHOLD, h_t := 0\<rparr>
        else h\<lparr>top_tb_ack := False, h_st := IDLE\<rparr>)"

definition hps_tbrdefer :: "CoreLines \<Rightarrow> Hps \<Rightarrow> Hps" where
  "hps_tbrdefer c h0 =
    (let h = h0\<lparr>h_t := h_t h0 + 1\<rparr>
     in if int (h_t h) \<ge> tb_defer_latency h then
          (if \<not> top_tb_rd c then h\<lparr>h_st := IDLE\<rparr>
           else (stage_fill (top_tb_lba c) h)\<lparr>cur_tb_latency := h_latency h, h_st := TBRWAIT, h_t := 0\<rparr>)
        else h)"

definition hps_tbwdefer :: "CoreLines \<Rightarrow> Hps \<Rightarrow> Hps" where
  "hps_tbwdefer c h0 =
    (let h = h0\<lparr>h_t := h_t h0 + 1\<rparr>
     in if int (h_t h) \<ge> tb_wdefer_latency h then
          (if \<not> top_tb_wr c then h\<lparr>tb_wlost := tb_wlost h + 1, h_st := IDLE\<rparr>
           else
             (let h1 = (if top_tb_lba c \<noteq> lba_at_defer h then h\<lparr>tb_wlost := tb_wlost h + 1\<rparr> else h)
              in h1\<lparr>h_lba := top_tb_lba c, h_st := TBWWAIT, h_t := 0\<rparr>))
        else h)"

text \<open>The waiting states: count, then raise the acknowledge line and go on.\<close>

definition hps_wait :: "St \<Rightarrow> Hps \<Rightarrow> Hps" where
  "hps_wait nxt h0 =
    (let h = h0\<lparr>h_t := h_t h0 + 1\<rparr>
     in if int (h_t h) \<ge> h_latency h
        then h\<lparr>top_io_ack := push_bit (h_tgt h) 1, h_st := nxt, h_wi := 0, h_t := 0\<rparr> else h)"

definition hps_tbwait :: "int \<Rightarrow> St \<Rightarrow> Hps \<Rightarrow> Hps" where
  "hps_tbwait lat nxt h0 =
    (let h = h0\<lparr>h_t := h_t h0 + 1\<rparr>
     in if int (h_t h) \<ge> lat then h\<lparr>top_tb_ack := True, h_st := nxt, h_wi := 0, h_t := 0\<rparr> else h)"

definition hps_ahold :: "Hps \<Rightarrow> Hps" where
  "hps_ahold h0 =
    (let h = h0\<lparr>h_t := h_t h0 + 1\<rparr>
     in if int (h_t h) \<ge> tb_ack_hold h then h\<lparr>top_tb_ack := False, h_st := IDLE\<rparr> else h)"

definition service :: "CoreLines \<Rightarrow> Hps \<Rightarrow> Hps" where
  "service c h =
    (case h_st h of
       IDLE \<Rightarrow> hps_idle c h
     | WAIT \<Rightarrow> hps_wait STREAM h
     | STREAM \<Rightarrow> hps_stream h
     | WWAIT \<Rightarrow> hps_wait WCAP h
     | WCAP \<Rightarrow> hps_wcap c h
     | FINISH \<Rightarrow> hps_finish h
     | TBWWAIT \<Rightarrow> hps_tbwait (h_latency h) TBWCAP h
     | TBWCAP \<Rightarrow> hps_tbwcap c h
     | TBRWAIT \<Rightarrow> hps_tbwait (cur_tb_latency h) TBRSTREAM h
     | TBRSTREAM \<Rightarrow> hps_tbrstream h
     | TBFINISH \<Rightarrow> hps_tbfinish h
     | TBAHOLD \<Rightarrow> hps_ahold h
     | TBRDEFER \<Rightarrow> hps_tbrdefer c h
     | TBWDEFER \<Rightarrow> hps_tbwdefer c h)"

section \<open>Phases of a transaction\<close>

definition lines :: "Hps \<Rightarrow> HpsLines" where
  "lines h = HpsLines.truncate h"

lemma lines_sel [simp]:
  "top_sd_buff_wr (lines h) = top_sd_buff_wr h" "top_sd_buff_addr (lines h) = top_sd_buff_addr h"
  "top_sd_buff_dout (lines h) = top_sd_buff_dout h" "top_io_ack (lines h) = top_io_ack h"
  "top_tb_ack (lines h) = top_tb_ack h"
  by (simp_all add: lines_def HpsLines.truncate_def)

text \<open>
  Waiting: the counter runs up to L calls, the last of which makes the transition fin; no line
  changes before it.
\<close>

definition wait_at :: "(Hps \<Rightarrow> bool) \<Rightarrow> (Hps \<Rightarrow> Hps) \<Rightarrow> nat \<Rightarrow> Hps \<Rightarrow> nat \<Rightarrow> Hps \<Rightarrow> bool" where
  "wait_at ok fin L h0 k h \<longleftrightarrow> ok h0 \<and> h = (if k < L then h0\<lparr>h_t := k\<rparr> else fin h0)"

definition io_go :: "St \<Rightarrow> Hps \<Rightarrow> Hps" where
  "io_go nxt h = h\<lparr>top_io_ack := push_bit (h_tgt h) 1, h_st := nxt, h_wi := 0, h_t := 0\<rparr>"

definition tb_go :: "St \<Rightarrow> Hps \<Rightarrow> Hps" where
  "tb_go nxt h = h\<lparr>top_tb_ack := True, h_st := nxt, h_wi := 0, h_t := 0\<rparr>"

definition quiet :: "HpsLines \<Rightarrow> bool" where
  "quiet x \<longleftrightarrow> \<not> top_sd_buff_wr x"

interpretation rwait: phase service lines
  "wait_at (\<lambda>h. h_st h = WAIT \<and> h_latency h = int (Suc L) \<and> \<not> top_sd_buff_wr h) (io_go STREAM) (Suc L) h0"
  "\<lambda>_ _. True" "\<lambda>_. quiet" "Suc L" for L h0
  by unfold_locales (auto simp: wait_at_def service_def hps_wait_def io_go_def quiet_def Let_def)

interpretation wwait: phase service lines
  "wait_at (\<lambda>h. h_st h = WWAIT \<and> h_latency h = int (Suc L) \<and> \<not> top_sd_buff_wr h) (io_go WCAP) (Suc L) h0"
  "\<lambda>_ _. True" "\<lambda>_. quiet" "Suc L" for L h0
  by unfold_locales (auto simp: wait_at_def service_def hps_wait_def io_go_def quiet_def Let_def)

interpretation tbwwait: phase service lines
  "wait_at (\<lambda>h. h_st h = TBWWAIT \<and> h_latency h = int (Suc L) \<and> \<not> top_sd_buff_wr h) (tb_go TBWCAP) (Suc L) h0"
  "\<lambda>_ _. True" "\<lambda>_. quiet" "Suc L" for L h0
  by unfold_locales (auto simp: wait_at_def service_def hps_tbwait_def tb_go_def quiet_def Let_def)

interpretation tbrwait: phase service lines
  "wait_at (\<lambda>h. h_st h = TBRWAIT \<and> cur_tb_latency h = int (Suc L) \<and> \<not> top_sd_buff_wr h) (tb_go TBRSTREAM) (Suc L) h0"
  "\<lambda>_ _. True" "\<lambda>_. quiet" "Suc L" for L h0
  by unfold_locales (auto simp: wait_at_def service_def hps_tbwait_def tb_go_def quiet_def Let_def)

interpretation ahold: phase service lines
  "wait_at (\<lambda>h. h_st h = TBAHOLD \<and> tb_ack_hold h = int (Suc L) \<and> \<not> top_sd_buff_wr h)
     (\<lambda>h. h\<lparr>h_t := Suc L, top_tb_ack := False, h_st := IDLE\<rparr>) (Suc L) h0"
  "\<lambda>_ _. True" "\<lambda>_. quiet" "Suc L" for L h0
  by unfold_locales (auto simp: wait_at_def service_def hps_ahold_def quiet_def Let_def less_Suc_eq)

text \<open>Streaming: address, word and strobe in the even calls, the strobe dropped in the odd ones.\<close>

definition stream_at :: "St \<Rightarrow> St \<Rightarrow> Hps \<Rightarrow> nat \<Rightarrow> Hps \<Rightarrow> bool" where
  "stream_at st fin h0 k h \<longleftrightarrow>
     (\<exists>a d. h = h0\<lparr>h_st := (if k = 512 then fin else st), h_t := k, h_wi := k div 2,
                 top_sd_buff_wr := odd k, top_sd_buff_addr := a, top_sd_buff_dout := d\<rparr>)"

definition shows_word :: "(nat \<Rightarrow> u16) \<Rightarrow> Hps \<Rightarrow> nat \<Rightarrow> HpsLines \<Rightarrow> bool" where
  "shows_word w h0 k x \<longleftrightarrow> top_sd_buff_wr x = even k \<and> top_io_ack x = top_io_ack h0 \<and>
     top_tb_ack x = top_tb_ack h0 \<and>
     (even k \<longrightarrow> top_sd_buff_addr x = of_nat (k div 2) \<and> top_sd_buff_dout x = w (k div 2))"

definition ramp_word :: "u32 \<Rightarrow> nat \<Rightarrow> u16" where
  "ramp_word l k = be16 (ramp (ucast l * 512 + of_nat k * 2)) (ramp (ucast l * 512 + of_nat k * 2 + 1))"

definition blk_word :: "u8 list \<Rightarrow> nat \<Rightarrow> u16" where
  "blk_word b k = be16 (b ! (k * 2)) (b ! (k * 2 + 1))"

lemma stream_even:
  assumes "even k" "k < 512" "h' = h0\<lparr>h_st := st, h_t := Suc k, h_wi := k div 2,
    top_sd_buff_wr := True, top_sd_buff_addr := of_nat (k div 2), top_sd_buff_dout := w (k div 2)\<rparr>"
  shows "stream_at st fin h0 (Suc k) h'" "shows_word w h0 k (lines h')"
proof -
  have "Suc k \<noteq> 512" using assms(1) by auto
  then show "stream_at st fin h0 (Suc k) h'"
    unfolding stream_at_def assms(3) using assms(1)
    by (intro exI [of _ "of_nat (k div 2)"] exI [of _ "w (k div 2)"]) simp
  show "shows_word w h0 k (lines h')" using assms(1) by (simp add: shows_word_def assms(3))
qed

lemma stream_odd:
  assumes "odd k" "k < 512" "h' = h0\<lparr>h_st := (if Suc (k div 2) = 256 then fin else st), h_t := Suc k,
    h_wi := Suc (k div 2), top_sd_buff_wr := False, top_sd_buff_addr := a, top_sd_buff_dout := d\<rparr>"
  shows "stream_at st fin h0 (Suc k) h'" "shows_word w h0 k (lines h')"
proof -
  have "Suc (k div 2) = 256 \<longleftrightarrow> Suc k = 512" using assms(1) by (auto elim!: oddE)
  then show "stream_at st fin h0 (Suc k) h'"
    unfolding stream_at_def assms(3) using assms(1) by (intro exI [of _ a] exI [of _ d]) simp
  show "shows_word w h0 k (lines h')" using assms(1) by (simp add: shows_word_def assms(3))
qed

lemma stream_call:
  assumes "stream_at STREAM FINISH h0 k h" "k < 512"
  shows "stream_at STREAM FINISH h0 (Suc k) (service i h)"
    "shows_word (ramp_word (h_lba h0)) h0 k (lines (service i h))"
proof -
  obtain a d where h: "h = h0\<lparr>h_st := STREAM, h_t := k, h_wi := k div 2, top_sd_buff_wr := odd k,
      top_sd_buff_addr := a, top_sd_buff_dout := d\<rparr>"
    using assms by (auto simp: stream_at_def)
  have "stream_at STREAM FINISH h0 (Suc k) (service i h) \<and>
      shows_word (ramp_word (h_lba h0)) h0 k (lines (service i h))"
  proof (cases "even k")
    case True
    have "service i h = h0\<lparr>h_st := STREAM, h_t := Suc k, h_wi := k div 2, top_sd_buff_wr := True,
        top_sd_buff_addr := of_nat (k div 2), top_sd_buff_dout := ramp_word (h_lba h0) (k div 2)\<rparr>"
      using True by (simp add: h service_def hps_stream_def ramp_word_def)
    from stream_even [where w = "ramp_word (h_lba h0)", OF True assms(2) this] show ?thesis by simp
  next
    case False
    have "service i h = h0\<lparr>h_st := (if Suc (k div 2) = 256 then FINISH else STREAM), h_t := Suc k,
        h_wi := Suc (k div 2), top_sd_buff_wr := False, top_sd_buff_addr := a, top_sd_buff_dout := d\<rparr>"
      using False by (simp add: h service_def hps_stream_def Let_def)
    from stream_odd [OF False assms(2) this] show ?thesis by simp
  qed
  then show "stream_at STREAM FINISH h0 (Suc k) (service i h)"
    "shows_word (ramp_word (h_lba h0)) h0 k (lines (service i h))" by simp_all
qed

lemma tbstream_call:
  assumes "stream_at TBRSTREAM TBFINISH h0 k h" "k < 512"
  shows "stream_at TBRSTREAM TBFINISH h0 (Suc k) (service i h)"
    "shows_word (blk_word (tbblk h0)) h0 k (lines (service i h))"
proof -
  obtain a d where h: "h = h0\<lparr>h_st := TBRSTREAM, h_t := k, h_wi := k div 2, top_sd_buff_wr := odd k,
      top_sd_buff_addr := a, top_sd_buff_dout := d\<rparr>"
    using assms by (auto simp: stream_at_def)
  have "stream_at TBRSTREAM TBFINISH h0 (Suc k) (service i h) \<and>
      shows_word (blk_word (tbblk h0)) h0 k (lines (service i h))"
  proof (cases "even k")
    case True
    have "service i h = h0\<lparr>h_st := TBRSTREAM, h_t := Suc k, h_wi := k div 2, top_sd_buff_wr := True,
        top_sd_buff_addr := of_nat (k div 2), top_sd_buff_dout := blk_word (tbblk h0) (k div 2)\<rparr>"
      using True by (simp add: h service_def hps_tbrstream_def blk_word_def)
    from stream_even [where w = "blk_word (tbblk h0)", OF True assms(2) this] show ?thesis by simp
  next
    case False
    have "service i h = h0\<lparr>h_st := (if Suc (k div 2) = 256 then TBFINISH else TBRSTREAM), h_t := Suc k,
        h_wi := Suc (k div 2), top_sd_buff_wr := False, top_sd_buff_addr := a, top_sd_buff_dout := d\<rparr>"
      using False by (simp add: h service_def hps_tbrstream_def Let_def)
    from stream_odd [OF False assms(2) this] show ?thesis by simp
  qed
  then show "stream_at TBRSTREAM TBFINISH h0 (Suc k) (service i h)"
    "shows_word (blk_word (tbblk h0)) h0 k (lines (service i h))" by simp_all
qed

interpretation rstream: phase service lines "stream_at STREAM FINISH h0" "\<lambda>_ _. True"
  "shows_word (ramp_word (h_lba h0)) h0" 512 for h0
  by unfold_locales (use stream_call in blast)+

interpretation tbstream: phase service lines "stream_at TBRSTREAM TBFINISH h0" "\<lambda>_ _. True"
  "shows_word (blk_word (tbblk h0)) h0" 512 for h0
  by unfold_locales (use tbstream_call in blast)+

text \<open>
  Capturing: the address in the first of three calls, the word the core answers with in the third.
\<close>

definition cap_img :: "nat \<Rightarrow> (nat \<Rightarrow> u16) \<Rightarrow> nat \<Rightarrow> u8 list \<Rightarrow> u8 list" where
  "cap_img base buf n img = (if n = 0 then img else put_grow 0xEE base (sector_bytes buf n) img)"

lemma capture_word_cap_img:
  "capture_word (base + n * 2) (buf n) (cap_img base buf n img) = cap_img base buf (Suc n) img"
  using put_grow_append [of "0xEE" base "sector_bytes buf n" "[hi8 (buf n), lo8 (buf n)]" img]
  by (simp add: capture_word_def cap_img_def sector_bytes_Suc mult.commute)
     (simp add: sector_bytes_def)

definition cap_addr :: "nat \<Rightarrow> Hps \<Rightarrow> u8" where
  "cap_addr k h0 = (if k = 0 then top_sd_buff_addr h0 else of_nat ((k - 1) div 3))"

definition capture_at :: "(nat \<Rightarrow> u16) \<Rightarrow> Hps \<Rightarrow> nat \<Rightarrow> Hps \<Rightarrow> bool" where
  "capture_at buf h0 k h \<longleftrightarrow>
     h = h0\<lparr>h_st := (if k = 768 then FINISH else WCAP), h_t := k, h_wi := k div 3,
           top_sd_buff_addr := cap_addr k h0,
           written := cap_img (unat (h_lba h0) * 512) buf (k div 3) (written h0)\<rparr> \<and> \<not> top_sd_buff_wr h0"

text \<open>The sector buffer of target i answers every address with its word.\<close>

definition answers :: "nat \<Rightarrow> (nat \<Rightarrow> u16) \<Rightarrow> HpsLines \<Rightarrow> CoreLines \<Rightarrow> bool" where
  "answers i buf x c \<longleftrightarrow>
     (if i = 0 then top_sd_buff_din_0 c else top_sd_buff_din_1 c) = buf (unat (top_sd_buff_addr x))"

definition tb_answers :: "(nat \<Rightarrow> u16) \<Rightarrow> HpsLines \<Rightarrow> CoreLines \<Rightarrow> bool" where
  "tb_answers buf x c \<longleftrightarrow> top_tb_buff_din c = buf (unat (top_sd_buff_addr x))"

lemma third_cases:
  fixes k :: nat
  obtains n where "k = 3 * n" | n where "k = 3 * n + 1" | n where "k = 3 * n + 2"
proof -
  have "k mod 3 = 0 \<or> k mod 3 = 1 \<or> k mod 3 = 2" by linarith
  then show ?thesis using that by (metis add.right_neutral mult_div_mod_eq)
qed

lemma third_simps [simp]:
  "3 * n div 3 = (n :: nat)" "Suc (3 * n) div 3 = n" "Suc (Suc (3 * n)) div 3 = n"
  "Suc (Suc (Suc (3 * n))) div 3 = Suc n"
  "Suc (3 * n) mod 3 = 1" "Suc (Suc (3 * n)) mod 3 = 2"
  by presburger+

lemma cap_addr_simps [simp]:
  "cap_addr (Suc (3 * n)) h0 = of_nat n" "cap_addr (Suc (Suc (3 * n))) h0 = of_nat n"
  "cap_addr (Suc (Suc (Suc (3 * n)))) h0 = of_nat n"
  by (simp_all add: cap_addr_def)

lemma unat_of_nat_small: "n < 256 \<Longrightarrow> unat (of_nat n :: u8) = n"
  by (simp add: unat_of_nat_u8)

lemma capture_call:
  assumes "capture_at buf h0 k h" "k < 768" "answers (h_tgt h0) buf (lines h) c"
  shows "capture_at buf h0 (Suc k) (service c h)"
proof -
  have h: "h = h0\<lparr>h_st := WCAP, h_t := k, h_wi := k div 3, top_sd_buff_addr := cap_addr k h0,
      written := cap_img (unat (h_lba h0) * 512) buf (k div 3) (written h0)\<rparr>" and q: "\<not> top_sd_buff_wr h0"
    using assms(1,2) by (simp_all add: capture_at_def)
  show ?thesis
  proof (cases k rule: third_cases)
    case (1 n)
    then have "Suc k \<noteq> 768" by presburger
    then show ?thesis using q by (simp add: capture_at_def h service_def hps_wcap_def 1)
  next
    case (2 n)
    then have "Suc k \<noteq> 768" by presburger
    then show ?thesis using q by (simp add: capture_at_def h service_def hps_wcap_def 2)
  next
    case (3 n)
    then have n: "n < 256" "Suc k = 768 \<longleftrightarrow> n = 255" using assms(2) by presburger+
    have w: "(if h_tgt h0 = 0 then top_sd_buff_din_0 c else top_sd_buff_din_1 c) = buf n"
      using assms(3) n(1) by (simp add: answers_def h 3 unat_of_nat_small)
    have "service c h = h0\<lparr>h_st := (if n = 255 then FINISH else WCAP), h_t := Suc k, h_wi := Suc n,
        top_sd_buff_addr := cap_addr (Suc k) h0,
        written := cap_img (unat (h_lba h0) * 512) buf (Suc n) (written h0)\<rparr>"
      using capture_word_cap_img [of "unat (h_lba h0) * 512" 255 buf "written h0"]
      by (simp add: h service_def hps_wcap_def Let_def w 3 capture_word_cap_img)
    then show ?thesis using n(2) q by (simp add: capture_at_def 3)
  qed
qed

definition tb_capture_at :: "(nat \<Rightarrow> u16) \<Rightarrow> Hps \<Rightarrow> nat \<Rightarrow> Hps \<Rightarrow> bool" where
  "tb_capture_at buf h0 k h \<longleftrightarrow>
     h = h0\<lparr>h_st := (if k = 768 then TBFINISH else TBWCAP), h_t := k, h_wi := k div 3,
           top_sd_buff_addr := cap_addr k h0,
           tbblk := sector_bytes buf (k div 3) @ drop (2 * (k div 3)) (tbblk h0),
           tbx := (if k = 768 then tb_request (unat (h_lba h0)) (sector_bytes buf 256) (tbx h0) else tbx h0)\<rparr>
     \<and> \<not> top_sd_buff_wr h0 \<and> length (tbblk h0) = 512"

lemma tb_capture_call:
  assumes "tb_capture_at buf h0 k h" "k < 768" "tb_answers buf (lines h) c"
  shows "tb_capture_at buf h0 (Suc k) (service c h)"
proof -
  have h: "h = h0\<lparr>h_st := TBWCAP, h_t := k, h_wi := k div 3, top_sd_buff_addr := cap_addr k h0,
      tbblk := sector_bytes buf (k div 3) @ drop (2 * (k div 3)) (tbblk h0)\<rparr>"
    and q: "\<not> top_sd_buff_wr h0" and l: "length (tbblk h0) = 512"
    using assms(1,2) by (simp_all add: tb_capture_at_def)
  show ?thesis
  proof (cases k rule: third_cases)
    case (1 n)
    then have "Suc k \<noteq> 768" by presburger
    then show ?thesis using q l by (simp add: tb_capture_at_def h service_def hps_tbwcap_def 1)
  next
    case (2 n)
    then have "Suc k \<noteq> 768" by presburger
    then show ?thesis using q l by (simp add: tb_capture_at_def h service_def hps_tbwcap_def 2)
  next
    case (3 n)
    then have n: "n < 256" "Suc k = 768 \<longleftrightarrow> n = 255" using assms(2) by presburger+
    define b where "b = sector_bytes buf (Suc n) @ drop (2 * Suc n) (tbblk h0)"
    have w: "top_tb_buff_din c = buf n"
      using assms(3) n(1) by (simp add: tb_answers_def h 3 unat_of_nat_small)
    have u: "(sector_bytes buf n @ drop (2 * n) (tbblk h0))[n * 2 := hi8 (buf n), Suc (n * 2) := lo8 (buf n)] = b"
      using list_update_sector [of 0 n "tbblk h0" buf] n(1) l
      by (simp add: sector_bytes_Suc mult.commute b_def)
    have "service c h = h0\<lparr>h_st := (if n = 255 then TBFINISH else TBWCAP), h_t := Suc k, h_wi := Suc n,
        top_sd_buff_addr := cap_addr (Suc k) h0, tbblk := b,
        tbx := (if n = 255 then tb_request (unat (h_lba h0)) b (tbx h0) else tbx h0)\<rparr>"
      using u by (cases "n = 255") (simp_all add: h service_def hps_tbwcap_def Let_def w 3 cap_addr_def)
    moreover have "b = sector_bytes buf 256" if "n = 255" using that l by (simp add: b_def)
    moreover have "b = sector_bytes buf (Suc n) @ drop (2 * Suc n) (tbblk h0)" by (simp add: b_def)
    ultimately show ?thesis using n(2) q l by (cases "n = 255") (simp_all add: tb_capture_at_def 3)
  qed
qed

lemma capture_quiet:
  assumes "capture_at buf h0 k h" "k < 768" "answers (h_tgt h0) buf (lines h) c"
  shows "quiet (lines (service c h))"
  using capture_call [OF assms] by (simp add: capture_at_def quiet_def)

lemma tb_capture_quiet:
  assumes "tb_capture_at buf h0 k h" "k < 768" "tb_answers buf (lines h) c"
  shows "quiet (lines (service c h))"
  using tb_capture_call [OF assms] by (simp add: tb_capture_at_def quiet_def)

interpretation wcap: phase service lines "capture_at buf h0" "answers (h_tgt h0) buf" "\<lambda>_. quiet" 768 for buf h0
  by unfold_locales (use capture_call capture_quiet in blast)+

interpretation tbcap: phase service lines "tb_capture_at buf h0" "tb_answers buf" "\<lambda>_. quiet" 768 for buf h0
  by unfold_locales (use tb_capture_call tb_capture_quiet in blast)+

section \<open>Whole transactions\<close>

text \<open>The words a core stores in its buffer: address and data of every strobe.\<close>

definition hps_strobes :: "HpsLines list \<Rightarrow> (u8 \<times> u16) list" where
  "hps_strobes os = map (\<lambda>x. (top_sd_buff_addr x, top_sd_buff_dout x)) (filter top_sd_buff_wr os)"

lemma hps_strobes_simps [simp]:
  "hps_strobes [] = []"
  "hps_strobes (x # xs) = (if top_sd_buff_wr x then (top_sd_buff_addr x, top_sd_buff_dout x) # hps_strobes xs
                           else hps_strobes xs)"
  "hps_strobes (xs @ ys) = hps_strobes xs @ hps_strobes ys"
  by (simp_all add: hps_strobes_def)

definition silent :: "HpsLines list \<Rightarrow> bool" where
  "silent os \<longleftrightarrow> (\<forall>x\<in>set os. \<not> top_sd_buff_wr x)"

lemma silent_simps [simp]:
  "silent []" "silent (x # xs) \<longleftrightarrow> \<not> top_sd_buff_wr x \<and> silent xs"
  "silent (xs @ ys) \<longleftrightarrow> silent xs \<and> silent ys"
  by (auto simp: silent_def)

lemma strobes_silent: "silent os \<Longrightarrow> hps_strobes os = []"
  by (simp add: hps_strobes_def silent_def filter_empty_conv)

lemma quiet_silent:
  assumes "\<forall>j<n. quiet (os ! j)" "length os = n"
  shows "silent os"
  using assms by (auto simp: silent_def quiet_def in_set_conv_nth)

lemma strobes_words:
  assumes "\<forall>j<512. shows_word w h0 j (os ! j)" "length os = 512"
  shows "hps_strobes os = map (\<lambda>k. (of_nat k, w k)) [0..<256]"
  unfolding hps_strobes_def using assms
  by (intro filter_alternate) (simp_all add: shows_word_def)

text \<open>The first requested slot wins, a read before a write; a Toolbox block is served only when no disk asks.\<close>

definition asks_read :: "nat \<Rightarrow> CoreLines \<Rightarrow> bool" where
  "asks_read i c \<longleftrightarrow> bit (top_io_rd c) i \<and> (i = 0 \<or> i = 1 \<and> \<not> bit (top_io_rd c) 0 \<and> \<not> bit (top_io_wr c) 0)"

definition asks_write :: "nat \<Rightarrow> CoreLines \<Rightarrow> bool" where
  "asks_write i c \<longleftrightarrow> bit (top_io_wr c) i \<and> \<not> bit (top_io_rd c) i \<and>
     (i = 0 \<or> i = 1 \<and> \<not> bit (top_io_rd c) 0 \<and> \<not> bit (top_io_wr c) 0)"

definition asks_none :: "CoreLines \<Rightarrow> bool" where
  "asks_none c \<longleftrightarrow> (\<forall>i<2. \<not> bit (top_io_rd c) i \<and> \<not> bit (top_io_wr c) i)"

definition io_lba :: "nat \<Rightarrow> CoreLines \<Rightarrow> u32" where
  "io_lba i c = (if i = 0 then top_io_lba_0 c else top_io_lba_1 c)"

definition cleared :: "Hps \<Rightarrow> Hps" where
  "cleared h = h\<lparr>top_sd_buff_wr := False, top_io_ack := 0, top_tb_ack := False\<rparr>"

lemma all_less_two: "(\<forall>i<2. P i) \<longleftrightarrow> P 0 \<and> P (1 :: nat)"
  by (auto simp: numeral_2_eq_2 less_Suc_eq)

lemma idle_read:
  assumes "h_st h = IDLE" "asks_read i c"
  shows "service c h = (cleared h)\<lparr>h_tgt := i, h_lba := io_lba i c, was_write := False, h_st := WAIT, h_t := 0\<rparr>"
proof -
  from assms(2) consider "i = 0" | "i = Suc 0" by (auto simp: asks_read_def)
  then show ?thesis using assms
    by cases (simp_all add: service_def hps_idle_def cleared_def asks_read_def io_lba_def Let_def)
qed

lemma idle_write:
  assumes "h_st h = IDLE" "asks_write i c"
  shows "service c h = (cleared h)\<lparr>h_tgt := i, h_lba := io_lba i c, was_write := True, h_st := WWAIT, h_t := 0\<rparr>"
proof -
  from assms(2) consider "i = 0" | "i = Suc 0" by (auto simp: asks_write_def)
  then show ?thesis using assms
    by cases (simp_all add: service_def hps_idle_def cleared_def asks_write_def io_lba_def Let_def)
qed

lemma idle_none:
  assumes "h_st h = IDLE" "asks_none c"
  shows "service c h = (if top_tb_wr c then tb_poll_write c (cleared h)
    else if top_tb_rd c then tb_poll_read c (cleared h) else cleared h)"
  using assms by (simp add: service_def hps_idle_def cleared_def asks_none_def Let_def all_less_two)

lemma drive_step:
  assumes "service (core t (lines h)) h = h1" "drive service lines core n (Suc t) h1 = (h2, os)"
  shows "drive service lines core (Suc n) t h = (h2, lines h1 # os)"
  using assms by (simp add: Let_def)

lemma all_true: "\<forall>t x. (\<lambda>_ _. True) x (core t x)"
  by simp

lemma rwait_run:
  assumes "h_st h = WAIT" "h_t h = 0" "h_latency h = int (Suc L)" "\<not> top_sd_buff_wr h"
  obtains os where "drive service lines core (Suc L) t h = (io_go STREAM h, os)" "silent os"
  by (rule rwait.whole [where ?h0.0 = h and s = h and L = L and core = core and t = t])
     (use assms that in \<open>auto simp: wait_at_def intro: quiet_silent\<close>)

lemma wwait_run:
  assumes "h_st h = WWAIT" "h_t h = 0" "h_latency h = int (Suc L)" "\<not> top_sd_buff_wr h"
  obtains os where "drive service lines core (Suc L) t h = (io_go WCAP h, os)" "silent os"
  by (rule wwait.whole [where ?h0.0 = h and s = h and L = L and core = core and t = t])
     (use assms that in \<open>auto simp: wait_at_def intro: quiet_silent\<close>)

lemma tbwwait_run:
  assumes "h_st h = TBWWAIT" "h_t h = 0" "h_latency h = int (Suc L)" "\<not> top_sd_buff_wr h"
  obtains os where "drive service lines core (Suc L) t h = (tb_go TBWCAP h, os)" "silent os"
  by (rule tbwwait.whole [where ?h0.0 = h and s = h and L = L and core = core and t = t])
     (use assms that in \<open>auto simp: wait_at_def intro: quiet_silent\<close>)

lemma tbrwait_run:
  assumes "h_st h = TBRWAIT" "h_t h = 0" "cur_tb_latency h = int (Suc L)" "\<not> top_sd_buff_wr h"
  obtains os where "drive service lines core (Suc L) t h = (tb_go TBRSTREAM h, os)" "silent os"
  by (rule tbrwait.whole [where ?h0.0 = h and s = h and L = L and core = core and t = t])
     (use assms that in \<open>auto simp: wait_at_def intro: quiet_silent\<close>)

lemma stream_start:
  assumes "h_st h = st" "h_t h = 0" "h_wi h = 0" "\<not> top_sd_buff_wr h"
  shows "stream_at st fin h 0 h"
  unfolding stream_at_def using assms
  by (intro exI [of _ "top_sd_buff_addr h"] exI [of _ "top_sd_buff_dout h"]) simp

definition streamed :: "St \<Rightarrow> u8 \<Rightarrow> u16 \<Rightarrow> Hps \<Rightarrow> Hps" where
  "streamed fin a d h = h\<lparr>h_st := fin, h_t := 512, h_wi := 256, top_sd_buff_wr := False,
     top_sd_buff_addr := a, top_sd_buff_dout := d\<rparr>"

lemma streamed_cases:
  assumes "stream_at st fin h 512 h'"
  obtains a d where "h' = streamed fin a d h"
  using assms by (auto simp: stream_at_def streamed_def)

definition carries :: "(nat \<Rightarrow> u16) \<Rightarrow> Hps \<Rightarrow> HpsLines list \<Rightarrow> bool" where
  "carries w h os \<longleftrightarrow> hps_strobes os = map (\<lambda>k. (of_nat k, w k)) [0..<256] \<and>
     (\<forall>x\<in>set os. top_io_ack x = top_io_ack h \<and> top_tb_ack x = top_tb_ack h)"

lemma words_carried:
  assumes "\<forall>j<512. shows_word w h j (os ! j)" "length os = 512"
  shows "carries w h os"
  using strobes_words [OF assms] assms by (auto simp: carries_def shows_word_def in_set_conv_nth)

lemma rstream_run:
  assumes "h_st h = STREAM" "h_t h = 0" "h_wi h = 0" "\<not> top_sd_buff_wr h"
  obtains os a d where "drive service lines core 512 t h = (streamed FINISH a d h, os)"
    "carries (ramp_word (h_lba h)) h os"
  by (rule rstream.whole [where ?h0.0 = h and s = h and core = core and t = t, OF stream_start [OF assms] all_true])
     (use that in \<open>auto elim!: streamed_cases dest: words_carried\<close>)

lemma tbstream_run:
  assumes "h_st h = TBRSTREAM" "h_t h = 0" "h_wi h = 0" "\<not> top_sd_buff_wr h"
  obtains os a d where "drive service lines core 512 t h = (streamed TBFINISH a d h, os)"
    "carries (blk_word (tbblk h)) h os"
  by (rule tbstream.whole [where ?h0.0 = h and s = h and core = core and t = t, OF stream_start [OF assms] all_true])
     (use that in \<open>auto elim!: streamed_cases dest: words_carried\<close>)

definition captured :: "(nat \<Rightarrow> u16) \<Rightarrow> Hps \<Rightarrow> Hps" where
  "captured buf h = h\<lparr>h_st := FINISH, h_t := 768, h_wi := 256, top_sd_buff_addr := 255,
     written := put_grow 0xEE (unat (h_lba h) * 512) (sector_bytes buf 256) (written h)\<rparr>"

lemma wcap_run:
  assumes "h_st h = WCAP" "h_t h = 0" "h_wi h = 0" "\<not> top_sd_buff_wr h"
    "\<forall>t x. answers (h_tgt h) buf x (core t x)"
  obtains os where "drive service lines core 768 t h = (captured buf h, os)" "silent os"
proof (rule wcap.whole [where ?h0.0 = h and s = h and t = t, OF _ assms(5)])
  show "capture_at buf h 0 h" using assms by (simp add: capture_at_def cap_addr_def cap_img_def)
next
  fix h' os
  assume d: "drive service lines core 768 t h = (h', os)" "capture_at buf h 768 h'" "length os = 768"
    "\<forall>j<768. quiet (os ! j)"
  then have "h' = captured buf h" by (simp add: capture_at_def captured_def cap_addr_def cap_img_def)
  then show ?thesis using d quiet_silent [OF d(4,3)] that by simp
qed

definition tb_captured :: "(nat \<Rightarrow> u16) \<Rightarrow> Hps \<Rightarrow> Hps" where
  "tb_captured buf h = h\<lparr>h_st := TBFINISH, h_t := 768, h_wi := 256, top_sd_buff_addr := 255,
     tbblk := sector_bytes buf 256,
     tbx := tb_request (unat (h_lba h)) (sector_bytes buf 256) (tbx h)\<rparr>"

lemma tbcap_run:
  assumes "h_st h = TBWCAP" "h_t h = 0" "h_wi h = 0" "\<not> top_sd_buff_wr h" "length (tbblk h) = 512"
    "\<forall>t x. tb_answers buf x (core t x)"
  obtains os where "drive service lines core 768 t h = (tb_captured buf h, os)" "silent os"
proof (rule tbcap.whole [where ?h0.0 = h and s = h and t = t, OF _ assms(6)])
  show "tb_capture_at buf h 0 h"
    using assms by (simp add: tb_capture_at_def cap_addr_def) (simp add: sector_bytes_def)
next
  fix h' os
  assume d: "drive service lines core 768 t h = (h', os)" "tb_capture_at buf h 768 h'" "length os = 768"
    "\<forall>j<768. quiet (os ! j)"
  then have "h' = tb_captured buf h" by (simp add: tb_capture_at_def tb_captured_def cap_addr_def)
  then show ?thesis using d quiet_silent [OF d(4,3)] that by simp
qed

lemma transaction:
  assumes "service (core t (lines h)) h = h1" "drive service lines core (Suc L) (Suc t) h1 = (h2, os2)"
    "drive service lines core n (Suc t + Suc L) h2 = (h3, os3)" "\<And>c. service c h3 = h4" "m = L + n + 3"
  shows "drive service lines core m t h = (h4, lines h1 # os2 @ os3 @ [lines h4])"
proof -
  have 4: "drive service lines core 1 (Suc t + (Suc L + n)) h3 = (h4, [lines h4])"
    unfolding drive_1 assms(4) ..
  have m: "m = Suc (Suc L + n + 1)" using assms(5) by simp
  show ?thesis unfolding m
    using drive_step [OF assms(1) drive_add [OF drive_add [OF assms(2,3)] 4]] by (simp only: append_assoc)
qed

definition fetched :: "u8 \<Rightarrow> u16 \<Rightarrow> u32 \<Rightarrow> nat \<Rightarrow> Hps \<Rightarrow> Hps" where
  "fetched a d l i h = (cleared h)\<lparr>h_tgt := i, h_lba := l, was_write := False, h_t := 512, h_wi := 256,
     top_sd_buff_addr := a, top_sd_buff_dout := d, fetches := fetches h + 1, h_st := IDLE\<rparr>"

lemma read_transaction:
  assumes "h_st h = IDLE" "h_latency h = int (Suc L)" "asks_read i (core t (lines h))"
  obtains os a d where
    "drive service lines core (L + 515) t h = (fetched a d (io_lba i (core t (lines h))) i h, os)"
    "hps_strobes os = map (\<lambda>k. (of_nat k, ramp_word (io_lba i (core t (lines h))) k)) [0..<256]"
    "\<forall>x\<in>set os. top_sd_buff_wr x \<longrightarrow> top_io_ack x = push_bit i 1"
proof -
  let ?l = "io_lba i (core t (lines h))"
  let ?h1 = "(cleared h)\<lparr>h_tgt := i, h_lba := ?l, was_write := False, h_st := WAIT, h_t := 0\<rparr>"
  note 1 = idle_read [OF assms(1,3)]
  obtain os2 where 2: "drive service lines core (Suc L) (Suc t) ?h1 = (io_go STREAM ?h1, os2)" "silent os2"
    by (rule rwait_run [of ?h1 L core "Suc t"]) (use assms(2) in \<open>simp_all add: cleared_def\<close>)
  obtain os3 a d where 3: "drive service lines core 512 (Suc t + Suc L) (io_go STREAM ?h1) =
      (streamed FINISH a d (io_go STREAM ?h1), os3)"
    "carries (ramp_word (h_lba (io_go STREAM ?h1))) (io_go STREAM ?h1) os3"
    by (rule rstream_run [of "io_go STREAM ?h1" core "Suc t + Suc L"]) (simp_all add: io_go_def cleared_def)
  have 4: "service c (streamed FINISH a d (io_go STREAM ?h1)) = fetched a d ?l i h" for c
    by (simp add: service_def hps_finish_def streamed_def fetched_def io_go_def cleared_def Let_def)
  show ?thesis
  proof (rule that)
    show "drive service lines core (L + 515) t h =
        (fetched a d ?l i h, lines ?h1 # os2 @ os3 @ [lines (fetched a d ?l i h)])"
      by (rule transaction [OF 1 2(1) 3(1) 4]) simp
  qed (use 2(2) 3(2) in \<open>auto simp: carries_def strobes_silent silent_def io_go_def cleared_def fetched_def\<close>)
qed

definition flushed :: "(nat \<Rightarrow> u16) \<Rightarrow> u32 \<Rightarrow> nat \<Rightarrow> Hps \<Rightarrow> Hps" where
  "flushed buf l i h = (cleared h)\<lparr>h_tgt := i, h_lba := l, was_write := True, h_t := 768, h_wi := 256,
     top_sd_buff_addr := 255, flushes := flushes h + 1, h_st := IDLE,
     written := put_grow 0xEE (unat l * 512) (sector_bytes buf 256) (written h)\<rparr>"

lemma write_transaction:
  assumes "h_st h = IDLE" "h_latency h = int (Suc L)" "asks_write i (core t (lines h))"
    "\<forall>t x. answers i buf x (core t x)"
  obtains os where
    "drive service lines core (L + 771) t h = (flushed buf (io_lba i (core t (lines h))) i h, os)" "silent os"
proof -
  let ?l = "io_lba i (core t (lines h))"
  let ?h1 = "(cleared h)\<lparr>h_tgt := i, h_lba := ?l, was_write := True, h_st := WWAIT, h_t := 0\<rparr>"
  note 1 = idle_write [OF assms(1,3)]
  obtain os2 where 2: "drive service lines core (Suc L) (Suc t) ?h1 = (io_go WCAP ?h1, os2)" "silent os2"
    by (rule wwait_run [of ?h1 L core "Suc t"]) (use assms(2) in \<open>simp_all add: cleared_def\<close>)
  obtain os3 where 3: "drive service lines core 768 (Suc t + Suc L) (io_go WCAP ?h1) =
      (captured buf (io_go WCAP ?h1), os3)" "silent os3"
    by (rule wcap_run [of "io_go WCAP ?h1" buf core "Suc t + Suc L"])
       (use assms(4) in \<open>simp_all add: io_go_def cleared_def\<close>)
  have 4: "service c (captured buf (io_go WCAP ?h1)) = flushed buf ?l i h" for c
    by (simp add: service_def hps_finish_def captured_def flushed_def io_go_def cleared_def Let_def)
  show ?thesis
  proof (rule that)
    show "drive service lines core (L + 771) t h =
        (flushed buf ?l i h, lines ?h1 # os2 @ os3 @ [lines (flushed buf ?l i h)])"
      by (rule transaction [OF 1 2(1) 3(1) 4]) simp
  qed (use 2(2) 3(2) in \<open>simp add: cleared_def flushed_def\<close>)
qed

text \<open>Toolbox blocks, from the state in which the request was latched.\<close>

definition tb_written :: "(nat \<Rightarrow> u16) \<Rightarrow> u32 \<Rightarrow> Hps \<Rightarrow> Hps" where
  "tb_written buf l h = (cleared h)\<lparr>h_lba := l, h_t := 768, h_wi := 256, top_sd_buff_addr := 255,
     tbblk := sector_bytes buf 256, tb_writes := tb_writes h + 1, h_st := IDLE,
     tbx := tb_request (unat l) (sector_bytes buf 256) (tbx h)\<rparr>"

lemma tb_write_transaction:
  assumes "h_st h = IDLE" "h_latency h = int (Suc L)" "asks_none (core t (lines h))"
    "top_tb_wr (core t (lines h))" "\<not> every_nth (tb_wdefer_every h) (tb_writes h + 1)" "tb_ack_hold h = 0"
    "length (tbblk h) = 512" "\<forall>t x. tb_answers buf x (core t x)"
  obtains os where
    "drive service lines core (L + 771) t h = (tb_written buf (top_tb_lba (core t (lines h))) h, os)" "silent os"
proof -
  let ?l = "top_tb_lba (core t (lines h))"
  let ?h1 = "(cleared h)\<lparr>tb_writes := tb_writes h + 1, h_lba := ?l, h_st := TBWWAIT, h_t := 0\<rparr>"
  have 1: "service (core t (lines h)) h = ?h1"
    using assms(4,5) idle_none [OF assms(1,3)] by (simp add: tb_poll_write_def cleared_def)
  obtain os2 where 2: "drive service lines core (Suc L) (Suc t) ?h1 = (tb_go TBWCAP ?h1, os2)" "silent os2"
    by (rule tbwwait_run [of ?h1 L core "Suc t"]) (use assms(2) in \<open>simp_all add: cleared_def\<close>)
  obtain os3 where 3: "drive service lines core 768 (Suc t + Suc L) (tb_go TBWCAP ?h1) =
      (tb_captured buf (tb_go TBWCAP ?h1), os3)" "silent os3"
    by (rule tbcap_run [of "tb_go TBWCAP ?h1" buf core "Suc t + Suc L"])
       (use assms(7,8) in \<open>simp_all add: tb_go_def cleared_def\<close>)
  have 4: "service c (tb_captured buf (tb_go TBWCAP ?h1)) = tb_written buf ?l h" for c
    using assms(6)
    by (simp add: service_def hps_tbfinish_def tb_captured_def tb_written_def tb_go_def cleared_def Let_def)
  show ?thesis
  proof (rule that)
    show "drive service lines core (L + 771) t h =
        (tb_written buf ?l h, lines ?h1 # os2 @ os3 @ [lines (tb_written buf ?l h)])"
      by (rule transaction [OF 1 2(1) 3(1) 4]) simp
  qed (use 2(2) 3(2) in \<open>simp add: cleared_def tb_written_def\<close>)
qed

definition tb_served :: "u8 \<Rightarrow> u16 \<Rightarrow> u32 \<Rightarrow> Hps \<Rightarrow> Hps" where
  "tb_served a d l h = (stage_fill l (cleared h))\<lparr>tb_reads := tb_reads h + 1, h_t := 512, h_wi := 256,
     cur_tb_latency := (if every_nth (tb_slow_every h) (tb_reads h + 1) then tb_slow_latency h else h_latency h),
     top_sd_buff_addr := a, top_sd_buff_dout := d, h_st := IDLE\<rparr>"

lemma stage_fill_simps:
  "stage_fill l h = h\<lparr>h_lba := l, tbblk := fst (tb_fill (unat l) (tbx h)), tbx := snd (tb_fill (unat l) (tbx h))\<rparr>"
  by (simp add: stage_fill_def split: prod.split)

lemma tb_read_transaction:
  assumes "h_st h = IDLE" "asks_none (core t (lines h))"
    "\<not> top_tb_wr (core t (lines h))" "top_tb_rd (core t (lines h))"
    "(if every_nth (tb_slow_every h) (tb_reads h + 1) then tb_slow_latency h else h_latency h) = int (Suc L)"
    "\<not> every_nth (tb_defer_every h) (tb_reads h + 1)" "tb_ack_hold h = 0"
  obtains os a d where
    "drive service lines core (L + 515) t h = (tb_served a d (top_tb_lba (core t (lines h))) h, os)"
    "hps_strobes os = map (\<lambda>k. (of_nat k,
        blk_word (fst (tb_fill (unat (top_tb_lba (core t (lines h)))) (tbx h))) k)) [0..<256]"
    "\<forall>x\<in>set os. top_sd_buff_wr x \<longrightarrow> top_tb_ack x"
proof -
  let ?l = "top_tb_lba (core t (lines h))"
  let ?h1 = "(stage_fill ?l (cleared h))\<lparr>tb_reads := tb_reads h + 1, cur_tb_latency := int (Suc L),
      h_st := TBRWAIT, h_t := 0\<rparr>"
  have 1: "service (core t (lines h)) h = ?h1"
    using assms(3,4,6) assms(5) [symmetric] idle_none [OF assms(1,2)]
    by (simp add: tb_poll_read_def cleared_def stage_fill_simps)
  obtain os2 where 2: "drive service lines core (Suc L) (Suc t) ?h1 = (tb_go TBRSTREAM ?h1, os2)" "silent os2"
    by (rule tbrwait_run [of ?h1 L core "Suc t"]) (simp_all add: cleared_def stage_fill_simps)
  obtain os3 a d where 3: "drive service lines core 512 (Suc t + Suc L) (tb_go TBRSTREAM ?h1) =
      (streamed TBFINISH a d (tb_go TBRSTREAM ?h1), os3)"
    "carries (blk_word (tbblk (tb_go TBRSTREAM ?h1))) (tb_go TBRSTREAM ?h1) os3"
    by (rule tbstream_run [of "tb_go TBRSTREAM ?h1" core "Suc t + Suc L"])
       (simp_all add: tb_go_def cleared_def stage_fill_simps)
  have 4: "service c (streamed TBFINISH a d (tb_go TBRSTREAM ?h1)) = tb_served a d ?l h" for c
    using assms(7) assms(5) [symmetric]
    by (simp add: service_def hps_tbfinish_def streamed_def tb_served_def tb_go_def cleared_def Let_def
        stage_fill_simps)
  show ?thesis
  proof (rule that)
    show "drive service lines core (L + 515) t h =
        (tb_served a d ?l h, lines ?h1 # os2 @ os3 @ [lines (tb_served a d ?l h)])"
      by (rule transaction [OF 1 2(1) 3(1) 4]) simp
  qed (use 2(2) 3(2) in \<open>auto simp: carries_def strobes_silent silent_def tb_go_def cleared_def
        tb_served_def stage_fill_simps\<close>)
qed

section \<open>Deferred requests\<close>

interpretation wdefer: phase service lines
  "\<lambda>k h. h = h0\<lparr>h_t := k\<rparr> \<and> h_st h0 = TBWDEFER \<and> tb_wdefer_latency h0 = int (Suc M) \<and> \<not> top_sd_buff_wr h0"
  "\<lambda>_ _. True" "\<lambda>_. quiet" M for h0 M
  by unfold_locales (auto simp: service_def hps_tbwdefer_def quiet_def Let_def)

lemma wdefer_run:
  assumes "h_st h = TBWDEFER" "h_t h = 0" "tb_wdefer_latency h = int (Suc M)" "\<not> top_sd_buff_wr h"
  obtains os where "drive service lines core M t h = (h\<lparr>h_t := M\<rparr>, os)" "silent os"
  by (rule wdefer.whole [where ?h0.0 = h and s = h and M = M and core = core and t = t])
     (use assms that in \<open>auto intro: quiet_silent\<close>)

text \<open>The state after a deferred request has slept through all but its last call.\<close>

definition asleep :: "nat \<Rightarrow> u32 \<Rightarrow> Hps \<Rightarrow> Hps" where
  "asleep M l h = (cleared h)\<lparr>tb_writes := tb_writes h + 1, tb_wdefers := tb_wdefers h + 1,
     lba_at_defer := l, h_st := TBWDEFER, h_t := M\<rparr>"

lemma falls_asleep:
  assumes "h_st h = IDLE" "asks_none (core t (lines h))" "top_tb_wr (core t (lines h))"
    "every_nth (tb_wdefer_every h) (tb_writes h + 1)" "tb_wdefer_latency h = int (Suc M)"
  obtains os where "drive service lines core (Suc M) t h = (asleep M (top_tb_lba (core t (lines h))) h, os)"
    "silent os"
proof -
  let ?l = "top_tb_lba (core t (lines h))"
  have 1: "service (core t (lines h)) h = asleep 0 ?l h"
    using assms(3,4) idle_none [OF assms(1,2)] by (simp add: tb_poll_write_def cleared_def asleep_def)
  obtain os where 2: "drive service lines core M (Suc t) (asleep 0 ?l h) = ((asleep 0 ?l h)\<lparr>h_t := M\<rparr>, os)"
    "silent os"
    by (rule wdefer_run [of "asleep 0 ?l h" M core "Suc t"])
       (use assms(5) in \<open>simp_all add: cleared_def asleep_def\<close>)
  show ?thesis using drive_step [OF 1 2(1)] 2(2)
    by (intro that [of "lines (asleep 0 ?l h) # os"]) (simp_all add: asleep_def cleared_def)
qed

definition woken :: "(nat \<Rightarrow> u16) \<Rightarrow> u32 \<Rightarrow> u32 \<Rightarrow> Hps \<Rightarrow> Hps" where
  "woken buf l l' h = (tb_written buf l' h)\<lparr>tb_wdefers := tb_wdefers h + 1, lba_at_defer := l,
     tb_wlost := (if l' = l then tb_wlost h else tb_wlost h + 1)\<rparr>"

lemma wakes_and_serves:
  assumes "h_latency h = int (Suc L)" "tb_wdefer_latency h = int (Suc M)" "tb_ack_hold h = 0"
    "length (tbblk h) = 512" "top_tb_wr (core t (lines (asleep M l h)))" "\<forall>t x. tb_answers buf x (core t x)"
  obtains os where
    "drive service lines core (L + 771) t (asleep M l h) =
       (woken buf l (top_tb_lba (core t (lines (asleep M l h)))) h, os)" "silent os"
proof -
  let ?l' = "top_tb_lba (core t (lines (asleep M l h)))"
  let ?h1 = "(asleep M l h)\<lparr>h_t := 0, h_lba := ?l', h_st := TBWWAIT,
      tb_wlost := (if ?l' = l then tb_wlost h else tb_wlost h + 1)\<rparr>"
  have 1: "service (core t (lines (asleep M l h))) (asleep M l h) = ?h1"
    using assms(2,5) by (simp add: service_def hps_tbwdefer_def asleep_def cleared_def Let_def)
  obtain os2 where 2: "drive service lines core (Suc L) (Suc t) ?h1 = (tb_go TBWCAP ?h1, os2)" "silent os2"
    by (rule tbwwait_run [of ?h1 L core "Suc t"]) (use assms(1) in \<open>simp_all add: cleared_def asleep_def\<close>)
  obtain os3 where 3: "drive service lines core 768 (Suc t + Suc L) (tb_go TBWCAP ?h1) =
      (tb_captured buf (tb_go TBWCAP ?h1), os3)" "silent os3"
    by (rule tbcap_run [of "tb_go TBWCAP ?h1" buf core "Suc t + Suc L"])
       (use assms(4,6) in \<open>simp_all add: tb_go_def cleared_def asleep_def\<close>)
  have 4: "service c (tb_captured buf (tb_go TBWCAP ?h1)) = woken buf l ?l' h" for c
    using assms(3)
    by (simp add: service_def hps_tbfinish_def tb_captured_def woken_def tb_written_def tb_go_def asleep_def
        cleared_def Let_def)
  show ?thesis
  proof (rule that)
    show "drive service lines core (L + 771) t (asleep M l h) =
        (woken buf l ?l' h, lines ?h1 # os2 @ os3 @ [lines (woken buf l ?l' h)])"
      by (rule transaction [OF 1 2(1) 3(1) 4]) simp
  qed (use 2(2) 3(2) in \<open>simp add: cleared_def asleep_def woken_def tb_written_def\<close>)
qed

section \<open>The data pattern\<close>

lemma byte_of_nat: "(ucast (drop_bit n (off :: u64)) :: u8) = of_nat (unat off div 2 ^ n)"
proof -
  have "(ucast (drop_bit n off) :: u8) = of_nat (unat (drop_bit n off))" by simp
  then show ?thesis unfolding unat_drop_bit_eq by (simp only: drop_bit_eq_div)
qed

lemma ucast_and_ff: "(ucast (w AND 0xff :: u64) :: u8) = ucast w"
proof -
  have m: "(0xff :: u64) = mask 8" by (simp add: mask_eq_exp_minus_1)
  show ?thesis unfolding m by (rule bit_word_eqI) (auto simp: bit_simps)
qed

lemma ramp_bytes:
  "ramp off = of_nat (unat off) XOR of_nat (unat off div 256) XOR of_nat (unat off div 65536)"
proof -
  have x: "(ucast (a XOR b) :: u8) = ucast a XOR ucast b" for a b :: u64
    by (rule bit_word_eqI) (auto simp: bit_simps)
  show ?thesis
    using byte_of_nat [of 0 off] byte_of_nat [of 8 off] byte_of_nat [of 16 off]
    by (simp add: ramp_def x ucast_and_ff)
qed

lemma xor_cancel: "(a XOR b = a XOR c) \<longleftrightarrow> b = (c :: u8)"
  by (metis xor_self_eq xor.left_neutral xor.assoc)

lemma xor_cancel_right: "(b XOR a = c XOR a) \<longleftrightarrow> b = (c :: u8)"
  using xor_cancel [of a b c] by (simp only: xor.commute)

lemma unat_of_nat_u64: "n < 2 ^ 64 \<Longrightarrow> unat (of_nat n :: u64) = n"
  by (simp add: unsigned_of_nat take_bit_nat_eq_self)

lemma div_add_carry:
  fixes d m n :: nat
  assumes "m < d"
  shows "(n + m) div d = n div d \<or> (n + m) div d = n div d + 1"
proof -
  have "n mod d < d" "m mod d < d" using assms by simp_all
  then have "n mod d + m mod d < 2 * d" by linarith
  then have "(n mod d + m mod d) div d < 2" by (rule less_mult_imp_div_less)
  then show ?thesis using assms div_add1_eq [of n m d] by auto
qed

lemma ramp_differs:
  assumes "0 < k" "k < 128" "unat off + 512 * k < 2 ^ 64"
  shows "ramp (off + of_nat (512 * k)) \<noteq> ramp off"
proof
  assume e: "ramp (off + of_nat (512 * k)) = ramp off"
  let ?n = "unat off"
  have u: "unat (off + of_nat (512 * k)) = ?n + 512 * k"
  proof -
    have "512 * k < 2 ^ 64" using assms(3) by linarith
    then have "unat (of_nat (512 * k) :: u64) = 512 * k" by (rule unat_of_nat_u64)
    then show ?thesis using assms(3) unat_add_lem [of off "of_nat (512 * k)"] by simp
  qed
  obtain c where c: "(?n + 512 * k) div 65536 = ?n div 65536 + c" "c = 0 \<or> c = 1"
    using assms(2) div_add_carry [of "512 * k" 65536 ?n] by (fastforce intro: that)
  have b1: "(?n + 512 * k) div 256 = ?n div 256 + 2 * k"
    using div_mult_self2 [of "256 :: nat" ?n "2 * k"] by simp
  have b0: "(of_nat (?n + 512 * k) :: u8) = of_nat ?n"
  proof -
    have "(of_nat (?n + 512 * k) :: u8) = of_nat ?n + of_nat (512 * k)" by simp
    moreover have "(of_nat (512 * k) :: u8) = 0"
      by (simp only: word_of_nat_eq_0_iff) simp
    ultimately show ?thesis by simp
  qed
  have x: "(of_nat (?n div 256 + 2 * k) :: u8) XOR of_nat (?n div 65536 + c) =
      of_nat (?n div 256) XOR of_nat (?n div 65536)"
    using e unfolding ramp_bytes u c(1) b1 b0 by (simp only: xor_cancel xor.assoc)
  show False
  proof (cases "c = 0")
    case True
    then have "(of_nat (?n div 256) + of_nat (2 * k) :: u8) = of_nat (?n div 256)"
      using x unfolding True by (simp add: xor_cancel_right)
    then have "(of_nat (2 * k) :: u8) = 0" by (metis add.right_neutral add_left_cancel)
    then show False using assms(1,2) of_nat_eq_0_word_iff [of "2 * k", where 'a = 8] by simp
  next
    case False
    then have c1: "c = 1" using c(2) by simp
    have bits: "bit (of_nat m :: u8) 0 \<longleftrightarrow> odd m" for m by (simp add: bit_0 even_of_nat_iff)
    have "bit ((of_nat (?n div 256 + 2 * k) :: u8) XOR of_nat (?n div 65536 + 1)) 0 \<longleftrightarrow>
      bit ((of_nat (?n div 256) :: u8) XOR of_nat (?n div 65536)) 0"
      using x c1 by simp
    then show False unfolding bit_xor_iff bits by auto
  qed
qed

section \<open>Uploads through the server\<close>

text \<open>A core that holds one Toolbox write request until it is served.\<close>

definition tb_core :: "u32 \<Rightarrow> (nat \<Rightarrow> u16) \<Rightarrow> nat \<Rightarrow> HpsLines \<Rightarrow> CoreLines" where
  "tb_core l buf t x = \<lparr>top_io_rd = 0, top_io_wr = 0, top_io_lba_0 = 0, top_io_lba_1 = 0,
     top_sd_buff_din_0 = 0, top_sd_buff_din_1 = 0, top_tb_wr = True, top_tb_rd = False,
     top_tb_lba = l, top_tb_buff_din = buf (unat (top_sd_buff_addr x))\<rparr>"

fun ship_all :: "(nat \<times> u8 list) list \<Rightarrow> Hps \<Rightarrow> Hps" where
  "ship_all [] h = h"
| "ship_all ((l, b) # bs) h =
     ship_all bs (fst (drive service lines (tb_core (of_nat l) (blk_word b)) (nat (h_latency h) + 770) 0 h))"

lemma tb_core_simps [simp]:
  "asks_none (tb_core l buf t x)" "top_tb_wr (tb_core l buf t x)" "top_tb_lba (tb_core l buf t x) = l"
  "tb_answers buf x (tb_core l buf t x)"
  by (simp_all add: tb_core_def asks_none_def tb_answers_def)

lemma sector_bytes_blk_word:
  assumes "length b = 2 * n"
  shows "sector_bytes (blk_word b) n = b"
  using assms
proof (induction n arbitrary: b)
  case 0
  then show ?case by (simp add: sector_bytes_def)
next
  case (Suc n)
  have e: "b = take (2 * n) b @ [b ! (n * 2), b ! Suc (n * 2)]"
    using Suc.prems id_take_nth_drop [of "2 * n" b] by (simp add: Cons_nth_drop_Suc [symmetric] mult.commute)
  have "sector_bytes (blk_word b) n = sector_bytes (blk_word (take (2 * n) b)) n"
    unfolding sector_bytes_def by (intro arg_cong [where f = concat] map_cong) (auto simp: blk_word_def)
  then have "sector_bytes (blk_word b) n = take (2 * n) b" using Suc.IH [of "take (2 * n) b"] Suc.prems by simp
  moreover have "[hi8 (blk_word b n), lo8 (blk_word b n)] = [b ! (n * 2), b ! Suc (n * 2)]"
    by (simp add: blk_word_def)
  ultimately show ?case using e by (simp only: sector_bytes_Suc)
qed

definition hps_ready :: "Hps \<Rightarrow> bool" where
  "hps_ready h \<longleftrightarrow> h_st h = IDLE \<and> 1 \<le> h_latency h \<and> tb_wdefer_every h = 0 \<and> tb_ack_hold h = 0 \<and>
     length (tbblk h) = 512"

lemma ship_one:
  assumes "hps_ready h" "l \<le> TAIL_BLKS" "length b = 512"
  shows "fst (drive service lines (tb_core (of_nat l) (blk_word b)) (nat (h_latency h) + 770) 0 h) =
    tb_written (blk_word b) (of_nat l) h"
proof -
  define L where "L = nat (h_latency h) - 1"
  then have L: "h_latency h = int (Suc L)" "nat (h_latency h) + 770 = L + 771"
    using assms(1) by (simp_all add: hps_ready_def)
  show ?thesis unfolding L(2)
    by (rule tb_write_transaction [OF _ L(1), where core = "tb_core (of_nat l) (blk_word b)" and t = 0
          and buf = "blk_word b"])
       (use assms(1) in \<open>simp_all add: hps_ready_def every_nth_def\<close>)
qed

lemma ready_tb_written:
  assumes "hps_ready h" "l \<le> TAIL_BLKS" "length b = 512"
  shows "hps_ready (tb_written (blk_word b) (of_nat l) h)"
    "tbx (tb_written (blk_word b) (of_nat l) h) = tb_request l b (tbx h)"
proof -
  have "unat (of_nat l :: u32) = l" using assms(2) by (simp add: unsigned_of_nat take_bit_nat_eq_self tail_size)
  then show "hps_ready (tb_written (blk_word b) (of_nat l) h)"
    "tbx (tb_written (blk_word b) (of_nat l) h) = tb_request l b (tbx h)"
    using assms(1,3) by (simp_all add: hps_ready_def tb_written_def cleared_def sector_bytes_blk_word)
qed

lemma ship_all_requests:
  assumes "hps_ready h" "\<forall>(l, b)\<in>set bs. l \<le> TAIL_BLKS \<and> length b = 512"
  shows "tbx (ship_all bs h) = fold (\<lambda>(l, b). tb_request l b) bs (tbx h) \<and> hps_ready (ship_all bs h)"
  using assms
proof (induction bs arbitrary: h)
  case (Cons x bs)
  obtain l b where x: "x = (l, b)" by fastforce
  then show ?case using Cons ship_one [of h l b] ready_tb_written [of h l b] by simp
qed simp

section \<open>Properties\<close>

text \<open>C16. A sector fetch is exact. An idle server whose latency is L + 1 calls and that sees a read
  request of target i (the first target with any request) delivers in exactly L + 515 calls 256 strobes
  with the addresses 0 to 255 in order and the two pattern bytes of each word of the sector that was
  asked for, all of them with exactly the acknowledge bit of target i set, counts one fetch and is idle
  with the acknowledge lines low; the lines of the core are free to do anything after the request was seen.\<close>

theorem hps_read_sector:
  assumes "h_st h = IDLE" "h_latency h = int (Suc L)" "asks_read i (core 0 (lines h))"
  shows "\<exists>h' os. drive service lines core (L + 515) 0 h = (h', os) \<and> h_st h' = IDLE \<and>
     fetches h' = fetches h + 1 \<and> written h' = written h \<and> tbx h' = tbx h \<and> top_io_ack h' = 0 \<and>
     hps_strobes os = map (\<lambda>k. (of_nat k, ramp_word (io_lba i (core 0 (lines h))) k)) [0..<256] \<and>
     (\<forall>x\<in>set os. top_sd_buff_wr x \<longrightarrow> top_io_ack x = push_bit i 1)"
  by (rule read_transaction [where core = core and t = 0, OF assms]) (auto simp: fetched_def cleared_def)

definition demo_lines :: "u8 \<Rightarrow> u8 \<Rightarrow> CoreLines" where
  "demo_lines rd wr = \<lparr>top_io_rd = rd, top_io_wr = wr, top_io_lba_0 = 7, top_io_lba_1 = 9,
     top_sd_buff_din_0 = 0x1234, top_sd_buff_din_1 = 0x5678, top_tb_wr = False, top_tb_rd = False,
     top_tb_lba = 0, top_tb_buff_din = 0\<rparr>"

theorem hps_read_sector_witness:
  "\<exists>h' os. drive service lines (\<lambda>_ _. demo_lines 2 0) 1114 0 (hps_init tb_init) = (h', os) \<and> h_st h' = IDLE \<and>
     hps_strobes os = map (\<lambda>k. (of_nat k, ramp_word 9 k)) [0..<256]"
  using hps_read_sector [of "hps_init tb_init" 599 1 "\<lambda>_ _. demo_lines 2 0"]
  by (auto simp: hps_init_def demo_lines_def asks_read_def io_lba_def bit_0)

text \<open>C20. A sector flush is exact. When target i asks for a write and its buffer answers every address
  with its word, the server stores in L + 771 calls the 512 bytes of the buffer at the sector of the
  written image and changes nothing else of it, filling a gap before the sector with 0xEE; it gives no
  strobe, counts one flush and is idle.\<close>

theorem hps_write_sector:
  assumes "h_st h = IDLE" "h_latency h = int (Suc L)" "asks_write i (core 0 (lines h))"
    "\<forall>t x. answers i buf x (core t x)"
  shows "\<exists>h' os. drive service lines core (L + 771) 0 h = (h', os) \<and> h_st h' = IDLE \<and>
     flushes h' = flushes h + 1 \<and> hps_strobes os = [] \<and>
     written h' = put_grow 0xEE (unat (io_lba i (core 0 (lines h))) * 512) (sector_bytes buf 256) (written h)"
  by (rule write_transaction [where core = core and t = 0, OF assms]) (auto simp: flushed_def cleared_def strobes_silent)

theorem hps_write_sector_witness:
  "\<exists>h' os. drive service lines (\<lambda>_ _. demo_lines 0 1) 1370 0 (hps_init tb_init) = (h', os) \<and>
     written h' = put_grow 0xEE 3584 (sector_bytes (\<lambda>_. 0x1234) 256) []"
  using hps_write_sector [of "hps_init tb_init" 599 0 "\<lambda>_ _. demo_lines 0 1" "\<lambda>_. 0x1234"]
  by (auto simp: hps_init_def demo_lines_def asks_write_def io_lba_def bit_0 answers_def)

text \<open>A Toolbox answer is the one of the moment the request was seen. With no disk request
  pending and no deferral due, the server answers a Toolbox read in exactly L + 515 calls (L + 1 being the
  normal or the injected slow latency) with the 256 words of the block the service staged for that
  block number, all strobes under the Toolbox acknowledge, whatever the core asks for meanwhile.\<close>

theorem hps_tb_read_block:
  assumes "h_st h = IDLE" "asks_none (core 0 (lines h))"
    "\<not> top_tb_wr (core 0 (lines h))" "top_tb_rd (core 0 (lines h))"
    "(if every_nth (tb_slow_every h) (tb_reads h + 1) then tb_slow_latency h else h_latency h) = int (Suc L)"
    "\<not> every_nth (tb_defer_every h) (tb_reads h + 1)" "tb_ack_hold h = 0"
  shows "\<exists>h' os. drive service lines core (L + 515) 0 h = (h', os) \<and> h_st h' = IDLE \<and> \<not> top_tb_ack h' \<and>
     hps_strobes os = map (\<lambda>k. (of_nat k,
        blk_word (fst (tb_fill (unat (top_tb_lba (core 0 (lines h)))) (tbx h))) k)) [0..<256] \<and>
     (\<forall>x\<in>set os. top_sd_buff_wr x \<longrightarrow> top_tb_ack x) \<and>
     tbx h' = snd (tb_fill (unat (top_tb_lba (core 0 (lines h)))) (tbx h))"
  by (rule tb_read_transaction [where core = core and t = 0, OF assms]) (auto simp: tb_served_def stage_fill_simps cleared_def)

theorem hps_tb_read_block_witness:
  "\<exists>h' os. drive service lines (\<lambda>_ _. (demo_lines 0 0)\<lparr>top_tb_rd := True\<rparr>) 1114 0 (hps_init tb_init) = (h', os) \<and>
     hps_strobes os = map (\<lambda>k. (of_nat k, blk_word (fst (tb_fill 0 tb_init)) k)) [0..<256]"
  using hps_tb_read_block [of "hps_init tb_init" "\<lambda>_ _. (demo_lines 0 0)\<lparr>top_tb_rd := True\<rparr>" 599]
  by (auto simp: hps_init_def demo_lines_def asks_none_def every_nth_def)

text \<open>A deferred Toolbox write serves what the core asks for when the server wakes up. When the
  write is the one to be deferred, the server sleeps M + 1 calls without latching anything; if the
  core has withdrawn the request by then, the service sees nothing and the request is counted lost;
  otherwise the block the core now asks for is captured and handed to the service exactly once, and
  the request is counted lost exactly when its block number is not the one asked for at first.\<close>

theorem hps_deferred_write:
  assumes "h_st h = IDLE" "asks_none (core 0 (lines h))" "top_tb_wr (core 0 (lines h))"
    "every_nth (tb_wdefer_every h) (tb_writes h + 1)" "tb_wdefer_latency h = int (Suc M)"
    "h_latency h = int (Suc L)" "tb_ack_hold h = 0" "length (tbblk h) = 512"
    "\<forall>t x. tb_answers buf x (core t x)"
    "l = top_tb_lba (core 0 (lines h))"
    "c = core (Suc M) (lines (asleep M l h))"
  shows "(\<not> top_tb_wr c \<longrightarrow>
      (\<exists>h' os. drive service lines core (M + 2) 0 h = (h', os) \<and> h_st h' = IDLE \<and> tbx h' = tbx h \<and>
         tb_wlost h' = tb_wlost h + 1)) \<and>
    (top_tb_wr c \<longrightarrow>
      (\<exists>h' os. drive service lines core (M + L + 772) 0 h = (h', os) \<and> h_st h' = IDLE \<and>
         tbx h' = tb_request (unat (top_tb_lba c)) (sector_bytes buf 256) (tbx h) \<and>
         tb_wlost h' = (if top_tb_lba c = l then tb_wlost h else tb_wlost h + 1)))"
proof -
  obtain os where d: "drive service lines core (Suc M) 0 h = (asleep M l h, os)"
    unfolding assms(10) by (rule falls_asleep [where core = core and t = 0, OF assms(1-5)])
  have "\<exists>h' os. drive service lines core (M + 2) 0 h = (h', os) \<and> h_st h' = IDLE \<and> tbx h' = tbx h \<and>
         tb_wlost h' = tb_wlost h + 1" if w: "\<not> top_tb_wr c"
  proof -
    have s: "drive service lines core 1 (0 + Suc M) (asleep M l h) =
        (service c (asleep M l h), [lines (service c (asleep M l h))])"
      unfolding drive_1 assms(11) by simp
    have "service c (asleep M l h) = (asleep M l h)\<lparr>h_t := Suc M, tb_wlost := tb_wlost h + 1, h_st := IDLE\<rparr>"
      using w assms(5) by (simp add: service_def hps_tbwdefer_def asleep_def cleared_def Let_def)
    then show ?thesis using drive_add [OF d s] by (simp add: asleep_def cleared_def)
  qed
  moreover have "\<exists>h' os. drive service lines core (M + L + 772) 0 h = (h', os) \<and> h_st h' = IDLE \<and>
         tbx h' = tb_request (unat (top_tb_lba c)) (sector_bytes buf 256) (tbx h) \<and>
         tb_wlost h' = (if top_tb_lba c = l then tb_wlost h else tb_wlost h + 1)" if w: "top_tb_wr c"
  proof -
    obtain os2 where s: "drive service lines core (L + 771) (0 + Suc M) (asleep M l h) =
        (woken buf l (top_tb_lba c) h, os2)"
      by (rule wakes_and_serves [OF assms(6,5,7,8), where core = core and t = "0 + Suc M" and buf = buf and l = l])
         (use w assms(9,11) in simp_all)
    have "M + L + 772 = Suc M + (L + 771)" by simp
    with drive_add [OF d s] have "drive service lines core (M + L + 772) 0 h =
        (woken buf l (top_tb_lba c) h, os @ os2)" by (simp only:)
    then show ?thesis by (simp add: woken_def tb_written_def)
  qed
  ultimately show ?thesis by blast
qed

theorem hps_deferred_write_witness:
  "\<exists>h' os. drive service lines (\<lambda>t x. tb_core (if t = 0 then 1 else 2) (\<lambda>_. 0) t x) 3371 0
      ((hps_init tb_init)\<lparr>tb_wdefer_every := 1, tb_wdefer_latency := 2001\<rparr>) = (h', os) \<and>
     tbx h' = tb_request 2 (sector_bytes (\<lambda>_. 0) 256) tb_init \<and> tb_wlost h' = 1"
  using hps_deferred_write [of "(hps_init tb_init)\<lparr>tb_wdefer_every := 1, tb_wdefer_latency := 2001\<rparr>"
      "\<lambda>t x. tb_core (if t = 0 then 1 else 2) (\<lambda>_. 0) t x" 2000 599 "\<lambda>_. 0" 1
      "tb_core 2 (\<lambda>_. 0) 2001 (lines (asleep 2000 1 ((hps_init tb_init)\<lparr>tb_wdefer_every := 1, tb_wdefer_latency := 2001\<rparr>)))"]
  by (auto simp: hps_init_def every_nth_def)

text \<open>C4. An upload through the server is exact: a core that ships the blocks of an upload (the
  announcement, for every chunk its tail blocks and its command block, the end) one after the
  other to a server without deferrals leaves the service with exactly the bytes of the file.\<close>

theorem hps_upload_file:
  assumes "hps_ready h" "tb_ok (tbx h)" "name \<noteq> []" "length name \<le> 32" "0 \<notin> set name" "chunks_ok 0 cs"
  shows "upload (tbx (ship_all (file_blocks name cs) h)) = concat cs \<and>
         upload_name (tbx (ship_all (file_blocks name cs) h)) = name \<and>
         \<not> upload_open (tbx (ship_all (file_blocks name cs) h))"
proof -
  have "\<forall>(l, b)\<in>set (file_blocks name cs). l \<le> TAIL_BLKS \<and> length b = 512"
    using file_blocks_fit [OF assms(6,4)] by auto
  from ship_all_requests [OF assms(1) this] send_file_exact [OF assms(2-6)] show ?thesis
    by (simp add: fold_file_blocks)
qed

theorem hps_upload_file_witness:
  "upload (tbx (ship_all (file_blocks [0x61] [replicate 1024 7, replicate 700 9]) (hps_init tb_init))) =
     replicate 1024 7 @ replicate 700 9"
  using hps_upload_file [of "hps_init tb_init" "[0x61]" "[replicate 1024 7, replicate 700 9]"]
  by (simp add: hps_ready_def hps_init_def tb_init_def tb_ok_def)

text \<open>The data pattern shows stale sectors up to 64 KB away: the byte at any offset differs from
  the byte k sectors further for every k from 1 to 127; but not for every distance, since the
  byte at offset 512 equals the one 255 sectors further.\<close>

theorem ramp_detects_stale:
  "(\<forall>off k. 0 < k \<and> k < 128 \<and> unat off + 512 * k < 2 ^ 64 \<longrightarrow> ramp (off + of_nat (512 * k)) \<noteq> ramp off) \<and>
   ramp (512 + of_nat (512 * 255)) = ramp 512"
proof -
  have "ramp (512 + of_nat (512 * 255)) = ramp 512" by (simp add: ramp_def)
  then show ?thesis using ramp_differs by blast
qed

theorem ramp_detects_stale_witness: "ramp (0x3B0000 + 8192) \<noteq> ramp 0x3B0000"
  using ramp_detects_stale [THEN conjunct1, rule_format, of 16 "0x3B0000"] by simp

end
