(* ===== verification/StateProg.thy ===== *)
theory StateProg
  imports SimPrelude "HOL-Library.State_Monad"
begin

text \<open>
  Programs over an explicit state: the loops the benches use, written over the state monad of the
  library, and two judgements on programs with their rules: keeps (an invariant of the state)
  and triple (a relation between the state before, the result and the state after).
\<close>

section \<open>Programs\<close>

abbreviation modify :: "('s \<Rightarrow> 's) \<Rightarrow> ('s, unit) state" where
  "modify f \<equiv> State_Monad.update f"

definition gets :: "('s \<Rightarrow> 'a) \<Rightarrow> ('s, 'a) state" where
  "gets f = State (\<lambda>s. (f s, s))"

lemma run_gets [simp]: "run_state (gets f) s = (f s, s)"
  by (simp add: gets_def)

lemma run_modify [simp]: "run_state (modify f) s = ((), f s)"
  by (simp add: State_Monad.update_def)

text \<open>for (int i = 0; i < n; i++) m\<close>

primrec times :: "nat \<Rightarrow> ('s, unit) state \<Rightarrow> ('s, unit) state" where
  "times 0 m = State_Monad.return ()"
| "times (Suc n) m = do { m; times n m }"

text \<open>for (x : xs) if (!f(x)) return false\<close>

primrec all_ok :: "('a \<Rightarrow> ('s, bool) state) \<Rightarrow> 'a list \<Rightarrow> ('s, bool) state" where
  "all_ok f [] = State_Monad.return True"
| "all_ok f (x # xs) = do { b \<leftarrow> f x; if b then all_ok f xs else State_Monad.return False }"

text \<open>for (int i = 0; i < n; i++) if ((m() & mask) == val) return true; return false\<close>

primrec try_times :: "nat \<Rightarrow> ('s, bool) state \<Rightarrow> ('s, bool) state" where
  "try_times 0 m = State_Monad.return False"
| "try_times (Suc n) m = do { b \<leftarrow> m; if b then State_Monad.return True else try_times n m }"

text \<open>Reading n bytes, each of which may fail: None when one did.\<close>

primrec read_n :: "nat \<Rightarrow> ('s, 'a option) state \<Rightarrow> ('s, 'a list option) state" where
  "read_n 0 m = State_Monad.return (Some [])"
| "read_n (Suc n) m = do {
     x \<leftarrow> m;
     case x of None \<Rightarrow> State_Monad.return None
     | Some v \<Rightarrow> do { r \<leftarrow> read_n n m; State_Monad.return (map_option ((#) v) r) } }"

section \<open>Invariants\<close>

named_theorems keep_rules "introduction rules for invariants of programs"

definition keeps :: "('s \<Rightarrow> bool) \<Rightarrow> ('s, 'a) state \<Rightarrow> bool" where
  "keeps I m \<longleftrightarrow> (\<forall>s. I s \<longrightarrow> I (snd (run_state m s)))"

lemma keepsD: "keeps I m \<Longrightarrow> I s \<Longrightarrow> I (snd (run_state m s))"
  by (simp add: keeps_def)

lemma keeps_return [keep_rules]: "keeps I (State_Monad.return x)"
  by (simp add: keeps_def)

lemma keeps_gets [keep_rules]: "keeps I (gets f)"
  by (simp add: keeps_def)

lemma keeps_bind [keep_rules]:
  "keeps I m \<Longrightarrow> (\<And>x. keeps I (f x)) \<Longrightarrow> keeps I (State_Monad.bind m f)"
  by (simp add: keeps_def case_prod_beta)

lemma keeps_if [keep_rules]: "keeps I m \<Longrightarrow> keeps I n \<Longrightarrow> keeps I (if b then m else n)"
  by simp

lemma keeps_case_option [keep_rules]:
  "keeps I m \<Longrightarrow> (\<And>x. keeps I (f x)) \<Longrightarrow> keeps I (case z of None \<Rightarrow> m | Some x \<Rightarrow> f x)"
  by (simp split: option.split)

lemma keeps_case_sum [keep_rules]:
  "(\<And>x. keeps I (f x)) \<Longrightarrow> (\<And>x. keeps I (g x)) \<Longrightarrow> keeps I (case z of Inl x \<Rightarrow> f x | Inr x \<Rightarrow> g x)"
  by (simp split: sum.split)

lemma keeps_case_prod [keep_rules]:
  "(\<And>x y. keeps I (f x y)) \<Longrightarrow> keeps I (case z of (x, y) \<Rightarrow> f x y)"
  by (simp split: prod.split)

lemma keeps_let [keep_rules]: "(\<And>x. keeps I (f x)) \<Longrightarrow> keeps I (let x = y in f x)"
  by simp

lemma keeps_modify: "(\<And>s. I s \<Longrightarrow> I (f s)) \<Longrightarrow> keeps I (modify f)"
  by (simp add: keeps_def)

lemma keeps_times [keep_rules]: "keeps I m \<Longrightarrow> keeps I (times n m)"
  by (induction n) (auto intro: keep_rules)

lemma keeps_all_ok [keep_rules]: "(\<And>x. keeps I (f x)) \<Longrightarrow> keeps I (all_ok f xs)"
  by (induction xs) (auto intro!: keep_rules)

lemma keeps_try_times [keep_rules]: "keeps I m \<Longrightarrow> keeps I (try_times n m)"
  by (induction n) (auto intro!: keep_rules)

lemma keeps_read_n [keep_rules]: "keeps I m \<Longrightarrow> keeps I (read_n n m)"
  by (induction n) (auto intro!: keep_rules)

section \<open>Results\<close>

text \<open>Every result of the program, from any state, satisfies Q.\<close>

named_theorems yield_rules "introduction rules for results of programs"

definition yields :: "('s, 'a) state \<Rightarrow> ('a \<Rightarrow> bool) \<Rightarrow> bool" where
  "yields m Q \<longleftrightarrow> (\<forall>s. Q (fst (run_state m s)))"

lemma yieldsD: "yields m Q \<Longrightarrow> run_state m s = (x, s') \<Longrightarrow> Q x"
  by (auto simp: yields_def dest: spec [of _ s])

lemma yields_return [yield_rules]: "Q x \<Longrightarrow> yields (State_Monad.return x) Q"
  by (simp add: yields_def)

lemma yields_bind:
  assumes "yields m P" "\<And>x. P x \<Longrightarrow> yields (f x) Q"
  shows "yields (State_Monad.bind m f) Q"
  using assms by (simp add: yields_def case_prod_beta)

lemma yields_any [yield_rules]: "yields m (\<lambda>_. True)"
  by (simp add: yields_def)

lemma yields_read_n: "yields (read_n n m) (\<lambda>r. case r of None \<Rightarrow> True | Some xs \<Rightarrow> length xs = n)"
proof (induction n)
  case (Suc n)
  then show ?case
    by (auto simp: yields_def case_prod_beta split: option.splits)
qed (simp add: yields_def)

section \<open>Polling\<close>

text \<open>The state after k runs of m.\<close>

primrec after :: "nat \<Rightarrow> ('s, 'a) state \<Rightarrow> 's \<Rightarrow> 's" where
  "after 0 m s = s"
| "after (Suc k) m s = after k m (snd (run_state m s))"

lemma after_Suc: "after (Suc k) m s = snd (run_state m (after k m s))"
  by (induction k arbitrary: s) simp_all

text \<open>What the k-th run of m from s returns.\<close>

definition answer :: "nat \<Rightarrow> ('s, 'a) state \<Rightarrow> 's \<Rightarrow> 'a" where
  "answer k m s = fst (run_state m (after k m s))"

lemma answer_Suc: "answer (Suc k) m s = answer k m (snd (run_state m s))"
  by (simp add: answer_def)

lemma run_try_times:
  "run_state (try_times n m) s =
     (if \<exists>k<n. answer k m s
      then (True, after (Suc (LEAST k. answer k m s)) m s)
      else (False, after n m s))"
proof (induction n arbitrary: s)
  case (Suc n)
  obtain b s1 where m: "run_state m s = (b, s1)" by fastforce
  have a0: "answer 0 m s = b" using m by (simp add: answer_def)
  have aS: "answer (Suc k) m s = answer k m s1" for k using m by (simp add: answer_Suc)
  show ?case
  proof (cases b)
    case True
    then have "(LEAST k. answer k m s) = 0" using a0 by (intro Least_equality) simp_all
    moreover have "\<exists>k<Suc n. answer k m s" using a0 True by blast
    ultimately show ?thesis using True m by simp
  next
    case False
    have ex: "(\<exists>k<Suc n. answer k m s) \<longleftrightarrow> (\<exists>k<n. answer k m s1)"
      using a0 False by (auto simp: less_Suc_eq_0_disj aS)
    have l: "(LEAST k. answer k m s) = Suc (LEAST k. answer k m s1)" if "\<exists>k<n. answer k m s1"
      using that a0 False aS Least_Suc [of "\<lambda>k. answer k m s"] by auto
    show ?thesis using Suc.IH [of s1] False m ex l by auto
  qed
qed simp

lemma after_const: "(\<And>s. snd (run_state m s) = f s) \<Longrightarrow> after k m s = (f ^^ k) s"
  by (induction k arbitrary: s) (simp_all add: funpow_swap1)

lemma run_times: "run_state (times n m) s = ((), after n m s)"
  by (induction n arbitrary: s) (simp_all add: case_prod_beta)

end
