(* ===== verification/ScsiHost.thy ===== *)
theory ScsiHost
  imports HpsModel StateProg
begin

text \<open>
  The host side of verilator/scsi_bench/scsi_bench.cpp: the bus cycles a Macintosh driver makes
  against the SCSI controller, as programs over the state of the bench. The compiled hardware
  is a parameter: a function from the clock level, the lines of the host and those of the
  block-device server to its next state and its outputs.
\<close>

section \<open>State\<close>

text \<open>The inputs of the hardware that the host drives.\<close>

record HostLines =
  top_bus_cs :: bool
  top_bus_rs :: nat
  top_ior :: bool
  top_iow :: bool
  top_dack :: bool
  top_dma_word :: bool
  top_dma_longword :: bool
  top_dma_second_word :: bool
  top_wdata :: u16
  top_reset :: bool
  top_img_mounted :: u8
  top_img_size :: u32
  top_tb_mounted :: bool

text \<open>Its outputs: the lines of the server, then those of the host bus and the taps.\<close>

record DutOut = CoreLines +
  top_dreq :: bool
  top_rdata :: u16
  top_dbg_wr :: u32
  tap_din_pair :: u16
  tap_din_pair_next :: u16
  tap_second_word_data :: u16
  tap_holdoff :: u8
  tap_suppress_ack :: bool
  tap_second_pending :: bool

type_synonym 'd dut_eval = "bool \<Rightarrow> HostLines \<Rightarrow> HpsLines \<Rightarrow> 'd \<Rightarrow> 'd \<times> DutOut"

record 'd bench =
  dut :: 'd
  host :: HostLines
  hps :: Hps
  outs :: DutOut
  cyc :: u64
  lcg_state :: u32
  csr_patience :: int

type_synonym ('d, 'a) prog = "('d bench, 'a) state"

text \<open>Registers of the controller and their bits.\<close>

abbreviation (input) RREG_CDR :: nat where "RREG_CDR \<equiv> 0"
abbreviation (input) RREG_CSR :: nat where "RREG_CSR \<equiv> 4"
abbreviation (input) RREG_RST :: nat where "RREG_RST \<equiv> 7"
abbreviation (input) WREG_ODR :: nat where "WREG_ODR \<equiv> 0"
abbreviation (input) WREG_ICR :: nat where "WREG_ICR \<equiv> 1"
abbreviation (input) WREG_MR :: nat where "WREG_MR \<equiv> 2"
abbreviation (input) WREG_TCR :: nat where "WREG_TCR \<equiv> 3"
abbreviation (input) WREG_DMAS :: nat where "WREG_DMAS \<equiv> 5"
abbreviation (input) WREG_IDMAR :: nat where "WREG_IDMAR \<equiv> 7"
abbreviation (input) CSR_BSY :: u8 where "CSR_BSY \<equiv> 0x40"
abbreviation (input) CSR_REQ :: u8 where "CSR_REQ \<equiv> 0x20"
abbreviation (input) CSR_IO :: u8 where "CSR_IO \<equiv> 0x04"
abbreviation (input) ICR_ACK :: u8 where "ICR_ACK \<equiv> 0x10"
abbreviation (input) ICR_SEL :: u8 where "ICR_SEL \<equiv> 0x04"
abbreviation (input) ICR_DATA :: u8 where "ICR_DATA \<equiv> 0x01"

section \<open>Clock and bus cycles\<close>

definition set_host :: "(HostLines \<Rightarrow> HostLines) \<Rightarrow> ('d, unit) prog" where
  "set_host f = modify (\<lambda>s. s\<lparr>host := f (host s)\<rparr>)"

definition set_hps :: "(Hps \<Rightarrow> Hps) \<Rightarrow> ('d, unit) prog" where
  "set_hps f = modify (\<lambda>s. s\<lparr>hps := f (hps s)\<rparr>)"

definition eval_dut :: "'d dut_eval \<Rightarrow> bool \<Rightarrow> ('d, unit) prog" where
  "eval_dut ev clk = modify (\<lambda>s. case ev clk (host s) (lines (hps s)) (dut s) of
     (d, o') \<Rightarrow> s\<lparr>dut := d, outs := o'\<rparr>)"

definition tick :: "'d dut_eval \<Rightarrow> ('d, unit) prog" where
  "tick ev = do {
     eval_dut ev True;
     modify (\<lambda>s. s\<lparr>hps := service (CoreLines.truncate (outs s)) (hps s)\<rparr>);
     eval_dut ev False;
     modify (\<lambda>s. s\<lparr>cyc := cyc s + 1\<rparr>) }"

definition bus_idle :: "HostLines \<Rightarrow> HostLines" where
  "bus_idle h = h\<lparr>top_bus_cs := False, top_ior := False, top_iow := False, top_dack := False,
     top_dma_word := False, top_dma_longword := False, top_dma_second_word := False\<rparr>"

definition bus_release :: "('d, unit) prog" where
  "bus_release = set_host bus_idle"

definition reg_write :: "'d dut_eval \<Rightarrow> nat \<Rightarrow> u8 \<Rightarrow> ('d, unit) prog" where
  "reg_write ev rs v = do {
     set_host (\<lambda>h. h\<lparr>top_bus_cs := True, top_dack := False, top_iow := True, top_ior := False,
       top_bus_rs := rs, top_wdata := be16 v v\<rparr>);
     tick ev; tick ev;
     bus_release;
     tick ev }"

definition reg_read :: "'d dut_eval \<Rightarrow> nat \<Rightarrow> ('d, u8) prog" where
  "reg_read ev rs = do {
     set_host (\<lambda>h. h\<lparr>top_bus_cs := True, top_dack := False, top_ior := True, top_iow := False,
       top_bus_rs := rs\<rparr>);
     eval_dut ev False;
     v \<leftarrow> gets (\<lambda>s. lo8 (top_rdata (outs s)));
     tick ev;
     bus_release;
     tick ev;
     State_Monad.return v }"

section \<open>Pseudo-DMA\<close>

record ReadRec =
  cyc_start :: u64
  cyc_sample :: u64
  rr_idx :: nat
  rr_rdata :: u16
  first_seen :: u16
  din_pair :: u16
  din_pair_next :: u16
  second_word_data :: u16
  data_cnt_start :: u16
  data_cnt_sample :: u16
  rr_holdoff :: u8
  rr_suppress :: bool
  rr_pending :: bool
  rr_word :: bool
  rr_lw :: bool
  rr_second :: bool
  unstable :: bool
  wait_cycles :: nat

definition rec_init :: "nat \<Rightarrow> ReadRec" where
  "rec_init d = \<lparr>cyc_start = 0, cyc_sample = 0, rr_idx = d, rr_rdata = 0, first_seen = 0, din_pair = 0,
     din_pair_next = 0, second_word_data = 0, data_cnt_start = 0, data_cnt_sample = 0, rr_holdoff = 0,
     rr_suppress = False, rr_pending = False, rr_word = False, rr_lw = False, rr_second = False,
     unstable = False, wait_cycles = 0\<rparr>"

definition DREQ_TIMEOUT :: nat where "DREQ_TIMEOUT = 500000"

text \<open>
  The wait for the data request: the number of ticks waited, and whether the line came up before
  the budget was used up. As in the code, the line is not looked at again after the last tick.
\<close>

primrec wait_dreq :: "'d dut_eval \<Rightarrow> nat \<Rightarrow> nat \<Rightarrow> ('d, nat \<times> bool) prog" where
  "wait_dreq ev 0 waited = State_Monad.return (waited, False)"
| "wait_dreq ev (Suc n) waited = do {
     r \<leftarrow> gets (\<lambda>s. top_dreq (outs s));
     if r then State_Monad.return (waited, True)
     else do { tick ev; wait_dreq ev n (waited + 1) } }"

definition dma_read16 :: "'d dut_eval \<Rightarrow> bool \<Rightarrow> bool \<Rightarrow> bool \<Rightarrow> nat \<Rightarrow> nat \<Rightarrow> nat \<Rightarrow> ('d, (u16 \<times> ReadRec) option) prog" where
  "dma_read16 ev word lw second ds gap d = do {
     set_host (\<lambda>h. h\<lparr>top_bus_cs := True, top_dack := True, top_ior := True, top_iow := False,
       top_bus_rs := 0, top_dma_word := word, top_dma_longword := lw, top_dma_second_word := second\<rparr>);
     r0 \<leftarrow> gets (\<lambda>s. (rec_init d)\<lparr>cyc_start := cyc s, rr_word := word, rr_lw := lw, rr_second := second,
       data_cnt_start := ucast (top_dbg_wr (outs s))\<rparr>);
     tick ev;
     w \<leftarrow> wait_dreq ev DREQ_TIMEOUT 0;
     (if \<not> snd w then do { bus_release; State_Monad.return None }
      else do {
        first \<leftarrow> gets (\<lambda>s. top_rdata (outs s));
        times ds (tick ev);
        out \<leftarrow> gets (\<lambda>s. top_rdata (outs s));
        r \<leftarrow> gets (\<lambda>s. r0\<lparr>wait_cycles := fst w, first_seen := first, unstable := (ds > 0 \<and> first \<noteq> out),
          rr_rdata := out, cyc_sample := cyc s, data_cnt_sample := ucast (top_dbg_wr (outs s)),
          din_pair := tap_din_pair (outs s), din_pair_next := tap_din_pair_next (outs s),
          second_word_data := tap_second_word_data (outs s), rr_holdoff := tap_holdoff (outs s),
          rr_suppress := tap_suppress_ack (outs s), rr_pending := tap_second_pending (outs s)\<rparr>);
        tick ev;
        bus_release;
        times gap (tick ev);
        State_Monad.return (Some (out, r)) }) }"

definition dma_write16 :: "'d dut_eval \<Rightarrow> bool \<Rightarrow> u16 \<Rightarrow> nat \<Rightarrow> ('d, bool) prog" where
  "dma_write16 ev word wd gap = do {
     set_host (\<lambda>h. h\<lparr>top_bus_cs := True, top_dack := True, top_iow := True, top_ior := False,
       top_bus_rs := 0, top_dma_word := word, top_dma_longword := False, top_dma_second_word := False,
       top_wdata := wd\<rparr>);
     tick ev;
     w \<leftarrow> wait_dreq ev DREQ_TIMEOUT 0;
     (if \<not> snd w then do { bus_release; State_Monad.return False }
      else do {
        tick ev;
        bus_release;
        times gap (tick ev);
        State_Monad.return True }) }"

section \<open>Programmed transfers\<close>

text \<open>The number of polls: the argument, or the patience of the initiator when it is not positive.\<close>

definition polls :: "int \<Rightarrow> 'd bench \<Rightarrow> nat" where
  "polls max_polls s = nat (if max_polls \<le> 0 then csr_patience s else max_polls)"

definition poll_csr :: "'d dut_eval \<Rightarrow> u8 \<Rightarrow> u8 \<Rightarrow> ('d, bool) prog" where
  "poll_csr ev msk val = do { v \<leftarrow> reg_read ev RREG_CSR; State_Monad.return (v AND msk = val) }"

definition wait_csr :: "'d dut_eval \<Rightarrow> u8 \<Rightarrow> u8 \<Rightarrow> int \<Rightarrow> ('d, bool) prog" where
  "wait_csr ev msk val max_polls = do {
     n \<leftarrow> gets (polls max_polls);
     try_times n (poll_csr ev msk val) }"

definition pio_put :: "'d dut_eval \<Rightarrow> u8 \<Rightarrow> ('d, bool) prog" where
  "pio_put ev b = do {
     r \<leftarrow> wait_csr ev CSR_REQ CSR_REQ 0;
     if \<not> r then State_Monad.return False
     else do {
       reg_write ev WREG_ODR b;
       reg_write ev WREG_ICR (ICR_DATA OR ICR_ACK);
       r2 \<leftarrow> wait_csr ev CSR_REQ 0 0;
       if \<not> r2 then State_Monad.return False
       else do { reg_write ev WREG_ICR ICR_DATA; State_Monad.return True } } }"

text \<open>The result -1 of pio_get is None.\<close>

definition pio_get :: "'d dut_eval \<Rightarrow> ('d, u8 option) prog" where
  "pio_get ev = do {
     r \<leftarrow> wait_csr ev CSR_REQ CSR_REQ 0;
     if \<not> r then State_Monad.return None
     else do {
       v \<leftarrow> reg_read ev RREG_CDR;
       reg_write ev WREG_ICR ICR_ACK;
       r2 \<leftarrow> wait_csr ev CSR_REQ 0 0;
       if \<not> r2 then State_Monad.return None
       else do { reg_write ev WREG_ICR 0; State_Monad.return (Some v) } } }"

definition reset_dut :: "'d dut_eval \<Rightarrow> nat \<Rightarrow> ('d, unit) prog" where
  "reset_dut ev id_slot = do {
     bus_release;
     set_host (\<lambda>h. h\<lparr>top_img_mounted := 0, top_img_size := 0\<rparr>);
     set_hps (\<lambda>h. h\<lparr>top_io_ack := 0, top_sd_buff_wr := False, top_sd_buff_addr := 0, top_sd_buff_dout := 0,
       top_tb_ack := False\<rparr>);
     set_host (\<lambda>h. h\<lparr>top_tb_mounted := False\<rparr>);
     set_hps hps_reset;
     set_host (\<lambda>h. h\<lparr>top_reset := True\<rparr>);
     times 8 (tick ev);
     set_host (\<lambda>h. h\<lparr>top_reset := False\<rparr>);
     times 4 (tick ev);
     set_host (\<lambda>h. h\<lparr>top_img_size := 131072, top_img_mounted := push_bit id_slot 1\<rparr>);
     tick ev;
     set_host (\<lambda>h. h\<lparr>top_img_mounted := 0\<rparr>);
     times 4 (tick ev) }"

text \<open>The generator of the mixed mode.\<close>

definition lcg :: "('d, u32) prog" where
  "lcg = do {
     modify (\<lambda>s. s\<lparr>lcg_state := lcg_state s * 1664525 + 1013904223\<rparr>);
     gets (\<lambda>s. drop_bit 16 (lcg_state s)) }"

section \<open>Invariants of bench programs\<close>

definition released :: "'d bench \<Rightarrow> bool" where
  "released s \<longleftrightarrow> bus_idle (host s) = host s"

text \<open>
  What keeps every array access of the server and of the Toolbox service in range: the block
  has 512 bytes, the word index is below 256 while words are moved, the target is 0 or 1; the
  written image grows by whole words.
\<close>

definition hps_ok :: "Hps \<Rightarrow> bool" where
  "hps_ok h \<longleftrightarrow> length (tbblk h) = 512 \<and> h_tgt h < 2 \<and>
     (h_st h \<in> {STREAM, WCAP, TBWCAP, TBRSTREAM} \<longrightarrow> h_wi h < 256) \<and> tb_ok (tbx h) \<and>
     even (length (written h))"

lemma even_capture: "even off \<Longrightarrow> even (length img) \<Longrightarrow> even (length (capture_word off w img))"
  by (simp add: capture_word_def max_def)

lemma hps_okD:
  assumes "hps_ok h"
  shows "length (tbblk h) = 512" "h_tgt h < 2" "tb_ok (tbx h)" "even (length (written h))"
    "h_st h \<in> {STREAM, WCAP, TBWCAP, TBRSTREAM} \<Longrightarrow> h_wi h < 256"
  using assms by (simp_all add: hps_ok_def)

lemma tb_ok_fill: "tb_ok t \<Longrightarrow> tb_ok (snd (tb_fill l t))"
  by (simp add: tb_fill_def tb_ok_def Let_def)

lemma hps_ok_poll:
  assumes "hps_ok h" "\<forall>i\<in>set is. i < 2"
  shows "hps_ok (hps_poll is c h)"
  using assms by (induction "is") (auto simp: hps_ok_def)

lemma hps_ok_stage: "hps_ok h \<Longrightarrow> hps_ok (stage_fill l h)"
  by (simp add: hps_ok_def stage_fill_simps length_tb_fill tb_ok_fill)

lemma hps_ok_idle:
  assumes "hps_ok h"
  shows "hps_ok (hps_idle c h)"
proof -
  let ?h = "hps_poll [0, 1] c (h\<lparr>top_sd_buff_wr := False, top_io_ack := 0, top_tb_ack := False\<rparr>)"
  have h: "hps_ok ?h" using assms by (intro hps_ok_poll) (simp_all add: hps_ok_def)
  have w: "hps_ok (tb_poll_write c ?h)" using h by (simp add: hps_ok_def tb_poll_write_def Let_def)
  have "hps_ok (?h\<lparr>tb_reads := n\<rparr>)" for n using h by (simp add: hps_ok_def)
  from hps_ok_stage [OF this] have "hps_ok (tb_poll_read c ?h)"
    using h by (simp add: hps_ok_def tb_poll_read_def Let_def)
  with h w show ?thesis by (simp add: hps_idle_def Let_def del: hps_poll.simps)
qed

lemma hps_ok_moves:
  assumes "hps_ok h"
  shows "h_st h = STREAM \<Longrightarrow> hps_ok (hps_stream h)" "h_st h = TBRSTREAM \<Longrightarrow> hps_ok (hps_tbrstream h)"
    "h_st h = WCAP \<Longrightarrow> hps_ok (hps_wcap c h)"
    "hps_ok (hps_wait nxt h)" "hps_ok (hps_tbwait lat nxt h)" "hps_ok (hps_finish h)"
    "hps_ok (hps_tbfinish h)" "h_st h = TBAHOLD \<Longrightarrow> hps_ok (hps_ahold h)"
    "h_st h = TBWDEFER \<Longrightarrow> hps_ok (hps_tbwdefer c h)"
  using hps_okD [OF assms]
  by (simp_all add: hps_ok_def hps_stream_def hps_tbrstream_def hps_wcap_def hps_wait_def hps_tbwait_def
      hps_finish_def hps_tbfinish_def hps_ahold_def hps_tbwdefer_def Let_def even_capture)

lemma hps_ok_tbwcap:
  assumes "hps_ok h" "h_st h = TBWCAP"
  shows "hps_ok (hps_tbwcap c h)"
proof -
  have "tb_ok (tb_request l b (tbx h))" if "length b = 512" for l b
    using hps_okD(3) [OF assms(1)] that by (rule tb_ok_request)
  then show ?thesis using hps_okD [OF assms(1)] assms(2)
    by (simp add: hps_ok_def hps_tbwcap_def Let_def)
qed

lemma hps_ok_tbrdefer:
  assumes "hps_ok h" "h_st h = TBRDEFER"
  shows "hps_ok (hps_tbrdefer c h)"
proof -
  have "hps_ok (h\<lparr>h_t := n\<rparr>)" for n using assms by (simp add: hps_ok_def)
  from hps_ok_stage [OF this] show ?thesis
    using assms by (simp add: hps_ok_def hps_tbrdefer_def Let_def)
qed

lemma hps_ok_service: "hps_ok h \<Longrightarrow> hps_ok (service c h)"
  using hps_ok_idle [of h c] hps_ok_moves [of h] hps_ok_tbwcap [of h c] hps_ok_tbrdefer [of h c]
  by (cases "h_st h") (simp_all add: service_def)

lemma hps_ok_reset: "hps_ok h \<Longrightarrow> hps_ok (hps_reset h)"
  by (simp add: hps_ok_def hps_reset_def)

section \<open>Runs of the elementary programs\<close>

lemma run_eval_dut:
  "run_state (eval_dut ev clk) s =
     ((), s\<lparr>dut := fst (ev clk (host s) (lines (hps s)) (dut s)), outs := snd (ev clk (host s) (lines (hps s)) (dut s))\<rparr>)"
  by (simp add: eval_dut_def case_prod_beta)

lemma run_set [simp]:
  "run_state (set_host f) s = ((), s\<lparr>host := f (host s)\<rparr>)"
  "run_state (set_hps g) s = ((), s\<lparr>hps := g (hps s)\<rparr>)"
  "run_state bus_release s = ((), s\<lparr>host := bus_idle (host s)\<rparr>)"
  by (simp_all add: set_host_def set_hps_def bus_release_def)

text \<open>A tick changes the hardware, the server and the cycle counter, nothing else.\<close>

lemma tick_frame [simp]:
  "host (snd (run_state (tick ev) s)) = host s"
  "cyc (snd (run_state (tick ev) s)) = cyc s + 1"
  "lcg_state (snd (run_state (tick ev) s)) = lcg_state s"
  "csr_patience (snd (run_state (tick ev) s)) = csr_patience s"
  by (simp_all add: tick_def run_eval_dut)

lemma tick_hps:
  "\<exists>c. hps (snd (run_state (tick ev) s)) = service c (hps s)"
  by (simp add: tick_def run_eval_dut) blast

lemma fst_unit [simp]: "fst (run_state (m :: ('s, unit) state) s) = ()"
  by simp

lemma ticks_frame [simp]:
  "host (after n (tick ev) s) = host s"
  "cyc (after n (tick ev) s) = cyc s + of_nat n"
  "lcg_state (after n (tick ev) s) = lcg_state s"
  "csr_patience (after n (tick ev) s) = csr_patience s"
  by (induction n arbitrary: s) (simp_all add: ac_simps)

lemma bus_idle_idem [simp]: "bus_idle (bus_idle h) = bus_idle h"
  by (simp add: bus_idle_def)

lemma run_wait_dreq:
  "run_state (wait_dreq ev n w) s =
     (if \<exists>k<n. top_dreq (outs (after k (tick ev) s))
      then ((w + (LEAST k. top_dreq (outs (after k (tick ev) s))), True),
            after (LEAST k. top_dreq (outs (after k (tick ev) s))) (tick ev) s)
      else ((w + n, False), after n (tick ev) s))"
proof (induction n arbitrary: w s)
  case (Suc n)
  let ?P = "\<lambda>s k. top_dreq (outs (after k (tick ev) s))"
  let ?s1 = "snd (run_state (tick ev) s)"
  show ?case
  proof (cases "top_dreq (outs s)")
    case True
    then have "(LEAST k. ?P s k) = 0" by (intro Least_equality) simp_all
    moreover have "\<exists>k<Suc n. ?P s k" using True by (intro exI [of _ 0]) simp
    ultimately show ?thesis using True by simp
  next
    case False
    have ex: "(\<exists>k<Suc n. ?P s k) \<longleftrightarrow> (\<exists>k<n. ?P ?s1 k)"
      using False by (auto simp: less_Suc_eq_0_disj)
    have l: "(LEAST k. ?P s k) = Suc (LEAST k. ?P ?s1 k)" if "\<exists>k<n. ?P ?s1 k"
    proof -
      from that obtain k where "?P s (Suc k)" by auto
      then show ?thesis using False Least_Suc [of "?P s" "Suc k"] by simp
    qed
    show ?thesis
    proof (cases "\<exists>k<n. ?P ?s1 k")
      case True
      then show ?thesis using Suc.IH [of "w + 1" ?s1] False ex l by (simp add: case_prod_beta)
    next
      case no: False
      then have "\<not> (\<exists>k<Suc n. ?P s k)" using ex by blast
      then show ?thesis using Suc.IH [of "w + 1" ?s1] False no by (simp add: case_prod_beta)
    qed
  qed
qed simp

text \<open>Every bus cycle of the host leaves the bus released.\<close>

lemma released_iff:
  "released s \<longleftrightarrow> \<not> top_bus_cs (host s) \<and> \<not> top_ior (host s) \<and> \<not> top_iow (host s) \<and> \<not> top_dack (host s) \<and>
     \<not> top_dma_word (host s) \<and> \<not> top_dma_longword (host s) \<and> \<not> top_dma_second_word (host s)"
  unfolding released_def by (cases "host s") (auto simp: bus_idle_def)

lemma released_ops:
  "released (snd (run_state (reg_write ev rs v) s))"
  "released (snd (run_state (reg_read ev rs) s))"
  "released (snd (run_state (dma_read16 ev word lw second ds gap d) s))"
  "released (snd (run_state (dma_write16 ev word wd gap) s))"
  by (simp_all add: released_def reg_write_def reg_read_def dma_read16_def dma_write16_def case_prod_beta
      run_times)

lemma keeps_released_ops [keep_rules]:
  "keeps released (reg_write ev rs v)" "keeps released (reg_read ev rs)"
  "keeps released (dma_read16 ev word lw second ds gap d)" "keeps released (dma_write16 ev word wd gap)"
  by (simp_all add: keeps_def released_ops)

text \<open>
  The contract of an invariant of the bench: kept by the bus cycles, by a tick while the bus is
  idle, by the reset and by changes of the configuration. The programs of the host are built from
  these alone.
\<close>

locale bench_frame =
  fixes ev :: "'d dut_eval"
    and I :: "'d bench \<Rightarrow> bool"
  assumes tick_kept: "keeps I (tick ev)"
    and write_kept: "keeps I (reg_write ev rs v)"
    and read_kept: "keeps I (reg_read ev rs)"
    and dma_read_kept: "keeps I (dma_read16 ev word lw second ds gap d)"
    and dma_write_kept: "keeps I (dma_write16 ev word wd gap)"
    and release_kept: "keeps I bus_release"
    and reset_kept: "keeps I (reset_dut ev slot)"
    and lcg_kept: "I s \<Longrightarrow> I (s\<lparr>lcg_state := x\<rparr>)"
    and mount_kept: "I s \<Longrightarrow> I (s\<lparr>host := (host s)\<lparr>top_tb_mounted := b\<rparr>\<rparr>)"
    and latency_kept: "I s \<Longrightarrow> I (s\<lparr>hps := (hps s)\<lparr>h_latency := n\<rparr>\<rparr>)"
    and tbx_kept: "I s \<Longrightarrow> (tb_ok (tbx (hps s)) \<Longrightarrow> tb_ok (f (tbx (hps s)))) \<Longrightarrow>
      I (s\<lparr>hps := (hps s)\<lparr>tbx := f (tbx (hps s))\<rparr>\<rparr>)"
begin

lemmas elementary = tick_kept write_kept read_kept dma_read_kept dma_write_kept release_kept reset_kept

lemma wait_csr_kept: "keeps I (wait_csr ev msk val n)"
  unfolding wait_csr_def poll_csr_def by (intro keep_rules elementary)

lemma pio_put_kept: "keeps I (pio_put ev b)"
  unfolding pio_put_def by (intro keep_rules elementary wait_csr_kept)

lemma pio_get_kept: "keeps I (pio_get ev)"
  unfolding pio_get_def by (intro keep_rules elementary wait_csr_kept)

lemma lcg_prog_kept: "keeps I lcg"
  unfolding lcg_def by (intro keep_rules keeps_modify lcg_kept)

lemma set_latency_kept: "keeps I (set_hps (\<lambda>h. h\<lparr>h_latency := n\<rparr>))"
  unfolding set_hps_def by (intro keeps_modify latency_kept)

lemma set_mounted_kept: "keeps I (set_host (\<lambda>h. h\<lparr>top_tb_mounted := b\<rparr>))"
  unfolding set_host_def by (intro keeps_modify mount_kept)

lemma set_tbx_kept: "(\<And>t. tb_ok t \<Longrightarrow> tb_ok (f t)) \<Longrightarrow> keeps I (set_hps (\<lambda>h. h\<lparr>tbx := f (tbx h)\<rparr>))"
  unfolding set_hps_def by (intro keeps_modify tbx_kept)

end

text \<open>
  An invariant that also survives changes of the injected stalls and of the patience of the
  initiator, which some runs make and undo.
\<close>

locale bench_inv = bench_frame +
  assumes patience_kept: "I s \<Longrightarrow> I (s\<lparr>csr_patience := n\<rparr>)"
    and config_kept: "(\<And>h. hps_ok h \<Longrightarrow> hps_ok (f h)) \<Longrightarrow> keeps I (set_hps f)"
begin

lemma set_patience_kept: "keeps I (modify (\<lambda>s. s\<lparr>csr_patience := n\<rparr>))"
  by (intro keeps_modify patience_kept)

end

text \<open>Both invariants of the bench meet the contract, whatever the hardware does.\<close>

lemma keeps_set_host: "(\<And>s. I s \<Longrightarrow> I (s\<lparr>host := f (host s)\<rparr>)) \<Longrightarrow> keeps I (set_host f)"
  unfolding set_host_def by (rule keeps_modify)

interpretation rel: bench_inv ev released for ev
proof unfold_locales
  show "keeps released (reset_dut ev slot)" for slot
    by (simp add: keeps_def released_iff reset_dut_def run_times case_prod_beta bus_idle_def)
qed (simp_all add: keeps_def released_ops, simp_all add: released_iff bus_idle_def)

abbreviation server_ok :: "'d bench \<Rightarrow> bool" where
  "server_ok s \<equiv> hps_ok (hps s)"

lemma keeps_ok_host: "keeps server_ok (set_host f)" "keeps server_ok bus_release"
  by (simp_all add: keeps_def)

lemma keeps_ok_hps: "(\<And>h. hps_ok h \<Longrightarrow> hps_ok (f h)) \<Longrightarrow> keeps server_ok (set_hps f)"
  by (simp add: keeps_def)

lemma keeps_ok_eval: "keeps server_ok (eval_dut ev clk)"
  by (simp add: keeps_def run_eval_dut)

lemma keeps_ok_tick: "keeps server_ok (tick ev)"
  using tick_hps hps_ok_service by (metis keeps_def)

lemma keeps_ok_wait_dreq: "keeps server_ok (wait_dreq ev n w)"
  by (induction n arbitrary: w) (auto intro!: keep_rules keeps_ok_tick)

lemmas keeps_ok = keep_rules keeps_ok_host keeps_ok_hps keeps_ok_eval keeps_ok_tick keeps_ok_wait_dreq

interpretation srv: bench_inv ev server_ok for ev
proof unfold_locales
  show "keeps server_ok (tick ev)" by (rule keeps_ok_tick)
  show "keeps server_ok (reg_write ev rs v)" for rs v unfolding reg_write_def by (intro keeps_ok)
  show "keeps server_ok (reg_read ev rs)" for rs unfolding reg_read_def by (intro keeps_ok)
  show "keeps server_ok (dma_read16 ev word lw second ds gap d)" for word lw second ds gap d
    unfolding dma_read16_def by (intro keeps_ok)
  show "keeps server_ok (dma_write16 ev word wd gap)" for word wd gap
    unfolding dma_write16_def by (intro keeps_ok)
  show "keeps server_ok bus_release" by (intro keeps_ok)
  show "keeps server_ok (reset_dut ev slot)" for slot
    unfolding reset_dut_def by (intro keeps_ok hps_ok_reset) (simp add: hps_ok_def)
qed (simp_all add: keeps_ok_hps, simp_all add: hps_ok_def)

text \<open>
  The settings of the bench: what no program changes except the runs that say so.
\<close>

definition settings :: "'d bench \<Rightarrow> int \<times> int \<times> int \<times> int \<times> int" where
  "settings s = (csr_patience s, tb_ack_hold (hps s), tb_slow_every (hps s), tb_defer_every (hps s),
     tb_wdefer_every (hps s))"

lemma service_settings [simp]:
  "tb_ack_hold (service c h) = tb_ack_hold h" "tb_slow_every (service c h) = tb_slow_every h"
  "tb_defer_every (service c h) = tb_defer_every h" "tb_wdefer_every (service c h) = tb_wdefer_every h"
  by (cases "h_st h"; simp add: service_def hps_idle_def tb_poll_write_def tb_poll_read_def stage_fill_simps
      hps_wait_def hps_tbwait_def hps_stream_def hps_wcap_def hps_finish_def hps_tbwcap_def hps_tbrstream_def
      hps_tbfinish_def hps_ahold_def hps_tbrdefer_def hps_tbwdefer_def Let_def)+

abbreviation settings_are :: "int \<times> int \<times> int \<times> int \<times> int \<Rightarrow> 'd bench \<Rightarrow> bool" where
  "settings_are p s \<equiv> settings s = p"

lemma keeps_set_tick: "keeps (settings_are p) (tick ev)"
proof -
  have "settings (snd (run_state (tick ev) s)) = settings s" for s :: "'a bench"
    using tick_hps [of ev s] by (auto simp: settings_def)
  then show ?thesis by (simp add: keeps_def)
qed

lemma keeps_set_host': "keeps (settings_are p) (set_host f)" "keeps (settings_are p) bus_release"
  "keeps (settings_are p) (eval_dut ev clk)"
  by (simp_all add: keeps_def settings_def run_eval_dut)

lemma keeps_set_wait_dreq: "keeps (settings_are p) (wait_dreq ev n w)"
  by (induction n arbitrary: w) (auto intro!: keep_rules keeps_set_tick)

lemma keeps_set_reset:
  "keeps (settings_are p) (set_hps hps_reset)"
  "keeps (settings_are p) (set_hps (\<lambda>h. h\<lparr>top_io_ack := 0, top_sd_buff_wr := False, top_sd_buff_addr := 0,
     top_sd_buff_dout := 0, top_tb_ack := False\<rparr>))"
  by (simp_all add: keeps_def settings_def hps_reset_def)

lemmas keeps_set = keep_rules keeps_set_tick keeps_set_host' keeps_set_wait_dreq keeps_set_reset

interpretation sets: bench_frame ev "settings_are p" for ev p
proof unfold_locales
  show "keeps (settings_are p) (tick ev)" by (rule keeps_set_tick)
  show "keeps (settings_are p) (reg_write ev rs v)" for rs v unfolding reg_write_def by (intro keeps_set)
  show "keeps (settings_are p) (reg_read ev rs)" for rs unfolding reg_read_def by (intro keeps_set)
  show "keeps (settings_are p) (dma_read16 ev word lw second ds gap d)" for word lw second ds gap d
    unfolding dma_read16_def by (intro keeps_set)
  show "keeps (settings_are p) (dma_write16 ev word wd gap)" for word wd gap
    unfolding dma_write16_def by (intro keeps_set)
  show "keeps (settings_are p) bus_release" by (intro keeps_set)
  show "keeps (settings_are p) (reset_dut ev slot)" for slot unfolding reset_dut_def by (intro keeps_set)
qed (simp_all add: settings_def)

lemma run_dma_read16:
  fixes ev :: "'d dut_eval"
  assumes "s1 = snd (run_state (tick ev) (s\<lparr>host := (host s)\<lparr>top_bus_cs := True, top_dack := True,
      top_ior := True, top_iow := False, top_bus_rs := 0, top_dma_word := word, top_dma_longword := lw,
      top_dma_second_word := second\<rparr>\<rparr>))"
  shows "\<not> (\<exists>k<DREQ_TIMEOUT. top_dreq (outs (after k (tick ev) s1))) \<Longrightarrow>
      fst (run_state (dma_read16 ev word lw second ds gap d) s) = None \<and>
      cyc (snd (run_state (dma_read16 ev word lw second ds gap d) s)) = cyc s1 + of_nat DREQ_TIMEOUT"
    "\<exists>k<DREQ_TIMEOUT. top_dreq (outs (after k (tick ev) s1)) \<Longrightarrow>
      w = (LEAST k. top_dreq (outs (after k (tick ev) s1))) \<Longrightarrow>
      (\<exists>rr. fst (run_state (dma_read16 ev word lw second ds gap d) s) =
         Some (top_rdata (outs (after ds (tick ev) (after w (tick ev) s1))), rr) \<and> wait_cycles rr = w \<and>
        rr_idx rr = d) \<and>
      cyc (snd (run_state (dma_read16 ev word lw second ds gap d) s)) = cyc s1 + of_nat (w + ds + gap + 1)"
  by (simp_all add: dma_read16_def case_prod_beta run_wait_dreq run_times assms [symmetric] rec_init_def)

section \<open>Properties\<close>

text \<open>The wait for a bus status is exact polling: with n polls (the argument, or the patience of the
  initiator when the argument is not positive) it answers true exactly when one of the first n reads
  of the status register matches, stops right after the first one that does, and otherwise
  answers false after all n reads.\<close>

theorem wait_csr_polls:
  "run_state (wait_csr ev msk val m) s =
     (if \<exists>k<polls m s. answer k (poll_csr ev msk val) s
      then (True, after (Suc (LEAST k. answer k (poll_csr ev msk val) s)) (poll_csr ev msk val) s)
      else (False, after (polls m s) (poll_csr ev msk val) s))"
  by (simp add: wait_csr_def run_try_times)

text \<open>A pseudo-DMA read cycle is bounded and exact in time. Let the cycle start, then look at the data
  request line before each further tick: if it is low for 500000 ticks, the cycle fails after 500001
  ticks; otherwise, with w the number of ticks before the first look that found it high, it succeeds
  after w + ds + gap + 2 ticks, the record tells that w and the word is the one on the bus ds ticks
  later. In both cases the bus is released.\<close>

theorem dma_read16_exact:
  fixes ev :: "'d dut_eval"
  assumes "s1 = snd (run_state (tick ev) (s\<lparr>host := (host s)\<lparr>top_bus_cs := True, top_dack := True,
      top_ior := True, top_iow := False, top_bus_rs := 0, top_dma_word := word, top_dma_longword := lw,
      top_dma_second_word := second\<rparr>\<rparr>))"
    and "up = (\<lambda>k. top_dreq (outs (after k (tick ev) s1)))"
    and "run_state (dma_read16 ev word lw second ds gap d) s = (r, s')"
  shows "released s' \<and>
    (case r of
       None \<Rightarrow> (\<forall>k<500000. \<not> up k) \<and> cyc s' = cyc s + 500001
     | Some (v, rr) \<Rightarrow> (\<exists>w<500000. up w \<and> (\<forall>k<w. \<not> up k) \<and> wait_cycles rr = w \<and> rr_idx rr = d \<and>
          v = top_rdata (outs (after ds (tick ev) (after w (tick ev) s1))) \<and>
          cyc s' = cyc s + of_nat (w + ds + gap + 2)))"
proof -
  have rel: "released s'" using released_ops(3) [of ev word lw second ds gap d s] assms(3) by simp
  have c1: "cyc s1 = cyc s + 1" by (simp add: assms(1))
  show ?thesis
  proof (cases "\<exists>k<500000. up k")
    case True
    define w where "w = (LEAST k. up k)"
    have w: "up w" "\<forall>k<w. \<not> up k" "w < 500000"
      using True LeastI_ex [of up] not_less_Least [of _ up] Least_le [of up]
      unfolding w_def by (blast, blast, meson le_less_trans)
    from run_dma_read16(2) [OF assms(1), of w ds gap d] assms(3) True
    have "cyc s' = cyc s + of_nat (w + ds + gap + 2)"
      "\<exists>rr. r = Some (top_rdata (outs (after ds (tick ev) (after w (tick ev) s1))), rr) \<and> wait_cycles rr = w \<and>
        rr_idx rr = d"
      by (simp_all add: assms(2) w_def DREQ_TIMEOUT_def c1)
    then show ?thesis using rel w by auto
  next
    case False
    with run_dma_read16(1) [OF assms(1), of ds gap d] assms(3) have "r = None" "cyc s' = cyc s + 500001"
      by (simp_all add: assms(2) DREQ_TIMEOUT_def c1)
    then show ?thesis using rel False by simp
  qed
qed

text \<open>Hardware that always has the same word ready.\<close>

definition demo_out :: "u16 \<Rightarrow> DutOut" where
  "demo_out w = \<lparr>top_io_rd = 0, top_io_wr = 0, top_io_lba_0 = 0, top_io_lba_1 = 0, top_sd_buff_din_0 = 0,
     top_sd_buff_din_1 = 0, top_tb_wr = False, top_tb_rd = False, top_tb_lba = 0, top_tb_buff_din = 0,
     top_dreq = True, top_rdata = w, top_dbg_wr = 0, tap_din_pair = 0, tap_din_pair_next = 0,
     tap_second_word_data = 0, tap_holdoff = 0, tap_suppress_ack = False, tap_second_pending = False\<rparr>"

definition demo_ev :: "u16 \<Rightarrow> unit dut_eval" where
  "demo_ev w clk h l d = ((), demo_out w)"

definition demo_host :: HostLines where
  "demo_host = \<lparr>top_bus_cs = False, top_bus_rs = 0, top_ior = False, top_iow = False, top_dack = False,
     top_dma_word = False, top_dma_longword = False, top_dma_second_word = False, top_wdata = 0,
     top_reset = False, top_img_mounted = 0, top_img_size = 0, top_tb_mounted = False\<rparr>"

definition demo_bench :: "u16 \<Rightarrow> unit bench" where
  "demo_bench w = \<lparr>dut = (), host = demo_host, hps = hps_init tb_init, outs = demo_out w, cyc = 0,
     lcg_state = 0, csr_patience = 50000\<rparr>"

lemma demo_outs: "outs (snd (run_state (tick (demo_ev w)) s)) = demo_out w"
  by (simp add: tick_def run_eval_dut demo_ev_def)

lemma demo_outs_after: "outs s = demo_out w \<Longrightarrow> outs (after k (tick (demo_ev w)) s) = demo_out w"
  by (induction k arbitrary: s) (simp_all add: demo_outs)

theorem dma_read16_exact_witness:
  "\<exists>rr s'. run_state (dma_read16 (demo_ev 0xBEEF) True False False 2 3 0) (demo_bench 0xBEEF) =
     (Some (0xBEEF, rr), s') \<and> cyc s' = 7 \<and> released s'"
proof -
  obtain r s' where rs: "run_state (dma_read16 (demo_ev 0xBEEF) True False False 2 3 0) (demo_bench 0xBEEF) = (r, s')"
    by fastforce
  note t = dma_read16_exact [OF refl refl rs]
  show ?thesis
  proof (cases r)
    case None
    then show ?thesis using t by (force simp: demo_outs_after demo_outs demo_out_def)
  next
    case (Some x)
    obtain v rr where x: "x = (v, rr)" by fastforce
    obtain w where w: "\<forall>k<w. \<not> top_dreq (outs (after k (tick (demo_ev 0xBEEF)) (snd (run_state (tick (demo_ev 0xBEEF))
        (demo_bench 0xBEEF\<lparr>host := (host (demo_bench 0xBEEF))\<lparr>top_bus_cs := True, top_dack := True,
          top_ior := True, top_iow := False, top_bus_rs := 0, top_dma_word := True, top_dma_longword := False,
          top_dma_second_word := False\<rparr>\<rparr>)))))"
      "v = 0xBEEF" "cyc s' = of_nat (w + 2 + 3 + 2)"
      using t Some x
      by (auto simp: demo_outs_after demo_outs) (simp_all add: demo_out_def demo_bench_def)
    then have "w = 0" by (cases w) (auto simp: demo_outs_after demo_outs demo_out_def)
    then show ?thesis using rs Some x w(2,3) t by auto
  qed
qed

end
