(* ===== verification/ScsiRead.thy ===== *)
theory ScsiRead
  imports ScsiHost
begin

text \<open>
  The READ and WRITE runs of verilator/scsi_bench/scsi_bench.cpp: selection, command, blind data
  phase in one of six access modes, verification of the stream against the pattern, completion;
  then the sweep over delays. Printed diagnostics are left out; the ring of the last
  twelve cycles that they show is kept.
\<close>

section \<open>Results\<close>

datatype Mode = M_BYTE | M_WORD | M_LONG | M_MIX | M_LONGSKEW | M_WORDSKEW

definition mode_name :: "Mode \<Rightarrow> string" where
  "mode_name m = (if m = M_BYTE then ''byte'' else if m = M_WORD then ''word'' else if m = M_LONG then ''long''
     else if m = M_MIX then ''mix'' else if m = M_LONGSKEW then ''longskew'' else ''wordskew'')"

text \<open>A status or message of -1 is None, a first mismatch of -1 too.\<close>

record RunResult =
  selected :: bool
  cmd_sent :: bool
  dreq_timeout :: bool
  mismatches :: nat
  first_bad :: "nat option"
  unstable_cnt :: nat
  rr_status :: "u8 option"
  rr_message :: "u8 option"
  completion_ok :: bool
  cycles_used :: u64

definition result_init :: RunResult where
  "result_init = \<lparr>selected = False, cmd_sent = False, dreq_timeout = False, mismatches = 0, first_bad = None,
     unstable_cnt = 0, rr_status = None, rr_message = None, completion_ok = False, cycles_used = 0\<rparr>"

section \<open>The data phase of a read\<close>

text \<open>The local variables of the data phase.\<close>

record Rx =
  got :: "u8 list"
  ring :: "ReadRec list"
  rx_unstable :: nat

definition push_rec :: "ReadRec \<Rightarrow> Rx \<Rightarrow> Rx" where
  "push_rec r x = x\<lparr>ring := (let q = ring x @ [r] in if length q > 12 then tl q else q),
     rx_unstable := rx_unstable x + (if unstable r then 1 else 0)\<rparr>"

text \<open>One access of each width: the flag is False after a timeout.\<close>

definition acc_byte :: "'d dut_eval \<Rightarrow> nat \<Rightarrow> nat \<Rightarrow> nat \<Rightarrow> Rx \<Rightarrow> ('d, Rx \<times> bool) prog" where
  "acc_byte ev ds gap d x = do {
     r \<leftarrow> dma_read16 ev False False False ds gap d;
     case r of None \<Rightarrow> State_Monad.return (x, False)
     | Some (v, rr) \<Rightarrow> State_Monad.return ((push_rec rr x)\<lparr>got := got x @ [lo8 v]\<rparr>, True) }"

definition acc_word :: "'d dut_eval \<Rightarrow> nat \<Rightarrow> nat \<Rightarrow> nat \<Rightarrow> Rx \<Rightarrow> ('d, Rx \<times> bool) prog" where
  "acc_word ev ds gap d x = do {
     r \<leftarrow> dma_read16 ev True False False ds gap d;
     case r of None \<Rightarrow> State_Monad.return (x, False)
     | Some (v, rr) \<Rightarrow> State_Monad.return ((push_rec rr x)\<lparr>got := got x @ [hi8 v, lo8 v]\<rparr>, True) }"

definition acc_long :: "'d dut_eval \<Rightarrow> nat \<Rightarrow> nat \<Rightarrow> nat \<Rightarrow> nat \<Rightarrow> nat \<Rightarrow> Rx \<Rightarrow> ('d, Rx \<times> bool) prog" where
  "acc_long ev ds gap ds2 gap2 d x = do {
     r1 \<leftarrow> dma_read16 ev True True False ds gap d;
     case r1 of None \<Rightarrow> State_Monad.return (x, False)
     | Some (v1, rr1) \<Rightarrow> do {
         r2 \<leftarrow> dma_read16 ev True True True ds2 gap2 (d + 2);
         case r2 of None \<Rightarrow> State_Monad.return (push_rec rr1 x, False)
         | Some (v2, rr2) \<Rightarrow>
             State_Monad.return ((push_rec rr2 (push_rec rr1 x))
               \<lparr>got := got x @ [hi8 v1, lo8 v1, hi8 v2, lo8 v2]\<rparr>, True) } }"

text \<open>for (d = 0; d < len; d += k)\<close>

definition offs :: "nat \<Rightarrow> nat \<Rightarrow> nat list" where
  "offs k len = map (\<lambda>i. k * i) [0..<(len + k - 1) div k]"

primrec for_offs :: "(nat \<Rightarrow> Rx \<Rightarrow> ('d, Rx \<times> bool) prog) \<Rightarrow> nat list \<Rightarrow> Rx \<Rightarrow> ('d, Rx \<times> bool) prog" where
  "for_offs f [] x = State_Monad.return (x, True)"
| "for_offs f (d # ds) x = do {
     r \<leftarrow> f d x;
     if snd r then for_offs f ds (fst r) else State_Monad.return r }"

text \<open>The loops of the skewed modes: while (len - d >= need) access, advancing by step
  (4 and 2 where it is called).\<close>

function skew_body :: "(nat \<Rightarrow> Rx \<Rightarrow> ('d, Rx \<times> bool) prog) \<Rightarrow> nat \<Rightarrow> nat \<Rightarrow> nat \<Rightarrow> nat \<Rightarrow> Rx \<Rightarrow>
    ('d, nat \<times> Rx \<times> bool) prog" where
  "skew_body f len need step d x =
    (if need + d \<le> len \<and> 0 < step then do {
       r \<leftarrow> f d x;
       if snd r then skew_body f len need step (d + step) (fst r) else State_Monad.return (d, r) }
     else State_Monad.return (d, x, True))"
  by pat_completeness auto
termination by (relation "measure (\<lambda>(f, len, need, step, d, x). Suc len - d)") auto

declare skew_body.simps [simp del]

definition stream_longskew :: "'d dut_eval \<Rightarrow> nat \<Rightarrow> nat \<Rightarrow> nat \<Rightarrow> Rx \<Rightarrow> ('d, Rx \<times> bool) prog" where
  "stream_longskew ev len ds gap x = do {
     r \<leftarrow> acc_word ev ds gap 0 x;
     if \<not> snd r then State_Monad.return r
     else do {
       b \<leftarrow> skew_body (acc_long ev ds gap ds gap) len 6 4 2 (fst r);
       case b of (d, y, ok) \<Rightarrow>
         if ok \<and> d < len then acc_word ev ds gap d y else State_Monad.return (y, ok) } }"

definition stream_wordskew :: "'d dut_eval \<Rightarrow> nat \<Rightarrow> nat \<Rightarrow> nat \<Rightarrow> Rx \<Rightarrow> ('d, Rx \<times> bool) prog" where
  "stream_wordskew ev len ds gap x = do {
     r \<leftarrow> acc_byte ev ds gap 0 x;
     if \<not> snd r then State_Monad.return r
     else do {
       b \<leftarrow> skew_body (acc_word ev ds gap) len 3 2 1 (fst r);
       case b of (d, y, ok) \<Rightarrow>
         if ok \<and> d < len then acc_byte ev ds gap d y else State_Monad.return (y, ok) } }"

text \<open>The width the mixed mode takes: drawn, then limited by what remains.\<close>

definition pick_width :: "u32 \<Rightarrow> nat \<Rightarrow> nat" where
  "pick_width r remain =
    (let p = unat r mod 3;
         p1 = (if remain < 4 \<and> p = 2 then 1 else p)
     in if remain < 2 then 0 else p1)"

text \<open>One access of the mixed mode: width, delays and the offset after it.\<close>

definition mix_access :: "'d dut_eval \<Rightarrow> nat \<Rightarrow> nat \<Rightarrow> Rx \<Rightarrow> ('d, nat \<times> Rx \<times> bool) prog" where
  "mix_access ev len d x = do {
     r1 \<leftarrow> lcg; r2 \<leftarrow> lcg; r3 \<leftarrow> lcg;
     let pick = pick_width r1 (len - d);
         jds = unat r2 mod 4;
         jgap = 1 + unat r3 mod 8
     in if pick = 0 then do { r \<leftarrow> acc_byte ev jds jgap d x; State_Monad.return (d + 1, r) }
        else if pick = 1 then do { r \<leftarrow> acc_word ev jds jgap d x; State_Monad.return (d + 2, r) }
        else do {
          r4 \<leftarrow> lcg; r5 \<leftarrow> lcg;
          r \<leftarrow> acc_long ev jds jgap (unat r4 mod 4) (1 + unat r5 mod 8) d x;
          State_Monad.return (d + 4, r) } }"

text \<open>
  The loop while d is below len: every access advances, so len rounds are enough; n counts the
  rounds that may still follow.
\<close>

primrec stream_mix :: "'d dut_eval \<Rightarrow> nat \<Rightarrow> nat \<Rightarrow> nat \<Rightarrow> Rx \<Rightarrow> ('d, nat \<times> Rx \<times> bool) prog" where
  "stream_mix ev len 0 d x = State_Monad.return (d, x, True)"
| "stream_mix ev len (Suc n) d x =
    (if d < len then do {
       r \<leftarrow> mix_access ev len d x;
       if snd (snd r) then stream_mix ev len n (fst r) (fst (snd r)) else State_Monad.return r }
     else State_Monad.return (d, x, True))"

definition mix_seed :: "nat \<Rightarrow> nat \<Rightarrow> int \<Rightarrow> u32" where
  "mix_seed ds gap lat = 0xC0FFEE XOR of_nat (ds * 7919) XOR of_nat (gap * 104729) XOR of_int lat"

definition read_stream :: "'d dut_eval \<Rightarrow> Mode \<Rightarrow> nat \<Rightarrow> nat \<Rightarrow> nat \<Rightarrow> int \<Rightarrow> ('d, Rx \<times> bool) prog" where
  "read_stream ev mode len ds gap lat =
    (let x = \<lparr>got = [], ring = [], rx_unstable = 0\<rparr>
     in case mode of
       M_BYTE \<Rightarrow> for_offs (acc_byte ev ds gap) (offs 1 len) x
     | M_WORD \<Rightarrow> for_offs (acc_word ev ds gap) (offs 2 len) x
     | M_LONG \<Rightarrow> for_offs (acc_long ev ds gap ds gap) (offs 4 len) x
     | M_LONGSKEW \<Rightarrow> stream_longskew ev len ds gap x
     | M_WORDSKEW \<Rightarrow> stream_wordskew ev len ds gap x
     | M_MIX \<Rightarrow> do {
         modify (\<lambda>s. s\<lparr>lcg_state := mix_seed ds gap lat\<rparr>);
         r \<leftarrow> stream_mix ev len len 0 x;
         State_Monad.return (snd r) })"

section \<open>A READ run\<close>

text \<open>The loop that compares the stream with the pattern.\<close>

primrec compare :: "nat \<Rightarrow> u8 list \<Rightarrow> RunResult \<Rightarrow> RunResult" where
  "compare d [] res = res"
| "compare d (b # bs) res =
    compare (Suc d) bs
      (if b \<noteq> ramp (of_nat d)
       then res\<lparr>mismatches := mismatches res + 1,
                first_bad := (if first_bad res = None then Some d else first_bad res)\<rparr>
       else res)"

text \<open>Selecting a target: put its bit on the bus, raise SEL, wait for BSY, drop SEL.\<close>

definition select_target :: "'d dut_eval \<Rightarrow> u8 \<Rightarrow> int \<Rightarrow> ('d, bool) prog" where
  "select_target ev idbit n = do {
     reg_write ev WREG_ODR idbit;
     reg_write ev WREG_ICR (ICR_DATA OR ICR_SEL);
     r \<leftarrow> wait_csr ev CSR_BSY CSR_BSY n;
     if \<not> r then State_Monad.return False
     else do { reg_write ev WREG_ICR ICR_DATA; State_Monad.return True } }"

definition id_bit :: "nat \<Rightarrow> u8" where
  "id_bit scsi_id = push_bit scsi_id 1"

definition complete_run :: "'d dut_eval \<Rightarrow> RunResult \<Rightarrow> ('d, RunResult) prog" where
  "complete_run ev res = do {
     st \<leftarrow> pio_get ev;
     msg \<leftarrow> pio_get ev;
     State_Monad.return (res\<lparr>rr_status := st, rr_message := msg,
       completion_ok := (st = Some 0 \<and> msg = Some 0)\<rparr>) }"

definition start_receive :: "'d dut_eval \<Rightarrow> ('d, unit) prog" where
  "start_receive ev = do {
     reg_write ev WREG_ICR 0;
     reg_write ev WREG_TCR 0x01;
     reg_write ev WREG_MR 0x02;
     reg_write ev WREG_IDMAR 0 }"

text \<open>The data phase, the comparison and the completion; the local vector got is returned too.\<close>

definition read_data :: "'d dut_eval \<Rightarrow> Mode \<Rightarrow> nat \<Rightarrow> nat \<Rightarrow> nat \<Rightarrow> int \<Rightarrow> RunResult \<Rightarrow> ('d, RunResult \<times> u8 list) prog" where
  "read_data ev mode sectors ds gap lat res0 = do {
     start_receive ev;
     r \<leftarrow> read_stream ev mode (sectors * 512) ds gap lat;
     let x = fst r; ok = snd r;
         res = compare 0 (got x) (res0\<lparr>dreq_timeout := \<not> ok, unstable_cnt := rx_unstable x\<rparr>)
     in if ok then do {
          reg_read ev RREG_RST;
          reg_write ev WREG_MR 0;
          res2 \<leftarrow> complete_run ev res;
          State_Monad.return (res2, got x) }
        else State_Monad.return (res, got x) }"

definition run_read_log :: "'d dut_eval \<Rightarrow> Mode \<Rightarrow> nat \<Rightarrow> nat \<Rightarrow> nat \<Rightarrow> int \<Rightarrow> nat \<Rightarrow> nat \<Rightarrow>
    ('d, RunResult \<times> u8 list) prog" where
  "run_read_log ev mode sectors ds gap lat scsi_id id_slot = do {
     cyc0 \<leftarrow> gets cyc;
     reset_dut ev id_slot;
     set_hps (\<lambda>h. h\<lparr>h_latency := lat\<rparr>);
     sel \<leftarrow> select_target ev (id_bit scsi_id) 20000;
     if \<not> sel then do { bus_release; State_Monad.return (result_init, []) }
     else do {
       sent \<leftarrow> all_ok (pio_put ev) [0x08, 0, 0, 0, of_nat sectors, 0];
       if \<not> sent then do { bus_release; State_Monad.return (result_init\<lparr>selected := True\<rparr>, []) }
       else do {
         r \<leftarrow> read_data ev mode sectors ds gap lat (result_init\<lparr>selected := True, cmd_sent := True\<rparr>);
         c \<leftarrow> gets cyc;
         State_Monad.return ((fst r)\<lparr>cycles_used := c - cyc0\<rparr>, snd r) } } }"

definition run_read :: "'d dut_eval \<Rightarrow> Mode \<Rightarrow> nat \<Rightarrow> nat \<Rightarrow> nat \<Rightarrow> int \<Rightarrow> nat \<Rightarrow> nat \<Rightarrow> ('d, RunResult) prog" where
  "run_read ev mode sectors ds gap lat scsi_id id_slot = do {
     r \<leftarrow> run_read_log ev mode sectors ds gap lat scsi_id id_slot;
     State_Monad.return (fst r) }"

section \<open>A WRITE run\<close>

definition ramp_pair :: "nat \<Rightarrow> nat \<Rightarrow> u16" where
  "ramp_pair d e = be16 (ramp (of_nat d)) (ramp (of_nat e))"

text \<open>The writes of the data phase; the code passes a gap of 3, not its parameter.\<close>

definition write_stream :: "'d dut_eval \<Rightarrow> bool \<Rightarrow> nat \<Rightarrow> ('d, bool) prog" where
  "write_stream ev word_mode len =
     (if word_mode then all_ok (\<lambda>d. dma_write16 ev True (ramp_pair d (d + 1)) 3) (offs 2 len)
      else all_ok (\<lambda>d. dma_write16 ev False (ramp_pair d d) 3) (offs 1 len))"

text \<open>Waiting for the last flush: at most n ticks while the server is asked or busy.\<close>

primrec drain :: "'d dut_eval \<Rightarrow> nat \<Rightarrow> ('d, unit) prog" where
  "drain ev 0 = State_Monad.return ()"
| "drain ev (Suc n) = do {
     busy \<leftarrow> gets (\<lambda>s. top_io_wr (outs s) \<noteq> 0 \<or> top_io_ack (hps s) \<noteq> 0);
     if busy then do { tick ev; drain ev n } else State_Monad.return () }"

text \<open>The captured image as the comparison sees it: 0xEE where nothing was captured.\<close>

definition image_bytes :: "nat \<Rightarrow> u8 list \<Rightarrow> u8 list" where
  "image_bytes len w = map (\<lambda>d. if d < length w then w ! d else 0xEE) [0..<len]"

text \<open>The data phase with its completion, then the comparison of the captured image.\<close>

definition write_data :: "'d dut_eval \<Rightarrow> bool \<Rightarrow> nat \<Rightarrow> RunResult \<Rightarrow> ('d, RunResult) prog" where
  "write_data ev word_mode sectors res0 = do {
     reg_write ev WREG_ICR ICR_DATA;
     reg_write ev WREG_TCR 0;
     reg_write ev WREG_MR 0x02;
     reg_write ev WREG_DMAS 0;
     ok \<leftarrow> write_stream ev word_mode (sectors * 512);
     if ok then do {
       drain ev 200000;
       reg_read ev RREG_RST;
       reg_write ev WREG_MR 0;
       reg_write ev WREG_ICR 0;
       complete_run ev (res0\<lparr>dreq_timeout := False\<rparr>) }
     else State_Monad.return (res0\<lparr>dreq_timeout := True\<rparr>) }"

definition check_image :: "nat \<Rightarrow> RunResult \<Rightarrow> ('d, RunResult) prog" where
  "check_image len res = gets (\<lambda>s. compare 0 (image_bytes len (written (hps s))) res)"

definition run_write :: "'d dut_eval \<Rightarrow> bool \<Rightarrow> nat \<Rightarrow> nat \<Rightarrow> int \<Rightarrow> nat \<Rightarrow> nat \<Rightarrow> ('d, RunResult) prog" where
  "run_write ev word_mode sectors gap lat scsi_id id_slot = do {
     cyc0 \<leftarrow> gets cyc;
     reset_dut ev id_slot;
     set_hps (\<lambda>h. h\<lparr>h_latency := lat\<rparr>);
     sel \<leftarrow> select_target ev (id_bit scsi_id) 20000;
     if \<not> sel then do { bus_release; State_Monad.return result_init }
     else do {
       sent \<leftarrow> all_ok (pio_put ev) [0x0a, 0, 0, 0, of_nat sectors, 0];
       if \<not> sent then do { bus_release; State_Monad.return (result_init\<lparr>selected := True\<rparr>) }
       else do {
         res \<leftarrow> write_data ev word_mode sectors (result_init\<lparr>selected := True, cmd_sent := True\<rparr>);
         res2 \<leftarrow> check_image (sectors * 512) res;
         c \<leftarrow> gets cyc;
         State_Monad.return (res2\<lparr>cycles_used := c - cyc0\<rparr>) } } }"

section \<open>The sweep\<close>

definition cell_fails :: "RunResult \<Rightarrow> bool" where
  "cell_fails r \<longleftrightarrow> dreq_timeout r \<or> \<not> selected r \<or> \<not> cmd_sent r \<or> mismatches r \<noteq> 0"

definition ds_list :: "nat list" where "ds_list = [0, 1, 2, 3, 4, 6]"
definition gap_list :: "nat list" where "gap_list = [1, 2, 3, 4, 6, 8, 12]"
definition hps_list :: "int list" where "hps_list = [600, 6000]"
definition modes :: "Mode list" where "modes = [M_BYTE, M_WORD, M_LONG, M_MIX, M_LONGSKEW, M_WORDSKEW]"

primrec run_cells :: "('c \<Rightarrow> ('d, RunResult) prog) \<Rightarrow> 'c list \<Rightarrow> ('d, ('c \<times> RunResult) list) prog" where
  "run_cells f [] = State_Monad.return []"
| "run_cells f (c # cs) = do { r \<leftarrow> f c; rs \<leftarrow> run_cells f cs; State_Monad.return ((c, r) # rs) }"

text \<open>
  One table: all cells in order, then the first cell with a mismatch (neither a timeout nor a
  failed selection) once more for its details. The number of failing cells is returned.
\<close>

definition first_detail :: "('c \<times> RunResult) list \<Rightarrow> 'c option" where
  "first_detail rs = map_option fst (find (\<lambda>(c, r). \<not> dreq_timeout r \<and> selected r \<and> cmd_sent r \<and> mismatches r \<noteq> 0) rs)"

definition run_table :: "('c \<Rightarrow> ('d, RunResult) prog) \<Rightarrow> 'c list \<Rightarrow> ('d, ('c \<times> RunResult) list) prog" where
  "run_table f cs = do {
     rs \<leftarrow> run_cells f cs;
     case first_detail rs of
       None \<Rightarrow> State_Monad.return rs
     | Some c \<Rightarrow> do { f c; State_Monad.return rs } }"

text \<open>The tables of a list of rows, their cells in one list.\<close>

primrec run_tables :: "('t \<Rightarrow> ('d, ('c \<times> RunResult) list) prog) \<Rightarrow> 't list \<Rightarrow>
    ('d, (('t \<times> 'c) \<times> RunResult) list) prog" where
  "run_tables f [] = State_Monad.return []"
| "run_tables f (t # ts) = do {
     rs \<leftarrow> f t; qs \<leftarrow> run_tables f ts;
     State_Monad.return (map (\<lambda>(c, r). ((t, c), r)) rs @ qs) }"

definition read_sweep :: "'d dut_eval \<Rightarrow> nat \<Rightarrow> nat \<Rightarrow> nat \<Rightarrow> ('d, (((int \<times> Mode) \<times> nat \<times> nat) \<times> RunResult) list) prog" where
  "read_sweep ev sectors scsi_id id_slot =
     run_tables (\<lambda>(hl, m). run_table (\<lambda>(ds, g). run_read ev m sectors ds g hl scsi_id id_slot)
         (List.product ds_list gap_list))
       (List.product hps_list modes)"

definition write_sweep :: "'d dut_eval \<Rightarrow> nat \<Rightarrow> nat \<Rightarrow> nat \<Rightarrow> ('d, (((int \<times> bool) \<times> nat) \<times> RunResult) list) prog" where
  "write_sweep ev sectors scsi_id id_slot =
     run_tables (\<lambda>(hl, wm). run_table (\<lambda>g. run_write ev wm sectors g hl scsi_id id_slot) gap_list)
       (List.product hps_list [False, True])"

text \<open>The exit code of the full sweep.\<close>

definition full_sweep :: "'d dut_eval \<Rightarrow> nat \<Rightarrow> nat \<Rightarrow> nat \<Rightarrow> ('d, nat) prog" where
  "full_sweep ev sectors scsi_id id_slot = do {
     rs \<leftarrow> read_sweep ev sectors scsi_id id_slot;
     ws \<leftarrow> write_sweep ev sectors scsi_id id_slot;
     let total_fail = length (filter (cell_fails \<circ> snd) rs) + length (filter (cell_fails \<circ> snd) ws)
     in State_Monad.return (if total_fail \<noteq> 0 then 1 else 0) }"

section \<open>Every mode reads exactly the announced bytes\<close>

text \<open>An access that adds n bytes when it succeeds.\<close>

definition adds :: "nat \<Rightarrow> ('d, Rx \<times> bool) prog \<Rightarrow> Rx \<Rightarrow> bool" where
  "adds n m x \<longleftrightarrow> (\<forall>s y s'. run_state m s = ((y, True), s') \<longrightarrow> length (got y) = length (got x) + n)"

lemma addsD: "adds n m x \<Longrightarrow> run_state m s = ((y, True), s') \<Longrightarrow> length (got y) = length (got x) + n"
  unfolding adds_def by blast

lemma adds_acc:
  "adds 1 (acc_byte ev ds gap d x) x" "adds 2 (acc_word ev ds gap d x) x"
  "adds 4 (acc_long ev ds gap ds2 gap2 d x) x"
  by (auto simp: adds_def acc_byte_def acc_word_def acc_long_def split: option.splits prod.splits)

lemma adds_for_offs:
  assumes "\<And>d x. adds n (f d x) x"
  shows "adds (n * length ds) (for_offs f ds x) x"
  unfolding adds_def
proof (intro allI impI)
  fix s y s'
  assume "run_state (for_offs f ds x) s = ((y, True), s')"
  then show "length (got y) = length (got x) + n * length ds"
  proof (induction ds arbitrary: x s)
    case (Cons d ds)
    obtain z b s1 where 1: "run_state (f d x) s = ((z, b), s1)" by (metis prod.exhaust)
    with Cons.prems have b: "b" and 2: "run_state (for_offs f ds z) s1 = ((y, True), s')"
      by (auto split: if_splits)
    have "length (got z) = length (got x) + n" using addsD [OF assms] 1 b by simp
    with Cons.IH [OF 2] show ?case by simp
  qed simp
qed

lemma length_offs:
  assumes "k dvd len" "0 < k"
  shows "k * length (offs k len) = len"
proof -
  obtain m where "len = k * m" using assms(1) by blast
  moreover have "k * m + k - 1 = k - 1 + k * m" using assms(2) by linarith
  moreover have "(k - 1 + k * m) div k = m" using assms(2) by (subst div_mult_self2) simp_all
  ultimately show ?thesis by (simp add: offs_def)
qed

lemma skew_body_exact:
  assumes "\<And>d x. adds step (f d x) x" "step < need" "0 < step"
  shows "run_state (skew_body f len need step d x) s = ((d', y, True), s') \<Longrightarrow> d + (need - step) \<le> len \<Longrightarrow>
    length (got y) + d = length (got x) + d' \<and> len < need + d' \<and> d' + (need - step) \<le> len \<and>
    d' mod step = d mod step"
proof (induction "Suc len - d" arbitrary: d x s rule: less_induct)
  case less
  show ?case
  proof (cases "need + d \<le> len")
    case True
    obtain z b s1 where 1: "run_state (f d x) s = ((z, b), s1)" by (metis prod.exhaust)
    with less.prems(1) True assms(3) have b: "b"
      and 2: "run_state (skew_body f len need step (d + step) z) s1 = ((d', y, True), s')"
      by (auto simp: skew_body.simps [of f len need step d x] split: if_splits)
    have "length (got z) = length (got x) + step" using addsD [OF assms(1)] 1 b by simp
    moreover have "Suc len - (d + step) < Suc len - d" "d + step + (need - step) \<le> len"
      using True assms(2,3) by linarith+
    ultimately show ?thesis using less.hyps [OF _ 2] by simp
  next
    case False
    then show ?thesis using less.prems by (auto simp: skew_body.simps [of f len need step d x])
  qed
qed

lemma adds_longskew:
  assumes "4 dvd len" "0 < len"
  shows "adds len (stream_longskew ev len ds gap x) x"
  unfolding adds_def
proof (intro allI impI)
  fix s y s'
  assume r: "run_state (stream_longskew ev len ds gap x) s = ((y, True), s')"
  obtain z b s1 where 1: "run_state (acc_word ev ds gap 0 x) s = ((z, b), s1)" by (metis prod.exhaust)
  then have b: "b" using r by (auto simp: stream_longskew_def split: if_splits)
  obtain d w k s2 where 2: "run_state (skew_body (acc_long ev ds gap ds gap) len 6 4 2 z) s1 = ((d, w, k), s2)"
    by (metis prod.exhaust)
  then have k: "k" using r 1 b by (auto simp: stream_longskew_def split: if_splits)
  have "2 + (6 - 4) \<le> len" using assms by (auto elim!: dvdE)
  then have l: "length (got w) + 2 = length (got z) + d" "len < 6 + d" "d + 2 \<le> len" "d mod 4 = 2"
    using skew_body_exact [OF adds_acc(3), where need = 6 and len = len and d = 2 and x = z and s = s1 and d' = d and y = w and s' = s2] 2 k by simp_all
  have "d + 2 = len" using l(2,3,4) assms(1) by presburger
  moreover from this have "run_state (acc_word ev ds gap d w) s2 = ((y, True), s')"
    using r 1 2 b k by (auto simp: stream_longskew_def split: if_splits)
  moreover have "length (got z) = length (got x) + 2" using addsD [OF adds_acc(2)] 1 b by simp
  ultimately show "length (got y) = length (got x) + len" using addsD [OF adds_acc(2)] l(1) by fastforce
qed

lemma adds_wordskew:
  assumes "2 dvd len" "0 < len"
  shows "adds len (stream_wordskew ev len ds gap x) x"
  unfolding adds_def
proof (intro allI impI)
  fix s y s'
  assume r: "run_state (stream_wordskew ev len ds gap x) s = ((y, True), s')"
  obtain z b s1 where 1: "run_state (acc_byte ev ds gap 0 x) s = ((z, b), s1)" by (metis prod.exhaust)
  then have b: "b" using r by (auto simp: stream_wordskew_def split: if_splits)
  obtain d w k s2 where 2: "run_state (skew_body (acc_word ev ds gap) len 3 2 1 z) s1 = ((d, w, k), s2)"
    by (metis prod.exhaust)
  then have k: "k" using r 1 b by (auto simp: stream_wordskew_def split: if_splits)
  have "1 + (3 - 2) \<le> len" using assms by (auto elim!: dvdE)
  then have l: "length (got w) + 1 = length (got z) + d" "len < 3 + d" "d + 1 \<le> len" "d mod 2 = 1"
    using skew_body_exact [OF adds_acc(2), where need = 3 and len = len and d = 1 and x = z and s = s1 and d' = d and y = w and s' = s2] 2 k by simp_all
  have "d + 1 = len" using l(2,3,4) assms(1) by presburger
  moreover from this have "run_state (acc_byte ev ds gap d w) s2 = ((y, True), s')"
    using r 1 2 b k by (auto simp: stream_wordskew_def split: if_splits)
  moreover have "length (got z) = length (got x) + 1" using addsD [OF adds_acc(1)] 1 b by simp
  ultimately show "length (got y) = length (got x) + len" using addsD [OF adds_acc(1)] l(1) by fastforce
qed

lemma pick_width_bounds:
  "0 < remain \<Longrightarrow> pick_width r remain = 0 \<or> pick_width r remain = 1 \<and> 2 \<le> remain \<or> pick_width r remain = 2 \<and> 4 \<le> remain"
proof -
  assume "0 < remain"
  have "unat r mod 3 < 3" by simp
  then show ?thesis by (auto simp: pick_width_def Let_def)
qed

lemma mix_access_exact:
  assumes "run_state (mix_access ev len d x) s = ((d', y, True), s')" "d < len"
  shows "length (got y) + d = length (got x) + d' \<and> d < d' \<and> d' \<le> len"
proof -
  obtain r1 s1 where 1: "run_state lcg s = (r1, s1)" by fastforce
  obtain r2 s2 where 2: "run_state lcg s1 = (r2, s2)" by fastforce
  obtain r3 s3 where 3: "run_state lcg s2 = (r3, s3)" by fastforce
  consider "pick_width r1 (len - d) = 0" | "pick_width r1 (len - d) = 1" "d + 2 \<le> len"
    | "pick_width r1 (len - d) = 2" "d + 4 \<le> len"
    using pick_width_bounds [of "len - d" r1] assms(2) by linarith
  then show ?thesis
  proof cases
    case a: 1
    have "run_state (acc_byte ev (unat r2 mod 4) (1 + unat r3 mod 8) d x) s3 = ((y, True), s') \<and> d' = d + 1"
      using assms(1) 1 2 3 a by (auto simp: mix_access_def Let_def split: prod.splits)
    then show ?thesis using addsD [OF adds_acc(1)] assms(2) by fastforce
  next
    case a: 2
    have "run_state (acc_word ev (unat r2 mod 4) (1 + unat r3 mod 8) d x) s3 = ((y, True), s') \<and> d' = d + 2"
      using assms(1) 1 2 3 a by (auto simp: mix_access_def Let_def split: prod.splits)
    then show ?thesis using addsD [OF adds_acc(2)] a(2) by fastforce
  next
    case a: 3
    obtain r4 s4 where 4: "run_state lcg s3 = (r4, s4)" by fastforce
    obtain r5 s5 where 5: "run_state lcg s4 = (r5, s5)" by fastforce
    have "run_state (acc_long ev (unat r2 mod 4) (1 + unat r3 mod 8) (unat r4 mod 4) (1 + unat r5 mod 8) d x) s5 =
        ((y, True), s') \<and> d' = d + 4"
      using assms(1) 1 2 3 4 5 a by (auto simp: mix_access_def Let_def split: prod.splits)
    then show ?thesis using addsD [OF adds_acc(3)] a(2) by fastforce
  qed
qed

lemma stream_mix_exact:
  "run_state (stream_mix ev len n d x) s = ((d', y, True), s') \<Longrightarrow> d \<le> len \<Longrightarrow> len \<le> d + n \<Longrightarrow>
   d' = len \<and> length (got y) + d = length (got x) + len"
proof (induction n arbitrary: d x s)
  case (Suc n)
  show ?case
  proof (cases "d < len")
    case True
    obtain e z b s1 where 1: "run_state (mix_access ev len d x) s = ((e, z, b), s1)" by (metis prod.exhaust)
    with Suc.prems(1) True have b: "b" and 2: "run_state (stream_mix ev len n e z) s1 = ((d', y, True), s')"
      by (auto split: if_splits)
    have m: "length (got z) + d = length (got x) + e \<and> d < e \<and> e \<le> len"
      using mix_access_exact [of ev len d x s e z s1] 1 b True by simp
    with Suc.IH [OF 2] Suc.prems(3) show ?thesis by simp
  next
    case False
    then show ?thesis using Suc.prems by simp
  qed
qed simp

lemma adds_read_stream:
  assumes "0 < sectors" "run_state (read_stream ev mode (sectors * 512) ds gap lat) s = ((x, True), s')"
  shows "length (got x) = sectors * 512"
proof -
  have 4: "4 dvd sectors * 512" "2 dvd sectors * 512" by auto
  let ?x = "\<lparr>got = [], ring = [], rx_unstable = 0\<rparr>"
  show ?thesis
  proof (cases mode)
    case M_BYTE
    then show ?thesis using assms(2) addsD [OF adds_for_offs [OF adds_acc(1)]] length_offs [of 1 "sectors * 512"]
      by (fastforce simp: read_stream_def)
  next
    case M_WORD
    then show ?thesis using assms(2) addsD [OF adds_for_offs [OF adds_acc(2)]] length_offs [of 2 "sectors * 512"]
      by (fastforce simp: read_stream_def)
  next
    case M_LONG
    then show ?thesis using assms(2) addsD [OF adds_for_offs [OF adds_acc(3)]] length_offs [OF 4(1)]
      by (fastforce simp: read_stream_def)
  next
    case M_MIX
    then obtain d s0 where "run_state (stream_mix ev (sectors * 512) (sectors * 512) 0 ?x) s0 = ((d, x, True), s')"
      using assms(2) by (auto simp: read_stream_def split: prod.splits)
    from stream_mix_exact [OF this] show ?thesis by simp
  next
    case M_LONGSKEW
    then show ?thesis using assms addsD [OF adds_longskew [OF 4(1)]] by (fastforce simp: read_stream_def)
  next
    case M_WORDSKEW
    then show ?thesis using assms addsD [OF adds_wordskew [OF 4(2)]] by (fastforce simp: read_stream_def)
  qed
qed

section \<open>The comparison\<close>

lemma compare_frame:
  "selected (compare d bs res) = selected res" "cmd_sent (compare d bs res) = cmd_sent res"
  "dreq_timeout (compare d bs res) = dreq_timeout res" "completion_ok (compare d bs res) = completion_ok res"
  by (induction bs arbitrary: d res) auto

lemma compare_mismatches:
  "mismatches (compare d bs res) = mismatches res + length (filter (\<lambda>i. bs ! i \<noteq> ramp (of_nat (d + i))) [0..<length bs])"
proof (induction bs arbitrary: d res)
  case (Cons b bs)
  have "[0..<length (b # bs)] = 0 # map Suc [0..<length bs]" by (simp add: map_Suc_upt upt_conv_Cons del: upt_Suc)
  then show ?case by (simp add: Cons.IH filter_map comp_def ac_simps del: upt_Suc)
qed simp

lemma compare_clean:
  "mismatches (compare 0 bs res) = 0 \<longleftrightarrow> mismatches res = 0 \<and> bs = map (\<lambda>d. ramp (of_nat d)) [0..<length bs]"
proof -
  have "filter (\<lambda>i. bs ! i \<noteq> ramp (of_nat i)) [0..<length bs] = [] \<longleftrightarrow>
      bs = map (\<lambda>d. ramp (of_nat d)) [0..<length bs]"
  proof
    assume "filter (\<lambda>i. bs ! i \<noteq> ramp (of_nat i)) [0..<length bs] = []"
    then show "bs = map (\<lambda>d. ramp (of_nat d)) [0..<length bs]"
      by (intro nth_equalityI) (simp_all add: filter_empty_conv)
  next
    assume e: "bs = map (\<lambda>d. ramp (of_nat d)) [0..<length bs]"
    have "bs ! i = ramp (of_nat i)" if "i < length bs" for i
      using arg_cong [OF e, of "\<lambda>x. x ! i"] that by simp
    then show "filter (\<lambda>i. bs ! i \<noteq> ramp (of_nat i)) [0..<length bs] = []" by (simp add: filter_empty_conv)
  qed
  then show ?thesis by (simp add: compare_mismatches)
qed

lemma compare_first_bad:
  "first_bad res = None \<Longrightarrow> first_bad (compare d bs res) = map_option ((+) d)
     (find (\<lambda>i. bs ! i \<noteq> ramp (of_nat (d + i))) [0..<length bs])"
proof (induction bs arbitrary: d res)
  case (Cons b bs)
  have some: "first_bad r = Some k \<Longrightarrow> first_bad (compare e cs r) = Some k" for r k e cs
    by (induction cs arbitrary: e r) auto
  have u: "[0..<length (b # bs)] = 0 # map Suc [0..<length bs]"
    by (simp add: map_Suc_upt upt_conv_Cons del: upt_Suc)
  have f: "find P (map Suc xs) = map_option Suc (find (P \<circ> Suc) xs)" for P xs by (induction xs) auto
  show ?case
  proof (cases "b = ramp (of_nat d)")
    case True
    then show ?thesis using Cons.IH [OF Cons.prems, of "Suc d"]
      unfolding u by (simp add: f comp_def option.map_comp ac_simps)
  next
    case False
    then show ?thesis using Cons.prems unfolding u by (simp add: some)
  qed
qed simp

lemma complete_run_frame:
  assumes "run_state (complete_run ev res) s = (res', s')"
  shows "mismatches res' = mismatches res \<and> first_bad res' = first_bad res \<and>
    dreq_timeout res' = dreq_timeout res \<and> selected res' = selected res \<and> cmd_sent res' = cmd_sent res"
  using assms by (auto simp: complete_run_def split: prod.splits)

lemma read_data_verdict:
  assumes "run_state (read_data ev mode sectors ds gap lat res0) s = ((res, g), s')" "0 < sectors"
    "mismatches res0 = 0" "first_bad res0 = None"
  shows "\<not> dreq_timeout res \<longrightarrow> length g = sectors * 512"
    "mismatches res = 0 \<longleftrightarrow> g = map (\<lambda>d. ramp (of_nat d)) [0..<length g]"
    "first_bad res = find (\<lambda>i. g ! i \<noteq> ramp (of_nat i)) [0..<length g]"
    "selected res = selected res0" "cmd_sent res = cmd_sent res0"
proof -
  obtain s0 where s0: "run_state (start_receive ev) s = ((), s0)" by (metis prod.exhaust unit.exhaust)
  obtain x ok s1 where r: "run_state (read_stream ev mode (sectors * 512) ds gap lat) s0 = ((x, ok), s1)"
    by (metis prod.exhaust)
  let ?res = "compare 0 (got x) (res0\<lparr>dreq_timeout := \<not> ok, unstable_cnt := rx_unstable x\<rparr>)"
  have fr: "mismatches res = mismatches ?res \<and> first_bad res = first_bad ?res \<and>
      dreq_timeout res = dreq_timeout ?res \<and> selected res = selected ?res \<and> cmd_sent res = cmd_sent ?res \<and> g = got x"
    using assms(1) s0 r
    by (cases ok) (auto simp: read_data_def Let_def dest!: complete_run_frame split: prod.splits)
  then have e: "mismatches res = mismatches ?res" "first_bad res = first_bad ?res"
      "dreq_timeout res = (\<not> ok)" "selected res = selected res0" "cmd_sent res = cmd_sent res0" "g = got x"
    by (simp_all add: compare_frame)
  show "\<not> dreq_timeout res \<longrightarrow> length g = sectors * 512"
    using e(3,6) adds_read_stream [OF assms(2), of ev mode ds gap lat s0 x s1] r by (cases ok) simp_all
  show "mismatches res = 0 \<longleftrightarrow> g = map (\<lambda>d. ramp (of_nat d)) [0..<length g]"
    using e(1,6) assms(3) compare_clean by simp
  show "first_bad res = find (\<lambda>i. g ! i \<noteq> ramp (of_nat i)) [0..<length g]"
  proof -
    have "map_option ((+) 0) z = z" for z :: "nat option" by (cases z) simp_all
    then show ?thesis unfolding e(2,6) using assms(4) by (subst compare_first_bad) simp_all
  qed
  show "selected res = selected res0" "cmd_sent res = cmd_sent res0" using e(4,5) by simp_all
qed

lemma read_data_count:
  assumes "run_state (read_data ev mode sectors ds gap lat res0) s = ((res, g), s')" "mismatches res0 = 0"
  shows "mismatches res = length (filter (\<lambda>i. g ! i \<noteq> ramp (of_nat i)) [0..<length g])"
  using assms
  by (auto simp: read_data_def Let_def compare_mismatches dest!: complete_run_frame split: prod.splits if_splits)

lemma run_read_log_cases:
  assumes "run_state (run_read_log ev mode sectors ds gap lat scsi_id id_slot) s = ((res, g), s')" "cmd_sent res"
    "0 < sectors"
  obtains r s1 s2 c where
    "run_state (read_data ev mode sectors ds gap lat (result_init\<lparr>selected := True, cmd_sent := True\<rparr>)) s1 =
       ((r, g), s2)" "res = r\<lparr>cycles_used := c\<rparr>"
  using assms
  by (auto simp: run_read_log_def result_init_def split: prod.splits if_splits)

section \<open>Writes\<close>

lemma bit_ramp: "bit (ramp off) n \<longleftrightarrow> n < 8 \<and> (bit off n \<noteq> (bit off (n + 8) \<noteq> bit off (n + 16)))"
proof -
  have m: "(0xff :: u64) = mask 8" by (simp add: mask_eq_exp_minus_1)
  show ?thesis unfolding ramp_def m by (auto simp: bit_simps ac_simps)
qed

lemma ramp_odd: "even off \<Longrightarrow> ramp (off + 1) \<noteq> ramp off"
proof
  assume e: "even off" and r: "ramp (off + 1) = ramp off"
  have o: "off + 1 = off OR 1" using e by (simp add: or_one_eq)
  have "bit (ramp (off + 1)) 0 \<longleftrightarrow> bit (ramp off) 0" using r by simp
  moreover have "odd (off OR 1)" using e by (simp add: or_one_eq)
  ultimately show False using e unfolding o bit_ramp by (auto simp: bit_simps bit_0)
qed

lemma image_covered:
  assumes "image_bytes len w = map (\<lambda>d. ramp (of_nat d)) [0..<len]" "even len" "even (length w)"
  shows "take len w = map (\<lambda>d. ramp (of_nat d)) [0..<len]"
proof -
  have b: "(if d < length w then w ! d else 0xEE) = ramp (of_nat d)" if "d < len" for d
  proof -
    have "[0..<len] ! d = d" using that by simp
    then show ?thesis using arg_cong [OF assms(1), of "\<lambda>x. x ! d"] that
      by (cases "d < length w") (simp_all add: image_bytes_def)
  qed
  have "len \<le> length w"
  proof (rule ccontr)
    assume "\<not> len \<le> length w"
    then have "length w + 2 \<le> len" using assms(2,3) by (auto elim!: evenE)
    then have "ramp (of_nat (length w)) = ramp (of_nat (length w + 1))"
      using b [of "length w"] b [of "length w + 1"] by simp
    moreover have "even (of_nat (length w) :: u64)" using assms(3) by (simp add: even_of_nat_iff)
    ultimately show False using ramp_odd [of "of_nat (length w)"] by (simp add: add.commute)
  qed
  then show ?thesis using b by (intro nth_equalityI) auto
qed

section \<open>Invariants\<close>

context bench_frame
begin

lemma acc_kept:
  "keeps I (acc_byte ev ds gap d x)" "keeps I (acc_word ev ds gap d x)" "keeps I (acc_long ev ds gap ds2 gap2 d x)"
  unfolding acc_byte_def acc_word_def acc_long_def by (intro keep_rules elementary)+

lemma for_offs_kept: "(\<And>d x. keeps I (f d x)) \<Longrightarrow> keeps I (for_offs f ds x)"
  by (induction ds arbitrary: x) (auto intro!: keep_rules)

lemma skew_kept:
  assumes "\<And>d x. keeps I (f d x)"
  shows "keeps I (skew_body f len need step d x)"
proof (induction "Suc len - d" arbitrary: d x rule: less_induct)
  case less
  have "keeps I (skew_body f len need step (d + step) y)" if "need + d \<le> len" "0 < step" for y
    using that by (intro less.hyps) linarith
  then show ?case using assms by (subst skew_body.simps) (auto intro!: keep_rules)
qed

lemma mix_kept: "keeps I (stream_mix ev len n d x)"
  by (induction n arbitrary: d x)
     (auto simp: mix_access_def intro!: keep_rules lcg_prog_kept acc_kept)

lemma read_stream_kept: "keeps I (read_stream ev mode len ds gap lat)"
  unfolding read_stream_def stream_longskew_def stream_wordskew_def
  by (cases mode)
     (auto intro!: keep_rules acc_kept for_offs_kept skew_kept mix_kept keeps_modify lcg_kept)

lemma select_kept: "keeps I (select_target ev b n)"
  unfolding select_target_def by (intro keep_rules elementary wait_csr_kept)

lemma complete_kept: "keeps I (complete_run ev res)"
  unfolding complete_run_def by (intro keep_rules pio_get_kept)

lemma run_read_log_kept: "keeps I (run_read_log ev mode sectors ds gap lat scsi_id id_slot)"
  unfolding run_read_log_def read_data_def start_receive_def
  by (intro keep_rules elementary select_kept set_latency_kept pio_put_kept complete_kept read_stream_kept)

lemma run_read_kept: "keeps I (run_read ev mode sectors ds gap lat scsi_id id_slot)"
  unfolding run_read_def by (intro keep_rules run_read_log_kept)

lemma drain_kept: "keeps I (drain ev n)"
  by (induction n) (auto intro!: keep_rules tick_kept)

lemma write_stream_kept: "keeps I (write_stream ev wm len)"
  unfolding write_stream_def by (intro keep_rules elementary)

lemma run_write_kept: "keeps I (run_write ev wm sectors gap lat scsi_id id_slot)"
  unfolding run_write_def write_data_def check_image_def
  by (intro keep_rules elementary select_kept set_latency_kept pio_put_kept complete_kept write_stream_kept drain_kept)

end

lemma write_data_frame:
  assumes "run_state (write_data ev wm sectors res0) s = (res, s')"
  shows "mismatches res = mismatches res0"
  using assms by (auto simp: write_data_def dest!: complete_run_frame split: prod.splits if_splits)

section \<open>The sweep visits every cell\<close>

lemma run_cells_all: "map fst (fst (run_state (run_cells f cs) s)) = cs"
  by (induction cs arbitrary: s) (simp_all add: case_prod_beta)

lemma run_table_all: "map fst (fst (run_state (run_table f cs) s)) = cs"
  by (simp add: run_table_def case_prod_beta run_cells_all split: option.split)

lemma run_tables_all:
  assumes "\<And>t s. map fst (fst (run_state (f t) s)) = cs"
  shows "map fst (fst (run_state (run_tables f ts) s)) = List.product ts cs"
proof (induction ts arbitrary: s)
  case (Cons t ts)
  have "map (fst \<circ> (\<lambda>(c, r). ((t, c), r))) xs = map (Pair t) (map fst xs)" for xs by (induction xs) auto
  from this [of "fst (run_state (f t) s)"] show ?case using Cons.IH assms by (simp add: case_prod_beta)
qed simp

lemma count_0_iff: "length (filter (cell_fails \<circ> snd) rs) = 0 \<longleftrightarrow> list_all (\<lambda>(c, r). \<not> cell_fails r) rs"
  by (auto simp: filter_empty_conv list_all_iff)

section \<open>Properties\<close>

text \<open>C8. The verdict of a read run is sound, for any hardware and any mode: unless the run reports a
  failure (a timeout, a failed selection or command, or a mismatch), the bytes it read are exactly the
  pattern of all the sectors it asked for. The reported counts are exact: the number of mismatches
  is the number of offsets with a wrong byte and the first bad offset is the first of them.\<close>

theorem read_verdict_sound:
  "case fst (run_state (run_read_log ev mode (Suc n) ds gap lat scsi_id id_slot) s) of (res, g) \<Rightarrow>
     (cell_fails res \<or> g = map (\<lambda>d. ramp (of_nat d)) [0..<Suc n * 512]) \<and>
     mismatches res = length (filter (\<lambda>i. g ! i \<noteq> ramp (of_nat i)) [0..<length g]) \<and>
     first_bad res = find (\<lambda>i. g ! i \<noteq> ramp (of_nat i)) [0..<length g]"
proof -
  obtain res g s' where r: "run_state (run_read_log ev mode (Suc n) ds gap lat scsi_id id_slot) s = ((res, g), s')"
    by (metis prod.exhaust)
  show ?thesis
  proof (cases "cmd_sent res")
    case True
    obtain q s1 s2 c where
      q: "run_state (read_data ev mode (Suc n) ds gap lat (result_init\<lparr>selected := True, cmd_sent := True\<rparr>)) s1 =
         ((q, g), s2)" "res = q\<lparr>cycles_used := c\<rparr>" by (rule run_read_log_cases [OF r True zero_less_Suc])
    have z: "(0::nat) < Suc n" "mismatches (result_init\<lparr>selected := True, cmd_sent := True\<rparr>) = 0"
      "first_bad (result_init\<lparr>selected := True, cmd_sent := True\<rparr>) = None" by (simp_all add: result_init_def)
    note v = read_data_verdict [OF q(1) z]
    have "g = map (\<lambda>d. ramp (of_nat d)) [0..<Suc n * 512]" if "\<not> cell_fails res"
    proof -
      have "g = map (\<lambda>d. ramp (of_nat d)) [0..<length g]" "length g = Suc n * 512"
        using that q(2) v(1,2) by (simp_all add: cell_fails_def)
      then show ?thesis by metis
    qed
    moreover have "mismatches res = length (filter (\<lambda>i. g ! i \<noteq> ramp (of_nat i)) [0..<length g])"
      "first_bad res = find (\<lambda>i. g ! i \<noteq> ramp (of_nat i)) [0..<length g]"
      using read_data_count [OF q(1) z(2)] v(3) q(2) by simp_all
    ultimately show ?thesis using r by auto
  next
    case False
    have "cmd_sent q" if "run_state (read_data ev mode (Suc n) ds gap lat
        (result_init\<lparr>selected := True, cmd_sent := True\<rparr>)) s1 = ((q, g), s2)" for q g s1 s2
      using read_data_verdict(5) [OF that] by (simp add: result_init_def)
    then have "g = [] \<and> mismatches res = 0 \<and> first_bad res = None"
      using r False by (auto simp: run_read_log_def result_init_def split: prod.splits if_splits)
    then show ?thesis using r False by (simp add: cell_fails_def)
  qed
qed

text \<open>C22. The verdict of a write run is sound, for any hardware: from a well-formed server, unless the run
  reports a failure, the image the server captured holds exactly the pattern of all the sectors;
  in particular no missing sector can pass because the comparison fills gaps with 0xEE.\<close>

theorem write_verdict_sound:
  assumes "hps_ok (hps s)" "run_state (run_write ev wm n gap lat scsi_id id_slot) s = (res, s')"
  shows "cell_fails res \<or> take (n * 512) (written (hps s')) = map (\<lambda>d. ramp (of_nat d)) [0..<n * 512]"
proof (cases "cell_fails res")
  case False
  have "hps_ok (hps s')"
    using keepsD [OF srv.run_write_kept assms(1), of ev wm n gap lat scsi_id id_slot] assms(2) by simp
  then have e: "even (length (written (hps s')))" by (simp add: hps_ok_def)
  have "\<exists>r. mismatches r = 0 \<and> mismatches (compare 0 (image_bytes (n * 512) (written (hps s'))) r) = mismatches res"
    using assms(2) False
    by (auto simp: run_write_def cell_fails_def result_init_def check_image_def dest!: write_data_frame
        split: prod.splits if_splits)
  then have "image_bytes (n * 512) (written (hps s')) = map (\<lambda>d. ramp (of_nat d)) [0..<n * 512]"
    using False compare_clean [of "image_bytes (n * 512) (written (hps s'))"]
    by (auto simp: cell_fails_def image_bytes_def)
  then show ?thesis using image_covered e by simp
qed simp

theorem write_verdict_sound_witness:
  "\<exists>res s'. run_state (run_write (demo_ev 0) True 2 3 600 0 0) (demo_bench 0) = (res, s') \<and>
     (cell_fails res \<or> take 1024 (written (hps s')) = map (\<lambda>d. ramp (of_nat d)) [0..<1024])"
proof -
  obtain res s' where r: "run_state (run_write (demo_ev 0) True 2 3 600 0 0) (demo_bench 0) = (res, s')"
    by (metis prod.exhaust)
  have "hps_ok (hps (demo_bench 0))"
    by (simp add: hps_ok_def demo_bench_def hps_init_def tb_ok_def tb_init_def)
  from write_verdict_sound [OF this r] r show ?thesis by auto
qed

text \<open>The full sweep is complete and its exit code is exact: it makes a read run for each of the 504
  combinations of two latencies, six modes, six sample delays and seven gaps, a write run for each of
  the 28 combinations of latency, width and gap, and exits with 0 exactly when none of them
  reports a failure.\<close>

theorem full_sweep_exact:
  fixes ev :: "'d dut_eval"
  defines "rr \<equiv> \<lambda>n i k s. run_state (read_sweep ev n i k) s"
    and "ww \<equiv> \<lambda>n i k s. run_state (write_sweep ev n i k) s"
  shows "map fst (fst (rr n i k s)) = List.product (List.product hps_list modes) (List.product ds_list gap_list) \<and>
    map fst (fst (ww n i k s)) = List.product (List.product hps_list [False, True]) gap_list \<and>
    length (fst (rr n i k s)) = 504 \<and> length (fst (ww n i k s)) = 28 \<and>
    (fst (run_state (full_sweep ev n i k) s) = 0 \<longleftrightarrow>
       list_all (\<lambda>(c, r). \<not> cell_fails r) (fst (rr n i k s)) \<and>
       list_all (\<lambda>(c, r). \<not> cell_fails r) (fst (ww n i k (snd (rr n i k s)))))"
proof -
  have r: "map fst (fst (rr n i k s)) = List.product (List.product hps_list modes) (List.product ds_list gap_list)"
    unfolding rr_def read_sweep_def by (rule run_tables_all) (simp add: case_prod_beta run_table_all)
  have w: "map fst (fst (ww n i k s)) = List.product (List.product hps_list [False, True]) gap_list"
    unfolding ww_def write_sweep_def by (rule run_tables_all) (simp add: case_prod_beta run_table_all)
  have "length (fst (rr n i k s)) = 504" "length (fst (ww n i k s)) = 28"
    using arg_cong [OF r, of length] arg_cong [OF w, of length]
    by (simp_all add: length_product hps_list_def modes_def ds_list_def gap_list_def)
  moreover have "fst (run_state (full_sweep ev n i k) s) = 0 \<longleftrightarrow>
       list_all (\<lambda>(c, r). \<not> cell_fails r) (fst (rr n i k s)) \<and>
       list_all (\<lambda>(c, r). \<not> cell_fails r) (fst (ww n i k (snd (rr n i k s))))"
    unfolding full_sweep_def rr_def ww_def count_0_iff [symmetric] by (simp add: case_prod_beta Let_def)
  ultimately show ?thesis using r w by blast
qed

end
