(* ===== verification/ScsiToolbox.thy ===== *)
theory ScsiToolbox
  imports ScsiRead
begin

text \<open>
  The Toolbox runs of verilator/scsi_bench/scsi_bench.cpp: one Toolbox command as the Macintosh client
  issues it, the transport test and its three variants with a stalling host. Printed
  diagnostics are left out. A run is a program whose result is its exit code.
\<close>

section \<open>One command\<close>

definition tb_select :: "'d dut_eval \<Rightarrow> ('d, bool) prog" where
  "tb_select ev = select_target ev 0x01 0"

text \<open>The status and the bytes read; None for the result -1.\<close>

definition tb_cmd :: "'d dut_eval \<Rightarrow> u8 list \<Rightarrow> u8 list \<Rightarrow> nat \<Rightarrow> ('d, (u8 \<times> u8 list) option) prog" where
  "tb_cmd ev cdb payload dinlen = do {
     sel \<leftarrow> tb_select ev;
     if \<not> sel then State_Monad.return None
     else do {
       a \<leftarrow> all_ok (pio_put ev) cdb;
       if \<not> a then State_Monad.return None
       else do {
         b \<leftarrow> all_ok (pio_put ev) payload;
         if \<not> b then State_Monad.return None
         else do {
           reg_write ev WREG_ICR 0;
           din \<leftarrow> read_n dinlen (pio_get ev);
           case din of None \<Rightarrow> State_Monad.return None
           | Some bs \<Rightarrow> do {
               st \<leftarrow> pio_get ev;
               msg \<leftarrow> pio_get ev;
               State_Monad.return (if msg \<noteq> Some 0 then None else map_option (\<lambda>v. (v, bs)) st) } } } } }"

text \<open>Reading and changing the Toolbox service of the server.\<close>

definition get_tbx :: "(TbHps \<Rightarrow> 'a) \<Rightarrow> ('d, 'a) prog" where
  "get_tbx f = gets (\<lambda>s. f (tbx (hps s)))"

definition set_tbx :: "(TbHps \<Rightarrow> TbHps) \<Rightarrow> ('d, unit) prog" where
  "set_tbx f = set_hps (\<lambda>h. h\<lparr>tbx := f (tbx h)\<rparr>)"

definition set_patience :: "int \<Rightarrow> ('d, unit) prog" where
  "set_patience n = modify (\<lambda>s. s\<lparr>csr_patience := n\<rparr>)"

section \<open>Building blocks of the runs\<close>

text \<open>
  A block of a run: None when it leaves the run with exit code 1, otherwise the failures it counts.
\<close>

type_synonym 'd blockprog = "('d, nat option) prog"

primrec run_blocks :: "'d blockprog list \<Rightarrow> nat \<Rightarrow> ('d, nat option) prog" where
  "run_blocks [] fails = State_Monad.return (Some fails)"
| "run_blocks (b # bs) fails = do {
     r \<leftarrow> b;
     case r of None \<Rightarrow> State_Monad.return None | Some k \<Rightarrow> run_blocks bs (fails + k) }"

definition exit_code :: "nat option \<Rightarrow> nat" where
  "exit_code r = (case r of None \<Rightarrow> 1 | Some fails \<Rightarrow> if fails \<noteq> 0 then 1 else 0)"

definition bytes_of :: "string \<Rightarrow> u8 list" where
  "bytes_of s = map (\<lambda>c. of_nat (of_char c)) s"

text \<open>The pattern at n offsets from base in steps of k.\<close>

definition ramp_bytes_at :: "nat \<Rightarrow> nat \<Rightarrow> nat \<Rightarrow> u8 list" where
  "ramp_bytes_at base k n = map (\<lambda>i. ramp (of_nat (base + i * k))) [0..<n]"

text \<open>uint8_t name[33] = {}; memcpy(name, ...)\<close>

definition name33 :: "u8 list \<Rightarrow> u8 list" where
  "name33 nm = nm @ replicate (33 - length nm) 0"

definition cdb_simple :: "u8 \<Rightarrow> u8 list" where
  "cdb_simple c = c # replicate 9 0"

text \<open>SEND DATA with its offset; a block count or, when that is 0, a byte count.\<close>

definition cdb_send :: "nat \<Rightarrow> nat \<Rightarrow> nat \<Rightarrow> u8 list" where
  "cdb_send blk blocks valid =
     [0xD4, of_nat (valid div 256), of_nat valid, of_nat (blk div 65536), of_nat (blk div 256), of_nat blk,
      of_nat blocks, 0, 0, 0]"

text \<open>A command whose status must be good, or the run is left.\<close>

definition must_cmd :: "'d dut_eval \<Rightarrow> u8 list \<Rightarrow> u8 list \<Rightarrow> nat \<Rightarrow> ('d, u8 list option) prog" where
  "must_cmd ev cdb payload n = do {
     r \<leftarrow> tb_cmd ev cdb payload n;
     State_Monad.return (case r of None \<Rightarrow> None | Some (st, bs) \<Rightarrow> if st \<noteq> 0 then None else Some bs) }"

primrec must_all :: "('a \<Rightarrow> ('d, 'b option) prog) \<Rightarrow> 'a list \<Rightarrow> ('d, unit option) prog" where
  "must_all f [] = State_Monad.return (Some ())"
| "must_all f (x # xs) = do {
     r \<leftarrow> f x;
     case r of None \<Rightarrow> State_Monad.return None | Some _ \<Rightarrow> must_all f xs }"

text \<open>
  The chunks of an upload with at most m blocks each: while (blk * 512 < SRC), as (first block, blocks).
\<close>

function chunk_plan :: "nat \<Rightarrow> nat \<Rightarrow> nat \<Rightarrow> (nat \<times> nat) list" where
  "chunk_plan m src blk =
    (if blk * 512 < src \<and> 0 < m then
       (let left = src - blk * 512;
            blocks = min ((left + 511) div 512) m
        in (blk, blocks) # chunk_plan m src (blk + blocks))
     else [])"
  by pat_completeness auto
termination
proof (relation "measure (\<lambda>(m, src, blk). src - blk * 512)")
  fix m src blk x xa :: nat
  assume a: "blk * 512 < src \<and> 0 < m" "x = src - blk * 512" "xa = min ((x + 511) div 512) m"
  have "512 \<le> x + 511" using a(1,2) by linarith
  from div_le_mono [OF this, of 512] have "1 \<le> (x + 511) div 512" by simp
  then have "1 \<le> xa" using a by simp
  then show "((m, src, blk + xa), m, src, blk) \<in> measure (\<lambda>(m, src, blk). src - blk * 512)"
    using a(1) by (simp add: diff_less_mono2)
qed simp

declare chunk_plan.simps [simp del]

text \<open>The bytes of a chunk: the source where it reaches, 0xFF after it.\<close>

definition chunk_bytes :: "u8 list \<Rightarrow> nat \<Rightarrow> nat \<Rightarrow> u8 list" where
  "chunk_bytes src blk blocks =
     (let c = slice (blk * 512) (blocks * 512) src in c @ replicate (blocks * 512 - length c) 0xFF)"

text \<open>Failures counted for an upload that must have at least the source's bytes.\<close>

definition check_upload :: "u8 list \<Rightarrow> ('d, nat) prog" where
  "check_upload src = get_tbx (\<lambda>t. if length (upload t) < length src then 1
     else if take (length src) (upload t) \<noteq> src then 1 else 0)"

text \<open>The LARGE and HUGE blocks: block-encoded chunks of up to m blocks.\<close>

definition send_blocks :: "'d dut_eval \<Rightarrow> u8 list \<Rightarrow> nat \<Rightarrow> u8 list \<Rightarrow> 'd blockprog" where
  "send_blocks ev nm m src = do {
     p \<leftarrow> must_cmd ev (cdb_simple 0xD3) (name33 nm) 0;
     case p of None \<Rightarrow> State_Monad.return None
     | Some _ \<Rightarrow> do {
         d \<leftarrow> must_all (\<lambda>(blk, blocks). must_cmd ev (cdb_send blk blocks 0) (chunk_bytes src blk blocks) 0)
                (chunk_plan m (length src) 0);
         case d of None \<Rightarrow> State_Monad.return None
         | Some _ \<Rightarrow> do {
             e \<leftarrow> must_cmd ev (cdb_simple 0xD5) [] 0;
             case e of None \<Rightarrow> State_Monad.return None
             | Some _ \<Rightarrow> do { f \<leftarrow> check_upload src; State_Monad.return (Some f) } } } }"

section \<open>The transport test\<close>

definition tb_file :: "string \<Rightarrow> u8 list \<Rightarrow> TbFile" where
  "tb_file nm d = \<lparr>tf_name = bytes_of nm, tf_data = d\<rparr>"

definition prepare :: "'d dut_eval \<Rightarrow> TbFile list \<Rightarrow> ('d, unit) prog" where
  "prepare ev fs = do {
     reset_dut ev 0;
     set_tbx tb_reset;
     set_host (\<lambda>h. h\<lparr>top_tb_mounted := True\<rparr>);
     times 8 (tick ev);
     set_tbx (\<lambda>t. t\<lparr>files := fs\<rparr>) }"

text \<open>snprintf(nm, sizeof(nm), ''file_%02d.bin'', i)\<close>

definition numbered :: "nat \<Rightarrow> string" where
  "numbered i = ''file_'' @ (if i < 10 then ''0'' else []) @ dec i @ ''.bin''"

definition folder :: "TbFile list" where
  "folder = map (\<lambda>i. tb_file (numbered i) (replicate (i * 37) (of_nat i))) [0..<13] @
     [tb_file ''big.bin'' (ramp_bytes_at 0x50000 1 9000)]"

definition blk_count :: "'d dut_eval \<Rightarrow> 'd blockprog" where
  "blk_count ev = do {
     r \<leftarrow> must_cmd ev (cdb_simple 0xD2) [] 1;
     n \<leftarrow> get_tbx (\<lambda>t. length (files t));
     State_Monad.return (map_option (\<lambda>bs. if unat (bs ! 0) \<noteq> n then 1 else 0) r) }"

definition blk_list :: "'d dut_eval \<Rightarrow> 'd blockprog" where
  "blk_list ev = do {
     n \<leftarrow> get_tbx (\<lambda>t. length (files t) * 40);
     r \<leftarrow> must_cmd ev (cdb_simple 0xD0) [] n;
     rs \<leftarrow> get_tbx resp;
     State_Monad.return (map_option (\<lambda>bs. if length rs \<noteq> n then 1 else if bs \<noteq> rs then 1 else 0) r) }"

text \<open>The blocks of a file sent one by one: (block, valid bytes).\<close>

definition single_blocks :: "nat \<Rightarrow> (nat \<times> nat) list" where
  "single_blocks src = map (\<lambda>blk. (blk, min 512 (src - blk * 512))) [0..<(src + 511) div 512]"

definition cdb_single :: "nat \<Rightarrow> nat \<Rightarrow> u8 list" where
  "cdb_single blk valid = (if valid = 512 then cdb_send blk 1 0 else cdb_send blk 0 valid)"

definition blk_send :: "'d dut_eval \<Rightarrow> u8 list \<Rightarrow> u8 list \<Rightarrow> 'd blockprog" where
  "blk_send ev nm src = do {
     p \<leftarrow> must_cmd ev (cdb_simple 0xD3) (name33 nm) 0;
     case p of None \<Rightarrow> State_Monad.return None
     | Some _ \<Rightarrow> do {
         d \<leftarrow> must_all (\<lambda>(blk, valid). must_cmd ev (cdb_single blk valid) (chunk_bytes src blk 1) 0)
                (single_blocks (length src));
         case d of None \<Rightarrow> State_Monad.return None
         | Some _ \<Rightarrow> do {
             e \<leftarrow> must_cmd ev (cdb_simple 0xD5) [] 0;
             case e of None \<Rightarrow> State_Monad.return None
             | Some _ \<Rightarrow> do {
                 u \<leftarrow> get_tbx upload;
                 let n = min (length src) (length u)
                 in State_Monad.return (Some ((if length u \<noteq> length src then 1 else 0) +
                      (if take n u \<noteq> take n src then 1 else 0))) } } } }"

definition cdb_get :: "nat \<Rightarrow> nat \<Rightarrow> nat \<Rightarrow> u8 list" where
  "cdb_get idx off blocks = [0xD1, of_nat idx, of_nat (off div 16777216), of_nat (off div 65536),
     of_nat (off div 256), of_nat off, of_nat blocks, 0, 0, 0]"

text \<open>The GET of 64 KB: the file is added to the folder first.\<close>

definition blk_big_get :: "'d dut_eval \<Rightarrow> u8 list \<Rightarrow> 'd blockprog" where
  "blk_big_get ev fdat = do {
     set_tbx (\<lambda>t. t\<lparr>files := files t @ [tb_file ''big.get'' fdat]\<rparr>);
     idx \<leftarrow> get_tbx (\<lambda>t. length (files t) - 1);
     r \<leftarrow> must_cmd ev (cdb_get idx 0 16) [] (length fdat);
     n \<leftarrow> get_tbx (\<lambda>t. length (resp t));
     State_Monad.return (map_option (\<lambda>bs. if n \<noteq> length fdat then 1 else if bs \<noteq> fdat then 1 else 0) r) }"

text \<open>One block of the short send: only the valid bytes, then the wait for the status phase.\<close>

definition short_block :: "'d dut_eval \<Rightarrow> u8 list \<Rightarrow> nat \<times> nat \<Rightarrow> 'd blockprog" where
  "short_block ev src bv = (case bv of (blk, valid) \<Rightarrow> do {
     sel \<leftarrow> tb_select ev;
     if \<not> sel then State_Monad.return None
     else do {
       a \<leftarrow> all_ok (pio_put ev) (cdb_single blk valid);
       if \<not> a then State_Monad.return None
       else do {
         b \<leftarrow> all_ok (pio_put ev) (slice (blk * 512) valid src);
         if \<not> b then State_Monad.return None
         else do {
           reg_write ev WREG_ICR 0;
           w \<leftarrow> wait_csr ev CSR_IO CSR_IO 200000;
           if \<not> w then State_Monad.return None
           else do {
             s2 \<leftarrow> pio_get ev;
             m2 \<leftarrow> pio_get ev;
             State_Monad.return (Some (if s2 \<noteq> Some 0 \<or> m2 \<noteq> Some 0 then 1 else 0)) } } } } })"

definition blk_short :: "'d dut_eval \<Rightarrow> u8 list \<Rightarrow> u8 list \<Rightarrow> 'd blockprog" where
  "blk_short ev nm src = do {
     p \<leftarrow> must_cmd ev (cdb_simple 0xD3) (name33 nm) 0;
     case p of None \<Rightarrow> State_Monad.return None
     | Some _ \<Rightarrow> do {
         d \<leftarrow> run_blocks (map (short_block ev src) (single_blocks (length src))) 0;
         case d of None \<Rightarrow> State_Monad.return None
         | Some k \<Rightarrow> do {
             e \<leftarrow> must_cmd ev (cdb_simple 0xD5) [] 0;
             u \<leftarrow> get_tbx upload;
             State_Monad.return (Some (k + (if e = None then 1 else 0) + (if u \<noteq> src then 1 else 0))) } } }"

definition blk_get :: "'d dut_eval \<Rightarrow> nat \<Rightarrow> 'd blockprog" where
  "blk_get ev idx = do {
     r \<leftarrow> must_cmd ev (cdb_get idx 0 1) [] 4096;
     rs \<leftarrow> get_tbx resp;
     State_Monad.return (map_option (\<lambda>bs. if length rs \<noteq> 4096 then 1 else if bs \<noteq> rs then 1 else 0) r) }"

definition toolbox_blocks :: "'d dut_eval \<Rightarrow> 'd blockprog list" where
  "toolbox_blocks ev =
     [blk_count ev, blk_list ev,
      blk_send ev (bytes_of ''upload.bin'') (ramp_bytes_at 0x90000 1 1408),
      send_blocks ev (bytes_of ''large.bin'') 8 (ramp_bytes_at 0xC5000 1 (4096 * 2 + 1536)),
      send_blocks ev (bytes_of ''huge.bin'') 127 (ramp_bytes_at 0x2A000 7 (127 * 512 * 2 + 4096 + 300)),
      blk_big_get ev (ramp_bytes_at 0x71000 3 65536),
      blk_short ev (bytes_of ''short.bin'') (ramp_bytes_at 0xA1000 1 700),
      blk_get ev 13]"

definition run_toolbox :: "'d dut_eval \<Rightarrow> ('d, nat) prog" where
  "run_toolbox ev = do {
     prepare ev folder;
     r \<leftarrow> run_blocks (toolbox_blocks ev) 0;
     State_Monad.return (exit_code r) }"

section \<open>Runs with a stalling host\<close>

text \<open>The differential probe: always exit code 0.\<close>

definition run_toolbox_wdog :: "'d dut_eval \<Rightarrow> ('d, nat) prog" where
  "run_toolbox_wdog ev = do {
     saved \<leftarrow> gets csr_patience;
     set_hps (\<lambda>h. h\<lparr>tb_ack_hold := 300000\<rparr>);
     set_patience 3000000;
     run_toolbox ev;
     set_hps (\<lambda>h. h\<lparr>tb_ack_hold := 0\<rparr>);
     set_patience saved;
     State_Monad.return 0 }"

text \<open>A command that counts as a failure unless its status is good.\<close>

definition count_cmd :: "'d dut_eval \<Rightarrow> u8 list \<Rightarrow> u8 list \<Rightarrow> ('d, nat) prog" where
  "count_cmd ev cdb payload = do {
     r \<leftarrow> must_cmd ev cdb payload 0;
     State_Monad.return (if r = None then 1 else 0) }"

primrec sum_progs :: "('d, nat) prog list \<Rightarrow> ('d, nat) prog" where
  "sum_progs [] = State_Monad.return 0"
| "sum_progs (m # ms) = do { a \<leftarrow> m; b \<leftarrow> sum_progs ms; State_Monad.return (a + b) }"

definition check_exact :: "u8 list \<Rightarrow> ('d, nat) prog" where
  "check_exact src = get_tbx (\<lambda>t. if upload t \<noteq> src then 1 else 0)"

text \<open>The stalled GET: 4096 bytes of a file added to the folder.\<close>

definition slow_get :: "'d dut_eval \<Rightarrow> ('d, nat) prog" where
  "slow_get ev = do {
     set_tbx (\<lambda>t. t\<lparr>files := files t @ [tb_file ''big.bin'' (ramp_bytes_at 0xD0000 1 4096)]\<rparr>);
     r \<leftarrow> must_cmd ev (cdb_get 1 0 1) [] 4096;
     rs \<leftarrow> get_tbx resp;
     State_Monad.return (case r of None \<Rightarrow> 1 | Some bs \<Rightarrow> if length rs \<noteq> 4096 then 1 else if bs \<noteq> rs then 1 else 0) }"

definition slow_src :: "u8 list" where
  "slow_src = ramp_bytes_at 0xC0000 1 (512 * 6)"

definition run_toolbox_slow :: "'d dut_eval \<Rightarrow> ('d, nat) prog" where
  "run_toolbox_slow ev = do {
     prepare ev [tb_file ''seed.bin'' (replicate 16 0x5A)];
     set_hps (\<lambda>h. h\<lparr>tb_reads := 0, tb_slow_every := 3, tb_slow_latency := 786432\<rparr>);
     saved \<leftarrow> gets csr_patience;
     set_patience 3000000;
     p \<leftarrow> count_cmd ev (cdb_simple 0xD3) (name33 (bytes_of ''stall.bin''));
     d \<leftarrow> sum_progs (map (\<lambda>blk. count_cmd ev (cdb_send blk 1 0) (slice (blk * 512) 512 slow_src)) [0..<6]);
     e \<leftarrow> count_cmd ev (cdb_simple 0xD5) [];
     c \<leftarrow> check_exact slow_src;
     g \<leftarrow> slow_get ev;
     set_hps (\<lambda>h. h\<lparr>tb_slow_every := 0\<rparr>);
     set_patience saved;
     State_Monad.return (exit_code (Some (p + d + e + c + g))) }"

text \<open>One chunk of the streaming test, compared with the file.\<close>

definition get_chunk :: "'d dut_eval \<Rightarrow> u8 list \<Rightarrow> nat \<Rightarrow> nat \<Rightarrow> ('d, bool) prog" where
  "get_chunk ev fdat blocks4k off4k = do {
     let base = off4k * 4096;
         want = (if base + blocks4k * 4096 > length fdat then length fdat - base else blocks4k * 4096)
     in do {
       r \<leftarrow> must_cmd ev (cdb_get 0 off4k blocks4k) [] want;
       State_Monad.return (case r of None \<Rightarrow> False | Some bs \<Rightarrow> bs = slice base want fdat) } }"

definition count_false :: "('d, bool) prog \<Rightarrow> ('d, nat) prog" where
  "count_false m = do { b \<leftarrow> m; State_Monad.return (if b then 0 else 1) }"

definition get_fdat :: "u8 list" where
  "get_fdat = ramp_bytes_at 0x3B0000 1 262144"

definition get_part_a :: "'d dut_eval \<Rightarrow> ('d, nat) prog" where
  "get_part_a ev = sum_progs (map (\<lambda>k. count_false (get_chunk ev get_fdat 8 (k * 8))) [0..<6] @
     [count_false (get_chunk ev get_fdat 16 48)])"

definition get_part_b :: "'d dut_eval \<Rightarrow> ('d, nat) prog" where
  "get_part_b ev = do {
     set_hps (\<lambda>h. h\<lparr>tb_reads := 0, tb_defers := 0, tb_defer_every := 23, tb_defer_latency := 400000\<rparr>);
     f \<leftarrow> sum_progs (map (\<lambda>k. count_false (get_chunk ev get_fdat 8 (k * 8))) [0..<4]);
     set_hps (\<lambda>h. h\<lparr>tb_defer_every := 0\<rparr>);
     n \<leftarrow> gets (\<lambda>s. tb_defers (hps s));
     State_Monad.return (f + (if n < 5 then 1 else 0)) }"

definition run_toolbox_get :: "'d dut_eval \<Rightarrow> ('d, nat) prog" where
  "run_toolbox_get ev = do {
     prepare ev [tb_file ''rt.bin'' get_fdat];
     saved \<leftarrow> gets csr_patience;
     set_patience 1000000;
     a \<leftarrow> get_part_a ev;
     b \<leftarrow> get_part_b ev;
     set_patience saved;
     State_Monad.return (exit_code (Some (a + b))) }"

text \<open>One upload of the send test, checked for at least the source's bytes.\<close>

definition send_file_run :: "'d dut_eval \<Rightarrow> u8 list \<Rightarrow> u8 list \<Rightarrow> ('d, bool) prog" where
  "send_file_run ev nm src = do {
     r \<leftarrow> send_blocks ev nm 127 src;
     State_Monad.return (r = Some 0) }"

definition send_src :: "u8 list" where
  "send_src = ramp_bytes_at 0x4C0000 1 (127 * 512 * 2 + 4096 + 300)"

definition send_part_b :: "'d dut_eval \<Rightarrow> ('d, nat) prog" where
  "send_part_b ev = do {
     set_tbx tb_reset;
     set_hps (\<lambda>h. h\<lparr>tb_writes := 0, tb_wdefers := 0, tb_wlost := 0, tb_wdefer_every := 29,
       tb_wdefer_latency := 400000\<rparr>);
     f \<leftarrow> count_false (send_file_run ev (bytes_of ''stall.bin'') send_src);
     set_hps (\<lambda>h. h\<lparr>tb_wdefer_every := 0\<rparr>);
     n \<leftarrow> gets (\<lambda>s. tb_wdefers (hps s));
     State_Monad.return (f + (if n < 5 then 1 else 0)) }"

definition run_toolbox_send :: "'d dut_eval \<Rightarrow> ('d, nat) prog" where
  "run_toolbox_send ev = do {
     prepare ev [];
     saved \<leftarrow> gets csr_patience;
     set_patience 1000000;
     a \<leftarrow> count_false (send_file_run ev (bytes_of ''fast.bin'') send_src);
     b \<leftarrow> send_part_b ev;
     set_patience saved;
     State_Monad.return (exit_code (Some (a + b))) }"

section \<open>Invariants\<close>

lemma tb_ok_reset: "tb_ok t \<Longrightarrow> tb_ok (tb_reset t)"
  by (simp add: tb_ok_def tb_reset_def)

context bench_frame
begin

lemma tb_cmd_kept: "keeps I (tb_cmd ev cdb payload n)"
  unfolding tb_cmd_def tb_select_def by (intro keep_rules elementary select_kept pio_put_kept pio_get_kept)

lemma must_cmd_kept: "keeps I (must_cmd ev cdb payload n)"
  unfolding must_cmd_def by (intro keep_rules tb_cmd_kept)

lemma must_all_kept: "(\<And>x. keeps I (f x)) \<Longrightarrow> keeps I (must_all f xs)"
  by (induction xs) (auto intro!: keep_rules)

lemma run_blocks_kept: "(\<And>b. b \<in> set bs \<Longrightarrow> keeps I b) \<Longrightarrow> keeps I (run_blocks bs k)"
  by (induction bs arbitrary: k) (auto intro!: keep_rules)

lemma sum_progs_kept: "(\<And>m. m \<in> set ms \<Longrightarrow> keeps I m) \<Longrightarrow> keeps I (sum_progs ms)"
  by (induction ms) (auto intro!: keep_rules)

lemma get_tbx_kept: "keeps I (get_tbx g)"
  unfolding get_tbx_def by (intro keep_rules)

lemma send_blocks_kept: "keeps I (send_blocks ev nm m src)"
  unfolding send_blocks_def check_upload_def
  by (intro keep_rules must_cmd_kept must_all_kept get_tbx_kept)

lemma get_chunk_kept: "keeps I (get_chunk ev fdat b k)"
  unfolding get_chunk_def by (intro keep_rules must_cmd_kept)

lemma count_false_kept: "keeps I m \<Longrightarrow> keeps I (count_false m)"
  unfolding count_false_def by (intro keep_rules)

lemma count_cmd_kept: "keeps I (count_cmd ev cdb payload)"
  unfolding count_cmd_def by (intro keep_rules must_cmd_kept)

end

text \<open>
  Replacing the folder is safe because no Toolbox request can complete between the reset of the
  service and the replacement: the word index of the server counts at most one per call.
\<close>

lemma service_wi: "h_wi (service c h) \<le> Suc (h_wi h)"
proof (cases "h_st h")
  case IDLE
  have "h_wi (hps_poll is c g) = h_wi g" for "is" g by (induction "is") simp_all
  then show ?thesis using IDLE
    by (simp add: service_def hps_idle_def tb_poll_write_def tb_poll_read_def stage_fill_simps Let_def
        del: hps_poll.simps)
qed (simp_all add: service_def hps_wait_def hps_tbwait_def hps_stream_def hps_wcap_def hps_finish_def
    hps_tbwcap_def hps_tbrstream_def hps_tbfinish_def hps_ahold_def hps_tbrdefer_def hps_tbwdefer_def
    stage_fill_simps Let_def)

lemma service_get_idx: "h_wi h < 255 \<Longrightarrow> get_idx (tbx (service c h)) = get_idx (tbx h)"
proof (cases "h_st h")
  case IDLE
  have "get_idx (snd (tb_fill l t)) = get_idx t" for l t by (simp add: tb_fill_def Let_def)
  moreover have "tbx (hps_poll is c g) = tbx g" for "is" g by (induction "is") simp_all
  ultimately show ?thesis using IDLE
    by (simp add: service_def hps_idle_def tb_poll_write_def tb_poll_read_def stage_fill_simps Let_def
        del: hps_poll.simps)
next
  case TBRDEFER
  have "get_idx (snd (tb_fill l t)) = get_idx t" for l t by (simp add: tb_fill_def Let_def)
  then show ?thesis using TBRDEFER by (simp add: service_def hps_tbrdefer_def stage_fill_simps Let_def)
qed (simp_all add: service_def hps_wait_def hps_tbwait_def hps_stream_def hps_wcap_def hps_finish_def
    hps_tbwcap_def hps_tbrstream_def hps_tbfinish_def hps_ahold_def hps_tbwdefer_def Let_def)

lemma ticks_wi: "h_wi (hps (after n (tick ev) s)) \<le> h_wi (hps s) + n"
proof (induction n arbitrary: s)
  case (Suc n)
  obtain c where "hps (snd (run_state (tick ev) s)) = service c (hps s)" using tick_hps by blast
  then show ?case using Suc.IH [of "snd (run_state (tick ev) s)"] service_wi [of c "hps s"] by simp
qed simp

lemma ticks_get_idx:
  "h_wi (hps s) + n \<le> 255 \<Longrightarrow> get_idx (tbx (hps (after n (tick ev) s))) = get_idx (tbx (hps s))"
proof (induction n arbitrary: s)
  case (Suc n)
  obtain c where "hps (snd (run_state (tick ev) s)) = service c (hps s)" using tick_hps by blast
  then show ?case
    using Suc.IH [of "snd (run_state (tick ev) s)"] service_wi [of c "hps s"] service_get_idx [of "hps s" c]
      Suc.prems by simp
qed simp

lemma reset_wi: "h_wi (hps (snd (run_state (reset_dut ev slot) s))) \<le> 17"
proof -
  have w: "h_wi (hps (after n (tick ev) z)) \<le> h_wi (hps z) + n" for n z by (rule ticks_wi)
  have t: "h_wi (hps (snd (run_state (tick ev) z))) \<le> h_wi (hps z) + 1" for z using w [of 1 z] by simp
  show ?thesis unfolding reset_dut_def
    by (simp add: case_prod_beta run_times)
       (rule order_trans [OF w], simp, rule order_trans [OF t], simp, rule order_trans [OF w], simp,
        rule order_trans [OF w], simp add: hps_reset_def)
qed

lemma prepare_ok: "keeps server_ok (prepare ev fs)"
proof -
  have k: "keeps server_ok (do { reset_dut ev 0; set_tbx tb_reset;
      set_host (\<lambda>h. h\<lparr>top_tb_mounted := True\<rparr>); times 8 (tick ev) })"
    unfolding set_tbx_def by (intro keeps_ok srv.elementary) (simp add: hps_ok_def tb_ok_reset)
  show ?thesis unfolding keeps_def
  proof (intro allI impI)
    fix s :: "'a bench"
    assume s: "server_ok s"
    let ?s1 = "snd (run_state (reset_dut ev 0) s)"
    let ?s2 = "?s1\<lparr>hps := (hps ?s1)\<lparr>tbx := tb_reset (tbx (hps ?s1))\<rparr>\<rparr>"
    let ?s3 = "after 8 (tick ev) (?s2\<lparr>host := (host ?s2)\<lparr>top_tb_mounted := True\<rparr>\<rparr>)"
    have 3: "server_ok ?s3" using keepsD [OF k s] by (simp add: case_prod_beta run_times set_tbx_def)
    have "get_idx (tbx (hps ?s3)) = -1"
      using reset_wi [of ev 0 s] by (subst ticks_get_idx) (simp_all add: tb_reset_def)
    then have "server_ok (?s3\<lparr>hps := (hps ?s3)\<lparr>tbx := (tbx (hps ?s3))\<lparr>files := fs\<rparr>\<rparr>\<rparr>)"
      using 3 by (simp add: hps_ok_def tb_ok_def)
    then show "server_ok (snd (run_state (prepare ev fs) s))"
      by (simp add: prepare_def case_prod_beta run_times set_tbx_def)
  qed
qed

text \<open>Invariants that also survive the preparation of a folder; then the whole runs keep them.\<close>

locale toolbox_frame = bench_frame +
  assumes prepare_kept: "keeps I (prepare ev fs)"
begin

lemma add_file_kept: "keeps I (set_tbx (\<lambda>t. t\<lparr>files := files t @ [f]\<rparr>))"
  unfolding set_tbx_def by (intro set_tbx_kept) (simp add: tb_ok_def)

lemma short_block_kept: "keeps I (short_block ev src bv)"
  unfolding short_block_def tb_select_def
  by (intro keep_rules elementary select_kept pio_put_kept pio_get_kept wait_csr_kept)

lemmas run_parts = keep_rules must_cmd_kept must_all_kept get_tbx_kept add_file_kept

lemma block_kept:
  "keeps I (blk_count ev)" "keeps I (blk_list ev)" "keeps I (blk_send ev nm src)" "keeps I (blk_big_get ev fdat)"
  "keeps I (blk_get ev idx)"
  unfolding blk_count_def blk_list_def blk_send_def blk_big_get_def blk_get_def
  by (intro run_parts)+

lemma blk_short_kept: "keeps I (blk_short ev nm src)"
proof -
  have "keeps I (run_blocks (map (short_block ev src) bs) k)" for bs k
    by (rule run_blocks_kept) (auto intro: short_block_kept)
  then show ?thesis unfolding blk_short_def by (intro run_parts)
qed

lemma run_toolbox_kept: "keeps I (run_toolbox ev)"
proof -
  have "keeps I (run_blocks (toolbox_blocks ev) k)" for k
    by (rule run_blocks_kept) (auto simp: toolbox_blocks_def intro: block_kept blk_short_kept send_blocks_kept)
  then show ?thesis unfolding run_toolbox_def by (intro keep_rules prepare_kept)
qed

lemma sum_map_kept: "(\<And>x. keeps I (f x)) \<Longrightarrow> keeps I (sum_progs (map f xs))"
  by (rule sum_progs_kept) auto

lemma slow_get_kept: "keeps I (slow_get ev)"
  unfolding slow_get_def by (intro run_parts)

lemma get_part_a_kept: "keeps I (get_part_a ev)"
  unfolding get_part_a_def by (rule sum_progs_kept) (auto intro: count_false_kept get_chunk_kept)

lemma send_file_run_kept: "keeps I (send_file_run ev nm src)"
  unfolding send_file_run_def by (intro keep_rules send_blocks_kept)

end

locale toolbox_inv = toolbox_frame ev I + bench_inv ev I
  for ev :: "'d dut_eval" and I :: "'d bench \<Rightarrow> bool"
begin

lemma set_field_kept:
  "keeps I (set_hps (\<lambda>h. h\<lparr>tb_ack_hold := n\<rparr>))" "keeps I (set_hps (\<lambda>h. h\<lparr>tb_slow_every := n\<rparr>))"
  "keeps I (set_hps (\<lambda>h. h\<lparr>tb_defer_every := n\<rparr>))" "keeps I (set_hps (\<lambda>h. h\<lparr>tb_wdefer_every := n\<rparr>))"
  "keeps I (set_hps (\<lambda>h. h\<lparr>tb_reads := a, tb_slow_every := n, tb_slow_latency := k\<rparr>))"
  "keeps I (set_hps (\<lambda>h. h\<lparr>tb_reads := a, tb_defers := b, tb_defer_every := n, tb_defer_latency := k\<rparr>))"
  "keeps I (set_hps (\<lambda>h. h\<lparr>tb_writes := a, tb_wdefers := b, tb_wlost := c, tb_wdefer_every := n, tb_wdefer_latency := k\<rparr>))"
  by (rule config_kept, simp add: hps_ok_def)+

lemma patience_prog_kept: "keeps I (set_patience n)"
  unfolding set_patience_def by (rule set_patience_kept)

lemma reset_tbx_kept: "keeps I (set_tbx tb_reset)"
  unfolding set_tbx_def by (intro set_tbx_kept tb_ok_reset)

lemmas stalls = keep_rules set_field_kept patience_prog_kept reset_tbx_kept prepare_kept run_toolbox_kept
  count_cmd_kept sum_map_kept slow_get_kept get_part_a_kept count_false_kept get_chunk_kept send_file_run_kept
  get_tbx_kept

lemma stalled_runs_kept:
  "keeps I (run_toolbox_wdog ev)" "keeps I (run_toolbox_slow ev)" "keeps I (run_toolbox_get ev)"
  "keeps I (run_toolbox_send ev)"
  unfolding run_toolbox_wdog_def run_toolbox_slow_def run_toolbox_get_def run_toolbox_send_def
    get_part_b_def send_part_b_def check_exact_def
  by (intro stalls)+

end

interpretation relt: toolbox_inv ev released for ev
proof unfold_locales
  show "keeps released (prepare ev fs)" for fs
    unfolding prepare_def set_tbx_def
    by (intro keep_rules rel.elementary rel.set_mounted_kept) (simp_all add: keeps_def released_def)
qed

interpretation srvt: toolbox_inv ev server_ok for ev
  by unfold_locales (rule prepare_ok)

interpretation setst: toolbox_frame ev "settings_are p" for ev p
proof unfold_locales
  show "keeps (settings_are p) (prepare ev fs)" for fs
    unfolding prepare_def set_tbx_def
    by (intro keep_rules sets.elementary sets.set_mounted_kept) (simp_all add: keeps_def settings_def)
qed

section \<open>Verdicts and settings\<close>

lemma check_upload_0:
  assumes "run_state (check_upload src) s = (0, s')"
  shows "take (length src) (upload (tbx (hps s'))) = src"
  using assms by (auto simp: check_upload_def get_tbx_def split: if_splits)

lemma send_blocks_sound:
  assumes "run_state (send_blocks ev nm m src) s = (Some 0, s')"
  shows "take (length src) (upload (tbx (hps s'))) = src"
  using assms by (auto simp: send_blocks_def dest!: check_upload_0 split: prod.splits option.splits)

lemma settings_fields:
  assumes "\<And>q. keeps (settings_are q) m"
  shows "csr_patience (snd (run_state m s)) = csr_patience s"
    "tb_ack_hold (hps (snd (run_state m s))) = tb_ack_hold (hps s)"
    "tb_slow_every (hps (snd (run_state m s))) = tb_slow_every (hps s)"
    "tb_defer_every (hps (snd (run_state m s))) = tb_defer_every (hps s)"
    "tb_wdefer_every (hps (snd (run_state m s))) = tb_wdefer_every (hps s)"
  using keepsD [OF assms [of "settings s"], of s] by (simp_all add: settings_def)

lemmas kept_fields =
  settings_fields [OF setst.run_toolbox_kept] settings_fields [OF setst.prepare_kept]
  settings_fields [OF sets.count_cmd_kept] settings_fields [OF setst.sum_map_kept [OF sets.count_cmd_kept]]
  settings_fields [OF setst.slow_get_kept] settings_fields [OF setst.get_part_a_kept]
  settings_fields [OF setst.sum_map_kept [OF sets.count_false_kept [OF sets.get_chunk_kept]]]
  settings_fields [OF sets.count_false_kept [OF setst.send_file_run_kept]]

section \<open>Properties\<close>

text \<open>C36. The verdict of the stalled upload test is sound, for any hardware: if it exits with 0, the file
  uploaded under deferred host wake-ups has arrived with exactly its source bytes, and at least five
  writes were really deferred.\<close>

theorem toolbox_send_sound:
  "case run_state (run_toolbox_send ev) s of (rc, s') \<Rightarrow>
     rc = 1 \<or> rc = 0 \<and> take (length send_src) (upload (tbx (hps s'))) = send_src \<and> 5 \<le> tb_wdefers (hps s')"
proof -
  have part_b: "take (length send_src) (upload (tbx (hps z'))) = send_src \<and> 5 \<le> tb_wdefers (hps z')"
    if "run_state (send_part_b ev) z = (0, z')" for z z'
    using that send_blocks_sound [where src = send_src]
    by (auto simp: send_part_b_def count_false_def send_file_run_def split: prod.splits if_splits)
  show ?thesis
    using part_b
    by (auto simp: run_toolbox_send_def exit_code_def set_patience_def split: prod.splits)
qed

text \<open>The runs that inject stalls undo it on every path, for any hardware: after the watchdog
  probe and the slow, streaming and upload tests the patience of the initiator is what it was and no
  stall is injected any more.\<close>

theorem stalled_runs_restore:
  assumes "settings s = (p, 0, 0, 0, 0)"
  shows "settings (snd (run_state (run_toolbox_wdog ev) s)) = (p, 0, 0, 0, 0) \<and>
    settings (snd (run_state (run_toolbox_slow ev) s)) = (p, 0, 0, 0, 0) \<and>
    settings (snd (run_state (run_toolbox_get ev) s)) = (p, 0, 0, 0, 0) \<and>
    settings (snd (run_state (run_toolbox_send ev) s)) = (p, 0, 0, 0, 0)"
  using assms
  by (simp add: settings_def run_toolbox_wdog_def run_toolbox_slow_def run_toolbox_get_def run_toolbox_send_def
      get_part_b_def send_part_b_def set_patience_def set_tbx_def check_exact_def get_tbx_def case_prod_beta
      kept_fields)

theorem stalled_runs_restore_witness:
  "settings (snd (run_state (run_toolbox_send (demo_ev 0)) (demo_bench 0))) = (50000, 0, 0, 0, 0)"
  using stalled_runs_restore [of "demo_bench 0" 50000 "demo_ev 0"]
  by (simp add: settings_def demo_bench_def hps_init_def)

end
