(* ===== verification/ScsiMain.thy ===== *)
theory ScsiMain
  imports ScsiToolbox
begin

text \<open>
  The CD-ROM command tests and the main program of verilator/scsi_bench/scsi_bench.cpp: the command
  line, the choice of the run and its exit code.
\<close>

section \<open>CD-ROM commands\<close>

definition select_cd :: "'d dut_eval \<Rightarrow> ('d, bool) prog" where
  "select_cd ev = select_target ev (id_bit 3) 20000"

text \<open>Selection, command, parameters, data and the two closing bytes; None when the target stalls.\<close>

definition cd_cmd :: "'d dut_eval \<Rightarrow> u8 list \<Rightarrow> u8 list \<Rightarrow> nat \<Rightarrow> ('d, (u8 list \<times> u8 option \<times> u8 option) option) prog" where
  "cd_cmd ev cdb payload n = do {
     sel \<leftarrow> select_cd ev;
     if \<not> sel then State_Monad.return None
     else do {
       a \<leftarrow> all_ok (pio_put ev) cdb;
       if \<not> a then State_Monad.return None
       else do {
         b \<leftarrow> all_ok (pio_put ev) payload;
         if \<not> b then State_Monad.return None
         else do {
           reg_write ev WREG_ICR 0;
           din \<leftarrow> read_n n (pio_get ev);
           case din of None \<Rightarrow> State_Monad.return None
           | Some bs \<Rightarrow> do {
               st \<leftarrow> pio_get ev;
               msg \<leftarrow> pio_get ev;
               State_Monad.return (Some (bs, st, msg)) } } } } }"

definition good :: "u8 option \<Rightarrow> u8 option \<Rightarrow> bool" where
  "good st msg \<longleftrightarrow> st = Some 0 \<and> msg = Some 0"

definition count_if :: "bool \<Rightarrow> nat" where
  "count_if b = (if b then 1 else 0)"

definition msel :: "u8 list" where
  "msel = [0x00, 0x00, 0x00, 0x00, 0x0E, 0x0E, 0x04, 0x00, 0x00, 0x00, 75, 75,
           0x01, 0x55, 0x02, 0x66, 0x04, 0x11, 0x08, 0x22]"

definition expect_tail :: "u8 list" where
  "expect_tail = [0x01, 0x55, 0x02, 0x66, 0x04, 0x11, 0x08, 0x22]"

text \<open>The failures counted for the page read back.\<close>

definition vol_fails :: "u8 list \<Rightarrow> u8 option \<Rightarrow> u8 option \<Rightarrow> nat" where
  "vol_fails g st msg = count_if (g ! 0 \<noteq> 27) + count_if (g ! 12 \<noteq> 0x0E \<or> g ! 13 \<noteq> 0x0E) +
     length (filter (\<lambda>i. g ! (20 + i) \<noteq> expect_tail ! i) [0..<8]) + count_if (\<not> good st msg)"

definition run_cdvol :: "'d dut_eval \<Rightarrow> ('d, nat) prog" where
  "run_cdvol ev = do {
     reset_dut ev 0;
     r \<leftarrow> cd_cmd ev [0x15, 0x10, 0, 0, of_nat (length msel), 0] msel 0;
     case r of None \<Rightarrow> State_Monad.return 1
     | Some (_, st, msg) \<Rightarrow>
         if \<not> good st msg then State_Monad.return 1
         else do {
           r2 \<leftarrow> cd_cmd ev [0x1A, 0x00, 0x0E, 0, 28, 0] [] 28;
           State_Monad.return (exit_code (map_option (\<lambda>(g, st2, msg2). vol_fails g st2 msg2) r2)) } }"

text \<open>One test of the gap pass: command, length of the answer, failures counted for it.\<close>

type_synonym cd_test = "u8 list \<times> nat \<times> (u8 list \<Rightarrow> u8 option \<Rightarrow> u8 option \<Rightarrow> nat)"

definition run_cd_test :: "'d dut_eval \<Rightarrow> cd_test \<Rightarrow> 'd blockprog" where
  "run_cd_test ev t = (case t of (cdb, n, chk) \<Rightarrow> do {
     r \<leftarrow> cd_cmd ev cdb [] n;
     State_Monad.return (map_option (\<lambda>(g, st, msg). chk g st msg) r) })"

definition gap_tests :: "cd_test list" where
  "gap_tests =
    [([0x42, 0x02, 0x40, 0x02, 0, 0, 0, 0, 24, 0], 24, \<lambda>g st msg.
        count_if (\<not> good st msg) + count_if (g ! 3 \<noteq> 20 \<or> g ! 4 \<noteq> 0x02)),
     ([0x42, 0x02, 0x40, 0x03, 0, 0, 0x05, 0, 24, 0], 24, \<lambda>g st msg.
        count_if (\<not> good st msg) + count_if (g ! 3 \<noteq> 20 \<or> g ! 4 \<noteq> 0x03 \<or> g ! 6 \<noteq> 0x05)),
     ([0x44, 0x00, 0x00, 0x00, 0x12, 0x34, 0, 0, 8, 0], 8, \<lambda>g st msg.
        count_if (\<not> good st msg) + count_if (g ! 4 \<noteq> 0 \<or> g ! 5 \<noteq> 0 \<or> g ! 6 \<noteq> 0x12 \<or> g ! 7 \<noteq> 0x34)),
     ([0x44, 0x02, 0, 0, 0, 0, 0, 0, 8, 0], 0, \<lambda>g st msg. count_if (st \<noteq> Some 0x02)),
     ([0x03, 0, 0, 0, 18, 0], 18, \<lambda>g st msg. count_if (g ! 2 AND 0x0F \<noteq> 0x05 \<or> g ! 12 \<noteq> 0x24)),
     ([0xA5, 0x00, 0x00, 0x00, 0x00, 0x64, 0, 0, 0, 0x0A, 0, 0], 0, \<lambda>g st msg. count_if (\<not> good st msg)),
     ([0xBB, 0, 0x01, 0x76, 0x01, 0x76, 0, 0, 0, 0, 0, 0], 0, \<lambda>g st msg. count_if (\<not> good st msg)),
     ([0x1A, 0x00, 0x2A, 0, 38, 0], 38, \<lambda>g st msg. count_if (\<not> good st msg) +
        count_if (g ! 0 \<noteq> 37 \<or> g ! 12 \<noteq> 0x2A \<or> g ! 13 \<noteq> 0x18) +
        count_if (g ! 16 \<noteq> 0x71 \<or> g ! 19 \<noteq> 0x03 \<or> g ! 22 \<noteq> 0x01 \<or> g ! 23 \<noteq> 0x00)),
     ([0xAF, 0, 0, 0, 0, 0, 0, 0, 0, 0, 0, 0], 0, \<lambda>g st msg. count_if (st \<noteq> Some 0x02)),
     ([0x45, 0x00, 0x00, 0x00, 0x00, 0x64, 0, 0x00, 0x0A, 0], 0, \<lambda>g st msg. count_if (\<not> good st msg))]"

definition run_gapcmds :: "'d dut_eval \<Rightarrow> ('d, nat) prog" where
  "run_gapcmds ev = do {
     reset_dut ev 0;
     r \<leftarrow> run_blocks (map (run_cd_test ev) gap_tests) 0;
     State_Monad.return (exit_code r) }"

section \<open>The command line\<close>

record options =
  o_sectors :: int
  o_hps :: int
  o_id :: int
  o_slot :: int
  one_ds :: int
  one_gap :: int
  one_mode :: "string option"
  o_detail :: bool
  o_wave :: "string option"

definition default_options :: options where
  "default_options = \<lparr>o_sectors = 2, o_hps = 600, o_id = 0, o_slot = 0, one_ds = -1, one_gap = -1,
     one_mode = None, o_detail = False, o_wave = None\<rparr>"

text \<open>atoi: blanks, a sign, digits; what follows is ignored.\<close>

definition is_digit :: "char \<Rightarrow> bool" where
  "is_digit c \<longleftrightarrow> (48 :: nat) \<le> of_char c \<and> of_char c \<le> (57 :: nat)"

definition is_blank :: "char \<Rightarrow> bool" where
  "is_blank c \<longleftrightarrow> of_char c = (32 :: nat) \<or> (9 :: nat) \<le> of_char c \<and> of_char c \<le> (13 :: nat)"

definition digits_value :: "string \<Rightarrow> int" where
  "digits_value s = foldl (\<lambda>n c. n * 10 + (of_char c - 48)) 0 (takeWhile is_digit s)"

definition atoi :: "string \<Rightarrow> int" where
  "atoi s0 = (let s = dropWhile is_blank s0
     in case s of
          c # cs \<Rightarrow> if c = CHR ''-'' then - digits_value cs else if c = CHR ''+'' then digits_value cs else digits_value s
        | [] \<Rightarrow> 0)"

text \<open>The options that take a value, when there is one.\<close>

definition value_option :: "string \<Rightarrow> string \<Rightarrow> options \<Rightarrow> options option" where
  "value_option a v opt =
    (if a = ''--mode'' then Some (opt\<lparr>one_mode := Some v\<rparr>)
     else if a = ''--ds'' then Some (opt\<lparr>one_ds := atoi v\<rparr>)
     else if a = ''--gap'' then Some (opt\<lparr>one_gap := atoi v\<rparr>)
     else if a = ''--sectors'' then Some (opt\<lparr>o_sectors := atoi v\<rparr>)
     else if a = ''--hps'' then Some (opt\<lparr>o_hps := atoi v\<rparr>)
     else if a = ''--id'' then Some (opt\<lparr>o_id := atoi v\<rparr>)
     else if a = ''--slot'' then Some (opt\<lparr>o_slot := atoi v\<rparr>)
     else if a = ''--wave'' then Some (opt\<lparr>o_wave := Some v\<rparr>)
     else None)"

text \<open>The loop over the arguments; None when the help text ends the program.\<close>

fun parse_args :: "string list \<Rightarrow> options \<Rightarrow> options option" where
  "parse_args [] opt = Some opt"
| "parse_args [a] opt =
    (if a = ''--detail'' then Some (opt\<lparr>o_detail := True\<rparr>) else if a = ''--help'' then None else Some opt)"
| "parse_args (a # v # rest) opt =
    (case value_option a v opt of
       Some opt' \<Rightarrow> parse_args rest opt'
     | None \<Rightarrow> if a = ''--detail'' then parse_args (v # rest) (opt\<lparr>o_detail := True\<rparr>)
         else if a = ''--help'' then None else parse_args (v # rest) opt)"

definition mode_of :: "string option \<Rightarrow> Mode" where
  "mode_of m =
    (if m = Some ''byte'' then M_BYTE else if m = Some ''word'' then M_WORD
     else if m = Some ''long'' then M_LONG else if m = Some ''mix'' then M_MIX
     else if m = Some ''longskew'' then M_LONGSKEW else if m = Some ''wordskew'' then M_WORDSKEW
     else M_WORD)"

definition single_rc :: "RunResult \<Rightarrow> nat" where
  "single_rc r = (if mismatches r \<noteq> 0 \<or> dreq_timeout r \<or> \<not> completion_ok r then 1 else 0)"

text \<open>The choice of the run. Numbers are those of a command line without negative sectors, ids or slots.\<close>

definition dispatch :: "'d dut_eval \<Rightarrow> options \<Rightarrow> ('d, nat) prog" where
  "dispatch ev opt =
    (let m = one_mode opt; n = nat (o_sectors opt); i = nat (o_id opt); k = nat (o_slot opt)
     in if m = Some ''gapcmds'' then run_gapcmds ev
        else if m = Some ''toolbox'' then run_toolbox ev
        else if m = Some ''toolboxwdog'' then run_toolbox_wdog ev
        else if m = Some ''toolboxslow'' then run_toolbox_slow ev
        else if m = Some ''toolboxget'' then run_toolbox_get ev
        else if m = Some ''toolboxsend'' then run_toolbox_send ev
        else if m = Some ''cdvol'' then run_cdvol ev
        else if m = Some ''wbyte'' \<or> m = Some ''wword'' then do {
          r \<leftarrow> run_write ev (m = Some ''wword'') n (if one_gap opt \<ge> 0 then nat (one_gap opt) else 3) (o_hps opt) i k;
          State_Monad.return (single_rc r) }
        else if m \<noteq> None \<or> one_ds opt \<ge> 0 \<or> one_gap opt \<ge> 0 then do {
          r \<leftarrow> run_read ev (mode_of m) n (if one_ds opt \<ge> 0 then nat (one_ds opt) else 0)
                 (if one_gap opt \<ge> 0 then nat (one_gap opt) else 2) (o_hps opt) i k;
          State_Monad.return (single_rc r) }
        else full_sweep ev n i k)"

definition bench_main :: "'d dut_eval \<Rightarrow> string list \<Rightarrow> ('d, nat) prog" where
  "bench_main ev args = (case parse_args args default_options of
     None \<Rightarrow> State_Monad.return 0 | Some opt \<Rightarrow> dispatch ev opt)"

section \<open>Invariants of the whole program\<close>

context bench_frame
begin

lemma cd_cmd_kept: "keeps I (cd_cmd ev cdb payload n)"
  unfolding cd_cmd_def select_cd_def by (intro keep_rules elementary select_kept pio_put_kept pio_get_kept)

lemma cd_runs_kept: "keeps I (run_cdvol ev)" "keeps I (run_gapcmds ev)"
proof -
  show "keeps I (run_cdvol ev)" unfolding run_cdvol_def by (intro keep_rules elementary cd_cmd_kept)
  have "keeps I (run_cd_test ev t)" for t unfolding run_cd_test_def by (intro keep_rules cd_cmd_kept)
  then have "keeps I (run_blocks (map (run_cd_test ev) ts) k)" for ts k
    by (intro run_blocks_kept) auto
  then show "keeps I (run_gapcmds ev)" unfolding run_gapcmds_def by (intro keep_rules elementary)
qed

lemma run_cells_kept: "(\<And>c. keeps I (f c)) \<Longrightarrow> keeps I (run_cells f cs)"
  by (induction cs) (auto intro!: keep_rules)

lemma run_table_kept: "(\<And>c. keeps I (f c)) \<Longrightarrow> keeps I (run_table f cs)"
  unfolding run_table_def by (intro keep_rules run_cells_kept)

lemma run_tables_kept: "(\<And>t. keeps I (f t)) \<Longrightarrow> keeps I (run_tables f ts)"
  by (induction ts) (auto intro!: keep_rules)

lemma full_sweep_kept: "keeps I (full_sweep ev n i k)"
  unfolding full_sweep_def read_sweep_def write_sweep_def
  by (intro keep_rules run_tables_kept run_table_kept run_read_kept run_write_kept)

end

context toolbox_inv
begin

lemma main_kept: "keeps I (bench_main ev args)"
  unfolding bench_main_def dispatch_def
  by (intro keep_rules cd_runs_kept run_toolbox_kept stalled_runs_kept run_read_kept run_write_kept full_sweep_kept)

end

section \<open>Properties\<close>

text \<open>C10. The bench is memory safe and leaves the bus alone, for any hardware and any command line:
  whatever the hardware answers, the main program ends in a state in which every index the server and
  the Toolbox service use is inside its array, and with no strobe of the host bus asserted.\<close>

theorem bench_main_safe:
  assumes "hps_ok (hps s)" "released s"
  shows "hps_ok (hps (snd (run_state (bench_main ev args) s))) \<and> released (snd (run_state (bench_main ev args) s))"
  using keepsD [OF srvt.main_kept assms(1), of ev args] keepsD [OF relt.main_kept assms(2), of ev args] by simp

theorem bench_main_safe_witness:
  "hps_ok (hps (snd (run_state (bench_main (demo_ev 0) [''--mode'', ''toolbox'']) (demo_bench 0))))"
  using bench_main_safe [of "demo_bench 0" "demo_ev 0" "[''--mode'', ''toolbox'']"]
  by (simp add: hps_ok_def demo_bench_def hps_init_def tb_ok_def tb_init_def released_def bus_idle_def
      demo_host_def)

end
