(* ===== verification/SoftUart.thy ===== *)
theory SoftUart
  imports SimPrelude
begin

text \<open>
  The bit-level UART of verilator/sim/sim_serial.h and sim_serial.cpp: struct SoftUART
  with its receive and transmit state machines, one tick per system clock. The lemmas
  show the exact wave form the transmitter drives, that the receiver decodes every
  wave form of that shape, and that a transmitter wired to a receiver delivers the
  queued bytes in order, without a framing error.
\<close>

section \<open>State\<close>

datatype rx_state = RxIDLE | RxSTART | RxDATA | RxPARITY | RxSTOP
datatype tx_state = TxIDLE | TxSTART | TxDATA | TxPARITY | TxSTOP

record SoftUART =
  m_clocks_per_baud :: u32
  m_data_bits :: int
  m_stop_bits :: int
  m_parity_en :: bool
  m_parity_even :: bool
  m_rx_state :: rx_state
  m_rx_counter :: u32
  m_rx_bit_index :: int
  m_rx_shift :: u8
  m_rx_byte :: u8
  m_rx_ready :: bool
  m_rx_frame_error :: bool
  m_rx_last_pin :: bool
  m_tx_state :: tx_state
  m_tx_counter :: u32
  m_tx_bit_index :: int
  m_tx_shift :: u8
  m_tx_pin :: bool
  m_tx_stop_count :: int
  m_tx_queue :: "u8 list"

definition uart_init :: SoftUART where
  "uart_init = \<lparr> m_clocks_per_baud = 3385, m_data_bits = 8, m_stop_bits = 1,
     m_parity_en = False, m_parity_even = False,
     m_rx_state = RxIDLE, m_rx_counter = 0, m_rx_bit_index = 0, m_rx_shift = 0,
     m_rx_byte = 0, m_rx_ready = False, m_rx_frame_error = False, m_rx_last_pin = True,
     m_tx_state = TxIDLE, m_tx_counter = 0, m_tx_bit_index = 0, m_tx_shift = 0,
     m_tx_pin = True, m_tx_stop_count = 0, m_tx_queue = [] \<rparr>"

section \<open>Operations\<close>

definition Configure :: "u32 \<Rightarrow> int \<Rightarrow> int \<Rightarrow> bool \<Rightarrow> bool \<Rightarrow> SoftUART \<Rightarrow> SoftUART" where
  "Configure clocks_per_baud data_bits stop_bits parity_en parity_even u =
     u \<lparr> m_clocks_per_baud := (if clocks_per_baud > 0 then clocks_per_baud else 1),
         m_data_bits := data_bits, m_stop_bits := stop_bits,
         m_parity_en := parity_en, m_parity_even := parity_even \<rparr>"

definition ConfigureFromSetup :: "u32 \<Rightarrow> SoftUART \<Rightarrow> SoftUART" where
  "ConfigureFromSetup setup_reg =
     (let cpb = setup_reg AND 0xFFFFFF;
          even_sel = bit setup_reg 24;
          par_en = bit setup_reg 26;
          two_st = bit setup_reg 27;
          dbits_code = drop_bit 28 setup_reg AND 3;
          dbits = 8 - uint dbits_code
      in Configure cpb dbits (if two_st then 2 else 1) par_en even_sel)"

text \<open>One clock of the receiver: the new state and whether a byte was completed.\<close>

definition RxTick :: "SoftUART \<Rightarrow> bool \<Rightarrow> SoftUART \<times> bool" where
  "RxTick u0 txd_pin =
    (let u = u0 \<lparr> m_rx_ready := False \<rparr>;
         u' = (case m_rx_state u of
           RxIDLE \<Rightarrow>
             if m_rx_last_pin u \<and> \<not> txd_pin
             then u \<lparr> m_rx_state := RxSTART, m_rx_counter := m_clocks_per_baud u div 2,
                      m_rx_shift := 0, m_rx_bit_index := 0, m_rx_frame_error := False \<rparr>
             else u
         | RxSTART \<Rightarrow>
             if m_rx_counter u > 0 then u \<lparr> m_rx_counter := m_rx_counter u - 1 \<rparr>
             else if txd_pin then u \<lparr> m_rx_state := RxIDLE \<rparr>
             else u \<lparr> m_rx_state := RxDATA, m_rx_counter := m_clocks_per_baud u \<rparr>
         | RxDATA \<Rightarrow>
             if m_rx_counter u > 0 then u \<lparr> m_rx_counter := m_rx_counter u - 1 \<rparr>
             else
               (let sh = (if txd_pin
                          then m_rx_shift u OR push_bit (nat (m_rx_bit_index u)) 1
                          else m_rx_shift u);
                    ix = m_rx_bit_index u + 1
                in u \<lparr> m_rx_shift := sh, m_rx_bit_index := ix,
                       m_rx_state := (if ix \<ge> m_data_bits u
                                      then (if m_parity_en u then RxPARITY else RxSTOP)
                                      else RxDATA),
                       m_rx_counter := m_clocks_per_baud u \<rparr>)
         | RxPARITY \<Rightarrow>
             if m_rx_counter u > 0 then u \<lparr> m_rx_counter := m_rx_counter u - 1 \<rparr>
             else u \<lparr> m_rx_state := RxSTOP, m_rx_counter := m_clocks_per_baud u \<rparr>
         | RxSTOP \<Rightarrow>
             if m_rx_counter u > 0 then u \<lparr> m_rx_counter := m_rx_counter u - 1 \<rparr>
             else u \<lparr> m_rx_frame_error := (m_rx_frame_error u \<or> \<not> txd_pin),
                      m_rx_byte := m_rx_shift u, m_rx_ready := True,
                      m_rx_state := RxIDLE \<rparr>);
         u'' = u' \<lparr> m_rx_last_pin := txd_pin \<rparr>
     in (u'', m_rx_ready u''))"

definition TxEnqueue :: "u8 \<Rightarrow> SoftUART \<Rightarrow> SoftUART" where
  "TxEnqueue b u = u \<lparr> m_tx_queue := m_tx_queue u @ [b] \<rparr>"

text \<open>The loop of the parity case: how many of the low data bits are set.\<close>

definition tx_ones :: "int \<Rightarrow> u8 \<Rightarrow> int" where
  "tx_ones d b = int (length (filter (\<lambda>i. bit b i) [0..<nat d]))"

definition tx_parity :: "bool \<Rightarrow> int \<Rightarrow> u8 \<Rightarrow> bool" where
  "tx_parity par_even d b = (if par_even then odd (tx_ones d b) else \<not> odd (tx_ones d b))"

text \<open>One clock of the transmitter: the new state and the level of the pin.\<close>

definition TxTick :: "SoftUART \<Rightarrow> SoftUART \<times> bool" where
  "TxTick u =
    (let u' = (case m_tx_state u of
           TxIDLE \<Rightarrow>
             (case m_tx_queue u of
                [] \<Rightarrow> u
              | b # q \<Rightarrow> u \<lparr> m_tx_shift := b, m_tx_queue := q, m_tx_state := TxSTART,
                            m_tx_counter := m_clocks_per_baud u, m_tx_pin := False,
                            m_tx_bit_index := 0 \<rparr>)
         | TxSTART \<Rightarrow>
             if m_tx_counter u > 0 then u \<lparr> m_tx_counter := m_tx_counter u - 1 \<rparr>
             else u \<lparr> m_tx_state := TxDATA,
                      m_tx_pin := bit (m_tx_shift u) (nat (m_tx_bit_index u)),
                      m_tx_counter := m_clocks_per_baud u \<rparr>
         | TxDATA \<Rightarrow>
             if m_tx_counter u > 0 then u \<lparr> m_tx_counter := m_tx_counter u - 1 \<rparr>
             else
               (let ix = m_tx_bit_index u + 1;
                    v = u \<lparr> m_tx_bit_index := ix \<rparr>;
                    w = (if ix \<ge> m_data_bits u then
                           (if m_parity_en u
                            then v \<lparr> m_tx_state := TxPARITY,
                                     m_tx_pin := tx_parity (m_parity_even u) (m_data_bits u)
                                                   (m_tx_shift u) \<rparr>
                            else v \<lparr> m_tx_state := TxSTOP, m_tx_pin := True,
                                     m_tx_stop_count := 0 \<rparr>)
                         else v \<lparr> m_tx_pin := bit (m_tx_shift u) (nat ix) \<rparr>)
                in w \<lparr> m_tx_counter := m_clocks_per_baud u \<rparr>)
         | TxPARITY \<Rightarrow>
             if m_tx_counter u > 0 then u \<lparr> m_tx_counter := m_tx_counter u - 1 \<rparr>
             else u \<lparr> m_tx_state := TxSTOP, m_tx_pin := True, m_tx_stop_count := 0,
                      m_tx_counter := m_clocks_per_baud u \<rparr>
         | TxSTOP \<Rightarrow>
             if m_tx_counter u > 0 then u \<lparr> m_tx_counter := m_tx_counter u - 1 \<rparr>
             else
               (let sc = m_tx_stop_count u + 1;
                    v = u \<lparr> m_tx_stop_count := sc \<rparr>
                in if sc \<ge> m_stop_bits u
                   then v \<lparr> m_tx_state := TxIDLE, m_tx_pin := True \<rparr>
                   else v \<lparr> m_tx_counter := m_clocks_per_baud u \<rparr>))
     in (u', m_tx_pin u'))"

definition TxBusy :: "SoftUART \<Rightarrow> bool" where
  "TxBusy u \<longleftrightarrow> m_tx_state u \<noteq> TxIDLE \<or> m_tx_queue u \<noteq> []"

section \<open>Runs of the two state machines\<close>

definition uart_ok :: "SoftUART \<Rightarrow> bool" where
  "uart_ok u \<longleftrightarrow> 0 < m_clocks_per_baud u \<and> 1 \<le> m_data_bits u \<and> m_data_bits u \<le> 8 \<and>
               1 \<le> m_stop_bits u"

text \<open>The configuration fields of two transceivers agree.\<close>

definition same_config :: "SoftUART \<Rightarrow> SoftUART \<Rightarrow> bool" where
  "same_config a b \<longleftrightarrow> m_clocks_per_baud a = m_clocks_per_baud b \<and> m_data_bits a = m_data_bits b \<and>
     m_stop_bits a = m_stop_bits b \<and> m_parity_en a = m_parity_en b \<and>
     m_parity_even a = m_parity_even b"

fun tx_run :: "nat \<Rightarrow> SoftUART \<Rightarrow> SoftUART \<times> bool list" where
  "tx_run 0 u = (u, [])"
| "tx_run (Suc n) u =
     (case TxTick u of (u1, p) \<Rightarrow> (case tx_run n u1 of (u2, ps) \<Rightarrow> (u2, p # ps)))"

text \<open>The receiver fed with a wave form; each completed byte with its error flag.\<close>

fun rx_run :: "SoftUART \<Rightarrow> bool list \<Rightarrow> SoftUART \<times> (u8 \<times> bool) list" where
  "rx_run u [] = (u, [])"
| "rx_run u (p # ps) =
     (case RxTick u p of (u1, r) \<Rightarrow> (case rx_run u1 ps of (u2, xs) \<Rightarrow>
        (u2, if r then (m_rx_byte u1, m_rx_frame_error u1) # xs else xs)))"

text \<open>A transmitter whose pin drives a receiver, both on the same clock.\<close>

fun link_run :: "nat \<Rightarrow> SoftUART \<Rightarrow> SoftUART \<Rightarrow> SoftUART \<times> SoftUART \<times> (u8 \<times> bool) list" where
  "link_run 0 a b = (a, b, [])"
| "link_run (Suc n) a b =
     (case TxTick a of (a1, p) \<Rightarrow> (case RxTick b p of (b1, r) \<Rightarrow>
        (case link_run n a1 b1 of (a2, b2, xs) \<Rightarrow>
           (a2, b2, if r then (m_rx_byte b1, m_rx_frame_error b1) # xs else xs))))"

definition cell :: "SoftUART \<Rightarrow> bool \<Rightarrow> bool list" where
  "cell u p = replicate (Suc (unat (m_clocks_per_baud u))) p"

definition frame :: "SoftUART \<Rightarrow> u8 \<Rightarrow> bool list" where
  "frame u b =
     cell u False @
     concat (map (\<lambda>i. cell u (bit b i)) [0..<nat (m_data_bits u)]) @
     (if m_parity_en u then cell u (tx_parity (m_parity_even u) (m_data_bits u) b) else []) @
     concat (replicate (nat (m_stop_bits u)) (cell u True)) @ [True]"

definition frame_len :: "SoftUART \<Rightarrow> nat" where
  "frame_len u = (1 + nat (m_data_bits u) + (if m_parity_en u then 1 else 0) + nat (m_stop_bits u))
                 * (unat (m_clocks_per_baud u) + 1) + 1"

lemma length_cell [simp]: "length (cell u p) = unat (m_clocks_per_baud u) + 1"
  by (simp add: cell_def)

lemma length_concat_cells [simp]:
  "length (concat (map (\<lambda>i. cell u (f i)) xs)) = length xs * (unat (m_clocks_per_baud u) + 1)"
  by (induction xs) (simp_all add: algebra_simps)

lemma length_concat_replicate:
  "length (concat (replicate n xs)) = n * length xs"
  by (induction n) simp_all

lemma length_frame [simp]: "length (frame u b) = frame_len u"
  by (simp add: frame_def frame_len_def length_concat_replicate algebra_simps)

lemma tx_run_add:
  "tx_run (m + n) u =
     (case tx_run m u of (u1, ps) \<Rightarrow> (case tx_run n u1 of (u2, qs) \<Rightarrow> (u2, ps @ qs)))"
  by (induction m arbitrary: u) (simp_all add: case_prod_beta)

lemma rx_run_append:
  "rx_run u (ps @ qs) =
     (case rx_run u ps of (u1, xs) \<Rightarrow> (case rx_run u1 qs of (u2, ys) \<Rightarrow> (u2, xs @ ys)))"
  by (induction ps arbitrary: u) (simp_all add: case_prod_beta)

lemma link_run_split:
  "link_run n a b =
     (case tx_run n a of (a', ps) \<Rightarrow> (case rx_run b ps of (b', xs) \<Rightarrow> (a', b', xs)))"
  by (induction n arbitrary: a b) (simp_all add: case_prod_beta)

section \<open>The transmitter drives the frame\<close>

lemma tx_tick_hold:
  assumes "m_tx_state u \<noteq> TxIDLE" "m_tx_counter u > 0"
  shows "TxTick u = (u\<lparr>m_tx_counter := m_tx_counter u - 1\<rparr>, m_tx_pin u)"
  using assms by (cases "m_tx_state u") (simp_all add: TxTick_def)

lemma tx_hold:
  "m_tx_state u \<noteq> TxIDLE \<Longrightarrow> m_tx_counter u = of_nat n \<Longrightarrow> n < 2 ^ 32 \<Longrightarrow>
   tx_run n u = (u\<lparr>m_tx_counter := 0\<rparr>, replicate n (m_tx_pin u))"
proof (induction n arbitrary: u)
  case (Suc n)
  have "m_tx_counter u > 0"
    using Suc.prems of_nat_eq_0_word_iff [of "Suc n", where 'a = 32] by (simp add: word_neq_0_conv)
  then have t: "TxTick u = (u\<lparr>m_tx_counter := of_nat n\<rparr>, m_tx_pin u)"
    using Suc.prems by (simp add: tx_tick_hold)
  show ?case using Suc.IH [of "u\<lparr>m_tx_counter := of_nat n\<rparr>"] Suc.prems by (simp add: t)
qed simp

lemma tx_cell:
  assumes "TxTick u = (v, p)" "m_tx_state v \<noteq> TxIDLE" "m_tx_counter v = m_clocks_per_baud w"
    "m_tx_pin v = p"
  shows "tx_run (Suc (unat (m_clocks_per_baud w))) u = (v\<lparr>m_tx_counter := 0\<rparr>, cell w p)"
  using assms tx_hold [of v "unat (m_clocks_per_baud w)"] unsigned_less [of "m_clocks_per_baud w", where 'a = nat]
  by (simp add: cell_def)

text \<open>The states at the end of the cells of a frame, relative to the idle state u.\<close>

definition tx_mid :: "SoftUART \<Rightarrow> u8 \<Rightarrow> u8 list \<Rightarrow> tx_state \<Rightarrow> bool \<Rightarrow> nat \<Rightarrow> int \<Rightarrow> SoftUART" where
  "tx_mid u b q st p i sc =
     u\<lparr>m_tx_shift := b, m_tx_queue := q, m_tx_state := st, m_tx_counter := 0, m_tx_pin := p,
       m_tx_bit_index := int i, m_tx_stop_count := sc\<rparr>"

lemma tx_mid_config [simp]:
  "m_clocks_per_baud (tx_mid u b q st p i sc) = m_clocks_per_baud u"
  by (simp add: tx_mid_def)

lemma tx_start_cell:
  assumes "m_tx_state u = TxIDLE" "m_tx_queue u = b # q"
  shows "tx_run (Suc (unat (m_clocks_per_baud u))) u =
           (tx_mid u b q TxSTART False 0 (m_tx_stop_count u), cell u False)"
  by (subst tx_cell [of u "fst (TxTick u)" False u])
    (use assms in \<open>simp_all add: TxTick_def tx_mid_def\<close>)

lemma tx_first_data_cell:
  "tx_run (Suc (unat (m_clocks_per_baud u))) (tx_mid u b q TxSTART False 0 sc) =
     (tx_mid u b q TxDATA (bit b 0) 0 sc, cell u (bit b 0))"
  by (subst tx_cell [of _ "fst (TxTick (tx_mid u b q TxSTART False 0 sc))" "bit b 0" u])
    (simp_all add: TxTick_def tx_mid_def)

lemma tx_next_data_cell:
  assumes "int i + 1 < m_data_bits u"
  shows "tx_run (Suc (unat (m_clocks_per_baud u))) (tx_mid u b q TxDATA p i sc) =
     (tx_mid u b q TxDATA (bit b (Suc i)) (Suc i) sc, cell u (bit b (Suc i)))"
  by (subst tx_cell [of _ "fst (TxTick (tx_mid u b q TxDATA p i sc))" "bit b (Suc i)" u])
    (use assms in \<open>simp_all add: TxTick_def tx_mid_def Let_def nat_add_distrib\<close>)

lemma tx_data_cells:
  assumes "int i < m_data_bits u"
  shows "tx_run (Suc i * Suc (unat (m_clocks_per_baud u))) (tx_mid u b q TxSTART False 0 sc) =
     (tx_mid u b q TxDATA (bit b i) i sc, concat (map (\<lambda>j. cell u (bit b j)) [0..<Suc i]))"
  using assms
proof (induction i)
  case 0
  then show ?case using tx_first_data_cell by simp
next
  case (Suc i)
  have "Suc (Suc i) * Suc (unat (m_clocks_per_baud u)) =
        Suc i * Suc (unat (m_clocks_per_baud u)) + Suc (unat (m_clocks_per_baud u))" by simp
  with Suc tx_next_data_cell [of i u b q "bit b i" sc] show ?case
    by (simp only: tx_run_add) simp
qed

lemma tx_parity_cell:
  assumes "int (Suc i) = m_data_bits u" "m_parity_en u"
  shows "tx_run (Suc (unat (m_clocks_per_baud u))) (tx_mid u b q TxDATA p i sc) =
     (tx_mid u b q TxPARITY (tx_parity (m_parity_even u) (m_data_bits u) b) (Suc i) sc,
      cell u (tx_parity (m_parity_even u) (m_data_bits u) b))"
  by (subst tx_cell [of _ "fst (TxTick (tx_mid u b q TxDATA p i sc))"
        "tx_parity (m_parity_even u) (m_data_bits u) b" u])
    (use assms in \<open>simp_all add: TxTick_def tx_mid_def Let_def\<close>)

lemma tx_first_stop_cell:
  assumes "int (Suc i) = m_data_bits u" "\<not> m_parity_en u"
  shows "tx_run (Suc (unat (m_clocks_per_baud u))) (tx_mid u b q TxDATA p i sc) =
     (tx_mid u b q TxSTOP True (Suc i) 0, cell u True)"
  by (subst tx_cell [of _ "fst (TxTick (tx_mid u b q TxDATA p i sc))" True u])
    (use assms in \<open>simp_all add: TxTick_def tx_mid_def Let_def\<close>)

lemma tx_parity_stop_cell:
  "tx_run (Suc (unat (m_clocks_per_baud u))) (tx_mid u b q TxPARITY p i sc) =
     (tx_mid u b q TxSTOP True i 0, cell u True)"
  by (subst tx_cell [of _ "fst (TxTick (tx_mid u b q TxPARITY p i sc))" True u])
    (simp_all add: TxTick_def tx_mid_def Let_def)

lemma tx_next_stop_cell:
  assumes "sc + 1 < m_stop_bits u"
  shows "tx_run (Suc (unat (m_clocks_per_baud u))) (tx_mid u b q TxSTOP True i sc) =
     (tx_mid u b q TxSTOP True i (sc + 1), cell u True)"
  by (subst tx_cell [of _ "fst (TxTick (tx_mid u b q TxSTOP True i sc))" True u])
    (use assms in \<open>simp_all add: TxTick_def tx_mid_def Let_def\<close>)

lemma tx_stop_cells:
  assumes "int n < m_stop_bits u"
  shows "tx_run (n * Suc (unat (m_clocks_per_baud u))) (tx_mid u b q TxSTOP True i 0) =
     (tx_mid u b q TxSTOP True i (int n), concat (replicate n (cell u True)))"
  using assms
proof (induction n)
  case (Suc n)
  have e: "Suc n * Suc (unat (m_clocks_per_baud u)) =
        n * Suc (unat (m_clocks_per_baud u)) + Suc (unat (m_clocks_per_baud u))" by simp
  have r: "concat (replicate n (cell u True)) @ cell u True = concat (replicate (Suc n) (cell u True))"
    by (induction n) simp_all
  show ?case using Suc tx_next_stop_cell [of "int n" u b q i] r
    by (simp only: e tx_run_add) (simp add: add.commute)
qed simp

lemma tx_last_tick:
  assumes "sc + 1 \<ge> m_stop_bits u"
  shows "tx_run 1 (tx_mid u b q TxSTOP True i sc) =
     (tx_mid u b q TxIDLE True i (sc + 1), [True])"
  using assms by (simp add: TxTick_def tx_mid_def Let_def)

lemma tx_run_compose:
  assumes "tx_run m u = (v, ps)" "tx_run n v = (w, qs)"
  shows "tx_run (m + n) u = (w, ps @ qs)"
  using assms by (simp add: tx_run_add)

lemma tx_frame:
  assumes "uart_ok u" "m_tx_state u = TxIDLE" "m_tx_queue u = b # q"
  shows "tx_run (frame_len u) u =
           (tx_mid u b q TxIDLE True (nat (m_data_bits u)) (m_stop_bits u), frame u b)"
proof -
  let ?c = "Suc (unat (m_clocks_per_baud u))"
  define d where "d = nat (m_data_bits u) - 1"
  define s where "s = nat (m_stop_bits u) - 1"
  have d: "int (Suc d) = m_data_bits u" "int d < m_data_bits u" "nat (m_data_bits u) = Suc d"
    using assms(1) by (auto simp: uart_ok_def d_def)
  have s: "int s + 1 = m_stop_bits u" "int s < m_stop_bits u" "nat (m_stop_bits u) = Suc s"
    using assms(1) by (auto simp: uart_ok_def s_def)
  note hd = tx_run_compose [OF tx_start_cell [OF assms(2,3)]
      tx_data_cells [OF d(2), of b q "m_tx_stop_count u"]]
  have tl: "tx_run (s * ?c + 1) (tx_mid u b q TxSTOP True (Suc d) 0) =
      (tx_mid u b q TxIDLE True (Suc d) (m_stop_bits u),
       concat (replicate s (cell u True)) @ [True])"
    using tx_run_compose [OF tx_stop_cells [OF s(2), of b q "Suc d"] tx_last_tick] s(1) by simp
  show ?thesis
  proof (cases "m_parity_en u")
    case True
    note mid = tx_run_compose [OF tx_parity_cell [OF d(1) True, of b q] tx_parity_stop_cell]
    have "frame_len u = (?c + Suc d * ?c) + ((?c + ?c) + (s * ?c + 1))"
      using True by (simp add: frame_len_def d(3) s(3) algebra_simps)
    with tx_run_compose [OF hd tx_run_compose [OF mid tl]] True d(3) s(3) show ?thesis
      by (simp only: frame_def) (simp del: upt_Suc)
  next
    case False
    have "frame_len u = (?c + Suc d * ?c) + (?c + (s * ?c + 1))"
      using False by (simp add: frame_len_def d(3) s(3) algebra_simps)
    with tx_run_compose [OF hd tx_run_compose [OF tx_first_stop_cell [OF d(1) False, of b q] tl]]
      False d(3) s(3) show ?thesis
      by (simp only: frame_def) (simp del: upt_Suc)
  qed
qed

section \<open>The receiver decodes the frame\<close>

lemma rx_tick_hold:
  assumes "m_rx_state u \<noteq> RxIDLE" "m_rx_counter u > 0"
  shows "RxTick u p = (u\<lparr>m_rx_ready := False, m_rx_counter := m_rx_counter u - 1,
                          m_rx_last_pin := p\<rparr>, False)"
  using assms by (cases "m_rx_state u") (simp_all add: RxTick_def Let_def)

lemma rx_hold:
  "m_rx_state u \<noteq> RxIDLE \<Longrightarrow> m_rx_counter u = of_nat (n + k) \<Longrightarrow> n + k < 2 ^ 32 \<Longrightarrow>
   m_rx_last_pin u = p \<Longrightarrow> \<not> m_rx_ready u \<Longrightarrow>
   rx_run u (replicate n p) = (u\<lparr>m_rx_counter := of_nat k\<rparr>, [])"
proof (induction n arbitrary: u)
  case (Suc n)
  have "m_rx_counter u > 0"
    using Suc.prems of_nat_eq_0_word_iff [of "Suc n + k", where 'a = 32]
    by (simp add: word_neq_0_conv)
  then have t: "RxTick u p = (u\<lparr>m_rx_counter := of_nat (n + k)\<rparr>, False)"
    using Suc.prems by (simp add: rx_tick_hold)
  show ?case using Suc.IH [of "u\<lparr>m_rx_counter := of_nat (n + k)\<rparr>"] Suc.prems by (simp add: t)
qed simp

text \<open>Waiting out the counter and then sampling does the same as sampling at once.\<close>

lemma rx_sample:
  "m_rx_state u \<noteq> RxIDLE \<Longrightarrow> m_rx_counter u = of_nat n \<Longrightarrow> n < 2 ^ 32 \<Longrightarrow>
   rx_run u (replicate (Suc n) p) = rx_run (u\<lparr>m_rx_counter := 0\<rparr>) [p]"
proof (induction n arbitrary: u)
  case 0
  then have "u\<lparr>m_rx_counter := 0\<rparr> = u" by (cases u) simp
  then show ?case by simp
next
  case (Suc n)
  have "m_rx_counter u > 0"
    using Suc.prems of_nat_eq_0_word_iff [of "Suc n", where 'a = 32]
    by (simp add: word_neq_0_conv)
  then have t: "RxTick u p = (u\<lparr>m_rx_ready := False, m_rx_counter := of_nat n, m_rx_last_pin := p\<rparr>, False)"
    using Suc.prems by (simp add: rx_tick_hold)
  have "RxTick (u\<lparr>m_rx_ready := False, m_rx_last_pin := p, m_rx_counter := 0\<rparr>) p =
        RxTick (u\<lparr>m_rx_counter := 0\<rparr>) p"
    using Suc.prems(1) by (cases "m_rx_state u") (simp_all add: RxTick_def Let_def)
  with Suc.IH [of "u\<lparr>m_rx_ready := False, m_rx_counter := of_nat n, m_rx_last_pin := p\<rparr>"] Suc.prems
  show ?case by (simp add: t)
qed

lemma rx_run_compose:
  assumes "rx_run u ps = (v, xs)" "rx_run v qs = (w, ys)"
  shows "rx_run u (ps @ qs) = (w, xs @ ys)"
  using assms by (simp add: rx_run_append)

text \<open>Half a bit time, the offset of the sampling point in a cell.\<close>

definition half :: "SoftUART \<Rightarrow> nat" where
  "half u = unat (m_clocks_per_baud u) div 2"

text \<open>The states at the end of the cells, relative to the idle state u.\<close>

definition rx_mid :: "SoftUART \<Rightarrow> rx_state \<Rightarrow> u8 \<Rightarrow> nat \<Rightarrow> bool \<Rightarrow> nat \<Rightarrow> SoftUART" where
  "rx_mid u st sh i p k =
     u\<lparr>m_rx_ready := False, m_rx_state := st, m_rx_counter := of_nat k, m_rx_shift := sh,
       m_rx_bit_index := int i, m_rx_frame_error := False, m_rx_last_pin := p\<rparr>"

lemma rx_mid_simps [simp]:
  "m_rx_state (rx_mid u st sh i p k) = st"
  "m_rx_counter (rx_mid u st sh i p k) = of_nat k"
  "m_clocks_per_baud (rx_mid u st sh i p k) = m_clocks_per_baud u"
  "m_data_bits (rx_mid u st sh i p k) = m_data_bits u"
  "m_rx_last_pin (rx_mid u st sh i p k) = p"
  "\<not> m_rx_ready (rx_mid u st sh i p k)"
  "rx_mid u st sh i p k\<lparr>m_rx_counter := of_nat k'\<rparr> = rx_mid u st sh i p k'"
  "rx_mid u st sh i p k\<lparr>m_rx_counter := 0\<rparr> = rx_mid u st sh i p 0"
  by (simp_all add: rx_mid_def)

lemma half_bounds:
  assumes "0 < m_clocks_per_baud u"
  shows "half u + 1 \<le> unat (m_clocks_per_baud u)" "half u + 1 < 2 ^ 32"
    "unat (m_clocks_per_baud u) < 2 ^ 32"
    "unat (m_clocks_per_baud u) - (half u + 1) + (half u + 1) = unat (m_clocks_per_baud u)"
proof -
  have "0 < unat (m_clocks_per_baud u)" using assms by (simp add: word_less_nat_alt)
  then show 1: "half u + 1 \<le> unat (m_clocks_per_baud u)" by (simp add: half_def)
  show 2: "unat (m_clocks_per_baud u) < 2 ^ 32"
    using unsigned_less [of "m_clocks_per_baud u", where 'a = nat] by simp
  show "half u + 1 < 2 ^ 32" using 1 2 by linarith
  show "unat (m_clocks_per_baud u) - (half u + 1) + (half u + 1) = unat (m_clocks_per_baud u)"
    using 1 by simp
qed

text \<open>One cell: sample in the middle, then the remaining ticks bring the counter back.\<close>

lemma rx_cell:
  assumes "0 < m_clocks_per_baud u" "st \<noteq> RxIDLE" "st' \<noteq> RxIDLE"
    and ev: "RxTick (rx_mid u st sh i p 0) q =
               (rx_mid u st' sh' i' q (unat (m_clocks_per_baud u)), False)"
  shows "rx_run (rx_mid u st sh i p (half u + 1)) (cell u q) =
           (rx_mid u st' sh' i' q (half u + 1), [])"
proof -
  let ?c = "unat (m_clocks_per_baud u)"
  note hb = half_bounds [OF assms(1)]
  have e: "cell u q = replicate (Suc (half u + 1)) q @ replicate (?c - (half u + 1)) q"
    using hb(1) by (simp add: cell_def flip: replicate_Suc replicate_add)
  have 1: "rx_run (rx_mid u st sh i p (half u + 1)) (replicate (Suc (half u + 1)) q) =
           (rx_mid u st' sh' i' q ?c, [])"
    using rx_sample [of "rx_mid u st sh i p (half u + 1)" "half u + 1" q] hb(2) assms(2) ev
    by (simp del: of_nat_Suc)
  have 2: "rx_run (rx_mid u st' sh' i' q ?c) (replicate (?c - (half u + 1)) q) =
           (rx_mid u st' sh' i' q (half u + 1), [])"
    using rx_hold [of "rx_mid u st' sh' i' q ?c" "?c - (half u + 1)" "half u + 1" q] hb assms(3)
    by (simp del: of_nat_Suc)
  show ?thesis using rx_run_compose [OF 1 2] by (simp add: e)
qed

lemma half_word:
  "m_clocks_per_baud u div 2 = of_nat (half u)"
proof -
  have "unat (m_clocks_per_baud u div 2) = half u" by (simp add: half_def unat_div)
  then have "of_nat (unat (m_clocks_per_baud u div 2)) = (of_nat (half u) :: u32)" by simp
  then show ?thesis by simp
qed

lemma rx_start_cell:
  assumes "0 < m_clocks_per_baud u" "m_rx_state u = RxIDLE" "m_rx_last_pin u"
  shows "rx_run u (cell u False) = (rx_mid u RxDATA 0 0 False (half u + 1), [])"
proof -
  let ?c = "unat (m_clocks_per_baud u)"
  note hb = half_bounds [OF assms(1)]
  have e: "cell u False = [False] @ replicate (Suc (half u)) False @ replicate (?c - (half u + 1)) False"
    using hb(1) by (simp add: cell_def flip: replicate_Suc replicate_add)
  have 0: "rx_run u [False] = (rx_mid u RxSTART 0 0 False (half u), [])"
    using assms by (simp add: RxTick_def rx_mid_def half_word Let_def)
  have "RxTick (rx_mid u RxSTART 0 0 False 0) False = (rx_mid u RxDATA 0 0 False ?c, False)"
    by (simp add: RxTick_def rx_mid_def Let_def)
  then have 1: "rx_run (rx_mid u RxSTART 0 0 False (half u)) (replicate (Suc (half u)) False) =
           (rx_mid u RxDATA 0 0 False ?c, [])"
    using rx_sample [of "rx_mid u RxSTART 0 0 False (half u)" "half u" False] hb(2)
    by (simp del: of_nat_Suc)
  have 2: "rx_run (rx_mid u RxDATA 0 0 False ?c) (replicate (?c - (half u + 1)) False) =
           (rx_mid u RxDATA 0 0 False (half u + 1), [])"
    using rx_hold [of "rx_mid u RxDATA 0 0 False ?c" "?c - (half u + 1)" "half u + 1" False] hb
    by (simp del: of_nat_Suc)
  show ?thesis using rx_run_compose [OF 0 rx_run_compose [OF 1 2]] by (simp add: e)
qed

definition rx_next :: "SoftUART \<Rightarrow> nat \<Rightarrow> rx_state" where
  "rx_next u i = (if int i \<ge> m_data_bits u then (if m_parity_en u then RxPARITY else RxSTOP) else RxDATA)"

lemma rx_data_cell:
  assumes "0 < m_clocks_per_baud u"
  shows "rx_run (rx_mid u RxDATA (take_bit i b) i p (half u + 1)) (cell u (bit b i)) =
    (rx_mid u (rx_next u (Suc i)) (take_bit (Suc i) b) (Suc i) (bit b i) (half u + 1), [])"
proof (rule rx_cell [OF assms])
  show "RxTick (rx_mid u RxDATA (take_bit i b) i p 0) (bit b i) =
    (rx_mid u (rx_next u (Suc i)) (take_bit (Suc i) b) (Suc i) (bit b i)
       (unat (m_clocks_per_baud u)), False)"
    using take_bit_Suc_or [of i b]
    by (simp add: RxTick_def rx_mid_def rx_next_def Let_def add.commute split: if_splits)
qed (simp_all add: rx_next_def)

lemma rx_data_cells:
  assumes "0 < m_clocks_per_baud u" "int i < m_data_bits u"
  shows "\<exists>p. rx_run (rx_mid u RxDATA 0 0 False (half u + 1))
             (concat (map (\<lambda>j. cell u (bit b j)) [0..<Suc i])) =
           (rx_mid u (rx_next u (Suc i)) (take_bit (Suc i) b) (Suc i) p (half u + 1), [])"
  using assms(2)
proof (induction i)
  case 0
  then show ?case using rx_data_cell [OF assms(1), of 0 b False] by auto
next
  case (Suc i)
  then obtain p where p: "rx_run (rx_mid u RxDATA 0 0 False (half u + 1))
      (concat (map (\<lambda>j. cell u (bit b j)) [0..<Suc i])) =
      (rx_mid u RxDATA (take_bit (Suc i) b) (Suc i) p (half u + 1), [])"
    by (auto simp: rx_next_def)
  have e: "[0..<Suc (Suc i)] = [0..<Suc i] @ [Suc i]" by simp
  show ?case using rx_run_compose [OF p rx_data_cell [OF assms(1), of "Suc i" b p]]
    by (simp only: e map_append concat_append) auto
qed

lemma rx_parity_cell:
  assumes "0 < m_clocks_per_baud u"
  shows "rx_run (rx_mid u RxPARITY sh i p (half u + 1)) (cell u q) =
    (rx_mid u RxSTOP sh i q (half u + 1), [])"
  by (rule rx_cell [OF assms]) (simp_all add: RxTick_def rx_mid_def Let_def)

lemma rx_idle_high:
  "m_rx_state u = RxIDLE \<Longrightarrow> m_rx_last_pin u \<Longrightarrow>
   rx_run u (replicate (Suc n) True) = (u\<lparr>m_rx_ready := False\<rparr>, [])"
proof (induction n arbitrary: u)
  case (Suc n)
  have "RxTick u True = (u\<lparr>m_rx_ready := False\<rparr>, False)"
    using Suc.prems by (simp add: RxTick_def Let_def)
  with Suc.IH [of "u\<lparr>m_rx_ready := False\<rparr>"] Suc.prems show ?case by simp
qed (simp add: RxTick_def Let_def)

text \<open>The state after a whole frame: idle again, the byte latched, no framing error.\<close>

definition rx_done :: "SoftUART \<Rightarrow> u8 \<Rightarrow> SoftUART" where
  "rx_done u b =
     u\<lparr>m_rx_ready := False, m_rx_state := RxIDLE, m_rx_counter := 0, m_rx_shift := b,
       m_rx_bit_index := m_data_bits u, m_rx_byte := b, m_rx_frame_error := False,
       m_rx_last_pin := True\<rparr>"

lemma rx_stop:
  assumes "0 < m_clocks_per_baud u" "n > half u + 2" "int i = m_data_bits u"
  shows "rx_run (rx_mid u RxSTOP sh i p (half u + 1)) (replicate n True) =
           (rx_done u sh, [(sh, False)])"
proof -
  let ?v = "(rx_done u sh)\<lparr>m_rx_ready := True\<rparr>"
  note hb = half_bounds [OF assms(1)]
  have e: "replicate n True = replicate (Suc (half u + 1)) True @ replicate (Suc (n - half u - 3)) True"
    using assms(2) by (simp flip: replicate_Suc replicate_add)
  have "RxTick (rx_mid u RxSTOP sh i p 0) True = (?v, True)"
    using assms(3) by (simp add: RxTick_def rx_mid_def rx_done_def Let_def)
  then have 1: "rx_run (rx_mid u RxSTOP sh i p (half u + 1)) (replicate (Suc (half u + 1)) True) =
     (?v, [(sh, False)])"
    using rx_sample [of "rx_mid u RxSTOP sh i p (half u + 1)" "half u + 1" True] hb(2)
    by (simp add: rx_done_def del: of_nat_Suc)
  have 2: "rx_run ?v (replicate (Suc (n - half u - 3)) True) = (rx_done u sh, [])"
    using rx_idle_high [of ?v "n - half u - 3"] by (simp add: rx_done_def)
  show ?thesis using rx_run_compose [OF 1 2] by (simp only: e) simp
qed

lemma concat_replicate_replicate:
  "concat (replicate n (replicate m x)) = replicate (n * m) x"
  by (induction n) (simp_all add: replicate_add)

lemma stop_cells_replicate:
  "concat (replicate n (cell u True)) @ [True] =
   replicate (n * Suc (unat (m_clocks_per_baud u)) + 1) True"
  by (simp add: cell_def concat_replicate_replicate replicate_append_same del: replicate_Suc) simp

lemma rx_frame:
  assumes "uart_ok u" "m_rx_state u = RxIDLE" "m_rx_last_pin u"
  shows "rx_run u (frame u b) =
    (rx_done u (take_bit (nat (m_data_bits u)) b), [(take_bit (nat (m_data_bits u)) b, False)])"
proof -
  have c: "0 < m_clocks_per_baud u" using assms(1) by (simp add: uart_ok_def)
  define d where "d = nat (m_data_bits u) - 1"
  have d: "int d < m_data_bits u" "nat (m_data_bits u) = Suc d" "int (Suc d) = m_data_bits u"
    using assms(1) by (auto simp: uart_ok_def d_def)
  let ?n = "nat (m_stop_bits u) * Suc (unat (m_clocks_per_baud u)) + 1"
  have "1 \<le> nat (m_stop_bits u)" using assms(1) by (auto simp: uart_ok_def)
  then have "Suc (unat (m_clocks_per_baud u)) \<le> nat (m_stop_bits u) * Suc (unat (m_clocks_per_baud u))"
    using mult_le_mono1 [of 1 "nat (m_stop_bits u)" "Suc (unat (m_clocks_per_baud u))"] by simp
  then have n: "?n > half u + 2" using half_bounds(1) [OF c] by linarith
  obtain p where p: "rx_run (rx_mid u RxDATA 0 0 False (half u + 1))
      (concat (map (\<lambda>j. cell u (bit b j)) [0..<Suc d])) =
      (rx_mid u (rx_next u (Suc d)) (take_bit (Suc d) b) (Suc d) p (half u + 1), [])"
    using rx_data_cells [OF c d(1)] by auto
  note hd = rx_run_compose [OF rx_start_cell [OF c assms(2,3)] p]
  show ?thesis
  proof (cases "m_parity_en u")
    case True
    then have "rx_next u (Suc d) = RxPARITY" using d(3) by (simp add: rx_next_def)
    with rx_run_compose [OF hd [unfolded this] rx_run_compose [OF rx_parity_cell [OF c]
          rx_stop [OF c n d(3)]]] True d(2)
    show ?thesis by (simp only: frame_def stop_cells_replicate) (simp del: upt_Suc)
  next
    case False
    then have "rx_next u (Suc d) = RxSTOP" using d(3) by (simp add: rx_next_def)
    with rx_run_compose [OF hd [unfolded this] rx_stop [OF c n d(3)]] False d(2)
    show ?thesis by (simp only: frame_def stop_cells_replicate) (simp del: upt_Suc)
  qed
qed

section \<open>The link\<close>

lemma link_run_add:
  assumes "link_run m a b = (a1, b1, xs)" "link_run n a1 b1 = (a2, b2, ys)"
  shows "link_run (m + n) a b = (a2, b2, xs @ ys)"
  using assms
  by (simp add: link_run_split tx_run_add rx_run_append case_prod_beta)

lemma same_config_frame:
  assumes "same_config a b"
  shows "frame b x = frame a x" "uart_ok b \<longleftrightarrow> uart_ok a" "m_data_bits b = m_data_bits a"
  using assms by (simp_all add: same_config_def frame_def cell_def uart_ok_def)

text \<open>Both ends between two frames: nothing on the wire and q still to be sent.\<close>

definition link_idle :: "SoftUART \<Rightarrow> SoftUART \<Rightarrow> u8 list \<Rightarrow> bool" where
  "link_idle a b q \<longleftrightarrow> m_tx_state a = TxIDLE \<and> m_tx_queue a = q \<and>
     m_rx_state b = RxIDLE \<and> m_rx_last_pin b"

lemma link_frame:
  assumes "uart_ok a" "same_config a b" "link_idle a b (x # q)"
  shows "\<exists>a' b'. link_run (frame_len a) a b =
             (a', b', [(take_bit (nat (m_data_bits a)) x, False)]) \<and>
           link_idle a' b' q \<and> same_config a' b' \<and> same_config a a'"
proof -
  have t: "tx_run (frame_len a) a =
      (tx_mid a x q TxIDLE True (nat (m_data_bits a)) (m_stop_bits a), frame a x)"
    using assms by (intro tx_frame) (auto simp: link_idle_def)
  have r: "rx_run b (frame a x) = (rx_done b (take_bit (nat (m_data_bits a)) x),
       [(take_bit (nat (m_data_bits a)) x, False)])"
    using rx_frame [of b x] assms by (simp add: link_idle_def same_config_frame [OF assms(2)])
  have "link_run (frame_len a) a b =
      (tx_mid a x q TxIDLE True (nat (m_data_bits a)) (m_stop_bits a),
       rx_done b (take_bit (nat (m_data_bits a)) x), [(take_bit (nat (m_data_bits a)) x, False)])"
    by (simp add: link_run_split t r)
  with assms(2) show ?thesis
    by (auto simp: link_idle_def same_config_def tx_mid_def rx_done_def)
qed

lemma link_frames:
  assumes "uart_ok a" "same_config a b" "link_idle a b q"
  shows "\<exists>a' b'. link_run (length q * frame_len a) a b =
             (a', b', map (\<lambda>x. (take_bit (nat (m_data_bits a)) x, False)) q) \<and>
           link_idle a' b' [] \<and> same_config a' b' \<and> same_config a a'"
  using assms
proof (induction q arbitrary: a b)
  case Nil
  then show ?case by (auto simp: same_config_def)
next
  case (Cons x q)
  obtain a1 b1 where 1: "link_run (frame_len a) a b =
       (a1, b1, [(take_bit (nat (m_data_bits a)) x, False)])"
    "link_idle a1 b1 q" "same_config a1 b1" "same_config a a1"
    using link_frame [OF Cons.prems] by blast
  have "uart_ok a1" using Cons.prems(1) 1(4) same_config_frame(2) by blast
  then obtain a2 b2 where 2: "link_run (length q * frame_len a1) a1 b1 =
       (a2, b2, map (\<lambda>x. (take_bit (nat (m_data_bits a1)) x, False)) q)"
    "link_idle a2 b2 []" "same_config a2 b2" "same_config a1 a2"
    using Cons.IH [OF _ 1(3) 1(2)] by blast
  have e: "frame_len a1 = frame_len a" "m_data_bits a1 = m_data_bits a"
    using 1(4) by (simp_all add: same_config_def frame_len_def)
  have "same_config a a2" using 1(4) 2(4) by (simp add: same_config_def)
  with link_run_add [OF 1(1) 2(1)] 2 show ?case by (auto simp: e)
qed

section \<open>Configurations\<close>

text \<open>Every value of the setup register gives a configuration the state machines can use.\<close>

lemma ConfigureFromSetup_ok: "uart_ok (ConfigureFromSetup r u)"
proof -
  have "drop_bit 28 r AND 3 \<le> (3::u32)" by (rule word_and_le1)
  then have "uint (drop_bit 28 r AND 3 :: u32) \<le> 3" by (simp add: word_le_def)
  then show ?thesis
    by (simp add: uart_ok_def ConfigureFromSetup_def Configure_def Let_def word_gt_0
        del: uint_and)
qed

lemma TxEnqueue_simps [simp]:
  "m_tx_queue (TxEnqueue b u) = m_tx_queue u @ [b]"
  "m_tx_state (TxEnqueue b u) = m_tx_state u"
  by (simp_all add: TxEnqueue_def)

text \<open>Queueing several bytes, as the terminal does for a line.\<close>

definition TxEnqueueAll :: "u8 list \<Rightarrow> SoftUART \<Rightarrow> SoftUART" where
  "TxEnqueueAll bs u = fold TxEnqueue bs u"

lemma TxEnqueueAll_eq: "TxEnqueueAll bs u = u\<lparr>m_tx_queue := m_tx_queue u @ bs\<rparr>"
  by (induction bs arbitrary: u) (simp_all add: TxEnqueueAll_def TxEnqueue_def)

text \<open>The register layout of the comment in sim_serial.h, as an encoder.\<close>

definition setup_word :: "u32 \<Rightarrow> nat \<Rightarrow> bool \<Rightarrow> bool \<Rightarrow> bool \<Rightarrow> u32" where
  "setup_word cpb code two par_en par_even =
     cpb OR push_bit 24 (of_bool par_even) OR push_bit 26 (of_bool par_en) OR
     push_bit 27 (of_bool two) OR push_bit 28 (of_nat code)"

section \<open>Framing errors and false starts\<close>

lemma rx_stop_low:
  assumes "0 < m_clocks_per_baud u"
  shows "\<exists>v. rx_run (rx_mid u RxSTOP sh i p (half u + 1)) (replicate (half u + 2) False) =
           (v, [(sh, True)]) \<and> m_rx_state v = RxIDLE \<and> \<not> m_rx_last_pin v"
  using rx_sample [of "rx_mid u RxSTOP sh i p (half u + 1)" "half u + 1" False] half_bounds(2) [OF assms]
  by (simp add: RxTick_def rx_mid_def Let_def del: of_nat_Suc)

lemma rx_false_start:
  assumes "0 < m_clocks_per_baud u" "m_rx_state u = RxIDLE" "m_rx_last_pin u" "k \<le> half u"
  shows "\<exists>v. rx_run u (replicate (Suc k) False @ replicate (Suc (half u - k)) True) = (v, []) \<and>
             m_rx_state v = RxIDLE \<and> m_rx_last_pin v \<and> m_rx_byte v = m_rx_byte u"
proof -
  note hb = half_bounds [OF assms(1)]
  have 0: "rx_run u [False] = (rx_mid u RxSTART 0 0 False (half u), [])"
    using assms by (simp add: RxTick_def rx_mid_def half_word Let_def)
  have 1: "rx_run (rx_mid u RxSTART 0 0 False (half u)) (replicate k False) =
           (rx_mid u RxSTART 0 0 False (half u - k), [])"
    using rx_hold [of "rx_mid u RxSTART 0 0 False (half u)" k "half u - k" False] hb assms(4)
    by (simp del: of_nat_Suc of_nat_diff)
  have 2: "rx_run (rx_mid u RxSTART 0 0 False (half u - k)) (replicate (Suc (half u - k)) True) =
           (rx_mid u RxIDLE 0 0 True 0, [])"
    using rx_sample [of "rx_mid u RxSTART 0 0 False (half u - k)" "half u - k" True] hb(2)
    by (simp add: RxTick_def rx_mid_def Let_def)
  show ?thesis
    using rx_run_compose [OF 0 rx_run_compose [OF 1 2]] by (simp add: rx_mid_def)
qed

section \<open>Properties\<close>

text \<open>C1. Whatever value the serial setup register holds and whatever bytes are queued, a
  transmitter wired to a receiver configured from the same register delivers, within one frame
  time per byte, exactly the queued bytes in order (cut to the configured data bits), each
  without a framing error, and the transmitter is then idle with an empty queue.\<close>

theorem uart_loopback:
  "\<exists>a' b'. link_run (length bs * frame_len (ConfigureFromSetup r uart_init))
        (TxEnqueueAll bs (ConfigureFromSetup r uart_init)) (ConfigureFromSetup r uart_init) =
      (a', b', map (\<lambda>x. (take_bit (nat (m_data_bits (ConfigureFromSetup r uart_init))) x, False)) bs) \<and>
      \<not> TxBusy a' \<and> m_rx_state b' = RxIDLE"
proof -
  let ?u = "ConfigureFromSetup r uart_init"
  let ?a = "TxEnqueueAll bs ?u"
  have "uart_ok ?a" "same_config ?a ?u" "link_idle ?a ?u bs" "frame_len ?a = frame_len ?u"
    using ConfigureFromSetup_ok [of r uart_init]
    by (simp_all add: TxEnqueueAll_eq uart_ok_def same_config_def link_idle_def frame_len_def
        ConfigureFromSetup_def Configure_def uart_init_def Let_def)
  then show ?thesis
    using link_frames [of ?a ?u bs]
    by (fastforce simp: link_idle_def TxBusy_def same_config_def)
qed

text \<open>From idle with a byte queued, the transmitter drives exactly the asynchronous frame:
  a low start cell, the data bits with the least significant first, the parity cell when enabled,
  the stop cells and one idle tick, each cell one more clock long than the baud divisor; it
  is then idle again with the rest of the queue.\<close>

theorem uart_tx_frame:
  assumes "uart_ok u" "m_tx_state u = TxIDLE" "m_tx_queue u = b # q"
  shows "snd (tx_run (frame_len u) u) = frame u b \<and>
    m_tx_state (fst (tx_run (frame_len u) u)) = TxIDLE \<and>
    m_tx_queue (fst (tx_run (frame_len u) u)) = q \<and> m_tx_pin (fst (tx_run (frame_len u) u))"
  using tx_frame [OF assms] by (simp add: tx_mid_def)

theorem uart_tx_frame_witness:
  "snd (tx_run (frame_len (TxEnqueue 65 (Configure 2 7 2 True False uart_init)))
          (TxEnqueue 65 (Configure 2 7 2 True False uart_init))) =
   frame (Configure 2 7 2 True False uart_init) 65"
  using uart_tx_frame [of "TxEnqueue 65 (Configure 2 7 2 True False uart_init)" 65 "[]"]
  by (simp add: TxEnqueue_def Configure_def uart_init_def uart_ok_def frame_def cell_def)

text \<open>A low pulse shorter than the half-bit sampling delay is rejected as a false start: the
  receiver is idle again, reports no byte and keeps the last byte it received.\<close>

theorem uart_false_start:
  assumes "0 < m_clocks_per_baud u" "m_rx_state u = RxIDLE" "m_rx_last_pin u"
    "k \<le> unat (m_clocks_per_baud u) div 2"
  shows "snd (rx_run u (replicate (Suc k) False @
              replicate (Suc (unat (m_clocks_per_baud u) div 2 - k)) True)) = [] \<and>
         m_rx_state (fst (rx_run u (replicate (Suc k) False @
              replicate (Suc (unat (m_clocks_per_baud u) div 2 - k)) True))) = RxIDLE \<and>
         m_rx_byte (fst (rx_run u (replicate (Suc k) False @
              replicate (Suc (unat (m_clocks_per_baud u) div 2 - k)) True))) = m_rx_byte u"
  using rx_false_start [of u k] assms unfolding half_def by auto

theorem uart_false_start_witness:
  "snd (rx_run (Configure 9 8 1 False False uart_init)
     (replicate (Suc 2) False @ replicate (Suc (unat (9::u32) div 2 - 2)) True)) = []"
  using uart_false_start [of "Configure 9 8 1 False False uart_init" 2]
  by (simp add: Configure_def uart_init_def del: rx_run.simps replicate.simps)

text \<open>A frame whose stop cell is low is still delivered, with the byte that was sampled, and
  is flagged as a framing error; the receiver returns to idle and, because the line is still low,
  does not take it for the next start bit.\<close>

theorem uart_framing_error:
  assumes "uart_ok u" "m_rx_state u = RxIDLE" "m_rx_last_pin u" "\<not> m_parity_en u"
  shows "\<exists>v. rx_run u (cell u False @
                concat (map (\<lambda>i. cell u (bit b i)) [0..<nat (m_data_bits u)]) @
                replicate (unat (m_clocks_per_baud u) div 2 + 2) False) =
           (v, [(take_bit (nat (m_data_bits u)) b, True)]) \<and>
         m_rx_state v = RxIDLE \<and> (\<forall>n. snd (rx_run v (replicate n False)) = [])"
proof -
  have c: "0 < m_clocks_per_baud u" using assms(1) by (simp add: uart_ok_def)
  define d where "d = nat (m_data_bits u) - 1"
  have d: "int d < m_data_bits u" "nat (m_data_bits u) = Suc d" "int (Suc d) = m_data_bits u"
    using assms(1) by (auto simp: uart_ok_def d_def)
  have nx: "rx_next u (Suc d) = RxSTOP" using d(3) assms(4) by (simp add: rx_next_def)
  obtain p where p: "rx_run (rx_mid u RxDATA 0 0 False (half u + 1))
      (concat (map (\<lambda>j. cell u (bit b j)) [0..<Suc d])) =
      (rx_mid u RxSTOP (take_bit (Suc d) b) (Suc d) p (half u + 1), [])"
    using rx_data_cells [OF c d(1), of b] nx by auto
  obtain v where v: "rx_run (rx_mid u RxSTOP (take_bit (Suc d) b) (Suc d) p (half u + 1))
        (replicate (half u + 2) False) = (v, [(take_bit (Suc d) b, True)])"
      "m_rx_state v = RxIDLE" "\<not> m_rx_last_pin v"
    using rx_stop_low [OF c] by blast
  have low: "snd (rx_run w (replicate n False)) = []"
    if "m_rx_state w = RxIDLE" "\<not> m_rx_last_pin w" for n w
    using that
  proof (induction n arbitrary: w)
    case (Suc n)
    then have "RxTick w False = (w\<lparr>m_rx_ready := False, m_rx_last_pin := False\<rparr>, False)"
      by (simp add: RxTick_def Let_def)
    with Suc.IH [of "w\<lparr>m_rx_ready := False, m_rx_last_pin := False\<rparr>"] Suc.prems
    show ?case by (simp add: case_prod_beta)
  qed simp
  show ?thesis
    using rx_run_compose [OF rx_start_cell [OF c assms(2,3)] rx_run_compose [OF p v(1)]]
      v(2,3) low d(2) by (auto simp: half_def simp del: upt_Suc)
qed

theorem uart_framing_error_witness:
  "\<exists>v. rx_run (Configure 1 5 1 False False uart_init)
         (cell (Configure 1 5 1 False False uart_init) False @
          concat (map (\<lambda>i. cell (Configure 1 5 1 False False uart_init) (bit (19::u8) i)) [0..<5]) @
          replicate (unat (1::u32) div 2 + 2) False) = (v, [(take_bit 5 19, True)])"
  using uart_framing_error [of "Configure 1 5 1 False False uart_init" 19]
  by (auto simp: Configure_def uart_init_def uart_ok_def
      simp del: rx_run.simps replicate.simps upt.simps)

text \<open>The setup register is decoded as its documentation lays it out: a word built from a
  divisor below 2^24, a data-bit code and the three flags configures exactly those parameters,
  with a zero divisor replaced by one.\<close>

theorem uart_setup_roundtrip:
  assumes "cpb < 2 ^ 24" "code < 4"
  shows "ConfigureFromSetup (setup_word cpb code two par_en par_even) u =
    u\<lparr>m_clocks_per_baud := (if cpb = 0 then 1 else cpb), m_data_bits := 8 - int code,
      m_stop_bits := (if two then 2 else 1), m_parity_en := par_en, m_parity_even := par_even\<rparr>"
proof -
  let ?w = "setup_word cpb code two par_en par_even"
  have cpb: "cpb = take_bit 24 cpb" using take_bit_eq_self_word [of cpb 24] assms(1) by (simp add: word_less_nat_alt)
  have hi: "\<not> bit cpb n" if "24 \<le> n" for n
    by (subst cpb) (use that in \<open>simp add: bit_take_bit_iff\<close>)
  have f: "bit ?w 24 = par_even" "bit ?w 26 = par_en" "bit ?w 27 = two"
    by (simp_all add: setup_word_def bit_simps hi)
  have m: "(0xFFFFFF::u32) = mask 24" by (simp add: mask_eq_exp_minus_1)
  have lo: "?w AND 0xFFFFFF = cpb"
    unfolding m take_bit_eq_mask [symmetric]
    by (rule bit_word_eqI) (auto simp: setup_word_def bit_simps hi not_le [symmetric])
  have "drop_bit 28 ?w = of_nat code AND mask 4"
    by (rule bit_word_eqI) (auto simp: setup_word_def bit_simps hi)
  moreover have "code = 0 \<or> code = 1 \<or> code = 2 \<or> code = 3" using assms(2) by linarith
  ultimately have d: "uint (drop_bit 28 ?w AND 3) = int code" by (auto simp: mask_eq_exp_minus_1)
  show ?thesis
    by (simp add: ConfigureFromSetup_def Configure_def Let_def f lo d word_gt_0 del: uint_and)
qed

theorem uart_setup_roundtrip_witness:
  "m_data_bits (ConfigureFromSetup (setup_word 3385 1 True True False) uart_init) = 7"
  using uart_setup_roundtrip [of 3385 1 True True False uart_init] by simp

end
