(* ===== verification/SerialTerm.thy ===== *)
theory SerialTerm
  imports SoftUart
begin

text \<open>
  The serial terminal of verilator/sim/sim_serial.h and sim_serial.cpp: struct
  SimSerialTerminal around a SoftUART. Strings are char lists; the input buffer is the list of
  bytes before its terminating NUL. What ImGui's widgets report in one frame is an input record
  of Draw, what is shown is its output; the stderr messages are left out.
\<close>

section \<open>State\<close>

datatype line_ending = CR | LF | CRLF
datatype noise_mute = MuteOff | MuteAuto | MuteOn

record SimSerialTerminal =
  m_uart :: SoftUART
  m_lines :: "string list"
  m_current_line :: string
  m_auto_scroll :: bool
  m_scroll_to_bottom :: bool
  m_input_buf :: "u8 list"
  m_rx_byte_count :: u64
  m_tx_byte_count :: u64
  m_frame_error_count :: u32
  m_hex_mode :: bool
  m_last_was_cr :: bool
  m_line_ending :: line_ending
  m_scc_wr3 :: u8
  m_scc_wr4 :: u8
  m_scc_wr5 :: u8
  m_scc_wr9 :: u8
  m_scc_wr14 :: u8
  m_noise_mute :: noise_mute
  m_is_sync_mode :: bool
  m_null_run_count :: int
  m_suppressed_count :: u64
  m_suppressing :: bool

definition MAX_LINES :: nat where "MAX_LINES = 1000"
definition NULL_RUN_THRESHOLD :: int where "NULL_RUN_THRESHOLD = 8"

definition term_init :: SimSerialTerminal where
  "term_init = \<lparr> m_uart = uart_init, m_lines = [''[Serial terminal ready]''], m_current_line = [],
     m_auto_scroll = True, m_scroll_to_bottom = False, m_input_buf = [],
     m_rx_byte_count = 0, m_tx_byte_count = 0, m_frame_error_count = 0,
     m_hex_mode = False, m_last_was_cr = False, m_line_ending = CR,
     m_scc_wr3 = 0, m_scc_wr4 = 0, m_scc_wr5 = 0, m_scc_wr9 = 0, m_scc_wr14 = 0,
     m_noise_mute = MuteAuto, m_is_sync_mode = False,
     m_null_run_count = 0, m_suppressed_count = 0, m_suppressing = False \<rparr>"

section \<open>Operations\<close>

text \<open>The code's m_lines.push_back(m_current_line); m_current_line.clear().\<close>

definition push_line :: "SimSerialTerminal \<Rightarrow> SimSerialTerminal" where
  "push_line t = t\<lparr>m_lines := m_lines t @ [m_current_line t], m_current_line := []\<rparr>"

definition append_text :: "string \<Rightarrow> SimSerialTerminal \<Rightarrow> SimSerialTerminal" where
  "append_text s t = t\<lparr>m_current_line := m_current_line t @ s\<rparr>"

definition AddReceivedChar :: "u8 \<Rightarrow> SimSerialTerminal \<Rightarrow> SimSerialTerminal" where
  "AddReceivedChar c t =
    (let t1 =
      (if m_hex_mode t then
         (let h = append_text (hex2 c @ '' '') t
          in if length (m_current_line h) > 72 then push_line h else h)
       else if c = 0x0D then (push_line t)\<lparr>m_last_was_cr := True\<rparr>
       else if c = 0x0A then
         (if \<not> m_last_was_cr t then push_line t else t)\<lparr>m_last_was_cr := False\<rparr>
       else if c = 0x08 \<or> c = 0x7F then
         (if m_current_line t \<noteq> [] then t\<lparr>m_current_line := butlast (m_current_line t)\<rparr> else t)
           \<lparr>m_last_was_cr := False\<rparr>
       else if c \<ge> 0x20 \<and> c < 0x7F then (append_text [chr_u8 c] t)\<lparr>m_last_was_cr := False\<rparr>
       else (append_text (''<'' @ hex2 c @ ''>'') t)\<lparr>m_last_was_cr := False\<rparr>)
     in t1\<lparr>m_lines := trim_front MAX_LINES (m_lines t1), m_scroll_to_bottom := True\<rparr>)"

text \<open>The body of Tick for a completed byte: counting, then the noise filter.\<close>

definition handle_byte :: "u8 \<Rightarrow> bool \<Rightarrow> SimSerialTerminal \<Rightarrow> SimSerialTerminal" where
  "handle_byte byte ferr t0 =
    (let t = t0\<lparr>m_rx_byte_count := m_rx_byte_count t0 + 1,
                m_frame_error_count := m_frame_error_count t0 + (if ferr then 1 else 0)\<rparr>
     in case m_noise_mute t of
          MuteOn \<Rightarrow> t\<lparr>m_suppressed_count := m_suppressed_count t + 1\<rparr>
        | MuteAuto \<Rightarrow>
            (if byte = 0 then
               (let t1 = t\<lparr>m_null_run_count := m_null_run_count t + 1\<rparr>
                in if m_null_run_count t1 \<ge> NULL_RUN_THRESHOLD then
                     (let t2 = (if \<not> m_suppressing t1
                                then (push_line (append_text ''[muted: sync/null noise]''
                                        (t1\<lparr>m_suppressing := True\<rparr>)))\<lparr>m_scroll_to_bottom := True\<rparr>
                                else t1)
                      in t2\<lparr>m_suppressed_count := m_suppressed_count t2 + 1\<rparr>)
                   else AddReceivedChar byte t1)
             else
               (let t1 = (if m_suppressing t \<and> m_suppressed_count t > 0
                          then (push_line (append_text
                                 (''['' @ dec (unat (m_suppressed_count t)) @ '' bytes suppressed]'') t))
                                 \<lparr>m_scroll_to_bottom := True\<rparr>
                          else t)
                in AddReceivedChar byte
                     (t1\<lparr>m_null_run_count := 0, m_suppressed_count := 0, m_suppressing := False\<rparr>)))
        | MuteOff \<Rightarrow> AddReceivedChar byte t)"

definition Tick :: "SimSerialTerminal \<Rightarrow> bool \<Rightarrow> SimSerialTerminal \<times> bool" where
  "Tick t fpga_txd_pin =
    (case RxTick (m_uart t) fpga_txd_pin of (u1, ready) \<Rightarrow>
      (let t1 = t\<lparr>m_uart := u1\<rparr>;
           t2 = (if ready then handle_byte (m_rx_byte u1) (m_rx_frame_error u1) t1 else t1)
       in case TxTick (m_uart t2) of (u2, pin) \<Rightarrow> (t2\<lparr>m_uart := u2\<rparr>, pin)))"

definition UpdateConfig :: "u32 \<Rightarrow> SimSerialTerminal \<Rightarrow> SimSerialTerminal" where
  "UpdateConfig r t = t\<lparr>m_uart := ConfigureFromSetup r (m_uart t)\<rparr>"

definition UpdateConfigDirect ::
  "u32 \<Rightarrow> int \<Rightarrow> int \<Rightarrow> bool \<Rightarrow> bool \<Rightarrow> SimSerialTerminal \<Rightarrow> SimSerialTerminal" where
  "UpdateConfigDirect cpb db sb pe pv t = t\<lparr>m_uart := Configure cpb db sb pe pv (m_uart t)\<rparr>"

fun ending_bytes :: "line_ending \<Rightarrow> u8 list" where
  "ending_bytes CR = [0x0D]"
| "ending_bytes LF = [0x0A]"
| "ending_bytes CRLF = [0x0D, 0x0A]"

definition SendInput :: "SimSerialTerminal \<Rightarrow> SimSerialTerminal" where
  "SendInput t =
    (let send = (\<lambda>b s. s\<lparr>m_uart := TxEnqueue b (m_uart s), m_tx_byte_count := m_tx_byte_count s + 1\<rparr>);
         t1 = fold send (m_input_buf t) t;
         t2 = fold send (ending_bytes (m_line_ending t1)) t1
     in t2\<lparr>m_input_buf := []\<rparr>)"

definition UpdateSCCStatus ::
  "u8 \<Rightarrow> u8 \<Rightarrow> u8 \<Rightarrow> u8 \<Rightarrow> u8 \<Rightarrow> SimSerialTerminal \<Rightarrow> SimSerialTerminal" where
  "UpdateSCCStatus wr3 wr4 wr5 wr9 wr14 t =
     t\<lparr>m_scc_wr3 := wr3, m_scc_wr4 := wr4, m_scc_wr5 := wr5, m_scc_wr9 := wr9, m_scc_wr14 := wr14,
       m_is_sync_mode := (wr4 AND 0x0C = 0)\<rparr>"

text \<open>What the widgets of the window report in one frame.\<close>

record term_ui =
  ui_visible :: bool
  ui_clear :: bool
  ui_copy :: bool
  ui_hex :: bool
  ui_auto_scroll :: bool
  ui_mute :: "noise_mute option"
  ui_at_bottom :: bool
  ui_input :: "u8 list"
  ui_enter :: bool
  ui_ending :: "line_ending option"

record term_view =
  tv_ready :: bool
  tv_sync :: bool
  tv_flags :: "bool list"
  tv_baud :: u32
  tv_clipboard :: "string option"
  tv_text :: "string list"
  tv_scroll :: bool

definition scc_ready :: "SimSerialTerminal \<Rightarrow> bool" where
  "scc_ready t =
    (let rx_en = bit (m_scc_wr3 t) 0; tx_en = bit (m_scc_wr5 t) 3; brg_en = bit (m_scc_wr14 t) 0;
         has_traffic = (m_rx_byte_count t > 0 \<or> m_tx_byte_count t > 0)
     in (rx_en \<and> tx_en \<and> brg_en) \<or> (brg_en \<and> has_traffic) \<or> has_traffic)"

definition approx_baud :: "u32 \<Rightarrow> u32" where
  "approx_baud cpb = (if cpb > 0 then 32500000 div cpb else 0)"

definition Draw ::
  "term_ui \<Rightarrow> SimSerialTerminal \<Rightarrow> SimSerialTerminal \<times> term_view option" where
  "Draw ui t =
    (if \<not> ui_visible ui then (t, None) else
     let t1 = (if ui_clear ui
               then t\<lparr>m_lines := [], m_current_line := [], m_rx_byte_count := 0,
                      m_tx_byte_count := 0, m_frame_error_count := 0\<rparr>
               else t);
         clip = (if ui_copy ui
                 then Some (concat (map (\<lambda>l. l @ [chr_u8 0x0A]) (m_lines t1)) @ m_current_line t1)
                 else None);
         t2 = t1\<lparr>m_hex_mode := ui_hex ui, m_auto_scroll := ui_auto_scroll ui,
                 m_noise_mute := (case ui_mute ui of Some m \<Rightarrow> m | None \<Rightarrow> m_noise_mute t1)\<rparr>;
         shown = m_lines t2 @ (if m_current_line t2 \<noteq> [] then [m_current_line t2 @ ''_''] else []);
         scroll = (m_scroll_to_bottom t2 \<or> (m_auto_scroll t2 \<and> ui_at_bottom ui));
         t3 = t2\<lparr>m_scroll_to_bottom := False, m_input_buf := ui_input ui\<rparr>;
         t4 = (if ui_enter ui then SendInput t3 else t3);
         t5 = t4\<lparr>m_line_ending := (case ui_ending ui of Some e \<Rightarrow> e | None \<Rightarrow> m_line_ending t4)\<rparr>
     in (t5, Some \<lparr> tv_ready = scc_ready t, tv_sync = m_is_sync_mode t,
           tv_flags = [bit (m_scc_wr3 t) 0, bit (m_scc_wr5 t) 3, bit (m_scc_wr14 t) 0, bit (m_scc_wr9 t) 3],
           tv_baud = approx_baud (m_clocks_per_baud (m_uart t)),
           tv_clipboard = clip, tv_text = shown, tv_scroll = scroll \<rparr>))"

section \<open>The line store stays bounded\<close>

definition lines_ok :: "SimSerialTerminal \<Rightarrow> bool" where
  "lines_ok t \<longleftrightarrow> length (m_lines t) \<le> MAX_LINES + (if m_suppressing t then 1 else 0)"

lemma push_line_simps [simp]:
  "m_lines (push_line t) = m_lines t @ [m_current_line t]"
  "m_current_line (push_line t) = []"
  "m_suppressing (push_line t) = m_suppressing t"
  "m_hex_mode (push_line t) = m_hex_mode t"
  "m_last_was_cr (push_line t) = m_last_was_cr t"
  "m_noise_mute (push_line t) = m_noise_mute t"
  "m_suppressed_count (push_line t) = m_suppressed_count t"
  "m_null_run_count (push_line t) = m_null_run_count t"
  "m_rx_byte_count (push_line t) = m_rx_byte_count t"
  "m_frame_error_count (push_line t) = m_frame_error_count t"
  "m_uart (push_line t) = m_uart t"
  by (simp_all add: push_line_def)

lemma append_text_simps [simp]:
  "m_lines (append_text s t) = m_lines t"
  "m_current_line (append_text s t) = m_current_line t @ s"
  "m_suppressing (append_text s t) = m_suppressing t"
  "m_hex_mode (append_text s t) = m_hex_mode t"
  "m_last_was_cr (append_text s t) = m_last_was_cr t"
  "m_noise_mute (append_text s t) = m_noise_mute t"
  "m_suppressed_count (append_text s t) = m_suppressed_count t"
  "m_null_run_count (append_text s t) = m_null_run_count t"
  "m_rx_byte_count (append_text s t) = m_rx_byte_count t"
  "m_frame_error_count (append_text s t) = m_frame_error_count t"
  "m_uart (append_text s t) = m_uart t"
  by (simp_all add: append_text_def)

lemma AddReceivedChar_keeps [simp]:
  "m_suppressing (AddReceivedChar c t) = m_suppressing t"
  "m_hex_mode (AddReceivedChar c t) = m_hex_mode t"
  "m_noise_mute (AddReceivedChar c t) = m_noise_mute t"
  "m_suppressed_count (AddReceivedChar c t) = m_suppressed_count t"
  "m_null_run_count (AddReceivedChar c t) = m_null_run_count t"
  "m_rx_byte_count (AddReceivedChar c t) = m_rx_byte_count t"
  "m_frame_error_count (AddReceivedChar c t) = m_frame_error_count t"
  "m_uart (AddReceivedChar c t) = m_uart t"
  by (simp_all add: AddReceivedChar_def Let_def)

lemma AddReceivedChar_bounded: "length (m_lines (AddReceivedChar c t)) \<le> MAX_LINES"
  by (simp add: AddReceivedChar_def Let_def)

lemma AddReceivedChar_lines_ok [intro, simp]: "lines_ok (AddReceivedChar c t)"
  using AddReceivedChar_bounded [of c t] by (simp add: lines_ok_def)

lemma handle_byte_lines_ok:
  assumes "lines_ok t"
  shows "lines_ok (handle_byte b f t)"
proof (cases "m_noise_mute t")
  case MuteOff
  then show ?thesis by (simp add: handle_byte_def Let_def)
next
  case MuteAuto
  then show ?thesis using assms
    by (auto simp: handle_byte_def Let_def) (auto simp: lines_ok_def)
next
  case MuteOn
  then show ?thesis using assms by (simp add: handle_byte_def Let_def lines_ok_def)
qed

lemma lines_ok_uart [simp]: "lines_ok (t\<lparr>m_uart := u\<rparr>) = lines_ok t"
  by (simp add: lines_ok_def)

lemma Tick_lines_ok: "lines_ok t \<Longrightarrow> lines_ok (fst (Tick t p))"
  by (auto simp: Tick_def Let_def handle_byte_lines_ok split: prod.splits)

interpretation term_clk: clocked Tick lines_ok "\<lambda>_. True" "\<lambda>_ _. True"
  by unfold_locales (simp_all add: Tick_lines_ok)

section \<open>Transmitter and receiver do not disturb each other\<close>

text \<open>Two transceivers agree on everything the receiver (the transmitter) reads.\<close>

definition rx_eq :: "SoftUART \<Rightarrow> SoftUART \<Rightarrow> bool" where
  "rx_eq u v \<longleftrightarrow> same_config u v \<and> m_rx_state u = m_rx_state v \<and> m_rx_counter u = m_rx_counter v \<and>
     m_rx_bit_index u = m_rx_bit_index v \<and> m_rx_shift u = m_rx_shift v \<and> m_rx_byte u = m_rx_byte v \<and>
     m_rx_frame_error u = m_rx_frame_error v \<and> m_rx_last_pin u = m_rx_last_pin v"

definition tx_eq :: "SoftUART \<Rightarrow> SoftUART \<Rightarrow> bool" where
  "tx_eq u v \<longleftrightarrow> same_config u v \<and> m_tx_state u = m_tx_state v \<and> m_tx_counter u = m_tx_counter v \<and>
     m_tx_bit_index u = m_tx_bit_index v \<and> m_tx_shift u = m_tx_shift v \<and> m_tx_pin u = m_tx_pin v \<and>
     m_tx_stop_count u = m_tx_stop_count v \<and> m_tx_queue u = m_tx_queue v"

lemma rx_eq_RxTick:
  assumes "rx_eq u v"
  shows "rx_eq (fst (RxTick u p)) (fst (RxTick v p))" "snd (RxTick u p) = snd (RxTick v p)"
  using assms by (cases "m_rx_state v"; auto simp: rx_eq_def same_config_def RxTick_def Let_def)+

lemma tx_eq_TxTick:
  assumes "tx_eq u v"
  shows "tx_eq (fst (TxTick u)) (fst (TxTick v))" "snd (TxTick u) = snd (TxTick v)"
  using assms
  by (cases "m_tx_state v"; auto simp: tx_eq_def same_config_def TxTick_def Let_def split: list.splits)+

lemma rx_eq_of_TxTick: "rx_eq (fst (TxTick u)) v = rx_eq u v"
  by (cases "m_tx_state u") (auto simp: rx_eq_def same_config_def TxTick_def Let_def split: list.splits)

lemma tx_eq_of_RxTick: "tx_eq (fst (RxTick u p)) v = tx_eq u v"
  by (cases "m_rx_state u") (auto simp: tx_eq_def same_config_def RxTick_def Let_def)

lemma rx_eq_refl [simp]: "rx_eq u u" and tx_eq_refl [simp]: "tx_eq u u"
  by (simp_all add: rx_eq_def tx_eq_def same_config_def)

section \<open>Two terminals wired to each other\<close>

lemma handle_byte_uart [simp]:
  "m_uart (handle_byte b f t) = m_uart t"
  by (cases "m_noise_mute t") (simp_all add: handle_byte_def Let_def)

lemma push_line_uart: "push_line (t\<lparr>m_uart := u\<rparr>) = (push_line t)\<lparr>m_uart := u\<rparr>"
  by (simp add: push_line_def)

lemma append_text_uart: "append_text x (t\<lparr>m_uart := u\<rparr>) = (append_text x t)\<lparr>m_uart := u\<rparr>"
  by (simp add: append_text_def)

lemma AddReceivedChar_uart:
  "AddReceivedChar c (t\<lparr>m_uart := u\<rparr>) = (AddReceivedChar c t)\<lparr>m_uart := u\<rparr>"
  by (simp add: AddReceivedChar_def Let_def push_line_uart append_text_uart)

lemma handle_byte_uart_update:
  "handle_byte b f (t\<lparr>m_uart := u\<rparr>) = (handle_byte b f t)\<lparr>m_uart := u\<rparr>"
proof -
  have m: "t\<lparr>m_uart := u, m_rx_byte_count := x, m_frame_error_count := y\<rparr> =
           t\<lparr>m_rx_byte_count := x, m_frame_error_count := y\<rparr>\<lparr>m_uart := u\<rparr>" for x y
    by simp
  have k: "s\<lparr>m_uart := u, m_suppressed_count := x\<rparr> = s\<lparr>m_suppressed_count := x\<rparr>\<lparr>m_uart := u\<rparr>"
    "s\<lparr>m_uart := u, m_null_run_count := n\<rparr> = s\<lparr>m_null_run_count := n\<rparr>\<lparr>m_uart := u\<rparr>"
    "s\<lparr>m_uart := u, m_suppressing := c\<rparr> = s\<lparr>m_suppressing := c\<rparr>\<lparr>m_uart := u\<rparr>"
    "s\<lparr>m_uart := u, m_scroll_to_bottom := d\<rparr> = s\<lparr>m_scroll_to_bottom := d\<rparr>\<lparr>m_uart := u\<rparr>"
    "s\<lparr>m_uart := u, m_null_run_count := n, m_suppressed_count := x, m_suppressing := c\<rparr> =
     s\<lparr>m_null_run_count := n, m_suppressed_count := x, m_suppressing := c\<rparr>\<lparr>m_uart := u\<rparr>"
    for s :: SimSerialTerminal and n x c d by simp_all
  show ?thesis
    by (cases "m_noise_mute t")
      (simp_all add: handle_byte_def Let_def m k push_line_uart append_text_uart AddReceivedChar_uart)
qed

text \<open>Both terminals ticked on the same clock, each receiving the other's pin.\<close>

fun term_link :: "nat \<Rightarrow> SimSerialTerminal \<Rightarrow> SimSerialTerminal \<Rightarrow> bool \<Rightarrow>
    SimSerialTerminal \<times> SimSerialTerminal \<times> bool" where
  "term_link 0 s t p = (s, t, p)"
| "term_link (Suc n) s t p =
     (case Tick s p of (s1, q) \<Rightarrow> (case Tick t q of (t1, p1) \<Rightarrow> term_link n s1 t1 p1))"

definition handle_all :: "(u8 \<times> bool) list \<Rightarrow> SimSerialTerminal \<Rightarrow> SimSerialTerminal" where
  "handle_all xs t = fold (\<lambda>(b, f). handle_byte b f) xs t"

lemma handle_all_uart_update:
  "handle_all xs (t\<lparr>m_uart := u\<rparr>) = (handle_all xs t)\<lparr>m_uart := u\<rparr>"
  by (induction xs arbitrary: t) (auto simp: handle_all_def handle_byte_uart_update)

lemma Tick_tx:
  assumes "tx_eq (m_uart s) a"
  shows "tx_eq (m_uart (fst (Tick s p))) (fst (TxTick a))" "snd (Tick s p) = snd (TxTick a)"
proof -
  have e: "m_uart (fst (Tick s p)) = fst (TxTick (fst (RxTick (m_uart s) p)))"
    "snd (Tick s p) = snd (TxTick (fst (RxTick (m_uart s) p)))"
    by (simp_all add: Tick_def Let_def split: prod.split)
  have "tx_eq (fst (RxTick (m_uart s) p)) a" using assms by (simp add: tx_eq_of_RxTick)
  from tx_eq_TxTick [OF this] show "tx_eq (m_uart (fst (Tick s p))) (fst (TxTick a))"
    "snd (Tick s p) = snd (TxTick a)" by (simp_all add: e)
qed

lemma Tick_rx:
  assumes "rx_eq (m_uart t) b" "RxTick b p = (b1, r)"
  shows "rx_eq (m_uart (fst (Tick t p))) b1"
    "fst (Tick t p) = (if r then handle_byte (m_rx_byte b1) (m_rx_frame_error b1) t else t)
                        \<lparr>m_uart := m_uart (fst (Tick t p))\<rparr>"
proof -
  let ?u1 = "fst (RxTick (m_uart t) p)"
  have r: "rx_eq ?u1 b1" "snd (RxTick (m_uart t) p) = r"
    using rx_eq_RxTick [OF assms(1), of p] assms(2) by simp_all
  have e: "m_uart (fst (Tick t p)) = fst (TxTick ?u1)"
    by (simp add: Tick_def Let_def split: prod.split)
  show "rx_eq (m_uart (fst (Tick t p))) b1" using r(1) by (simp add: e rx_eq_of_TxTick)
  have "m_rx_byte ?u1 = m_rx_byte b1" "m_rx_frame_error ?u1 = m_rx_frame_error b1"
    using r(1) by (simp_all add: rx_eq_def)
  then show "fst (Tick t p) = (if r then handle_byte (m_rx_byte b1) (m_rx_frame_error b1) t else t)
                        \<lparr>m_uart := m_uart (fst (Tick t p))\<rparr>"
    using r(2) unfolding e by (auto simp: Tick_def Let_def handle_byte_uart_update split: prod.split)
qed

lemma term_link_bytes:
  assumes "tx_eq (m_uart s) a" "rx_eq (m_uart t) b" "link_run n a b = (a', b', xs)"
    "term_link n s t p = (s', t', p')"
  shows "t' = (handle_all xs t)\<lparr>m_uart := m_uart t'\<rparr>"
  using assms
proof (induction n arbitrary: s t p a b xs)
  case 0
  then show ?case by (auto simp: handle_all_def)
next
  case (Suc n)
  let ?a1 = "fst (TxTick a)" and ?q = "snd (TxTick a)"
  obtain b1 r where b1: "RxTick b ?q = (b1, r)" by fastforce
  let ?s1 = "fst (Tick s p)" and ?t1 = "fst (Tick t ?q)"
  obtain a2 b2 ys where l: "link_run n ?a1 b1 = (a2, b2, ys)"
    by (cases "link_run n ?a1 b1")
  have ys: "link_run n ?a1 b1 = (a', b', ys)"
    "xs = (if r then (m_rx_byte b1, m_rx_frame_error b1) # ys else ys)"
    using Suc.prems(3) b1 l by (cases "TxTick a"; auto)+
  have tl: "term_link n ?s1 ?t1 (snd (Tick t ?q)) = (s', t', p')"
    using Suc.prems(4) Tick_tx(2) [OF Suc.prems(1), of p] by (simp add: case_prod_beta)
  have t1: "?t1 = (if r then handle_byte (m_rx_byte b1) (m_rx_frame_error b1) t else t)
                    \<lparr>m_uart := m_uart ?t1\<rparr>"
    by (rule Tick_rx(2) [OF Suc.prems(2) b1])
  have "t' = (handle_all ys ?t1)\<lparr>m_uart := m_uart t'\<rparr>"
    by (rule Suc.IH [OF Tick_tx(1) [OF Suc.prems(1)] Tick_rx(1) [OF Suc.prems(2) b1] ys(1) tl])
  also have "handle_all ys ?t1 = (handle_all xs t)\<lparr>m_uart := m_uart ?t1\<rparr>"
    by (subst t1) (simp add: handle_all_uart_update ys(2), simp add: handle_all_def)
  finally show ?case by simp
qed

section \<open>What a received line looks like\<close>

definition printable :: "u8 \<Rightarrow> bool" where
  "printable c \<longleftrightarrow> c \<ge> 0x20 \<and> c < 0x7F"

text \<open>A terminal that shows what it receives: text mode, nothing being suppressed.\<close>

definition showing :: "SimSerialTerminal \<Rightarrow> bool" where
  "showing t \<longleftrightarrow> \<not> m_hex_mode t \<and> m_noise_mute t \<noteq> MuteOn \<and> \<not> m_suppressing t \<and>
     length (m_lines t) \<le> MAX_LINES"

definition disp :: "SimSerialTerminal \<Rightarrow> string list \<times> string \<times> bool" where
  "disp t = (m_lines t, m_current_line t, m_last_was_cr t)"

lemma AddReceivedChar_display:
  assumes "m_hex_mode s = m_hex_mode t" "disp s = disp t"
  shows "disp (AddReceivedChar c s) = disp (AddReceivedChar c t)"
  using assms by (auto simp: AddReceivedChar_def Let_def disp_def)

lemma handle_byte_shown:
  assumes "showing t" "b \<noteq> 0"
  shows "m_lines (handle_byte b f t) = m_lines (AddReceivedChar b t)"
    "m_current_line (handle_byte b f t) = m_current_line (AddReceivedChar b t)"
    "m_last_was_cr (handle_byte b f t) = m_last_was_cr (AddReceivedChar b t)"
    "showing (handle_byte b f t)"
proof -
  have n: "m_noise_mute t = MuteAuto \<or> m_noise_mute t = MuteOff" "\<not> m_suppressing t" "\<not> m_hex_mode t"
    using assms(1) by (cases "m_noise_mute t"; simp add: showing_def)+
  have "disp (handle_byte b f t) = disp (AddReceivedChar b t)"
    using n(1) by (auto simp: handle_byte_def Let_def n(2) assms(2) intro!: AddReceivedChar_display)
      (simp_all add: disp_def)
  then show "m_lines (handle_byte b f t) = m_lines (AddReceivedChar b t)"
    "m_current_line (handle_byte b f t) = m_current_line (AddReceivedChar b t)"
    "m_last_was_cr (handle_byte b f t) = m_last_was_cr (AddReceivedChar b t)"
    by (simp_all add: disp_def)
  show "showing (handle_byte b f t)"
    using n assms(2) AddReceivedChar_bounded
    by (auto simp: showing_def handle_byte_def Let_def)
qed

lemma printable_not_ctrl:
  "printable c \<Longrightarrow> c \<noteq> 0 \<and> c \<noteq> 0x0D \<and> c \<noteq> 0x0A \<and> c \<noteq> 0x08 \<and> c \<noteq> 0x7F"
  by (auto simp: printable_def)

lemma handle_printable:
  assumes "showing t" "printable c"
  shows "m_lines (handle_byte c f t) = m_lines t"
    "m_current_line (handle_byte c f t) = m_current_line t @ [chr_u8 c]"
    "\<not> m_last_was_cr (handle_byte c f t)" "showing (handle_byte c f t)"
proof -
  note nc = printable_not_ctrl [OF assms(2)]
  have "\<not> m_hex_mode t" "length (m_lines t) \<le> MAX_LINES" using assms(1) by (simp_all add: showing_def)
  then have "m_lines (AddReceivedChar c t) = m_lines t"
    "m_current_line (AddReceivedChar c t) = m_current_line t @ [chr_u8 c]"
    "\<not> m_last_was_cr (AddReceivedChar c t)"
    using nc assms(2) by (simp_all add: AddReceivedChar_def Let_def printable_def)
  then show "m_lines (handle_byte c f t) = m_lines t"
    "m_current_line (handle_byte c f t) = m_current_line t @ [chr_u8 c]"
    "\<not> m_last_was_cr (handle_byte c f t)" "showing (handle_byte c f t)"
    using handle_byte_shown [OF assms(1), of c f] nc by simp_all
qed

lemma handle_text:
  "showing t \<Longrightarrow> \<forall>c\<in>set cs. printable c \<Longrightarrow>
   m_lines (handle_all (map (\<lambda>c. (c, False)) cs) t) = m_lines t \<and>
   m_current_line (handle_all (map (\<lambda>c. (c, False)) cs) t) = m_current_line t @ map chr_u8 cs \<and>
   m_last_was_cr (handle_all (map (\<lambda>c. (c, False)) cs) t) = (cs = [] \<and> m_last_was_cr t) \<and>
   showing (handle_all (map (\<lambda>c. (c, False)) cs) t)"
proof (induction cs arbitrary: t)
  case (Cons c cs)
  from Cons.prems have "printable c" by simp
  note h = handle_printable [OF Cons.prems(1) this, of False]
  show ?case using Cons.IH [OF h(4)] Cons.prems(2) h by (simp add: handle_all_def)
qed (simp add: handle_all_def)

lemma handle_ending:
  assumes "showing t" "e = LF \<longrightarrow> \<not> m_last_was_cr t"
  shows "m_lines (handle_all (map (\<lambda>c. (c, False)) (ending_bytes e)) t) =
           trim_front MAX_LINES (m_lines t @ [m_current_line t]) \<and>
         m_current_line (handle_all (map (\<lambda>c. (c, False)) (ending_bytes e)) t) = []"
proof -
  have h: "\<not> m_hex_mode t" using assms(1) by (simp add: showing_def)
  note cr = handle_byte_shown [OF assms(1), of "0x0D" False]
  note lf = handle_byte_shown [OF assms(1), of "0x0A" False]
  note crlf = handle_byte_shown [OF cr(4), of "0x0A" False]
  have cr': "m_lines (handle_byte 0x0D False t) = trim_front MAX_LINES (m_lines t @ [m_current_line t])"
    "m_current_line (handle_byte 0x0D False t) = []" "m_last_was_cr (handle_byte 0x0D False t)"
    using cr h by (simp_all add: AddReceivedChar_def Let_def)
  have "\<not> m_hex_mode (handle_byte 0x0D False t)" using cr(4) by (simp add: showing_def)
  then show ?thesis
    using assms(2) h cr' lf crlf
    by (cases e) (simp_all add: handle_all_def AddReceivedChar_def Let_def)
qed

lemma SendInput_queue:
  "m_uart (SendInput t) = TxEnqueueAll (m_input_buf t @ ending_bytes (m_line_ending t)) (m_uart t)"
  "m_input_buf (SendInput t) = []"
  "m_tx_byte_count (SendInput t) =
     m_tx_byte_count t + of_nat (length (m_input_buf t @ ending_bytes (m_line_ending t)))"
proof -
  let ?send = "\<lambda>b s. s\<lparr>m_uart := TxEnqueue b (m_uart s), m_tx_byte_count := m_tx_byte_count s + 1\<rparr>"
  have f: "fold ?send bs s =
      s\<lparr>m_uart := TxEnqueueAll bs (m_uart s), m_tx_byte_count := m_tx_byte_count s + of_nat (length bs)\<rparr>"
    for bs and s :: SimSerialTerminal
    by (induction bs arbitrary: s) (simp_all add: TxEnqueueAll_eq TxEnqueue_def algebra_simps)
  show "m_uart (SendInput t) = TxEnqueueAll (m_input_buf t @ ending_bytes (m_line_ending t)) (m_uart t)"
    "m_input_buf (SendInput t) = []"
    "m_tx_byte_count (SendInput t) =
     m_tx_byte_count t + of_nat (length (m_input_buf t @ ending_bytes (m_line_ending t)))"
    by (simp_all add: SendInput_def Let_def f TxEnqueueAll_eq)
qed

section \<open>Runs of null bytes\<close>

definition nulls :: "nat \<Rightarrow> SimSerialTerminal \<Rightarrow> SimSerialTerminal" where
  "nulls n t = handle_all (replicate n (0, False)) t"

lemma nulls_Suc: "nulls (Suc n) t = handle_byte 0 False (nulls n t)"
proof -
  have "replicate (Suc n) (0::u8, False) = replicate n (0, False) @ [(0, False)]"
    by (simp add: replicate_append_same)
  then show ?thesis unfolding nulls_def handle_all_def by (simp only: fold_append) simp
qed

definition null_text :: "nat \<Rightarrow> string" where
  "null_text n = concat (replicate n ''<00>'')"

lemma null_text_Suc: "null_text (Suc n) = null_text n @ ''<00>''"
  by (induction n) (simp_all add: null_text_def)

text \<open>A terminal in automatic mode at the start of a line, before any noise.\<close>

definition quiet :: "SimSerialTerminal \<Rightarrow> bool" where
  "quiet t \<longleftrightarrow> m_noise_mute t = MuteAuto \<and> \<not> m_hex_mode t \<and> \<not> m_suppressing t \<and>
     m_null_run_count t = 0 \<and> m_suppressed_count t = 0 \<and> m_current_line t = [] \<and>
     length (m_lines t) \<le> MAX_LINES"

lemma nulls_shown:
  assumes "quiet t" "n \<le> 7"
  shows "m_noise_mute (nulls n t) = MuteAuto \<and> \<not> m_hex_mode (nulls n t) \<and>
    \<not> m_suppressing (nulls n t) \<and> m_null_run_count (nulls n t) = int n \<and>
    m_suppressed_count (nulls n t) = 0 \<and> m_current_line (nulls n t) = null_text n \<and>
    m_lines (nulls n t) = m_lines t"
  using assms(2)
proof (induction n)
  case 0
  then show ?case using assms(1) by (simp add: nulls_def handle_all_def quiet_def null_text_def)
next
  case (Suc n)
  have l: "length (m_lines t) \<le> MAX_LINES" using assms(1) by (simp add: quiet_def)
  have h: "hex2 0 = ''00''" by (simp add: hex2_def hexd_def)
  from Suc have IH: "m_noise_mute (nulls n t) = MuteAuto" "\<not> m_hex_mode (nulls n t)"
    "\<not> m_suppressing (nulls n t)" "m_null_run_count (nulls n t) = int n"
    "m_suppressed_count (nulls n t) = 0" "m_current_line (nulls n t) = null_text n"
    "m_lines (nulls n t) = m_lines t" by simp_all
  have "int n + 1 < NULL_RUN_THRESHOLD" using Suc.prems by (simp add: NULL_RUN_THRESHOLD_def)
  then have e: "nulls (Suc n) t = AddReceivedChar 0 ((nulls n t)
      \<lparr>m_rx_byte_count := m_rx_byte_count (nulls n t) + 1,
       m_frame_error_count := m_frame_error_count (nulls n t) + 0,
       m_null_run_count := int n + 1\<rparr>)"
    by (simp add: nulls_Suc handle_byte_def Let_def IH)
  show ?case unfolding e using l
    by (simp add: IH) (simp add: AddReceivedChar_def Let_def IH h null_text_Suc)
qed

lemma nulls_muted:
  assumes "quiet t"
  shows "m_noise_mute (nulls (8 + n) t) = MuteAuto \<and> \<not> m_hex_mode (nulls (8 + n) t) \<and>
    m_suppressing (nulls (8 + n) t) \<and> m_null_run_count (nulls (8 + n) t) = int (8 + n) \<and>
    m_suppressed_count (nulls (8 + n) t) = of_nat (n + 1) \<and> m_current_line (nulls (8 + n) t) = [] \<and>
    m_lines (nulls (8 + n) t) = m_lines t @ [null_text 7 @ ''[muted: sync/null noise]'']"
proof (induction n)
  case 0
  have e: "nulls 8 t = handle_byte 0 False (nulls 7 t)" using nulls_Suc [of 7 t] by simp
  from nulls_shown [OF assms, of 7] show ?case
    by (simp add: e handle_byte_def Let_def NULL_RUN_THRESHOLD_def)
next
  case (Suc n)
  have e: "nulls (8 + Suc n) t = handle_byte 0 False (nulls (8 + n) t)"
    using nulls_Suc [of "8 + n" t] by simp
  from Suc show ?case
    by (simp only: e) (simp add: handle_byte_def Let_def NULL_RUN_THRESHOLD_def)
qed

section \<open>Properties\<close>

text \<open>C11. What is typed on one terminal appears as one line on the other. With two idle terminals
  of the same serial configuration of at least seven data bits, wired both ways and ticked on the
  same clock, pressing enter on a line of printable characters with any line ending makes the
  other terminal show exactly that text as a new line, with an empty current line, once the
  frames have passed.\<close>

theorem term_typed_line:
  assumes "uart_ok (m_uart s)" "same_config (m_uart s) (m_uart t)" "7 \<le> m_data_bits (m_uart s)"
    "link_idle (m_uart s) (m_uart t) []" "showing t" "m_current_line t = []" "\<not> m_last_was_cr t"
    "\<forall>c\<in>set (m_input_buf s). printable c"
    "term_link (length (m_input_buf s @ ending_bytes (m_line_ending s)) * frame_len (m_uart s))
       (SendInput s) t p = (s', t', p')"
  shows "m_lines t' = trim_front MAX_LINES (m_lines t @ [map chr_u8 (m_input_buf s)]) \<and>
         m_current_line t' = []"
proof -
  let ?cs = "m_input_buf s" and ?e = "ending_bytes (m_line_ending s)"
  let ?a = "m_uart (SendInput s)" and ?b = "m_uart t"
  let ?f = "map (\<lambda>c. (c, False))"
  have a: "uart_ok ?a" "same_config ?a ?b" "link_idle ?a ?b (?cs @ ?e)"
    "frame_len ?a = frame_len (m_uart s)" "m_data_bits ?a = m_data_bits (m_uart s)"
    using assms(1,2,4)
    by (simp_all add: SendInput_queue TxEnqueueAll_eq uart_ok_def same_config_def link_idle_def
        frame_len_def)
  have asc: "take_bit (nat (m_data_bits (m_uart s))) c = c" if "c \<in> set (?cs @ ?e)" for c
  proof (rule take_bit_eq_self_word)
    have "unat c < 128"
    proof (cases "c \<in> set ?cs")
      case True
      with assms(8) show ?thesis by (auto simp: printable_def word_less_nat_alt)
    next
      case False
      with that show ?thesis by (cases "m_line_ending s") auto
    qed
    also have "(128::nat) \<le> 2 ^ nat (m_data_bits (m_uart s))"
      using assms(3) power_increasing [of 7 "nat (m_data_bits (m_uart s))" "2::nat"] by simp
    finally show "unat c < 2 ^ nat (m_data_bits (m_uart s))" .
  qed
  have "map (\<lambda>x. (take_bit (nat (m_data_bits ?a)) x, False)) (?cs @ ?e) = ?f (?cs @ ?e)"
    using asc by (simp only: a(5)) (rule map_cong, simp_all)
  then obtain a' b' where lk: "link_run (length (?cs @ ?e) * frame_len (m_uart s)) ?a ?b =
      (a', b', ?f (?cs @ ?e))"
    using link_frames [OF a(1-3)] a(4) by auto
  have t': "t' = (handle_all (?f (?cs @ ?e)) t)\<lparr>m_uart := m_uart t'\<rparr>"
    by (rule term_link_bytes [OF tx_eq_refl rx_eq_refl lk assms(9)])
  have sp: "handle_all (?f (?cs @ ?e)) t = handle_all (?f ?e) (handle_all (?f ?cs) t)"
    by (simp add: handle_all_def)
  note h = handle_text [OF assms(5,8)]
  have "m_lines (handle_all (?f (?cs @ ?e)) t) = trim_front MAX_LINES (m_lines t @ [map chr_u8 ?cs]) \<and>
        m_current_line (handle_all (?f (?cs @ ?e)) t) = []"
    unfolding sp
    using handle_ending [of "handle_all (?f ?cs) t" "m_line_ending s"] h assms(6,7) by simp
  then show ?thesis by (subst t', subst (2) t') simp
qed

theorem term_typed_line_witness:
  "\<exists>s' t' p'. term_link (3 * frame_len uart_init) (SendInput (term_init\<lparr>m_input_buf := [0x48, 0x69]\<rparr>))
       term_init True = (s', t', p') \<and>
     m_lines t' = [''[Serial terminal ready]'', ''Hi'']"
proof -
  obtain s' t' p' where l: "term_link (3 * frame_len uart_init)
      (SendInput (term_init\<lparr>m_input_buf := [0x48, 0x69]\<rparr>)) term_init True = (s', t', p')"
    by (cases "term_link (3 * frame_len uart_init)
      (SendInput (term_init\<lparr>m_input_buf := [0x48, 0x69]\<rparr>)) term_init True")
  let ?s = "term_init\<lparr>m_input_buf := [0x48, 0x69]\<rparr>"
  have u: "m_uart ?s = uart_init" "m_uart term_init = uart_init"
    "length (m_input_buf ?s @ ending_bytes (m_line_ending ?s)) = 3"
    by (simp_all add: term_init_def)
  have "m_lines t' = trim_front MAX_LINES (m_lines term_init @ [map chr_u8 (m_input_buf ?s)])"
    by (rule term_typed_line [THEN conjunct1, of ?s term_init True s' t' p'], unfold u)
      (simp_all add: l, simp_all add: term_init_def uart_init_def uart_ok_def same_config_def
        link_idle_def showing_def MAX_LINES_def printable_def)
  then have "m_lines t' = [''[Serial terminal ready]'', ''Hi'']"
    by (simp add: term_init_def MAX_LINES_def chr_u8_def char_of_def bit_Suc_0_iff)
  with l show ?thesis by blast
qed

text \<open>Whatever the pin does, the line store never holds more than 1000 lines, or 1001 while
  a run of nulls is being suppressed (the suppression marker is pushed without trimming).\<close>

theorem term_lines_bounded:
  assumes "lines_ok t"
  shows "length (m_lines (fst (run Tick t pins))) \<le>
           MAX_LINES + (if m_suppressing (fst (run Tick t pins)) then 1 else 0)"
  using term_clk.run_inv [OF assms, of pins] by (simp add: lines_ok_def)

theorem term_lines_bounded_witness:
  "length (m_lines (fst (run Tick term_init (replicate 100 False)))) \<le> 1001"
  using term_lines_bounded [of term_init "replicate 100 False"]
  by (simp add: lines_ok_def term_init_def MAX_LINES_def split: if_splits)

text \<open>Automatic noise muting: of a run of at least eight null bytes the first seven are shown,
  one marker line is added, the rest are only counted, and the next printable byte reports the exact
  number that was suppressed on a line of its own and starts a new line.\<close>

theorem term_null_run:
  assumes "quiet t" "printable c" "n < 2 ^ 63" "length (m_lines t) + 2 \<le> MAX_LINES"
  shows "m_lines (handle_byte c False (nulls (8 + n) t)) =
           m_lines t @ [null_text 7 @ ''[muted: sync/null noise]'',
                        ''['' @ dec (n + 1) @ '' bytes suppressed]''] \<and>
         m_current_line (handle_byte c False (nulls (8 + n) t)) = [chr_u8 c]"
proof -
  note m = nulls_muted [OF assms(1), of n]
  have u: "unat (of_nat (n + 1) :: u64) = n + 1"
    by (rule of_nat_inverse) (use assms(3) in simp_all)
  have pos: "(of_nat (n + 1) :: u64) > 0"
    using u by (metis Suc_eq_plus1 nat.distinct(1) unat_0 word_neq_0_conv)
  note nc = printable_not_ctrl [OF assms(2)]
  show ?thesis using m u pos nc assms(2,4)
    by (simp add: handle_byte_def Let_def del: of_nat_add of_nat_Suc)
      (simp add: AddReceivedChar_def Let_def printable_def del: of_nat_add of_nat_Suc)
qed

theorem term_null_run_witness:
  "m_lines (handle_byte 0x41 False (nulls (8 + 4) term_init)) =
     [''[Serial terminal ready]'', null_text 7 @ ''[muted: sync/null noise]'', ''[5 bytes suppressed]'']"
  using term_null_run [of term_init "0x41" 4]
  by (simp add: quiet_def term_init_def MAX_LINES_def printable_def dec.simps hexd_def)

end
