(* ===== verification/Console.thy ===== *)
theory Console
  imports SimPrelude
begin

text \<open>
  The debug console of verilator/sim/sim_console.cpp: the shared log, the command line with its
  history, and the text-edit callback. The globals of the file are one state record, C strings are
  char lists without a NUL, and a formatted message is passed to AddLog as the text it expands to.
  The widgets of ImGui enter as an input record of the drawing routine; the two buffer operations
  of its text callback are modelled from the copy of ImGui the repository carries.
\<close>

section \<open>String helpers\<close>

definition NUL :: char where "NUL = CHR 0x00"

definition toupper :: "char \<Rightarrow> char" where
  "toupper c = (let n = (of_char c :: nat) in if 97 \<le> n \<and> n \<le> 122 then char_of (n - 32) else c)"

definition ord :: "char \<Rightarrow> int" where
  "ord c = int (of_char c)"

fun head0 :: "string \<Rightarrow> char" where
  "head0 [] = NUL"
| "head0 (c # _) = c"

fun Stricmp :: "string \<Rightarrow> string \<Rightarrow> int" where
  "Stricmp [] str2 = ord (toupper (head0 str2)) - ord (toupper NUL)"
| "Stricmp (c # cs) str2 =
     (let d = ord (toupper (head0 str2)) - ord (toupper c)
      in if d = 0 then Stricmp cs (tl str2) else d)"

fun Strnicmp :: "string \<Rightarrow> string \<Rightarrow> nat \<Rightarrow> int" where
  "Strnicmp str1 str2 0 = 0"
| "Strnicmp [] str2 (Suc n) = ord (toupper (head0 str2)) - ord (toupper NUL)"
| "Strnicmp (c # cs) str2 (Suc n) =
     (let d = ord (toupper (head0 str2)) - ord (toupper c)
      in if d = 0 then Strnicmp cs (tl str2) n else d)"

definition Strtrim :: "string \<Rightarrow> string" where
  "Strtrim s = rev (dropWhile (\<lambda>c. c = CHR '' '') (rev s))"

definition dec_int :: "int \<Rightarrow> string" where
  "dec_int i = (if i < 0 then ''-'' @ dec (nat (- i)) else dec (nat i))"

definition pad_left :: "nat \<Rightarrow> string \<Rightarrow> string" where
  "pad_left n s = replicate (n - length s) (CHR '' '') @ s"

definition nl :: string where "nl = [CHR 0x0A]"

section \<open>State\<close>

record DebugConsole =
  InputBuf :: string
  Commands :: "string list"
  History :: "string list"
  HistoryPos :: int
  AutoScroll :: bool
  ScrollToBottom :: bool
  Items :: "string list"

definition console_globals :: DebugConsole where
  "console_globals = \<lparr> InputBuf = [], Commands = [], History = [], HistoryPos = 0,
     AutoScroll = False, ScrollToBottom = False, Items = [] \<rparr>"

section \<open>Operations\<close>

definition AddLog :: "string \<Rightarrow> DebugConsole \<Rightarrow> DebugConsole" where
  "AddLog msg c = c\<lparr>Items := trim_front 100 (Items c @ [take 1023 msg])\<rparr>"

definition ClearLog :: "DebugConsole \<Rightarrow> DebugConsole" where
  "ClearLog c = c\<lparr>Items := []\<rparr>"

text \<open>The constructor works on the globals, so every console object runs it on the same state.\<close>

definition DebugConsole_ctor :: "DebugConsole \<Rightarrow> DebugConsole" where
  "DebugConsole_ctor c0 =
    (let c = ClearLog c0;
         c1 = c\<lparr>InputBuf := [], HistoryPos := -1,
                Commands := Commands c @ [''HELP'', ''HISTORY'', ''CLEAR''],
                AutoScroll := True, ScrollToBottom := False\<rparr>
     in AddLog [] (AddLog ''Sim start'' c1))"

text \<open>Erasing the first element n times; erasing from an empty vector is undefined behaviour.\<close>

fun erase_first :: "nat \<Rightarrow> 'a list \<Rightarrow> 'a list option" where
  "erase_first 0 xs = Some xs"
| "erase_first (Suc n) [] = None"
| "erase_first (Suc n) (x # xs) = erase_first n xs"

definition ClearLogTop :: "nat \<Rightarrow> DebugConsole \<Rightarrow> DebugConsole option" where
  "ClearLogTop n c = map_option (\<lambda>xs. c\<lparr>Items := xs\<rparr>) (erase_first n (Items c))"

text \<open>The last entry equal to the command, ignoring case, is removed.\<close>

fun remove_last :: "('a \<Rightarrow> bool) \<Rightarrow> 'a list \<Rightarrow> 'a list" where
  "remove_last p [] = []"
| "remove_last p (x # xs) = (if (\<exists>y\<in>set xs. p y) then x # remove_last p xs
                              else if p x then xs else x # xs)"

definition ExecCommand :: "string \<Rightarrow> DebugConsole \<Rightarrow> DebugConsole" where
  "ExecCommand command_line c0 =
    (let c1 = (AddLog (''# '' @ command_line @ nl) c0)\<lparr>HistoryPos := -1\<rparr>;
         c2 = c1\<lparr>History := remove_last (\<lambda>h. Stricmp h command_line = 0) (History c1) @ [command_line]\<rparr>;
         c3 = (if Stricmp command_line ''CLEAR'' = 0 then ClearLog c2
               else if Stricmp command_line ''HELP'' = 0 then
                 fold (\<lambda>s. AddLog (''- '' @ s)) (Commands c2) (AddLog ''Commands:'' c2)
               else if Stricmp command_line ''HISTORY'' = 0 then
                 (let first = length (History c2) - 10
                  in fold (\<lambda>i. AddLog (pad_left 3 (dec i) @ '': '' @ (History c2 ! i) @ nl))
                       [first..<length (History c2)] c2)
               else AddLog (''Unknown command: '' @ [CHR 0x27] @ command_line @ [CHR 0x27] @ nl) c2)
     in c3\<lparr>ScrollToBottom := True\<rparr>)"

text \<open>The text buffer handed to the callback, with ImGui's two editing operations.\<close>

record edit_data =
  Buf :: string
  CursorPos :: nat
  BufSize :: nat

definition DeleteChars :: "nat \<Rightarrow> nat \<Rightarrow> edit_data \<Rightarrow> edit_data" where
  "DeleteChars p bytes_count d =
     d\<lparr>Buf := take p (Buf d) @ drop (p + bytes_count) (Buf d),
       CursorPos := (if CursorPos d \<ge> p + bytes_count then CursorPos d - bytes_count
                     else if CursorPos d \<ge> p then p else CursorPos d)\<rparr>"

definition InsertChars :: "nat \<Rightarrow> string \<Rightarrow> edit_data \<Rightarrow> edit_data" where
  "InsertChars p new_text d =
     (if length new_text + length (Buf d) \<ge> BufSize d then d
      else d\<lparr>Buf := take p (Buf d) @ new_text @ drop p (Buf d),
             CursorPos := (if CursorPos d \<ge> p then CursorPos d + length new_text else CursorPos d)\<rparr>)"

text \<open>Walking back from the cursor to the separator before the current word.\<close>

definition separator :: "char \<Rightarrow> bool" where
  "separator c \<longleftrightarrow> c = CHR '' '' \<or> c = CHR 0x09 \<or> c = CHR '','' \<or> c = CHR '';''"

fun word_start :: "string \<Rightarrow> nat \<Rightarrow> nat" where
  "word_start b 0 = 0"
| "word_start b (Suc n) = (if separator (b ! n) then Suc n else word_start b n)"

definition char_at :: "string \<Rightarrow> nat \<Rightarrow> char" where
  "char_at s k = (if k < length s then s ! k else NUL)"

text \<open>One round of the completion loop: do all candidates continue with the same letter?\<close>

definition all_candidates_match :: "string list \<Rightarrow> nat \<Rightarrow> bool" where
  "all_candidates_match cs k =
     (let c = toupper (char_at (hd cs) k)
      in list_all (\<lambda>s. c \<noteq> NUL \<and> c = toupper (char_at s k)) (tl cs))"

lemma toupper_NUL [simp]: "toupper NUL = NUL"
  by (simp add: toupper_def NUL_def)

text \<open>The loop is only entered with at least two candidates; it ends at the end of the first.\<close>

function complete_len :: "string list \<Rightarrow> nat \<Rightarrow> nat" where
  "complete_len cs k =
     (if tl cs \<noteq> [] \<and> all_candidates_match cs k then complete_len cs (Suc k) else k)"
  by auto
termination
proof (relation "measure (\<lambda>(cs, k). length (hd cs) - k)", goal_cases)
  case (2 cs k)
  then have "toupper (char_at (hd cs) k) \<noteq> NUL"
    by (auto simp: all_candidates_match_def Let_def neq_Nil_conv)
  then have "k < length (hd cs)" by (auto simp: char_at_def split: if_splits)
  then show ?case by simp
qed simp

declare complete_len.simps [simp del]

datatype edit_event = CompletionEvent | HistoryUp | HistoryDown | HistoryOther

definition complete :: "edit_data \<Rightarrow> DebugConsole \<Rightarrow> edit_data \<times> DebugConsole" where
  "complete d c =
    (let ws = word_start (Buf d) (CursorPos d);
         n = CursorPos d - ws;
         word = take n (drop ws (Buf d));
         candidates = filter (\<lambda>s. Strnicmp s (drop ws (Buf d)) n = 0) (Commands c)
     in case candidates of
          [] \<Rightarrow> (d, AddLog (''No match for \"'' @ word @ ''\"!'' @ nl) c)
        | [s] \<Rightarrow>
            (let d1 = DeleteChars ws n d;
                 d2 = InsertChars (CursorPos d1) s d1
             in (InsertChars (CursorPos d2) '' '' d2, c))
        | s # t # rest \<Rightarrow>
            (let match_len = complete_len candidates n;
                 d1 = (if match_len > 0
                       then (let d0 = DeleteChars ws n d
                             in InsertChars (CursorPos d0) (take match_len s) d0)
                       else d)
             in (d1, fold (\<lambda>x. AddLog (''- '' @ x @ nl)) candidates
                       (AddLog (''Possible matches:'' @ nl) c))))"

definition history_move :: "edit_event \<Rightarrow> DebugConsole \<Rightarrow> int" where
  "history_move e c =
     (case e of
        HistoryUp \<Rightarrow> (if HistoryPos c = -1 then int (length (History c)) - 1
                      else if HistoryPos c > 0 then HistoryPos c - 1 else HistoryPos c)
      | HistoryDown \<Rightarrow> (if HistoryPos c \<noteq> -1
                        then (if HistoryPos c + 1 \<ge> int (length (History c)) then -1 else HistoryPos c + 1)
                        else -1)
      | _ \<Rightarrow> HistoryPos c)"

definition TextEditCallback ::
  "edit_event \<Rightarrow> edit_data \<Rightarrow> DebugConsole \<Rightarrow> edit_data \<times> DebugConsole" where
  "TextEditCallback e d c =
     (case e of
        CompletionEvent \<Rightarrow> complete d c
      | _ \<Rightarrow>
         (let pos = history_move e c
          in if HistoryPos c \<noteq> pos then
               (let history_str = (if pos \<ge> 0 then History c ! nat pos else []);
                    d1 = DeleteChars 0 (length (Buf d)) d
                in (InsertChars 0 history_str d1, c\<lparr>HistoryPos := pos\<rparr>))
             else (d, c)))"

text \<open>What the widgets of the console window report in one frame.\<close>

record console_ui =
  cu_visible :: bool
  cu_clear_top :: bool
  cu_clear :: bool
  cu_menu_clear :: bool
  cu_auto_scroll :: bool
  cu_filter :: "string \<Rightarrow> bool"
  cu_at_bottom :: bool
  cu_input :: string
  cu_enter :: bool

datatype item_colour = Plain | ErrorColour | CommandColour

fun contains :: "string \<Rightarrow> string \<Rightarrow> bool" where
  "contains pat [] = (pat = [])"
| "contains pat (c # cs) = (take (length pat) (c # cs) = pat \<or> contains pat cs)"

definition item_colour_of :: "string \<Rightarrow> item_colour" where
  "item_colour_of item = (if contains ''[error]'' item then ErrorColour
     else if take 2 item = ''# '' then CommandColour else Plain)"

text \<open>The command line: enter trims the buffer, executes a non-empty command and empties it.\<close>

definition draw_input :: "string \<Rightarrow> bool \<Rightarrow> DebugConsole \<Rightarrow> DebugConsole" where
  "draw_input buf enter c =
     (let s = Strtrim buf;
          c1 = c\<lparr>InputBuf := s\<rparr>
      in if enter then (if s \<noteq> [] then ExecCommand s c1 else c1)\<lparr>InputBuf := []\<rparr>
         else c\<lparr>InputBuf := buf\<rparr>)"

definition DrawConsole :: "console_ui \<Rightarrow> DebugConsole \<Rightarrow>
    (DebugConsole \<times> (string \<times> item_colour) list \<times> bool) option" where
  "DrawConsole ui c =
    (if \<not> cu_visible ui then Some (c, [], False) else
     (case (if cu_clear_top ui then ClearLogTop 10000 c else Some c) of
        None \<Rightarrow> None
      | Some c1 \<Rightarrow>
        (let c2 = (if cu_clear ui then ClearLog c1 else c1);
             c3 = c2\<lparr>AutoScroll := cu_auto_scroll ui\<rparr>;
             c4 = (if cu_menu_clear ui then ClearLog c3 else c3);
             shown = map (\<lambda>i. (i, item_colour_of i)) (filter (cu_filter ui) (Items c4));
             scroll = (ScrollToBottom c4 \<or> (AutoScroll c4 \<and> cu_at_bottom ui));
             c5 = draw_input (cu_input ui) (cu_enter ui) (c4\<lparr>ScrollToBottom := False\<rparr>)
         in Some (c5, shown, scroll))))"

section \<open>The log\<close>

interpretation clog: bounded_log AddLog Items "take 1023" 100
  by unfold_locales (simp add: AddLog_def trim_front_drop)

lemma AddLog_keeps [simp]:
  "History (AddLog m c) = History c" "HistoryPos (AddLog m c) = HistoryPos c"
  "Commands (AddLog m c) = Commands c" "InputBuf (AddLog m c) = InputBuf c"
  by (simp_all add: AddLog_def)

lemma AddLogs_keep [simp]:
  "History (fold (\<lambda>x. AddLog (f x)) xs c) = History c"
  "HistoryPos (fold (\<lambda>x. AddLog (f x)) xs c) = HistoryPos c"
  "Commands (fold (\<lambda>x. AddLog (f x)) xs c) = Commands c"
  by (induction xs arbitrary: c) simp_all

definition log_ok :: "DebugConsole \<Rightarrow> bool" where
  "log_ok c \<longleftrightarrow> length (Items c) \<le> 100"

lemma log_ok_AddLog [simp]: "log_ok (AddLog m c)"
  using clog.bounded [of m c] by (simp add: log_ok_def)

lemma log_ok_AddLogs [simp]: "log_ok c \<Longrightarrow> log_ok (fold (\<lambda>x. AddLog (f x)) xs c)"
  by (induction xs arbitrary: c) simp_all

lemma erase_first_None: "erase_first n xs = None \<longleftrightarrow> length xs < n"
  by (induction n xs rule: erase_first.induct) simp_all

lemma erase_first_Some: "erase_first n xs = Some ys \<Longrightarrow> ys = drop n xs"
  by (induction n xs rule: erase_first.induct) simp_all

section \<open>Case-insensitive comparison\<close>

lemma ord_inject [simp]: "ord a = ord b \<longleftrightarrow> a = b"
  by (simp add: ord_def)

lemma of_char_toupper:
  "(of_char (toupper c) :: nat) =
     (if 97 \<le> (of_char c :: nat) \<and> (of_char c :: nat) \<le> 122 then of_char c - 32 else of_char c)"
  by (auto simp: toupper_def Let_def)

lemma toupper_eq_NUL [simp]: "toupper c = NUL \<longleftrightarrow> c = NUL"
proof
  assume "toupper c = NUL"
  then have "(of_char (toupper c) :: nat) = 0" by (simp add: NUL_def)
  then have "(of_char c :: nat) = 0" by (auto simp: of_char_toupper split: if_splits)
  then have "(of_char c :: nat) = of_char NUL" by (simp add: NUL_def)
  then show "c = NUL" by simp
qed simp

lemma NUL_eq_toupper [simp]: "NUL = toupper c \<longleftrightarrow> c = NUL"
  by (metis toupper_eq_NUL)

lemma Stricmp_eq_0:
  assumes "NUL \<notin> set a" "NUL \<notin> set b"
  shows "Stricmp a b = 0 \<longleftrightarrow> map toupper a = map toupper b"
  using assms
proof (induction a b rule: Stricmp.induct)
  case (1 str2)
  then show ?case by (cases str2) auto
next
  case (2 c cs str2)
  show ?case
  proof (cases str2)
    case Nil
    then show ?thesis using "2.prems" by (auto simp: Let_def)
  next
    case (Cons x xs)
    then show ?thesis using 2 by (auto simp: Let_def)
  qed
qed

section \<open>The history\<close>

definition upper :: "string \<Rightarrow> string" where
  "upper s = map toupper s"

definition hist_ok :: "DebugConsole \<Rightarrow> bool" where
  "hist_ok c \<longleftrightarrow> distinct (map upper (History c)) \<and> (\<forall>h\<in>set (History c). NUL \<notin> set h) \<and>
     -1 \<le> HistoryPos c \<and> HistoryPos c < int (length (History c))"

lemma set_remove_last_subset: "set (remove_last p xs) \<subseteq> set xs"
  by (induction xs) auto

lemma remove_last_none: "\<forall>x\<in>set xs. \<not> p x \<Longrightarrow> remove_last p xs = xs"
  by (induction xs) auto

lemma remove_last_distinct:
  "distinct (map f xs) \<Longrightarrow> remove_last (\<lambda>x. f x = y) xs = filter (\<lambda>x. f x \<noteq> y) xs"
proof (induction xs)
  case (Cons x xs)
  show ?case
  proof (cases "f x = y")
    case True
    then have "\<forall>z\<in>set xs. f z \<noteq> y" using Cons.prems by (auto simp: image_iff)
    then show ?thesis using True by (auto simp: filter_id_conv)
  next
    case False
    have "remove_last (\<lambda>x. f x = y) xs = xs" if "\<forall>z\<in>set xs. f z \<noteq> y"
      using that by (rule remove_last_none)
    then show ?thesis using Cons False by (auto simp: filter_id_conv)
  qed
qed simp

lemma remove_last_cong:
  "\<forall>x\<in>set xs. p x = q x \<Longrightarrow> remove_last p xs = remove_last q xs"
  by (induction xs) auto

lemma ExecCommand_history:
  assumes "hist_ok c" "NUL \<notin> set cmd"
  shows "History (ExecCommand cmd c) = filter (\<lambda>h. upper h \<noteq> upper cmd) (History c) @ [cmd]"
proof -
  have h: "distinct (map upper (History c))" "\<forall>h\<in>set (History c). NUL \<notin> set h"
    using assms(1) by (auto simp: hist_ok_def)
  have "remove_last (\<lambda>h. Stricmp h cmd = 0) (History c) = remove_last (\<lambda>h. upper h = upper cmd) (History c)"
    using h(2) assms(2) by (intro remove_last_cong) (simp add: Stricmp_eq_0 upper_def)
  then show ?thesis
    using remove_last_distinct [OF h(1), of "upper cmd"]
    by (simp add: ExecCommand_def Let_def ClearLog_def)
qed

lemma ExecCommand_pos [simp]: "HistoryPos (ExecCommand cmd c) = -1"
  by (simp add: ExecCommand_def Let_def ClearLog_def)

lemma distinct_map_filter: "distinct (map f xs) \<Longrightarrow> distinct (map f (filter P xs))"
  by (induction xs) auto

lemma ExecCommand_hist_ok:
  assumes "hist_ok c" "NUL \<notin> set cmd"
  shows "hist_ok (ExecCommand cmd c)"
proof -
  have "distinct (map upper (History c))" "\<forall>h\<in>set (History c). NUL \<notin> set h"
    using assms(1) by (auto simp: hist_ok_def)
  then show ?thesis
    using assms(2) by (auto simp: hist_ok_def ExecCommand_history [OF assms] distinct_map_filter)
qed

section \<open>Every reachable console\<close>

inductive console_step :: "DebugConsole \<Rightarrow> DebugConsole \<Rightarrow> bool" where
  step_ctor: "console_step c (DebugConsole_ctor c)"
| step_log: "console_step c (AddLog m c)"
| step_clear: "console_step c (ClearLog c)"
| step_exec: "NUL \<notin> set s \<Longrightarrow> console_step c (ExecCommand s c)"
| step_edit: "console_step c (snd (TextEditCallback e d c))"
| step_draw: "NUL \<notin> set (cu_input ui) \<Longrightarrow> DrawConsole ui c = Some (c', shown, scroll) \<Longrightarrow>
    console_step c c'"

inductive console_reachable :: "DebugConsole \<Rightarrow> bool" where
  reach_init: "console_reachable (DebugConsole_ctor console_globals)"
| reach_step: "console_reachable c \<Longrightarrow> console_step c c' \<Longrightarrow> console_reachable c'"

inductive_cases console_step_E: "console_step c c'"

lemma ctor_ok:
  assumes "distinct (map upper (History c))" "\<forall>h\<in>set (History c). NUL \<notin> set h"
  shows "hist_ok (DebugConsole_ctor c)" "log_ok (DebugConsole_ctor c)"
  using assms by (simp_all add: DebugConsole_ctor_def Let_def hist_ok_def ClearLog_def)

lemma ClearLog_ok [simp]: "hist_ok (ClearLog c) = hist_ok c" "log_ok (ClearLog c)"
  by (simp_all add: ClearLog_def hist_ok_def log_ok_def)

lemma hist_ok_AddLog [simp]: "hist_ok (AddLog m c) = hist_ok c"
  by (simp add: hist_ok_def)

lemma hist_ok_AddLogs [simp]: "hist_ok (fold (\<lambda>x. AddLog (f x)) xs c) = hist_ok c"
  by (simp add: hist_ok_def)

lemma log_ok_ExecCommand: "log_ok c \<Longrightarrow> log_ok (ExecCommand cmd c)"
proof -
  have u: "log_ok (c'\<lparr>ScrollToBottom := b\<rparr>) = log_ok c'" "log_ok (c'\<lparr>History := h\<rparr>) = log_ok c'"
    "log_ok (c'\<lparr>HistoryPos := p\<rparr>) = log_ok c'" for c' b h p
    by (simp_all add: log_ok_def)
  show ?thesis by (simp add: ExecCommand_def Let_def u)
qed

lemma history_move_bounds:
  assumes "hist_ok c"
  shows "-1 \<le> history_move e c" "history_move e c < int (length (History c))"
  using assms by (auto simp: hist_ok_def history_move_def split: edit_event.split)

lemma TextEditCallback_ok:
  assumes "hist_ok c" "log_ok c"
  shows "hist_ok (snd (TextEditCallback e d c))" "log_ok (snd (TextEditCallback e d c))"
proof -
  have k: "hist_ok (snd (complete d c))" "log_ok (snd (complete d c))"
    using assms by (auto simp: complete_def Let_def split: list.split)
  have m: "hist_ok (c\<lparr>HistoryPos := history_move e c\<rparr>)" "log_ok (c\<lparr>HistoryPos := p\<rparr>)" for p
    using assms history_move_bounds [OF assms(1), of e] by (auto simp: hist_ok_def log_ok_def)
  show "hist_ok (snd (TextEditCallback e d c))" "log_ok (snd (TextEditCallback e d c))"
    using k m assms by (cases e; auto simp: TextEditCallback_def Let_def)+
qed

lemma ClearLogTop_ok:
  assumes "ClearLogTop n c = Some c'" "hist_ok c" "log_ok c"
  shows "hist_ok c'" "log_ok c'"
  using assms by (auto simp: ClearLogTop_def hist_ok_def log_ok_def dest!: erase_first_Some)

lemma Strtrim_set: "set (Strtrim s) \<subseteq> set s"
  using set_dropWhileD [of _ "\<lambda>c. c = CHR '' ''" "rev s"] by (auto simp: Strtrim_def)

lemma ok_updates [simp]:
  "log_ok (x\<lparr>ScrollToBottom := b\<rparr>) = log_ok x" "log_ok (x\<lparr>InputBuf := i\<rparr>) = log_ok x"
  "log_ok (x\<lparr>AutoScroll := b\<rparr>) = log_ok x" "hist_ok (x\<lparr>ScrollToBottom := b\<rparr>) = hist_ok x"
  "hist_ok (x\<lparr>InputBuf := i\<rparr>) = hist_ok x" "hist_ok (x\<lparr>AutoScroll := b\<rparr>) = hist_ok x"
  by (simp_all add: log_ok_def hist_ok_def)

lemma draw_input_ok:
  assumes "NUL \<notin> set buf" "hist_ok c" "log_ok c"
  shows "hist_ok (draw_input buf enter c)" "log_ok (draw_input buf enter c)"
proof -
  have "NUL \<notin> set (Strtrim buf)" using Strtrim_set assms(1) by blast
  then show "hist_ok (draw_input buf enter c)" "log_ok (draw_input buf enter c)"
    using assms by (simp_all add: draw_input_def Let_def ExecCommand_hist_ok log_ok_ExecCommand)
qed

lemma DrawConsole_ok:
  assumes "DrawConsole ui c = Some (c', shown, scroll)" "NUL \<notin> set (cu_input ui)" "hist_ok c" "log_ok c"
  shows "hist_ok c' \<and> log_ok c'"
proof (cases "cu_visible ui")
  case True
  obtain c1 where c1: "(if cu_clear_top ui then ClearLogTop 10000 c else Some c) = Some c1"
    using assms(1) True by (auto simp: DrawConsole_def split: option.splits if_splits)
  have "hist_ok c1 \<and> log_ok c1"
    using c1 assms(3,4) ClearLogTop_ok by (auto split: if_splits)
  then show ?thesis using assms(1,2) True c1
    by (auto simp: DrawConsole_def Let_def intro!: draw_input_ok)
qed (use assms in \<open>auto simp: DrawConsole_def\<close>)

lemma console_step_ok:
  assumes "console_step c c'" "hist_ok c" "log_ok c"
  shows "hist_ok c' \<and> log_ok c'"
  using assms ctor_ok [of c] DrawConsole_ok
  by (elim console_step_E)
    (auto simp: log_ok_ExecCommand ExecCommand_hist_ok TextEditCallback_ok hist_ok_def [of c])

lemma reachable_ok: "console_reachable c \<Longrightarrow> hist_ok c \<and> log_ok c"
proof (induction rule: console_reachable.induct)
  case reach_init
  show ?case using ctor_ok [of console_globals] by (simp add: console_globals_def)
next
  case (reach_step c c')
  then show ?case using console_step_ok by blast
qed

section \<open>Completion\<close>

lemma complete_len_ge: "k \<le> complete_len cs k"
proof (induction cs k rule: complete_len.induct)
  case (1 cs k)
  then show ?case by (subst complete_len.simps) (auto split: if_splits)
qed

lemma all_match_upper:
  assumes "all_candidates_match cs k" "cs \<noteq> []" "tl cs \<noteq> []" "s \<in> set cs"
    "map toupper (take k s) = map toupper (take k (hd cs))"
  shows "k < length s" "map toupper (take (Suc k) s) = map toupper (take (Suc k) (hd cs))"
proof -
  let ?c = "toupper (char_at (hd cs) k)"
  have all: "\<forall>x\<in>set (tl cs). ?c \<noteq> NUL \<and> ?c = toupper (char_at x k)"
    using assms(1) by (simp only: all_candidates_match_def Let_def list_all_iff)
  then have c: "?c \<noteq> NUL" using assms(3) by (cases "tl cs") auto
  have s: "toupper (char_at s k) = ?c"
    using assms(2,4) all by (cases cs) auto
  have l: "k < length s" using s c by (auto simp: char_at_def split: if_splits)
  have lh: "k < length (hd cs)" using c by (auto simp: char_at_def split: if_splits)
  show "k < length s" by (rule l)
  show "map toupper (take (Suc k) s) = map toupper (take (Suc k) (hd cs))"
    using s l lh assms(5) by (simp add: take_Suc_conv_app_nth char_at_def)
qed

lemma complete_len_prefix:
  assumes "tl cs \<noteq> []" "\<forall>s\<in>set cs. map toupper (take k s) = map toupper (take k (hd cs))" "s \<in> set cs"
  shows "map toupper (take (complete_len cs k) s) = map toupper (take (complete_len cs k) (hd cs))"
  using assms
proof (induction cs k rule: complete_len.induct)
  case (1 cs k)
  show ?case
  proof (cases "all_candidates_match cs k")
    case True
    have "cs \<noteq> []" using "1.prems"(1) by auto
    then have "\<forall>s\<in>set cs. map toupper (take (Suc k) s) = map toupper (take (Suc k) (hd cs))"
      using all_match_upper(2) [OF True] "1.prems"(1,2) by blast
    then show ?thesis using 1 True by (subst (1 2) complete_len.simps) auto
  next
    case False
    then show ?thesis using "1.prems" by (subst (1 2) complete_len.simps) auto
  qed
qed

lemma complete_len_maximal:
  "tl cs \<noteq> [] \<Longrightarrow> \<not> all_candidates_match cs (complete_len cs k)"
proof (induction cs k rule: complete_len.induct)
  case (1 cs k)
  then show ?case by (subst complete_len.simps) auto
qed

lemma Strnicmp_eq_0:
  assumes "NUL \<notin> set a" "NUL \<notin> set b" "n \<le> length b"
  shows "Strnicmp a b n = 0 \<longleftrightarrow> n \<le> length a \<and> map toupper (take n a) = map toupper (take n b)"
  using assms
proof (induction a b n rule: Strnicmp.induct)
  case (2 str2 n)
  then show ?case by (cases str2) auto
next
  case (3 c cs str2 n)
  then show ?case by (cases str2) (auto simp: Let_def)
qed simp

lemma word_start_le: "word_start b n \<le> n"
  by (induction n) auto

section \<open>Properties\<close>

text \<open>C34. In every reachable console (any order of constructions, log messages, clears, commands,
  text-edit callbacks and drawn frames) the log holds at most 100 lines, no two history entries
  are equal up to case, and the history position is -1 or a valid index.\<close>

theorem console_reachable_ok:
  assumes "console_reachable c"
  shows "length (Items c) \<le> 100 \<and> distinct (map upper (History c)) \<and>
         -1 \<le> HistoryPos c \<and> HistoryPos c < int (length (History c))"
  using reachable_ok [OF assms] by (simp add: log_ok_def hist_ok_def)

theorem console_reachable_ok_witness:
  "length (Items (ExecCommand ''ver'' (DebugConsole_ctor console_globals))) \<le> 100"
proof -
  have "console_reachable (ExecCommand ''ver'' (DebugConsole_ctor console_globals))"
    by (rule reach_step [OF reach_init step_exec]) (simp add: NUL_def)
  then show ?thesis using console_reachable_ok by blast
qed

text \<open>The log keeps exactly the newest 100 messages in order, each cut to 1023 characters.\<close>

theorem console_log_newest:
  assumes "console_reachable c"
  shows "Items (fold AddLog ms c) =
         drop (length (Items c) + length ms - 100) (Items c @ map (take 1023) ms)"
  using clog.push_all [of c ms] reachable_ok [OF assms] by (simp add: log_ok_def)

theorem console_log_newest_witness:
  "Items (fold AddLog [''a'', ''b''] (DebugConsole_ctor console_globals)) =
     [''Sim start'', [], ''a'', ''b'']"
  using console_log_newest [OF reach_init, of "[''a'', ''b'']"]
  by (simp add: DebugConsole_ctor_def console_globals_def AddLog_def ClearLog_def Let_def)

text \<open>The button that clears the oldest 10,000 lines erases from an empty vector, which is
  undefined behaviour, in every reachable console, because the log never holds more than 100.\<close>

theorem console_clear_top_undefined:
  assumes "console_reachable c" "cu_visible ui" "cu_clear_top ui"
  shows "DrawConsole ui c = None"
proof -
  have "length (Items c) < 10000" using reachable_ok [OF assms(1)] by (simp add: log_ok_def)
  then have "ClearLogTop 10000 c = None" by (simp add: ClearLogTop_def erase_first_None)
  then show ?thesis using assms(2,3) by (simp add: DrawConsole_def)
qed

theorem console_clear_top_undefined_witness:
  "DrawConsole \<lparr>cu_visible = True, cu_clear_top = True, cu_clear = False, cu_menu_clear = False,
     cu_auto_scroll = True, cu_filter = (\<lambda>_. True), cu_at_bottom = True, cu_input = [],
     cu_enter = False\<rparr> (DebugConsole_ctor console_globals) = None"
  by (rule console_clear_top_undefined [OF reach_init]) simp_all

text \<open>Executing a command moves it to the end of the history: the entries that differ from it
  other than in case stay in their order and the command, as typed, is the last one.\<close>

theorem console_exec_history:
  assumes "console_reachable c" "NUL \<notin> set cmd"
  shows "History (ExecCommand cmd c) = filter (\<lambda>h. upper h \<noteq> upper cmd) (History c) @ [cmd] \<and>
         HistoryPos (ExecCommand cmd c) = -1"
  using ExecCommand_history reachable_ok assms by simp

theorem console_exec_history_witness:
  "History (ExecCommand ''HELP'' ((DebugConsole_ctor console_globals))) = [''HELP'']"
  using console_exec_history [OF reach_init, of "''HELP''"]
  by (simp add: NUL_def DebugConsole_ctor_def console_globals_def AddLog_def ClearLog_def Let_def)

text \<open>Completion with several candidates replaces the word before the cursor by the longest
  common prefix of the candidates (ignoring case), which is at least as long as the word: all
  candidates agree on it and not on one letter more.\<close>

theorem console_completion:
  assumes "filter (\<lambda>x. Strnicmp x (drop (word_start (Buf d) (CursorPos d)) (Buf d))
                      (CursorPos d - word_start (Buf d) (CursorPos d)) = 0) (Commands c) = s # t # rest"
    "CursorPos d \<le> length (Buf d)" "NUL \<notin> set (Buf d)" "\<forall>x\<in>set (Commands c). NUL \<notin> set x"
    "length (Buf d) + length s < BufSize d"
  shows "\<exists>k. CursorPos d - word_start (Buf d) (CursorPos d) \<le> k \<and>
     (k > 0 \<longrightarrow> Buf (fst (complete d c)) =
        take (word_start (Buf d) (CursorPos d)) (Buf d) @ take k s @ drop (CursorPos d) (Buf d)) \<and>
     (\<forall>x\<in>set (s # t # rest). upper (take k x) = upper (take k s)) \<and>
     \<not> all_candidates_match (s # t # rest) k"
proof -
  let ?ws = "word_start (Buf d) (CursorPos d)" and ?cs = "s # t # rest"
  let ?n = "CursorPos d - ?ws"
  let ?k = "complete_len ?cs ?n"
  have ws: "?ws \<le> CursorPos d" by (rule word_start_le)
  have nb: "NUL \<notin> set (drop ?ws (Buf d))" using assms(3) by (meson in_set_dropD)
  have pre: "map toupper (take ?n x) = map toupper (take ?n (drop ?ws (Buf d)))" if "x \<in> set ?cs" for x
  proof -
    have x: "x \<in> set (Commands c)" "Strnicmp x (drop ?ws (Buf d)) ?n = 0"
      using that unfolding assms(1) [symmetric] by simp_all
    then show ?thesis using Strnicmp_eq_0 [of x "drop ?ws (Buf d)" ?n] nb assms(2,4) by auto
  qed
  have com: "\<forall>x\<in>set ?cs. map toupper (take ?n x) = map toupper (take ?n (hd ?cs))"
  proof
    fix x assume x: "x \<in> set ?cs"
    have "map toupper (take ?n x) = map toupper (take ?n s)"
      by (rule trans [OF pre [OF x] pre [symmetric]]) (rule list.set_intros(1))
    then show "map toupper (take ?n x) = map toupper (take ?n (hd ?cs))"
      by (simp only: list.sel)
  qed
  have all: "\<forall>x\<in>set ?cs. upper (take ?k x) = upper (take ?k s)"
  proof
    fix x assume x: "x \<in> set ?cs"
    have "map toupper (take ?k x) = map toupper (take ?k (hd ?cs))"
      by (rule complete_len_prefix [OF _ com x]) simp
    then show "upper (take ?k x) = upper (take ?k s)" by (simp only: upper_def list.sel)
  qed
  have b: "Buf (fst (complete d c)) = take ?ws (Buf d) @ take ?k s @ drop (CursorPos d) (Buf d)"
    if "?k > 0"
  proof -
    have "\<not> BufSize d \<le> min (length s) ?k + (?ws + length (Buf d)) - CursorPos d"
      using ws assms(5) by linarith
    then show ?thesis using that assms(1,2) ws
      by (simp add: complete_def Let_def DeleteChars_def InsertChars_def)
  qed
  show ?thesis
  proof (intro exI conjI impI)
    show "?n \<le> ?k" by (rule complete_len_ge)
    show "\<not> all_candidates_match ?cs ?k" by (rule complete_len_maximal) simp
  qed (fact all b)+
qed

theorem console_completion_witness:
  "\<exists>k\<ge>1. Buf (fst (complete \<lparr>Buf = ''h'', CursorPos = 1, BufSize = 256\<rparr>
       (DebugConsole_ctor console_globals\<lparr>Commands := [''HELP'', ''HISTORY'', ''CLEAR'']\<rparr>))) =
     take k ''HELP'' \<and> upper (take k ''HISTORY'') = upper (take k ''HELP'')"
  using console_completion [of "\<lparr>Buf = ''h'', CursorPos = 1, BufSize = 256\<rparr>"
      "DebugConsole_ctor console_globals\<lparr>Commands := [''HELP'', ''HISTORY'', ''CLEAR'']\<rparr>"
      "''HELP''" "''HISTORY''" "[]"]
  by (auto simp: separator_def ord_def toupper_def NUL_def Let_def)

end
