(* ===== verification/DownloadBus.thy ===== *)
theory DownloadBus
  imports Console
begin

text \<open>
  The ioctl download bus of verilator/sim/sim_bus.h and sim_bus.cpp: a queue of files that are
  read two bytes at a time and presented to the core as 16-bit words with a byte address and a
  write strobe, while the core does not ask to wait. The file system is a parameter; a C FILE is
  its contents, its position and its end-of-file flag.
\<close>

section \<open>C files\<close>

record cfile =
  f_data :: "u8 list"
  f_pos :: nat
  f_eof :: bool

definition fopen :: "(string \<Rightarrow> u8 list option) \<Rightarrow> string \<Rightarrow> cfile option" where
  "fopen fs name = map_option (\<lambda>d. \<lparr>f_data = d, f_pos = 0, f_eof = False\<rparr>) (fs name)"

definition fgetc :: "cfile \<Rightarrow> int \<times> cfile" where
  "fgetc f = (if f_pos f < length (f_data f)
              then (uint (f_data f ! f_pos f), f\<lparr>f_pos := f_pos f + 1\<rparr>)
              else (-1, f\<lparr>f_eof := True\<rparr>))"

section \<open>State\<close>

record SimBus_DownloadChunk =
  ck_file :: string
  ck_index :: int
  ck_restart :: bool

record SimBus =
  downloadQueue :: "SimBus_DownloadChunk list"
  currentDownload :: SimBus_DownloadChunk
  ioctl_file :: "cfile option"
  ioctl_next_addr :: int
  nextword :: int
  bus_console :: DebugConsole
  ioctl_addr :: u32
  ioctl_index :: u8
  ioctl_wait :: u8
  ioctl_download :: u8
  ioctl_wr :: u8
  ioctl_dout :: u16

section \<open>Operations\<close>

definition chunk3 :: "string \<Rightarrow> int \<Rightarrow> bool \<Rightarrow> SimBus_DownloadChunk" where
  "chunk3 file index restart = \<lparr>ck_file = file, ck_index = index, ck_restart = restart\<rparr>"

text \<open>
  The two-argument constructor only builds and discards a temporary: the object it constructs
  has an empty file name and whatever index and restart flag its memory held.
\<close>

definition chunk2 :: "int \<Rightarrow> bool \<Rightarrow> string \<Rightarrow> int \<Rightarrow> SimBus_DownloadChunk" where
  "chunk2 junk_index junk_restart file index =
     \<lparr>ck_file = [], ck_index = junk_index, ck_restart = junk_restart\<rparr>"

definition QueueDownload2 :: "int \<Rightarrow> bool \<Rightarrow> string \<Rightarrow> int \<Rightarrow> SimBus \<Rightarrow> SimBus" where
  "QueueDownload2 ji jr file index b =
     b\<lparr>downloadQueue := downloadQueue b @ [chunk2 ji jr file index]\<rparr>"

definition QueueDownload :: "string \<Rightarrow> int \<Rightarrow> bool \<Rightarrow> SimBus \<Rightarrow> SimBus" where
  "QueueDownload file index restart b =
     b\<lparr>downloadQueue := downloadQueue b @ [chunk3 file index restart]\<rparr>"

definition HasQueue :: "SimBus \<Rightarrow> bool" where
  "HasQueue b \<longleftrightarrow> downloadQueue b \<noteq> []"

text \<open>First part of BeforeEval: with no file open, take the next chunk and open its file.\<close>

definition bus_open :: "(string \<Rightarrow> u8 list option) \<Rightarrow> SimBus \<Rightarrow> SimBus" where
  "bus_open fs b =
    (case (ioctl_file b, downloadQueue b) of
       (None, c # q) \<Rightarrow>
        (let b1 = b\<lparr>currentDownload := c, downloadQueue := q\<rparr>;
             b2 = (if ck_index c \<noteq> uint (ioctl_index b1) then b1\<lparr>ioctl_next_addr := 0\<rparr> else b1);
             b3 = (if ck_restart c then b2\<lparr>ioctl_next_addr := 0\<rparr> else b2);
             b4 = b3\<lparr>ioctl_addr := of_int (ioctl_next_addr b3), ioctl_index := of_int (ck_index c),
                      ioctl_file := fopen fs (ck_file c)\<rparr>
         in b4\<lparr>bus_console :=
               (if ioctl_file b4 = None
                then AddLog (''Cannot open file for download '' @ ck_file c @ nl) (bus_console b4)
                else AddLog (''Starting download: '' @ ck_file c @ '' '' @ dec_int (ioctl_next_addr b4))
                       (bus_console b4))\<rparr>)
     | _ \<Rightarrow> b)"

text \<open>Second part: transfer one word, close the file at its end, or keep the strobes low.\<close>

definition bus_transfer :: "SimBus \<Rightarrow> SimBus" where
  "bus_transfer b =
    (case ioctl_file b of
       None \<Rightarrow> b\<lparr>ioctl_download := 0, ioctl_wr := 0\<rparr>
     | Some f \<Rightarrow>
        (if ioctl_wait b = 0 then
          (let b1 = b\<lparr>ioctl_download := 1\<rparr>
           in if f_eof f then
                b1\<lparr>ioctl_file := None, ioctl_download := 0, ioctl_wr := 0,
                   ioctl_addr := of_int (ioctl_next_addr b1),
                   bus_console := AddLog (''ioctl_download complete '' @ dec_int (ioctl_next_addr b1))
                                    (bus_console b1)\<rparr>
              else
                (case fgetc f of (byte1, f1) \<Rightarrow>
                   if \<not> f_eof f1 then
                     (case fgetc f1 of (b2v, f2) \<Rightarrow>
                       (let byte2 = (if f_eof f2 then 0 else b2v);
                            w = push_bit 8 byte1 OR (byte2 AND 0xFF)
                        in b1\<lparr>ioctl_file := Some f2, nextword := w,
                              ioctl_addr := of_int (ioctl_next_addr b1), ioctl_dout := of_int w,
                              ioctl_wr := 1, ioctl_next_addr := ioctl_next_addr b1 + 2\<rparr>))
                   else b1\<lparr>ioctl_file := Some f1\<rparr>))
         else b))"

definition BusBeforeEval :: "(string \<Rightarrow> u8 list option) \<Rightarrow> SimBus \<Rightarrow> SimBus" where
  "BusBeforeEval fs b = bus_transfer (bus_open fs b)"

text \<open>What the core stores: one call with a given wait input, then a write if the strobe is up.\<close>

type_synonym memory = "u32 \<Rightarrow> u16 option"

definition mem_write :: "SimBus \<Rightarrow> memory \<Rightarrow> memory" where
  "mem_write b mem = (if ioctl_wr b = 1 then mem(ioctl_addr b \<mapsto> ioctl_dout b) else mem)"

definition bus_clock :: "(string \<Rightarrow> u8 list option) \<Rightarrow> u8 \<Rightarrow> SimBus \<times> memory \<Rightarrow> SimBus \<times> memory" where
  "bus_clock fs w s =
     (let b = BusBeforeEval fs ((fst s)\<lparr>ioctl_wait := w\<rparr>) in (b, mem_write b (snd s)))"

definition bus_run :: "(string \<Rightarrow> u8 list option) \<Rightarrow> u8 list \<Rightarrow> SimBus \<times> memory \<Rightarrow> SimBus \<times> memory" where
  "bus_run fs ws s = fold (bus_clock fs) ws s"

section \<open>What a download is meant to do\<close>

fun file_words :: "u8 list \<Rightarrow> u16 list" where
  "file_words [] = []"
| "file_words [x] = [be16 x 0]"
| "file_words (x # y # r) = be16 x y # file_words r"

fun store_words :: "int \<Rightarrow> u16 list \<Rightarrow> memory \<Rightarrow> memory" where
  "store_words a [] mem = mem"
| "store_words a (w # ws) mem = store_words (a + 2) ws (mem(of_int a \<mapsto> w))"

type_synonym load_state = "int \<times> u8 \<times> memory"

definition load_chunk :: "(string \<Rightarrow> u8 list option) \<Rightarrow> SimBus_DownloadChunk \<Rightarrow> load_state \<Rightarrow> load_state" where
  "load_chunk fs c s =
    (case s of (next, idx, mem) \<Rightarrow>
      (let base = (if ck_index c \<noteq> uint idx \<or> ck_restart c then 0 else next);
           ws = (case fs (ck_file c) of None \<Rightarrow> [] | Some d \<Rightarrow> file_words d)
       in (base + 2 * int (length ws), of_int (ck_index c), store_words base ws mem)))"

definition load_all :: "(string \<Rightarrow> u8 list option) \<Rightarrow> SimBus_DownloadChunk list \<Rightarrow> load_state \<Rightarrow> load_state" where
  "load_all fs cs s = fold (load_chunk fs) cs s"

text \<open>How many unhindered calls a queue needs at most.\<close>

definition chunk_calls :: "(string \<Rightarrow> u8 list option) \<Rightarrow> SimBus_DownloadChunk \<Rightarrow> nat" where
  "chunk_calls fs c =
     (case fs (ck_file c) of None \<Rightarrow> 1 | Some d \<Rightarrow> length (file_words d) + 2)"

definition queue_calls :: "(string \<Rightarrow> u8 list option) \<Rightarrow> SimBus_DownloadChunk list \<Rightarrow> nat" where
  "queue_calls fs cs = sum_list (map (chunk_calls fs) cs)"

section \<open>One file in flight\<close>

lemma of_int_be16: "(of_int (push_bit 8 (uint (x::u8)) OR (uint (y::u8) AND 0xFF)) :: u16) = be16 x y"
  by (simp add: of_int_pack)

lemma of_int_be16_0: "(of_int (push_bit 8 (uint (x::u8))) :: u16) = be16 x 0"
  using of_int_be16 [of x 0] by simp

text \<open>The words of a file that are still to be presented.\<close>

definition todo :: "cfile \<Rightarrow> u16 list" where
  "todo f = (if f_eof f then [] else file_words (drop (f_pos f) (f_data f)))"

definition calls_left :: "cfile \<Rightarrow> nat" where
  "calls_left f = (if f_eof f then 1 else length (todo f) + 2)"

definition strobe_ok :: "SimBus \<Rightarrow> memory \<Rightarrow> bool" where
  "strobe_ok b mem \<longleftrightarrow> (ioctl_wr b = 1 \<longrightarrow> mem (ioctl_addr b) = Some (ioctl_dout b))"

definition load_view :: "SimBus \<Rightarrow> memory \<Rightarrow> load_state" where
  "load_view b mem = (ioctl_next_addr b, ioctl_index b, mem)"

definition bus_idle :: "SimBus \<Rightarrow> bool" where
  "bus_idle b \<longleftrightarrow> ioctl_file b = None \<and> ioctl_wr b = 0"

lemma open_busy [simp]: "ioctl_file b = Some f \<Longrightarrow> bus_open fs b = b"
  by (simp add: bus_open_def)

lemma file_words_drop:
  "drop p d = [] \<or> (\<exists>x. drop p d = [x]) \<or> (\<exists>x y r. drop p d = x # y # r)"
  by (cases "drop p d"; cases "tl (drop p d)") auto

text \<open>A call with the file open: nothing while waiting, otherwise one word, the end, or the close.\<close>

lemma clock_wait:
  assumes "ioctl_file b = Some f" "w \<noteq> 0" "strobe_ok b mem"
  shows "bus_clock fs w (b, mem) = (b\<lparr>ioctl_wait := w\<rparr>, mem)"
  using assms
  by (simp add: bus_clock_def BusBeforeEval_def bus_transfer_def mem_write_def strobe_ok_def
      fun_upd_idem Let_def)

lemma clock_close:
  assumes "ioctl_file b = Some f" "f_eof f"
  shows "\<exists>b'. bus_clock fs 0 (b, mem) = (b', mem) \<and> bus_idle b' \<and> downloadQueue b' = downloadQueue b \<and>
     ioctl_next_addr b' = ioctl_next_addr b \<and> ioctl_index b' = ioctl_index b \<and>
     ioctl_addr b' = of_int (ioctl_next_addr b) \<and> ioctl_download b' = 0"
  using assms
  by (simp add: bus_clock_def BusBeforeEval_def bus_transfer_def mem_write_def bus_idle_def)

lemma clock_word:
  assumes "ioctl_file b = Some f" "\<not> f_eof f" "strobe_ok b mem"
  shows "\<exists>b' mem' f'. bus_clock fs 0 (b, mem) = (b', mem') \<and> strobe_ok b' mem' \<and>
     ioctl_file b' = Some f' \<and> downloadQueue b' = downloadQueue b \<and> ioctl_index b' = ioctl_index b \<and>
     calls_left f' < calls_left f \<and>
     ioctl_next_addr b' + 2 * int (length (todo f')) = ioctl_next_addr b + 2 * int (length (todo f)) \<and>
     store_words (ioctl_next_addr b') (todo f') mem' = store_words (ioctl_next_addr b) (todo f) mem"
proof -
  let ?p = "f_pos f" and ?d = "f_data f"
  consider (none) "drop ?p ?d = []" | (one) x where "drop ?p ?d = [x]"
    | (two) x y r where "drop ?p ?d = x # y # r"
    using file_words_drop [of ?p ?d] by blast
  then show ?thesis
  proof cases
    case none
    then have "length ?d \<le> ?p" by simp
    then show ?thesis using assms none
      by (simp add: bus_clock_def BusBeforeEval_def bus_transfer_def fgetc_def Let_def mem_write_def
          strobe_ok_def todo_def calls_left_def fun_upd_idem)
  next
    case one
    then have "length (drop ?p ?d) = 1" by (simp only: one) simp
    then have l: "length ?d = Suc ?p" by simp
    moreover have "?d ! ?p = x" using one l by (metis Cons_nth_drop_Suc lessI list.inject)
    ultimately show ?thesis using assms one
      by (simp add: bus_clock_def BusBeforeEval_def bus_transfer_def fgetc_def Let_def mem_write_def
          strobe_ok_def todo_def calls_left_def of_int_be16_0)
  next
    case two
    have l: "Suc ?p < length ?d" using arg_cong [OF two, of length] by simp
    have x: "?d ! ?p = x" and t: "drop (Suc ?p) ?d = y # r"
      using two l by (metis Cons_nth_drop_Suc Suc_lessD list.inject)+
    have y: "?d ! Suc ?p = y" and r: "drop (Suc (Suc ?p)) ?d = r"
      using t l by (metis Cons_nth_drop_Suc list.inject)+
    show ?thesis using assms two l x y r
      by (simp add: bus_clock_def BusBeforeEval_def bus_transfer_def fgetc_def Let_def mem_write_def
          strobe_ok_def todo_def calls_left_def of_int_be16)
  qed
qed

lemma bus_run_Cons: "bus_run fs (w # ws) s = bus_run fs ws (bus_clock fs w s)"
  by (simp add: bus_run_def)

lemma bus_run_append: "bus_run fs (us @ vs) s = bus_run fs vs (bus_run fs us s)"
  by (simp add: bus_run_def)

text \<open>Whatever the waits, the open file is written out and closed within the calls it needs.\<close>

lemma in_flight:
  assumes "ioctl_file b = Some f" "strobe_ok b mem" "calls_left f \<le> count_list ws 0"
  shows "\<exists>us vs b'. ws = us @ vs \<and> us \<noteq> [] \<and>
    bus_run fs us (b, mem) = (b', store_words (ioctl_next_addr b) (todo f) mem) \<and>
    bus_idle b' \<and> downloadQueue b' = downloadQueue b \<and> ioctl_index b' = ioctl_index b \<and>
    ioctl_next_addr b' = ioctl_next_addr b + 2 * int (length (todo f)) \<and>
    ioctl_addr b' = of_int (ioctl_next_addr b') \<and>
    count_list ws 0 \<le> count_list vs 0 + calls_left f"
  using assms
proof (induction ws arbitrary: b f mem)
  case Nil
  then show ?case by (simp add: calls_left_def split: if_splits)
next
  case (Cons w ws)
  show ?case
  proof (cases "w = 0")
    case False
    have c: "bus_clock fs w (b, mem) = (b\<lparr>ioctl_wait := w\<rparr>, mem)"
      by (rule clock_wait [OF Cons.prems(1) False Cons.prems(2)])
    obtain us vs b' where IH: "ws = us @ vs" "us \<noteq> []"
      "bus_run fs us (b\<lparr>ioctl_wait := w\<rparr>, mem) = (b', store_words (ioctl_next_addr b) (todo f) mem)"
      "bus_idle b'" "downloadQueue b' = downloadQueue b" "ioctl_index b' = ioctl_index b"
      "ioctl_next_addr b' = ioctl_next_addr b + 2 * int (length (todo f))"
      "ioctl_addr b' = of_int (ioctl_next_addr b')" "count_list ws 0 \<le> count_list vs 0 + calls_left f"
      using Cons.IH [of "b\<lparr>ioctl_wait := w\<rparr>" f mem] Cons.prems False by (auto simp: strobe_ok_def)
    then show ?thesis
      by (intro exI [of _ "w # us"] exI [of _ vs] exI [of _ b']) (use c False in \<open>simp add: bus_run_Cons\<close>)
  next
    case True
    show ?thesis
    proof (cases "f_eof f")
      case True
      obtain b' where "bus_clock fs 0 (b, mem) = (b', mem)" "bus_idle b'"
        "downloadQueue b' = downloadQueue b" "ioctl_next_addr b' = ioctl_next_addr b"
        "ioctl_index b' = ioctl_index b" "ioctl_addr b' = of_int (ioctl_next_addr b)"
        using clock_close [OF Cons.prems(1) True, of fs mem] by auto
      then show ?thesis using True \<open>w = 0\<close>
        by (intro exI [of _ "[w]"] exI [of _ ws] exI [of _ b'])
          (simp add: bus_run_def todo_def calls_left_def)
    next
      case False
      obtain b1 mem1 f1 where 1: "bus_clock fs 0 (b, mem) = (b1, mem1)" "strobe_ok b1 mem1"
        "ioctl_file b1 = Some f1" "downloadQueue b1 = downloadQueue b" "ioctl_index b1 = ioctl_index b"
        "calls_left f1 < calls_left f"
        "ioctl_next_addr b1 + 2 * int (length (todo f1)) = ioctl_next_addr b + 2 * int (length (todo f))"
        "store_words (ioctl_next_addr b1) (todo f1) mem1 = store_words (ioctl_next_addr b) (todo f) mem"
        using clock_word [OF Cons.prems(1) False Cons.prems(2), of fs] by auto
      have "calls_left f1 \<le> count_list ws 0" using Cons.prems(3) 1(6) True by simp
      then obtain us vs b' where IH: "ws = us @ vs" "us \<noteq> []"
        "bus_run fs us (b1, mem1) = (b', store_words (ioctl_next_addr b1) (todo f1) mem1)"
        "bus_idle b'" "downloadQueue b' = downloadQueue b1" "ioctl_index b' = ioctl_index b1"
        "ioctl_next_addr b' = ioctl_next_addr b1 + 2 * int (length (todo f1))"
        "ioctl_addr b' = of_int (ioctl_next_addr b')"
        "count_list ws 0 \<le> count_list vs 0 + calls_left f1"
        using Cons.IH [OF 1(3) 1(2)] by blast
      then show ?thesis
        by (intro exI [of _ "w # us"] exI [of _ vs] exI [of _ b'])
          (use 1 \<open>w = 0\<close> in \<open>simp add: bus_run_Cons\<close>)
    qed
  qed
qed

section \<open>The queue\<close>

lemma bus_open_wait: "bus_open fs (b\<lparr>ioctl_wait := w\<rparr>) = (bus_open fs b)\<lparr>ioctl_wait := w\<rparr>"
  by (auto simp: bus_open_def Let_def split: option.split list.split)

lemma bus_open_idle:
  assumes "bus_idle b" "downloadQueue b = c # q"
  shows "ioctl_file (bus_open fs b) = fopen fs (ck_file c)" "downloadQueue (bus_open fs b) = q"
    "ioctl_index (bus_open fs b) = of_int (ck_index c)"
    "ioctl_next_addr (bus_open fs b) =
       (if ck_index c \<noteq> uint (ioctl_index b) \<or> ck_restart c then 0 else ioctl_next_addr b)"
    "ioctl_addr (bus_open fs b) = of_int (ioctl_next_addr (bus_open fs b))"
    "ioctl_wr (bus_open fs b) = 0"
  using assms by (simp_all add: bus_open_def bus_idle_def Let_def)

lemma clock_opened:
  assumes "ioctl_file (bus_open fs b) = Some f"
  shows "bus_clock fs w (b, mem) = bus_clock fs w (bus_open fs b, mem)"
  using assms by (simp add: bus_clock_def BusBeforeEval_def bus_open_wait)

lemma clock_missing:
  assumes "bus_idle b" "downloadQueue b = c # q" "fs (ck_file c) = None"
  shows "\<exists>b'. bus_clock fs w (b, mem) = (b', mem) \<and> bus_idle b' \<and> downloadQueue b' = q \<and>
     load_view b' mem = load_chunk fs c (load_view b mem) \<and> ioctl_addr b' = of_int (ioctl_next_addr b')"
  using assms bus_open_idle [OF assms(1,2), of fs]
  by (simp add: bus_clock_def BusBeforeEval_def bus_open_wait bus_transfer_def mem_write_def Let_def
      bus_idle_def fopen_def load_chunk_def load_view_def)

lemma run_idle:
  assumes "bus_idle b" "downloadQueue b = []"
  shows "\<exists>b'. bus_run fs ws (b, mem) = (b', mem) \<and> bus_idle b' \<and> downloadQueue b' = [] \<and>
     load_view b' mem = load_view b mem \<and> ioctl_addr b' = ioctl_addr b"
  using assms
proof (induction ws arbitrary: b)
  case (Cons w ws)
  have c: "bus_clock fs w (b, mem) = (b\<lparr>ioctl_wait := w, ioctl_download := 0, ioctl_wr := 0\<rparr>, mem)"
    using Cons.prems
    by (simp add: bus_clock_def BusBeforeEval_def bus_open_def bus_transfer_def mem_write_def Let_def
        bus_idle_def)
  then show ?case
    using Cons.IH [of "b\<lparr>ioctl_wait := w, ioctl_download := 0, ioctl_wr := 0\<rparr>"] Cons.prems
    by (simp add: bus_run_Cons bus_idle_def load_view_def)
qed (simp add: bus_run_def)

lemma load_queue:
  assumes "bus_idle b" "downloadQueue b = cs" "queue_calls fs cs \<le> count_list ws 0"
    "ioctl_addr b = of_int (ioctl_next_addr b)"
  shows "\<exists>b' mem'. bus_run fs ws (b, mem) = (b', mem') \<and> bus_idle b' \<and> downloadQueue b' = [] \<and>
     load_view b' mem' = load_all fs cs (load_view b mem) \<and> ioctl_addr b' = of_int (ioctl_next_addr b')"
  using assms
proof (induction cs arbitrary: b mem ws)
  case Nil
  obtain b' where b': "bus_run fs ws (b, mem) = (b', mem)" "bus_idle b'" "downloadQueue b' = []"
    "load_view b' mem = load_view b mem" "ioctl_addr b' = ioctl_addr b"
    using run_idle [OF Nil.prems(1,2), of fs ws mem] by auto
  have "ioctl_next_addr b' = ioctl_next_addr b" using b'(4) by (simp add: load_view_def)
  then show ?case using b' Nil.prems(4)
    by (intro exI [of _ b'] exI [of _ mem]) (simp add: load_all_def)
next
  case (Cons c cs)
  show ?case
  proof (cases "fs (ck_file c)")
    case None
    then obtain w vs where ws: "ws = w # vs"
      using Cons.prems(3) by (cases ws) (simp_all add: queue_calls_def chunk_calls_def)
    obtain b1 where 1: "bus_clock fs w (b, mem) = (b1, mem)" "bus_idle b1" "downloadQueue b1 = cs"
      "load_view b1 mem = load_chunk fs c (load_view b mem)" "ioctl_addr b1 = of_int (ioctl_next_addr b1)"
      using clock_missing [where fs = fs and w = w and mem = mem, OF Cons.prems(1,2) None] by auto
    have "queue_calls fs cs \<le> count_list vs 0"
      using Cons.prems(3) None ws by (simp add: queue_calls_def chunk_calls_def split: if_splits)
    from Cons.IH [OF 1(2,3) this 1(5), of mem] show ?thesis
      by (simp add: ws bus_run_Cons 1(1,4) load_all_def)
  next
    case (Some d)
    let ?bo = "bus_open fs b" and ?f = "\<lparr>f_data = d, f_pos = 0, f_eof = False\<rparr>"
    note o = bus_open_idle [OF Cons.prems(1,2), of fs]
    have f: "ioctl_file ?bo = Some ?f" using o(1) Some by (simp add: fopen_def)
    have t: "todo ?f = file_words d" "calls_left ?f = chunk_calls fs c"
      using Some by (simp_all add: todo_def calls_left_def chunk_calls_def)
    have so: "strobe_ok ?bo mem" using o(6) by (simp add: strobe_ok_def)
    have cl: "calls_left ?f \<le> count_list ws 0"
      using Cons.prems(3) t(2) by (simp add: queue_calls_def)
    obtain us vs b1 where 1: "ws = us @ vs" "us \<noteq> []"
      "bus_run fs us (?bo, mem) = (b1, store_words (ioctl_next_addr ?bo) (file_words d) mem)"
      "bus_idle b1" "downloadQueue b1 = cs" "ioctl_index b1 = ioctl_index ?bo"
      "ioctl_next_addr b1 = ioctl_next_addr ?bo + 2 * int (length (file_words d))"
      "ioctl_addr b1 = of_int (ioctl_next_addr b1)" "count_list ws 0 \<le> count_list vs 0 + calls_left ?f"
      using in_flight [OF f so cl, of fs] unfolding t(1) o(2) by blast
    have us: "bus_run fs us (b, mem) = bus_run fs us (?bo, mem)"
      using 1(2) clock_opened [OF f, of _ mem] by (cases us) (simp_all add: bus_run_Cons)
    have lv: "load_view b1 (store_words (ioctl_next_addr ?bo) (file_words d) mem) =
        load_chunk fs c (load_view b mem)"
      using Some 1(6,7) o(3,4) by (simp add: load_view_def load_chunk_def Let_def)
    have "queue_calls fs cs \<le> count_list vs 0"
      using Cons.prems(3) 1(9) t(2) by (simp add: queue_calls_def)
    from Cons.IH [OF 1(4,5) this 1(8), of "store_words (ioctl_next_addr ?bo) (file_words d) mem"]
    show ?thesis by (simp add: 1(1) bus_run_append us 1(3) lv load_all_def)
  qed
qed

section \<open>Properties\<close>

lemma store_words_append:
  "store_words a (us @ vs) mem = store_words (a + 2 * int (length us)) vs (store_words a us mem)"
  by (induction us arbitrary: a mem) (simp_all add: algebra_simps)

text \<open>C9. The download bus refines its specification: from an idle bus with any queue of files,
  present or missing, and under any pattern of wait requests that leaves enough free calls, the
  queue is emptied, the memory of the core holds exactly the big-endian words of the files (an odd
  last byte padded with zero) at the base addresses the index and restart rules give, no file stays
  open, the strobe is low, and the address is one past the end.\<close>

theorem bus_download_refines:
  assumes "bus_idle b" "ioctl_addr b = of_int (ioctl_next_addr b)"
    "queue_calls fs (downloadQueue b) \<le> count_list ws 0"
  shows "\<exists>b' mem'. bus_run fs ws (b, mem) = (b', mem') \<and>
     (ioctl_next_addr b', ioctl_index b', mem') =
       load_all fs (downloadQueue b) (ioctl_next_addr b, ioctl_index b, mem) \<and>
     \<not> HasQueue b' \<and> ioctl_file b' = None \<and> ioctl_wr b' = 0 \<and>
     ioctl_addr b' = of_int (ioctl_next_addr b')"
  using load_queue [OF assms(1) refl assms(3,2), of mem]
  by (auto simp: load_view_def bus_idle_def HasQueue_def)

definition demo_bus :: SimBus where
  "demo_bus = \<lparr>downloadQueue = [chunk3 ''a'' 0 True, chunk3 ''none'' 0 False, chunk3 ''b'' 0 False],
     currentDownload = chunk3 [] (-1) False, ioctl_file = None, ioctl_next_addr = 0, nextword = 0,
     bus_console = console_globals, ioctl_addr = 0, ioctl_index = 0, ioctl_wait = 0,
     ioctl_download = 0, ioctl_wr = 0, ioctl_dout = 0\<rparr>"

theorem bus_download_refines_witness:
  "\<exists>b' mem'. bus_run [''a'' \<mapsto> [1, 2, 3], ''b'' \<mapsto> [4]] ([1, 0, 7] @ replicate 8 0)
       (demo_bus, Map.empty) = (b', mem') \<and>
     mem' = [0 \<mapsto> 0x0102, 2 \<mapsto> 0x0300, 4 \<mapsto> 0x0400] \<and> ioctl_addr b' = 6"
proof -
  let ?fs = "[''a'' \<mapsto> [1, 2, 3], ''b'' \<mapsto> [4::u8]]"
  have q: "queue_calls ?fs (downloadQueue demo_bus) \<le> count_list ([1, 0, 7] @ replicate 8 0) (0::u8)"
    by (simp add: queue_calls_def chunk_calls_def demo_bus_def chunk3_def eval_nat_numeral)
  have i: "bus_idle demo_bus" "ioctl_addr demo_bus = of_int (ioctl_next_addr demo_bus)"
    by (simp_all add: bus_idle_def demo_bus_def)
  have l: "load_all ?fs (downloadQueue demo_bus) (ioctl_next_addr demo_bus, ioctl_index demo_bus, Map.empty) =
    (6, 0, [0 \<mapsto> 0x0102, 2 \<mapsto> 0x0300, 4 \<mapsto> 0x0400])"
    by (simp add: load_all_def load_chunk_def demo_bus_def chunk3_def be16_def Let_def)
  show ?thesis using bus_download_refines [OF i q, of Map.empty] unfolding l by auto
qed

text \<open>Two ROM halves queued under the same index, the second without restart, land one behind
  the other: when the first has an even length, the memory is exactly that of one download of the
  concatenated files.\<close>

theorem bus_two_roms_concatenate:
  assumes "fs f1 = Some d1" "fs f2 = Some d2" "fs f12 = Some (d1 @ d2)" "even (length d1)"
    "0 \<le> idx" "idx < 256"
  shows "load_all fs [chunk3 f1 idx True, chunk3 f2 idx False] s = load_all fs [chunk3 f12 idx True] s"
proof -
  have w: "file_words (d1 @ d2) = file_words d1 @ file_words d2" if "even (length d1)" for d1 d2
    using that by (induction d1 rule: file_words.induct) simp_all
  have "uint (of_int idx :: u8) = idx" using assms(5,6) by (simp add: uint_word_of_int)
  then show ?thesis using assms(1-3) w [OF assms(4)]
    by (cases s) (simp add: load_all_def load_chunk_def chunk3_def Let_def store_words_append)
qed

theorem bus_two_roms_concatenate_witness:
  "load_all [''lo'' \<mapsto> [1, 2], ''hi'' \<mapsto> [3], ''rom'' \<mapsto> [1, 2, 3]]
     [chunk3 ''lo'' 0 True, chunk3 ''hi'' 0 False] (8, 3, Map.empty) =
   (4, 0, [0 \<mapsto> 0x0102, 2 \<mapsto> 0x0300])"
  using bus_two_roms_concatenate [of "[''lo'' \<mapsto> [1, 2], ''hi'' \<mapsto> [3], ''rom'' \<mapsto> [1, 2, 3]]" "''lo''"
      "[1, 2]" "''hi''" "[3]" "''rom''" 0 "(8, 3, Map.empty)"]
  by (simp add: load_all_def load_chunk_def chunk3_def be16_def Let_def)

text \<open>A download queued without the restart flag is lost: whatever file and index were asked
  for, the queued chunk names the empty file, so once it is taken from the queue nothing is opened
  (no file has the empty name) and the memory is unchanged.\<close>

theorem bus_two_argument_queue_lost:
  assumes "fs [] = None" "bus_idle b" "downloadQueue b = []"
  shows "\<exists>b'. bus_clock fs w (QueueDownload2 ji jr file index b, mem) = (b', mem) \<and>
              ioctl_file b' = None \<and> downloadQueue b' = []"
  using clock_missing [where fs = fs and w = w and mem = mem and c = "chunk2 ji jr file index" and q = "[]"
      and b = "QueueDownload2 ji jr file index b"] assms
  by (auto simp: QueueDownload2_def chunk2_def bus_idle_def)

theorem bus_two_argument_queue_lost_witness:
  "\<exists>b'. bus_clock [''rom'' \<mapsto> [1, 2]] 0
          (QueueDownload2 77 True ''rom'' 0 (demo_bus\<lparr>downloadQueue := []\<rparr>), Map.empty) = (b', Map.empty) \<and>
        ioctl_file b' = None \<and> downloadQueue b' = []"
  by (rule bus_two_argument_queue_lost) (simp_all add: bus_idle_def demo_bus_def)

end
