(* ===== verification/BlockDev.thy ===== *)
theory BlockDev
  imports SimPrelude
begin

text \<open>
  The block device of verilator/sim/sim_blkdevice.h and sim_blkdevice.cpp: ten disk images served
  to the core over the sd_* signals, one 512-byte sector at a time, 16 bits per word. The signals
  the core drives (sd_rd, sd_wr, sd_lba, sd_buff_din) are fields the environment sets between two
  calls. A std::fstream is its bytes, its joint position, its fail state and how it was opened.
\<close>

section \<open>Streams\<close>

record fstream =
  d_data :: "u8 list"
  d_pos :: nat
  d_fail :: bool
  d_open :: bool
  d_writable :: bool

definition closed_stream :: fstream where
  "closed_stream = \<lparr>d_data = [], d_pos = 0, d_fail = False, d_open = False, d_writable = False\<rparr>"

definition sget :: "fstream \<Rightarrow> int \<times> fstream" where
  "sget s = (if d_fail s then (-1, s)
             else if d_pos s < length (d_data s)
             then (uint (d_data s ! d_pos s), s\<lparr>d_pos := d_pos s + 1\<rparr>)
             else (-1, s\<lparr>d_fail := True\<rparr>))"

definition sput :: "u8 \<Rightarrow> fstream \<Rightarrow> fstream" where
  "sput b s = (if d_fail s then s
               else if \<not> d_writable s then s\<lparr>d_fail := True\<rparr>
               else s\<lparr>d_data := (if d_pos s < length (d_data s) then (d_data s)[d_pos s := b]
                                else d_data s @ replicate (d_pos s - length (d_data s)) 0 @ [b]),
                      d_pos := d_pos s + 1\<rparr>)"

definition sclear :: "fstream \<Rightarrow> fstream" where
  "sclear s = s\<lparr>d_fail := False\<rparr>"

definition sseek :: "int \<Rightarrow> fstream \<Rightarrow> fstream" where
  "sseek p s = (if d_fail s then s
                else if \<not> d_open s \<or> p < 0 then s\<lparr>d_fail := True\<rparr>
                else s\<lparr>d_pos := nat p\<rparr>)"

text \<open>Opening a stream: an open one fails, otherwise the file must exist and allow the mode.\<close>

definition sopen :: "bool \<Rightarrow> (u8 list \<times> bool) option \<Rightarrow> fstream \<Rightarrow> fstream" where
  "sopen for_writing file s =
    (if d_open s then s\<lparr>d_fail := True\<rparr>
     else case file of
       None \<Rightarrow> s\<lparr>d_fail := True\<rparr>
     | Some (bytes, writable) \<Rightarrow>
        (if for_writing \<and> \<not> writable then s\<lparr>d_fail := True\<rparr>
         else \<lparr>d_data = bytes, d_pos = length bytes, d_fail = d_fail s, d_open = True,
               d_writable = for_writing\<rparr>))"

section \<open>State\<close>

definition kVDNUM :: nat where "kVDNUM = 10"
definition kBLKSZ :: int where "kBLKSZ = 512"

record SimBlockDevice =
  sd_lba :: "nat \<Rightarrow> u32"
  sd_rd :: u8
  sd_wr :: u8
  sd_ack :: u8
  sd_buff_addr :: u8
  sd_buff_dout :: u16
  sd_buff_din :: "nat \<Rightarrow> u16"
  sd_buff_wr :: u8
  img_mounted :: u8
  img_readonly :: "u8 option"
  img_size :: u64
  bytecnt :: int
  disk_size :: "nat \<Rightarrow> int"
  reading :: bool
  writing :: bool
  ack_delay :: int
  current_disk :: int
  mountQueue :: "nat \<Rightarrow> bool"
  disk :: "nat \<Rightarrow> fstream"

text \<open>The object is a global, so what the constructor does not set starts at zero.\<close>

definition blk_init :: SimBlockDevice where
  "blk_init = \<lparr>sd_lba = (\<lambda>_. 0), sd_rd = 0, sd_wr = 0, sd_ack = 0, sd_buff_addr = 0,
     sd_buff_dout = 0, sd_buff_din = (\<lambda>_. 0), sd_buff_wr = 0, img_mounted = 0, img_readonly = None,
     img_size = 0, bytecnt = 0, disk_size = (\<lambda>_. 0), reading = False, writing = False,
     ack_delay = 0, current_disk = -1, mountQueue = (\<lambda>_. False), disk = (\<lambda>_. closed_stream)\<rparr>"

section \<open>Operations\<close>

text \<open>What atoi makes of the text after the equals sign of the plus argument.\<close>

fun digits :: "int \<Rightarrow> string \<Rightarrow> int" where
  "digits acc [] = acc"
| "digits acc (c # cs) = (let n = (of_char c :: int) in
     if 48 \<le> n \<and> n \<le> 57 then digits (acc * 10 + (n - 48)) cs else acc)"

definition blkdev_read_latency :: "string option \<Rightarrow> int" where
  "blkdev_read_latency arg = (case arg of None \<Rightarrow> 16000 | Some t \<Rightarrow> digits 0 t)"

definition bitset :: "u8 \<Rightarrow> nat \<Rightarrow> u8" where "bitset w i = w OR push_bit i 1"
definition bitclear :: "u8 \<Rightarrow> nat \<Rightarrow> u8" where "bitclear w i = w AND NOT (push_bit i 1)"
definition bitcheck :: "u8 \<Rightarrow> nat \<Rightarrow> bool" where "bitcheck w i \<longleftrightarrow> w AND push_bit i 1 \<noteq> 0"

definition MountDisk :: "(u8 list \<times> bool) option \<Rightarrow> nat \<Rightarrow> SimBlockDevice \<Rightarrow> SimBlockDevice" where
  "MountDisk file index b =
    (let d1 = sopen True file (disk b index);
         d2 = (if d_fail d1 then sopen False file (sclear d1) else d1)
     in if \<not> d_fail d2
        then b\<lparr>disk_size := (disk_size b)(index := int (d_pos d2)),
               disk := (disk b)(index := sseek 0 d2),
               mountQueue := (mountQueue b)(index := True)\<rparr>
        else b\<lparr>disk := (disk b)(index := d2)\<rparr>)"

text \<open>The run-time options: the sector latency and whether writes reach the image.\<close>

record blk_config =
  latency :: int
  ignore_scsi_writes :: bool

text \<open>The data phase of the loop body, for the current disk.\<close>

definition blk_data :: "blk_config \<Rightarrow> nat \<Rightarrow> SimBlockDevice \<Rightarrow> SimBlockDevice" where
  "blk_data cf i b =
    (if ack_delay b = 1 then
       (if reading b \<and> sd_buff_wr b = 0 \<and> bytecnt b < kBLKSZ then
          (case sget (disk b i) of (byte1, s1) \<Rightarrow> (case sget s1 of (byte2, s2) \<Rightarrow>
             b\<lparr>disk := (disk b)(i := s2),
               sd_buff_dout := of_int (push_bit 8 byte1 OR (byte2 AND 0xFF)),
               sd_buff_addr := of_int (bytecnt b div 2),
               bytecnt := bytecnt b + 2,
               sd_buff_wr := 1\<rparr>))
        else if writing b \<and> bytecnt b < kBLKSZ then
          (let w = sd_buff_din b i;
               s = (if ignore_scsi_writes cf then disk b i else sput (lo8 w) (sput (hi8 w) (disk b i)));
               n = bytecnt b + 2
           in b\<lparr>disk := (disk b)(i := s), bytecnt := n,
                sd_buff_addr := (if n < kBLKSZ then of_int (n div 2) else 0)\<rparr>)
        else if writing b then b\<lparr>sd_buff_addr := 0, writing := False\<rparr>
        else (let b1 = b\<lparr>sd_buff_wr := 0\<rparr>
              in if reading b1 \<and> bytecnt b1 \<ge> kBLKSZ then b1\<lparr>reading := False\<rparr> else b1))
     else b\<lparr>sd_buff_wr := 0\<rparr>)"

text \<open>Mounting: raise the flag, lower it when the delay has run out, or count the delay down.\<close>

definition blk_mount :: "nat \<Rightarrow> SimBlockDevice \<Rightarrow> SimBlockDevice" where
  "blk_mount i b =
    (if \<not> reading b \<and> \<not> writing b \<and> mountQueue b i \<and> img_mounted b = 0 then
       b\<lparr>mountQueue := (mountQueue b)(i := False),
         img_size := of_int (disk_size b i),
         img_readonly := map_option (\<lambda>_. 1) (img_readonly b),
         disk := (disk b)(i := sseek 0 (disk b i)),
         img_mounted := bitset (img_mounted b) i,
         ack_delay := 1200\<rparr>
     else if ack_delay b = 1 \<and> bitcheck (img_mounted b) i then
       b\<lparr>img_mounted := bitclear (img_mounted b) i\<rparr>
     else if \<not> reading b \<and> \<not> writing b \<and> ack_delay b > 0 then b\<lparr>ack_delay := ack_delay b - 1\<rparr>
     else b)"

text \<open>Accepting a request: seek to the sector and start the latency.\<close>

definition blk_start :: "blk_config \<Rightarrow> nat \<Rightarrow> SimBlockDevice \<Rightarrow> SimBlockDevice" where
  "blk_start cf i b =
    (if (current_disk b = -1 \<or> current_disk b = int i) \<and> (bitcheck (sd_rd b) i \<or> bitcheck (sd_wr b) i) then
       (let b1 = b\<lparr>current_disk := int i\<rparr>
        in if ack_delay b1 = 0 then
             (let off = sint (sd_lba b1 i * 512)
              in b1\<lparr>reading := (reading b1 \<or> bitcheck (sd_rd b1) i),
                    writing := (writing b1 \<or> bitcheck (sd_wr b1) i),
                    disk := (disk b1)(i := sseek off (sseek off (sclear (disk b1 i)))),
                    bytecnt := 0, sd_buff_addr := 0, ack_delay := latency cf\<rparr>)
           else b1)
     else b)"

text \<open>Acknowledge, count the latency down, release the disk.\<close>

definition blk_ack :: "nat \<Rightarrow> SimBlockDevice \<Rightarrow> SimBlockDevice" where
  "blk_ack i b =
    (if current_disk b = int i then
       (let b1 = (if ack_delay b = 1 then b\<lparr>sd_ack := bitset (sd_ack b) i\<rparr>
                  else b\<lparr>sd_ack := bitclear (sd_ack b) i\<rparr>);
            b2 = (if ack_delay b1 > 1 \<or> (ack_delay b1 = 1 \<and> \<not> reading b1 \<and> \<not> writing b1)
                  then b1\<lparr>ack_delay := ack_delay b1 - 1\<rparr> else b1)
        in if ack_delay b2 = 0 \<and> \<not> reading b2 \<and> \<not> writing b2
           then b2\<lparr>current_disk := -1\<rparr> else b2)
     else b)"

definition blk_slot :: "blk_config \<Rightarrow> nat \<Rightarrow> SimBlockDevice \<Rightarrow> SimBlockDevice" where
  "blk_slot cf i b =
     blk_ack i (blk_start cf i (blk_mount i
       (if current_disk b = int i then blk_data cf i b else b)))"

definition BlkBeforeEval :: "blk_config \<Rightarrow> int \<Rightarrow> SimBlockDevice \<Rightarrow> SimBlockDevice" where
  "BlkBeforeEval cf cycles b =
     (if cycles < 2000 then b else fold (blk_slot cf) [0..<kVDNUM] b)"

section \<open>One slot at a time\<close>

text \<open>The other nine slots of a call leave the state alone.\<close>

definition inert :: "blk_config \<Rightarrow> nat \<Rightarrow> SimBlockDevice \<Rightarrow> bool" where
  "inert cf i b \<longleftrightarrow> (\<forall>j<kVDNUM. j \<noteq> i \<longrightarrow> blk_slot cf j b = b)"

lemma bitcheck_0 [simp]: "\<not> bitcheck 0 i"
  by (simp add: bitcheck_def)

lemma blk_mount_busy:
  assumes "reading b \<or> writing b" "img_mounted b = 0"
  shows "blk_mount j b = b"
  using assms(1) by (elim disjE) (simp_all add: blk_mount_def assms(2))

lemma blk_mount_free:
  assumes "ack_delay b = 0" "\<not> mountQueue b j"
  shows "blk_mount j b = b"
  using assms by (simp add: blk_mount_def)

lemma inert_busy:
  assumes "current_disk b = int i" "reading b \<or> writing b" "img_mounted b = 0"
  shows "inert cf i b"
  unfolding inert_def
proof (intro allI impI)
  fix j assume "j \<noteq> i"
  then show "blk_slot cf j b = b"
    using assms(1) by (simp add: blk_slot_def blk_mount_busy [OF assms(2,3)] blk_start_def blk_ack_def)
qed

lemma inert_free:
  assumes "current_disk b = -1" "ack_delay b = 0" "\<forall>j. \<not> mountQueue b j"
    "\<forall>j. j \<noteq> i \<longrightarrow> \<not> bitcheck (sd_rd b) j \<and> \<not> bitcheck (sd_wr b) j"
  shows "inert cf i b"
  unfolding inert_def
proof (intro allI impI)
  fix j assume "j \<noteq> i"
  then show "blk_slot cf j b = b"
    using assms by (simp add: blk_slot_def blk_mount_free blk_start_def blk_ack_def)
qed

lemma fold_id: "\<forall>x\<in>set xs. f x s = s \<Longrightarrow> fold f xs s = s"
  by (induction xs) auto

lemma BlkBeforeEval_slot:
  assumes "2000 \<le> cycles" "i < kVDNUM" "inert cf i b" "inert cf i (blk_slot cf i b)"
  shows "BlkBeforeEval cf cycles b = blk_slot cf i b"
proof -
  have e: "[0..<kVDNUM] = [0..<i] @ i # [Suc i..<kVDNUM]"
    using assms(2) upt_add_eq_append [of 0 i "kVDNUM - i"] by (simp add: upt_conv_Cons)
  have 1: "fold (blk_slot cf) [0..<i] b = b"
    using assms(2,3) by (intro fold_id) (auto simp: inert_def)
  have 2: "fold (blk_slot cf) [Suc i..<kVDNUM] (blk_slot cf i b) = blk_slot cf i b"
    using assms(4) by (intro fold_id) (auto simp: inert_def)
  show ?thesis using assms(1) by (simp add: BlkBeforeEval_def e 1 2)
qed

section \<open>The core side\<close>

text \<open>What the core drives before a call, and what it sees after it.\<close>

record core_in =
  in_rd :: u8
  in_wr :: u8
  in_din :: u16

record core_out =
  out_ack :: u8
  out_wr :: u8
  out_addr :: u8
  out_dout :: u16

definition core_set :: "core_in \<Rightarrow> SimBlockDevice \<Rightarrow> SimBlockDevice" where
  "core_set c b = b\<lparr>sd_rd := in_rd c, sd_wr := in_wr c, sd_buff_din := (\<lambda>_. in_din c)\<rparr>"

definition core_see :: "SimBlockDevice \<Rightarrow> core_out" where
  "core_see b = \<lparr>out_ack = sd_ack b, out_wr = sd_buff_wr b, out_addr = sd_buff_addr b,
                 out_dout = sd_buff_dout b\<rparr>"

text \<open>n calls against a core, which may look at the call number and at what it sees.\<close>

fun blk_drive :: "blk_config \<Rightarrow> (nat \<Rightarrow> core_out \<Rightarrow> core_in) \<Rightarrow> nat \<Rightarrow> nat \<Rightarrow> SimBlockDevice \<Rightarrow>
    SimBlockDevice \<times> core_out list" where
  "blk_drive cf core 0 t b = (b, [])"
| "blk_drive cf core (Suc n) t b =
     (let b1 = BlkBeforeEval cf 2000 (core_set (core t (core_see b)) b)
      in case blk_drive cf core n (Suc t) b1 of (b2, os) \<Rightarrow> (b2, core_see b1 # os))"

lemma blk_drive_add:
  assumes "blk_drive cf core m t b = (b1, os1)" "blk_drive cf core n (t + m) b1 = (b2, os2)"
  shows "blk_drive cf core (m + n) t b = (b2, os1 @ os2)"
  using assms
  by (induction m arbitrary: t b b1 os1) (auto simp: Let_def split: prod.splits)

lemma blk_drive_two:
  assumes "BlkBeforeEval cf 2000 (core_set (core t (core_see b)) b) = b1"
    "BlkBeforeEval cf 2000 (core_set (core (Suc t) (core_see b1)) b1) = b2"
  shows "blk_drive cf core 2 t b = (b2, [core_see b1, core_see b2])"
  using assms by (simp add: numeral_2_eq_2 Let_def)

text \<open>The words the core stores in its sector buffer: address and data of every strobe.\<close>

definition strobes :: "core_out list \<Rightarrow> (u8 \<times> u16) list" where
  "strobes os = map (\<lambda>x. (out_addr x, out_dout x)) (filter (\<lambda>x. out_wr x = 1) os)"

lemma strobes_append [simp]: "strobes (xs @ ys) = strobes xs @ strobes ys"
  by (simp add: strobes_def)

lemma strobes_Cons [simp]:
  "strobes (x # xs) = (if out_wr x = 1 then (out_addr x, out_dout x) # strobes xs else strobes xs)"
  by (simp add: strobes_def)

lemma strobes_Nil [simp]: "strobes [] = []"
  by (simp add: strobes_def)

section \<open>Reading a stream past its end\<close>

definition img_byte :: "u8 list \<Rightarrow> nat \<Rightarrow> u8" where
  "img_byte d n = (if n < length d then d ! n else 0xFF)"

text \<open>The stream has delivered the bytes before n and nothing else happened to it.\<close>

definition reads_at :: "u8 list \<Rightarrow> nat \<Rightarrow> fstream \<Rightarrow> bool" where
  "reads_at d n s \<longleftrightarrow> d_data s = d \<and> (\<not> d_fail s \<and> d_pos s = n \<or> d_fail s \<and> length d \<le> n)"

lemma sget_reads:
  assumes "reads_at d n s"
  shows "of_int (fst (sget s)) = img_byte d n" "reads_at d (Suc n) (snd (sget s))"
    "d_open (snd (sget s)) = d_open s" "d_writable (snd (sget s)) = d_writable s"
  using assms by (auto simp: reads_at_def sget_def img_byte_def)

definition sector_word :: "u8 list \<Rightarrow> nat \<Rightarrow> nat \<Rightarrow> u16" where
  "sector_word d base k = be16 (img_byte d (base + 2 * k)) (img_byte d (base + 2 * k + 1))"

section \<open>The data phase of a read\<close>

lemma current_disk_same: "current_disk b = x \<Longrightarrow> b\<lparr>current_disk := x\<rparr> = b"
  by (cases b) simp

lemma blk_start_busy:
  assumes "current_disk b = int i" "ack_delay b \<noteq> 0"
  shows "blk_start cf i b = b"
  using assms by (simp add: blk_start_def current_disk_same)

lemma blk_ack_serving:
  assumes "current_disk b = int i" "ack_delay b = 1" "reading b \<or> writing b"
  shows "blk_ack i b = b\<lparr>sd_ack := bitset (sd_ack b) i\<rparr>"
  using assms(3) by (elim disjE) (simp_all add: blk_ack_def assms(1,2))

text \<open>Reading disk i, with k words of the sector at base delivered and the strobe low.\<close>

definition rd_at :: "nat \<Rightarrow> u8 list \<Rightarrow> nat \<Rightarrow> nat \<Rightarrow> SimBlockDevice \<Rightarrow> bool" where
  "rd_at i d base k b \<longleftrightarrow> current_disk b = int i \<and> reading b \<and> \<not> writing b \<and> ack_delay b = 1 \<and>
     bytecnt b = 2 * int k \<and> sd_buff_wr b = 0 \<and> img_mounted b = 0 \<and>
     reads_at d (base + 2 * k) (disk b i) \<and> (\<forall>j. \<not> mountQueue b j)"

definition rd_strobed :: "nat \<Rightarrow> u8 list \<Rightarrow> nat \<Rightarrow> nat \<Rightarrow> SimBlockDevice \<Rightarrow> bool" where
  "rd_strobed i d base k b \<longleftrightarrow> current_disk b = int i \<and> reading b \<and> \<not> writing b \<and> ack_delay b = 1 \<and>
     bytecnt b = 2 * int k + 2 \<and> sd_buff_wr b = 1 \<and> img_mounted b = 0 \<and>
     reads_at d (base + 2 * k + 2) (disk b i) \<and> (\<forall>j. \<not> mountQueue b j)"

lemma core_set_rd_at [simp]: "rd_at i d base k (core_set c b) = rd_at i d base k b"
  by (simp add: rd_at_def core_set_def)

lemma core_set_rd_strobed [simp]: "rd_strobed i d base k (core_set c b) = rd_strobed i d base k b"
  by (simp add: rd_strobed_def core_set_def)

lemma rd_word_slot:
  assumes "rd_at i d base k b" "k < 256"
  shows "rd_strobed i d base k (blk_slot cf i b)"
    "core_see (blk_slot cf i b) = \<lparr>out_ack = bitset (sd_ack b) i, out_wr = 1, out_addr = of_nat k,
       out_dout = sector_word d base k\<rparr>"
proof -
  obtain v1 s1 where g1: "sget (disk b i) = (v1, s1)" by fastforce
  obtain v2 s2 where g2: "sget s1 = (v2, s2)" by fastforce
  have r: "reads_at d (base + 2 * k) (disk b i)" using assms(1) by (simp add: rd_at_def)
  note r1 = sget_reads [OF r, unfolded g1, simplified]
  note r2 = sget_reads [OF r1(2), unfolded g2, simplified]
  let ?b = "b\<lparr>disk := (disk b)(i := s2), sd_buff_dout := sector_word d base k,
              sd_buff_addr := of_nat k, bytecnt := 2 * int k + 2, sd_buff_wr := 1\<rparr>"
  have dt: "blk_data cf i b = ?b"
    using assms by (simp add: blk_data_def rd_at_def kBLKSZ_def g1 g2 of_int_pack r1(1) r2(1) sector_word_def)
  have "blk_slot cf i b = ?b\<lparr>sd_ack := bitset (sd_ack b) i\<rparr>"
    using assms(1)
    by (simp add: blk_slot_def dt blk_mount_busy blk_start_busy blk_ack_serving rd_at_def)
  then show "rd_strobed i d base k (blk_slot cf i b)"
    "core_see (blk_slot cf i b) = \<lparr>out_ack = bitset (sd_ack b) i, out_wr = 1, out_addr = of_nat k,
       out_dout = sector_word d base k\<rparr>"
    using assms(1) r2(2) by (simp_all add: rd_at_def rd_strobed_def core_see_def)
qed

lemma rd_lower_slot:
  assumes "rd_strobed i d base k b" "k < 255"
  shows "rd_at i d base (Suc k) (blk_slot cf i b)"
    "core_see (blk_slot cf i b) = (core_see b)\<lparr>out_ack := bitset (sd_ack b) i, out_wr := 0\<rparr>"
proof -
  have "blk_data cf i b = b\<lparr>sd_buff_wr := 0\<rparr>"
    using assms by (simp add: blk_data_def rd_strobed_def kBLKSZ_def)
  then have "blk_slot cf i b = b\<lparr>sd_buff_wr := 0, sd_ack := bitset (sd_ack b) i\<rparr>"
    using assms(1) by (simp add: blk_slot_def blk_mount_busy blk_start_busy blk_ack_serving rd_strobed_def)
  then show "rd_at i d base (Suc k) (blk_slot cf i b)"
    "core_see (blk_slot cf i b) = (core_see b)\<lparr>out_ack := bitset (sd_ack b) i, out_wr := 0\<rparr>"
    using assms(1) by (simp_all add: rd_at_def rd_strobed_def core_see_def)
qed

text \<open>After the last word: idle, acknowledge lowered, the disk released.\<close>

definition blk_free :: "SimBlockDevice \<Rightarrow> bool" where
  "blk_free b \<longleftrightarrow> current_disk b = -1 \<and> \<not> reading b \<and> \<not> writing b \<and> ack_delay b = 0 \<and>
     sd_buff_wr b = 0 \<and> img_mounted b = 0 \<and> (\<forall>j. \<not> mountQueue b j)"

lemma rd_last_slot:
  assumes "rd_strobed i d base 255 b" "\<not> bitcheck (sd_rd b) i" "\<not> bitcheck (sd_wr b) i"
  shows "blk_free (blk_slot cf i b)" "out_wr (core_see (blk_slot cf i b)) = 0"
    "sd_ack (blk_slot cf i b) = bitclear (sd_ack b) i" "disk (blk_slot cf i b) = disk b"
proof -
  have "blk_data cf i b = b\<lparr>sd_buff_wr := 0, reading := False\<rparr>"
    using assms by (simp add: blk_data_def rd_strobed_def kBLKSZ_def)
  then have "blk_slot cf i b = b\<lparr>sd_buff_wr := 0, reading := False, ack_delay := 0,
                sd_ack := bitclear (sd_ack b) i, current_disk := -1\<rparr>"
    using assms by (simp add: blk_slot_def blk_mount_def blk_start_def blk_ack_def rd_strobed_def)
  then show "blk_free (blk_slot cf i b)" "out_wr (core_see (blk_slot cf i b)) = 0"
    "sd_ack (blk_slot cf i b) = bitclear (sd_ack b) i" "disk (blk_slot cf i b) = disk b"
    using assms(1) by (simp_all add: blk_free_def rd_strobed_def core_see_def)
qed

lemma inert_rd:
  "rd_at i d base k b \<Longrightarrow> inert cf i b" "rd_strobed i d base k b \<Longrightarrow> inert cf i b"
  by (auto simp: rd_at_def rd_strobed_def intro!: inert_busy)

lemma inert_blk_free:
  assumes "blk_free b" "sd_rd b = 0" "sd_wr b = 0"
  shows "inert cf i b"
  using assms by (intro inert_free) (simp_all add: blk_free_def)

lemma phases_keep_requests [simp]:
  "sd_rd (blk_data cf i b) = sd_rd b" "sd_wr (blk_data cf i b) = sd_wr b"
  "sd_rd (blk_mount i b) = sd_rd b" "sd_wr (blk_mount i b) = sd_wr b"
  "sd_rd (blk_start cf i b) = sd_rd b" "sd_wr (blk_start cf i b) = sd_wr b"
  "sd_rd (blk_ack i b) = sd_rd b" "sd_wr (blk_ack i b) = sd_wr b"
  "sd_lba (blk_data cf i b) = sd_lba b" "sd_lba (blk_mount i b) = sd_lba b"
  "sd_lba (blk_start cf i b) = sd_lba b" "sd_lba (blk_ack i b) = sd_lba b"
  by (simp_all add: blk_data_def blk_mount_def blk_start_def blk_ack_def Let_def split: prod.split)

lemma slot_keeps_requests [simp]:
  "sd_rd (blk_slot cf i b) = sd_rd b" "sd_wr (blk_slot cf i b) = sd_wr b"
  "sd_lba (blk_slot cf i b) = sd_lba b"
  by (simp_all add: blk_slot_def)

lemma blk_drive_lba: "blk_drive cf core n t b = (b', os) \<Longrightarrow> sd_lba b' = sd_lba b"
proof (induction n arbitrary: t b os)
  case (Suc n)
  have f: "sd_lba (fold (blk_slot cf) xs x) = sd_lba x" for xs x
    by (induction xs arbitrary: x) simp_all
  have "sd_lba (BlkBeforeEval cf 2000 (core_set c x)) = sd_lba x" for c x
    by (simp add: BlkBeforeEval_def f core_set_def)
  with Suc show ?case by (auto simp: Let_def split: prod.splits)
qed simp

lemma eval_rd_at:
  assumes "rd_at i d base k b" "k < 256" "i < kVDNUM"
  shows "BlkBeforeEval cf 2000 b = blk_slot cf i b"
  using assms rd_word_slot(1) [OF assms(1,2), of cf]
  by (intro BlkBeforeEval_slot) (auto intro: inert_rd)

lemma eval_rd_strobed:
  assumes "rd_strobed i d base k b" "k < 255" "i < kVDNUM"
  shows "BlkBeforeEval cf 2000 b = blk_slot cf i b"
  using assms rd_lower_slot(1) [OF assms(1,2), of cf]
  by (intro BlkBeforeEval_slot) (auto intro: inert_rd)

lemma eval_rd_last:
  assumes "rd_strobed i d base 255 b" "sd_rd b = 0" "sd_wr b = 0" "i < kVDNUM"
  shows "BlkBeforeEval cf 2000 b = blk_slot cf i b"
proof (rule BlkBeforeEval_slot)
  show "inert cf i b" by (rule inert_rd(2) [OF assms(1)])
  show "inert cf i (blk_slot cf i b)"
    using rd_last_slot(1) [OF assms(1), of cf] assms(2,3) by (intro inert_blk_free) simp_all
qed (simp_all add: assms(4))

section \<open>A whole sector read\<close>

definition waiting :: "bool \<Rightarrow> nat \<Rightarrow> int \<Rightarrow> SimBlockDevice \<Rightarrow> bool" where
  "waiting rd i n b \<longleftrightarrow> current_disk b = int i \<and> reading b = rd \<and> writing b = (\<not> rd) \<and> ack_delay b = n \<and>
     bytecnt b = 0 \<and> sd_buff_wr b = 0 \<and> img_mounted b = 0 \<and> (\<forall>j. \<not> mountQueue b j)"

lemma core_set_simps [simp]:
  "current_disk (core_set c b) = current_disk b" "reading (core_set c b) = reading b"
  "writing (core_set c b) = writing b" "ack_delay (core_set c b) = ack_delay b"
  "bytecnt (core_set c b) = bytecnt b" "sd_buff_wr (core_set c b) = sd_buff_wr b"
  "img_mounted (core_set c b) = img_mounted b" "disk (core_set c b) = disk b"
  "mountQueue (core_set c b) = mountQueue b" "sd_ack (core_set c b) = sd_ack b"
  "sd_lba (core_set c b) = sd_lba b" "sd_rd (core_set c b) = in_rd c" "sd_wr (core_set c b) = in_wr c"
  "sd_buff_addr (core_set c b) = sd_buff_addr b" "sd_buff_din (core_set c b) j = in_din c"
  by (simp_all add: core_set_def)

lemma core_set_preds [simp]:
  "waiting rd i n (core_set c b) = waiting rd i n b" "blk_free (core_set c b) = blk_free b"
  by (simp_all add: waiting_def blk_free_def)

lemma waiting_rd_at: "waiting True i 1 b \<Longrightarrow> reads_at d base (disk b i) \<Longrightarrow> rd_at i d base 0 b"
  by (simp add: waiting_def rd_at_def)

lemma inert_waiting: "waiting rd i n b \<Longrightarrow> inert cf i b"
  by (cases rd) (auto simp: waiting_def intro!: inert_busy)

lemma waiting_slot:
  assumes "waiting rd i n b" "1 < n"
  shows "waiting rd i (n - 1) (blk_slot cf i b)" "out_wr (core_see (blk_slot cf i b)) = 0"
    "disk (blk_slot cf i b) = disk b" "sd_buff_addr (blk_slot cf i b) = sd_buff_addr b"
proof -
  have "b\<lparr>sd_buff_wr := 0\<rparr> = b" using assms(1) by (cases b) (simp add: waiting_def)
  then have d: "blk_data cf i b = b" using assms by (simp add: blk_data_def waiting_def)
  have m: "blk_mount i b = b" using assms(1) by (cases rd) (simp_all add: waiting_def blk_mount_busy)
  have "blk_slot cf i b = b\<lparr>sd_ack := bitclear (sd_ack b) i, ack_delay := n - 1\<rparr>"
    using assms by (simp add: blk_slot_def d m blk_start_busy blk_ack_def waiting_def)
  then show "waiting rd i (n - 1) (blk_slot cf i b)" "out_wr (core_see (blk_slot cf i b)) = 0"
    "disk (blk_slot cf i b) = disk b" "sd_buff_addr (blk_slot cf i b) = sd_buff_addr b"
    using assms(1) by (simp_all add: waiting_def core_see_def)
qed

lemma eval_waiting:
  assumes "waiting rd i n b" "1 < n" "i < kVDNUM"
  shows "BlkBeforeEval cf 2000 b = blk_slot cf i b"
  using assms waiting_slot(1) [OF assms(1,2), of cf]
  by (intro BlkBeforeEval_slot) (auto intro: inert_waiting)

lemma waiting_run:
  "waiting rd i (1 + int n) b \<Longrightarrow> i < kVDNUM \<Longrightarrow>
   \<exists>b' os. blk_drive cf core n t b = (b', os) \<and> waiting rd i 1 b' \<and> disk b' = disk b \<and>
     sd_buff_addr b' = sd_buff_addr b \<and> strobes os = []"
proof (induction n arbitrary: b t)
  case (Suc n)
  let ?c = "core_set (core t (core_see b)) b"
  have c: "waiting rd i (1 + int (Suc n)) ?c" using Suc.prems(1) by simp
  have e: "BlkBeforeEval cf 2000 ?c = blk_slot cf i ?c"
    by (rule eval_waiting [OF c _ Suc.prems(2)]) simp
  have w: "waiting rd i (1 + int n) (blk_slot cf i ?c)" "out_wr (core_see (blk_slot cf i ?c)) = 0"
    "disk (blk_slot cf i ?c) = disk b" "sd_buff_addr (blk_slot cf i ?c) = sd_buff_addr b"
    using waiting_slot [OF c, of cf] by simp_all
  show ?case using Suc.IH [OF w(1) Suc.prems(2), of "Suc t"] w(2-4) by (auto simp: e)
qed simp

definition acked :: "nat \<Rightarrow> core_out list \<Rightarrow> bool" where
  "acked i os \<longleftrightarrow> (\<forall>x\<in>set os. out_wr x = 1 \<longrightarrow> bit (out_ack x) i)"

lemma acked_append [simp]: "acked i (xs @ ys) \<longleftrightarrow> acked i xs \<and> acked i ys"
  by (auto simp: acked_def)

lemma bit_bitset [simp]: "i < 8 \<Longrightarrow> bit (bitset w i) i"
  by (simp add: bitset_def bit_simps)

lemma bit_bitclear [simp]: "\<not> bit (bitclear w i) i"
  by (simp add: bitclear_def bit_simps)

lemma rd_words:
  assumes "rd_at i d base 0 b" "i < 8"
  shows "k \<le> 255 \<Longrightarrow> \<exists>b' os. blk_drive cf core (2 * k) t b = (b', os) \<and> rd_at i d base k b' \<and>
     strobes os = map (\<lambda>k. (of_nat k, sector_word d base k)) [0..<k] \<and> acked i os"
proof (induction k)
  case 0
  then show ?case using assms(1) by (simp add: acked_def)
next
  case (Suc k)
  then obtain b' os where IH: "blk_drive cf core (2 * k) t b = (b', os)" "rd_at i d base k b'"
    "strobes os = map (\<lambda>k. (of_nat k, sector_word d base k)) [0..<k]" "acked i os" by auto
  have k: "k < 256" "k < 255" "i < kVDNUM" using Suc.prems assms(2) by (simp_all add: kVDNUM_def)
  let ?c1 = "core_set (core (t + 2 * k) (core_see b')) b'"
  let ?b1 = "blk_slot cf i ?c1"
  let ?c2 = "core_set (core (Suc (t + 2 * k)) (core_see ?b1)) ?b1"
  let ?b2 = "blk_slot cf i ?c2"
  have c1: "rd_at i d base k ?c1" using IH(2) by simp
  note w = rd_word_slot [OF c1 k(1), of cf]
  have c2: "rd_strobed i d base k ?c2" using w(1) by simp
  note l = rd_lower_slot [OF c2 k(2), of cf]
  have "blk_drive cf core 2 (t + 2 * k) b' = (?b2, [core_see ?b1, core_see ?b2])"
    by (rule blk_drive_two [OF eval_rd_at [OF c1 k(1,3)] eval_rd_strobed [OF c2 k(2,3)]])
  from blk_drive_add [OF IH(1) this] have "blk_drive cf core (2 * Suc k) t b = (?b2, os @ [core_see ?b1, core_see ?b2])"
    by simp
  then show ?case using l w(2) IH(3,4) assms(2) by (simp add: acked_def)
qed

lemma rd_sector:
  assumes "rd_at i d base 0 b" "i < 8"
    "\<forall>x. in_rd (core (t + 511) x) = 0 \<and> in_wr (core (t + 511) x) = 0"
  shows "\<exists>b' os. blk_drive cf core 512 t b = (b', os) \<and> blk_free b' \<and>
     strobes os = map (\<lambda>k. (of_nat k, sector_word d base k)) [0..<256] \<and> acked i os \<and>
     \<not> bit (sd_ack b') i \<and> d_data (disk b' i) = d"
proof -
  obtain b' os where W: "blk_drive cf core 510 t b = (b', os)" "rd_at i d base 255 b'"
    "strobes os = map (\<lambda>k. (of_nat k, sector_word d base k)) [0..<255]" "acked i os"
    using rd_words [OF assms(1,2), of 255 cf core t] by auto
  have i: "i < kVDNUM" using assms(2) by (simp add: kVDNUM_def)
  let ?c1 = "core_set (core (t + 510) (core_see b')) b'"
  let ?b1 = "blk_slot cf i ?c1"
  let ?c2 = "core_set (core (Suc (t + 510)) (core_see ?b1)) ?b1"
  let ?b2 = "blk_slot cf i ?c2"
  have c1: "rd_at i d base 255 ?c1" using W(2) by simp
  note w = rd_word_slot [OF c1, of cf, simplified]
  have c2: "rd_strobed i d base 255 ?c2" using w(1) by simp
  have q: "sd_rd ?c2 = 0" "sd_wr ?c2 = 0" using assms(3) by (simp_all add: add.commute)
  have l: "blk_free ?b2" "out_wr (core_see ?b2) = 0" "sd_ack ?b2 = bitclear (sd_ack ?c2) i"
    "disk ?b2 = disk ?c2"
    using rd_last_slot [OF c2] q by simp_all
  have "blk_drive cf core 2 (t + 510) b' = (?b2, [core_see ?b1, core_see ?b2])"
    by (rule blk_drive_two [OF eval_rd_at [OF c1 _ i] eval_rd_last [OF c2 q i]]) simp
  from blk_drive_add [OF W(1) this] have "blk_drive cf core 512 t b = (?b2, os @ [core_see ?b1, core_see ?b2])"
    by simp
  moreover have "[0..<256] = [0..<255] @ [255::nat]" by (simp add: upt_Suc_append [of 0 255, simplified])
  moreover have "d_data (disk ?b2 i) = d" using c2 l(4) by (simp add: rd_strobed_def reads_at_def)
  ultimately show ?thesis using l w(2) W(3,4) assms(2) by (simp add: acked_def)
qed

section \<open>Accepting a request\<close>

text \<open>The byte offset of a sector: the product is computed in a 32-bit int.\<close>

lemma lba_offset:
  assumes "unat lba < 2 ^ 22"
  shows "sint (lba * 512 :: u32) = 512 * int (unat lba)"
proof -
  have s: "unat lba * 512 < 2 ^ 31" using assms by simp
  then have "unat lba * unat (512 :: u32) < 2 ^ LENGTH(32)" by simp
  then have u: "unat (lba * 512 :: u32) = unat lba * 512"
    by (simp only: unat_mult_lem) simp
  have "sint (lba * 512) = uint (lba * 512)"
    by (rule sint_eq_uint_small) (simp only: u s)
  also have "\<dots> = int (unat lba * 512)" by (simp only: uint_nat u)
  finally show ?thesis by simp
qed

text \<open>A request for exactly one disk, seen while the device is free.\<close>

lemma accept_slot:
  assumes "blk_free b" "bitcheck (sd_rd b) i \<or> bitcheck (sd_wr b) i" "2 \<le> latency cf"
    "d_open (disk b i)" "unat (sd_lba b i) < 2 ^ 22"
  shows "blk_slot cf i b = b\<lparr>current_disk := int i, reading := bitcheck (sd_rd b) i,
      writing := bitcheck (sd_wr b) i,
      disk := (disk b)(i := (disk b i)\<lparr>d_fail := False, d_pos := 512 * unat (sd_lba b i)\<rparr>),
      bytecnt := 0, sd_buff_addr := 0, ack_delay := latency cf - 1,
      sd_ack := bitclear (sd_ack b) i\<rparr>"
proof -
  have s: "sseek (sint (sd_lba b i * 512)) (sseek (sint (sd_lba b i * 512)) (sclear (disk b i))) =
      (disk b i)\<lparr>d_fail := False, d_pos := 512 * unat (sd_lba b i)\<rparr>"
    using assms(4) by (simp add: lba_offset [OF assms(5)] sseek_def sclear_def nat_mult_distrib)
  have "blk_start cf i b = b\<lparr>current_disk := int i, reading := bitcheck (sd_rd b) i,
      writing := bitcheck (sd_wr b) i,
      disk := (disk b)(i := (disk b i)\<lparr>d_fail := False, d_pos := 512 * unat (sd_lba b i)\<rparr>),
      bytecnt := 0, sd_buff_addr := 0, ack_delay := latency cf\<rparr>"
    using assms(1,2) s by (auto simp: blk_start_def blk_free_def Let_def)
  then show ?thesis
    using assms(1,3) by (simp add: blk_slot_def blk_free_def blk_mount_free blk_ack_def)
qed

lemma bitcheck_bit: "bitcheck w j \<longleftrightarrow> bit w j"
  by (simp only: bitcheck_def bit_iff_and_push_bit_not_eq_0)

lemma bitcheck_exp [simp]: "bitcheck (2 ^ i) j \<longleftrightarrow> i = j \<and> i < 8"
  by (auto simp: bitcheck_bit bit_simps)

lemma accept_inert:
  assumes "blk_free b" "\<forall>j. j \<noteq> i \<longrightarrow> \<not> bitcheck (sd_rd b) j \<and> \<not> bitcheck (sd_wr b) j"
  shows "inert cf i b"
  using assms by (intro inert_free) (simp_all add: blk_free_def)

lemma eval_accept:
  assumes "blk_free b" "sd_rd b = push_bit i 1 \<and> sd_wr b = 0 \<or> sd_rd b = 0 \<and> sd_wr b = push_bit i 1"
    "2 \<le> latency cf" "d_open (disk b i)" "unat (sd_lba b i) < 2 ^ 22" "i < 8"
  shows "BlkBeforeEval cf 2000 b = blk_slot cf i b"
proof -
  have q: "bitcheck (sd_rd b) i \<or> bitcheck (sd_wr b) i"
    "\<forall>j. j \<noteq> i \<longrightarrow> \<not> bitcheck (sd_rd b) j \<and> \<not> bitcheck (sd_wr b) j"
    using assms(2,6) by auto
  show ?thesis
  proof (rule BlkBeforeEval_slot)
    show "inert cf i b" by (rule accept_inert [OF assms(1) q(2)])
    show "inert cf i (blk_slot cf i b)"
      using q(1) assms(1)
      by (subst accept_slot [OF assms(1) q(1) assms(3-5)], intro inert_busy) (simp_all add: blk_free_def)
  qed (use assms(6) in \<open>simp_all add: kVDNUM_def\<close>)
qed

lemma read_accepted:
  assumes "blk_free b" "i < 8" "2 \<le> latency cf" "d_open (disk b i)" "unat (sd_lba b i) < 2 ^ 22"
    "sd_rd b = push_bit i 1" "sd_wr b = 0"
  shows "BlkBeforeEval cf 2000 b = blk_slot cf i b"
    "waiting True i (latency cf - 1) (blk_slot cf i b)"
    "reads_at (d_data (disk b i)) (512 * unat (sd_lba b i)) (disk (blk_slot cf i b) i)"
    "out_wr (core_see (blk_slot cf i b)) = 0"
proof -
  have q: "bitcheck (sd_rd b) i \<or> bitcheck (sd_wr b) i" using assms(2,6) by simp
  show "BlkBeforeEval cf 2000 b = blk_slot cf i b"
    using assms by (intro eval_accept) simp_all
  show "waiting True i (latency cf - 1) (blk_slot cf i b)"
    "reads_at (d_data (disk b i)) (512 * unat (sd_lba b i)) (disk (blk_slot cf i b) i)"
    "out_wr (core_see (blk_slot cf i b)) = 0"
    using assms by (simp_all add: accept_slot [OF assms(1) q assms(3-5)] waiting_def blk_free_def
        reads_at_def core_see_def)
qed

lemma read_sector:
  assumes "blk_free b" "i < 8" "2 \<le> latency cf" "d_open (disk b i)" "unat (sd_lba b i) < 2 ^ 22"
    "\<forall>x. in_rd (core t x) = push_bit i 1 \<and> in_wr (core t x) = 0"
    "\<forall>x. in_rd (core (t + (nat (latency cf) + 510)) x) = 0 \<and>
         in_wr (core (t + (nat (latency cf) + 510)) x) = 0"
  shows "\<exists>b' os. blk_drive cf core (nat (latency cf) + 511) t b = (b', os) \<and> blk_free b' \<and>
     strobes os = map (\<lambda>k. (of_nat k, sector_word (d_data (disk b i)) (512 * unat (sd_lba b i)) k)) [0..<256] \<and>
     acked i os \<and> \<not> bit (sd_ack b') i \<and> d_data (disk b' i) = d_data (disk b i)"
proof -
  let ?c = "core_set (core t (core_see b)) b" and ?d = "d_data (disk b i)"
  let ?base = "512 * unat (sd_lba b i)"
  let ?b1 = "blk_slot cf i ?c"
  define n where "n = nat (latency cf) - 2"
  have n: "latency cf - 1 = 1 + int n" "nat (latency cf) = n + 2" using assms(3) by (simp_all add: n_def)
  have i: "i < kVDNUM" using assms(2) by (simp add: kVDNUM_def)
  have a: "BlkBeforeEval cf 2000 ?c = ?b1" "waiting True i (1 + int n) ?b1"
    "reads_at ?d ?base (disk ?b1 i)" "out_wr (core_see ?b1) = 0"
    using read_accepted [of ?c i cf] assms(1-6) n(1) by simp_all
  have 1: "blk_drive cf core 1 t b = (?b1, [core_see ?b1])" by (simp add: Let_def a(1))
  obtain b2 os2 where 2: "blk_drive cf core n (t + 1) ?b1 = (b2, os2)" "rd_at i ?d ?base 0 b2" "strobes os2 = []"
    using waiting_run [OF a(2) i, of cf core "t + 1"] a(3) waiting_rd_at by fastforce
  have fin: "\<forall>x. in_rd (core (t + (1 + n) + 511) x) = 0 \<and> in_wr (core (t + (1 + n) + 511) x) = 0"
    using assms(7) n(2) by (simp add: ac_simps)
  obtain b3 os3 where 3: "blk_drive cf core 512 (t + (1 + n)) b2 = (b3, os3)" "blk_free b3"
    "strobes os3 = map (\<lambda>k. (of_nat k, sector_word ?d ?base k)) [0..<256]" "acked i os3"
    "\<not> bit (sd_ack b3) i" "d_data (disk b3 i) = ?d"
    using rd_sector [where core = core and cf = cf, OF 2(2) assms(2) fin] by auto
  have "acked i os2" using 2(3) by (auto simp: acked_def strobes_def filter_empty_conv)
  then show ?thesis
    using blk_drive_add [OF blk_drive_add [OF 1 2(1)] 3(1)] 3 2(3) a(4) n(2)
    by (auto simp: acked_def)
qed

section \<open>A whole sector write\<close>

text \<open>Writing disk i: k words of the sector at base stored, the address of the next one out.\<close>

definition wr_at :: "nat \<Rightarrow> nat \<Rightarrow> nat \<Rightarrow> SimBlockDevice \<Rightarrow> bool" where
  "wr_at i base k b \<longleftrightarrow> current_disk b = int i \<and> \<not> reading b \<and> writing b \<and> ack_delay b = 1 \<and>
     bytecnt b = 2 * int k \<and> sd_buff_wr b = 0 \<and> img_mounted b = 0 \<and> (\<forall>j. \<not> mountQueue b j) \<and>
     sd_buff_addr b = (if k < 256 then of_nat k else 0) \<and> \<not> d_fail (disk b i) \<and>
     d_writable (disk b i) \<and> d_open (disk b i) \<and> d_pos (disk b i) = base + 2 * k \<and>
     base + 512 \<le> length (d_data (disk b i))"

lemma core_set_wr_at [simp]: "wr_at i base k (core_set c b) = wr_at i base k b"
  by (simp add: wr_at_def)

lemma inert_wr: "wr_at i base k b \<Longrightarrow> inert cf i b"
  by (auto simp: wr_at_def intro!: inert_busy)

lemma wr_word_slot:
  assumes "wr_at i base k b" "k < 256" "\<not> ignore_scsi_writes cf"
  shows "wr_at i base (Suc k) (blk_slot cf i b)" "out_wr (core_see (blk_slot cf i b)) = 0"
    "d_data (disk (blk_slot cf i b) i) =
       (d_data (disk b i))[base + 2 * k := hi8 (sd_buff_din b i), base + 2 * k + 1 := lo8 (sd_buff_din b i)]"
    "sd_ack (blk_slot cf i b) = bitset (sd_ack b) i"
proof -
  let ?s = "sput (lo8 (sd_buff_din b i)) (sput (hi8 (sd_buff_din b i)) (disk b i))"
  have l: "Suc (base + 2 * k) < length (d_data (disk b i))" using assms(1,2) by (simp add: wr_at_def)
  then have s: "?s = (disk b i)\<lparr>d_data := (d_data (disk b i))[base + 2 * k := hi8 (sd_buff_din b i),
      base + 2 * k + 1 := lo8 (sd_buff_din b i)], d_pos := base + 2 * k + 2\<rparr>"
    using assms(1) by (simp add: sput_def wr_at_def)
  let ?b = "b\<lparr>disk := (disk b)(i := ?s), bytecnt := 2 * int k + 2,
              sd_buff_addr := (if Suc k < 256 then of_nat (Suc k) else 0)\<rparr>"
  have "(2 * int k + 2) div 2 = 1 + int k" by simp
  then have dt: "blk_data cf i b = ?b"
    using assms by (auto simp: blk_data_def wr_at_def kBLKSZ_def Let_def)
  have "blk_slot cf i b = ?b\<lparr>sd_ack := bitset (sd_ack b) i\<rparr>"
    using assms(1)
    by (simp add: blk_slot_def dt blk_mount_busy blk_start_busy blk_ack_serving wr_at_def)
  then show "wr_at i base (Suc k) (blk_slot cf i b)" "out_wr (core_see (blk_slot cf i b)) = 0"
    "d_data (disk (blk_slot cf i b) i) =
       (d_data (disk b i))[base + 2 * k := hi8 (sd_buff_din b i), base + 2 * k + 1 := lo8 (sd_buff_din b i)]"
    "sd_ack (blk_slot cf i b) = bitset (sd_ack b) i"
    using assms(1) by (simp_all add: wr_at_def core_see_def s)
qed

lemma wr_flush_slot:
  assumes "wr_at i base 256 b" "\<not> bitcheck (sd_rd b) i" "\<not> bitcheck (sd_wr b) i"
  shows "blk_free (blk_slot cf i b)" "disk (blk_slot cf i b) = disk b"
    "sd_ack (blk_slot cf i b) = bitclear (sd_ack b) i" "out_wr (core_see (blk_slot cf i b)) = 0"
proof -
  have "blk_data cf i b = b\<lparr>sd_buff_addr := 0, writing := False\<rparr>"
    using assms by (simp add: blk_data_def wr_at_def kBLKSZ_def)
  then have "blk_slot cf i b = b\<lparr>sd_buff_addr := 0, writing := False, ack_delay := 0,
                sd_ack := bitclear (sd_ack b) i, current_disk := -1\<rparr>"
    using assms by (simp add: blk_slot_def blk_mount_def blk_start_def blk_ack_def wr_at_def)
  then show "blk_free (blk_slot cf i b)" "disk (blk_slot cf i b) = disk b"
    "sd_ack (blk_slot cf i b) = bitclear (sd_ack b) i" "out_wr (core_see (blk_slot cf i b)) = 0"
    using assms(1) by (simp_all add: blk_free_def wr_at_def core_see_def)
qed

lemma eval_wr_at:
  assumes "wr_at i base k b" "k < 256" "\<not> ignore_scsi_writes cf" "i < kVDNUM"
  shows "BlkBeforeEval cf 2000 b = blk_slot cf i b"
  using assms wr_word_slot(1) [OF assms(1-3)]
  by (intro BlkBeforeEval_slot) (auto intro: inert_wr)

lemma eval_wr_flush:
  assumes "wr_at i base 256 b" "sd_rd b = 0" "sd_wr b = 0" "i < kVDNUM"
  shows "BlkBeforeEval cf 2000 b = blk_slot cf i b"
proof (rule BlkBeforeEval_slot)
  show "inert cf i b" by (rule inert_wr [OF assms(1)])
  show "inert cf i (blk_slot cf i b)"
    using wr_flush_slot(1) [OF assms(1), of cf] assms(2,3) by (intro inert_blk_free) simp_all
qed (simp_all add: assms(4))

lemma wr_words:
  assumes "wr_at i base 0 b" "i < kVDNUM" "\<not> ignore_scsi_writes cf"
    "\<forall>k x. k < 256 \<longrightarrow> in_din (core (t + k) x) = buf (unat (out_addr x))"
  shows "k \<le> 256 \<Longrightarrow> \<exists>b' os. blk_drive cf core k t b = (b', os) \<and> wr_at i base k b' \<and> strobes os = [] \<and>
     d_data (disk b' i) = take base (d_data (disk b i)) @ sector_bytes buf k @
       drop (base + 2 * k) (d_data (disk b i))"
proof (induction k)
  case 0
  then show ?case using assms(1) by (simp add: sector_bytes_def)
next
  case (Suc k)
  let ?d = "d_data (disk b i)"
  obtain b' os where IH: "blk_drive cf core k t b = (b', os)" "wr_at i base k b'" "strobes os = []"
    "d_data (disk b' i) = take base ?d @ sector_bytes buf k @ drop (base + 2 * k) ?d"
    using Suc by auto
  let ?c = "core_set (core (t + k) (core_see b')) b'"
  have k: "k < 256" using Suc.prems by simp
  have c: "wr_at i base k ?c" using IH(2) by simp
  have "sd_buff_addr b' = of_nat k" using IH(2) k by (simp add: wr_at_def)
  then have "out_addr (core_see b') = of_nat k" by (simp add: core_see_def)
  moreover have "unat (of_nat k :: u8) = k" using k by (intro of_nat_inverse) simp_all
  ultimately have din: "sd_buff_din ?c i = buf k" using assms(4) k by simp
  note w = wr_word_slot [OF c k assms(3)]
  have 1: "blk_drive cf core 1 (t + k) b' = (blk_slot cf i ?c, [core_see (blk_slot cf i ?c)])"
    by (simp add: Let_def eval_wr_at [OF c k assms(3,2)])
  have l: "base + 2 * k + 2 \<le> length ?d" using assms(1) k by (simp add: wr_at_def)
  have "d_data (disk (blk_slot cf i ?c) i) =
      (take base ?d @ sector_bytes buf k @ drop (base + 2 * k) ?d)
        [base + 2 * k := hi8 (buf k), base + 2 * k + 1 := lo8 (buf k)]"
    using w(3) din IH(4) by simp
  then have "d_data (disk (blk_slot cf i ?c) i) =
      take base ?d @ sector_bytes buf (Suc k) @ drop (base + 2 * Suc k) ?d"
    using list_update_sector [OF l] by (simp add: sector_bytes_Suc)
  then show ?case using blk_drive_add [OF IH(1) 1] w(1,2) IH(3) by simp
qed

lemma write_sector:
  assumes "blk_free b" "i < 8" "2 \<le> latency cf" "\<not> ignore_scsi_writes cf"
    "d_open (disk b i)" "d_writable (disk b i)" "unat (sd_lba b i) < 2 ^ 22"
    "512 * unat (sd_lba b i) + 512 \<le> length (d_data (disk b i))"
    "\<forall>x. in_rd (core t x) = 0 \<and> in_wr (core t x) = push_bit i 1"
    "\<forall>s x. in_din (core s x) = buf (unat (out_addr x))"
    "\<forall>x. in_rd (core (t + (nat (latency cf) + 255)) x) = 0 \<and>
         in_wr (core (t + (nat (latency cf) + 255)) x) = 0"
  shows "\<exists>b' os. blk_drive cf core (nat (latency cf) + 256) t b = (b', os) \<and> blk_free b' \<and>
     strobes os = [] \<and> \<not> bit (sd_ack b') i \<and>
     d_data (disk b' i) = take (512 * unat (sd_lba b i)) (d_data (disk b i)) @ sector_bytes buf 256 @
       drop (512 * unat (sd_lba b i) + 512) (d_data (disk b i)) \<and>
     d_open (disk b' i) \<and> d_writable (disk b' i)"
proof -
  let ?c = "core_set (core t (core_see b)) b" and ?d = "d_data (disk b i)"
  let ?base = "512 * unat (sd_lba b i)"
  let ?b1 = "blk_slot cf i ?c"
  define n where "n = nat (latency cf) - 2"
  have n: "latency cf - 1 = 1 + int n" "nat (latency cf) = n + 2" using assms(3) by (simp_all add: n_def)
  have i: "i < kVDNUM" using assms(2) by (simp add: kVDNUM_def)
  have q: "bitcheck (sd_rd ?c) i \<or> bitcheck (sd_wr ?c) i" using assms(2,9) by simp
  have ev: "BlkBeforeEval cf 2000 ?c = ?b1"
    using assms by (intro eval_accept) simp_all
  have sl: "waiting False i (1 + int n) ?b1" "disk ?b1 i = (disk b i)\<lparr>d_fail := False, d_pos := ?base\<rparr>"
    "sd_buff_addr ?b1 = 0" "out_wr (core_see ?b1) = 0"
    using assms accept_slot [of ?c i cf] q n(1)
    by (simp_all add: waiting_def blk_free_def core_see_def)
  have 1: "blk_drive cf core 1 t b = (?b1, [core_see ?b1])" by (simp add: Let_def ev)
  obtain b2 os2 where 2: "blk_drive cf core n (t + 1) ?b1 = (b2, os2)" "waiting False i 1 b2"
    "disk b2 = disk ?b1" "sd_buff_addr b2 = 0" "strobes os2 = []"
    using waiting_run [OF sl(1) i, of cf core "t + 1"] sl(3) by auto
  have w: "wr_at i ?base 0 b2"
    using 2 sl(2) assms(5,6,8) by (simp add: wr_at_def waiting_def)
  obtain b3 os3 where 3: "blk_drive cf core 256 (t + (1 + n)) b2 = (b3, os3)" "wr_at i ?base 256 b3"
    "strobes os3 = []" "d_data (disk b3 i) = take ?base (d_data (disk b2 i)) @ sector_bytes buf 256 @
      drop (?base + 2 * 256) (d_data (disk b2 i))"
    using wr_words [where core = core and buf = buf and t = "t + (1 + n)" and k = 256, OF w i assms(4)] assms(10)
    by auto
  let ?c4 = "core_set (core (t + (1 + n) + 256) (core_see b3)) b3"
  let ?b4 = "blk_slot cf i ?c4"
  have c4: "wr_at i ?base 256 ?c4" using 3(2) by simp
  have q4: "sd_rd ?c4 = 0" "sd_wr ?c4 = 0" using assms(11) n(2) by (simp_all add: ac_simps)
  have f: "blk_free ?b4" "disk ?b4 = disk ?c4" "sd_ack ?b4 = bitclear (sd_ack ?c4) i" "out_wr (core_see ?b4) = 0"
    using wr_flush_slot [OF c4] q4 by simp_all
  have 4: "blk_drive cf core 1 (t + ((1 + n) + 256)) b3 = (?b4, [core_see ?b4])"
    using eval_wr_flush [OF c4 q4 i, of cf] by (simp add: Let_def ac_simps)
  have dd: "d_data (disk b2 i) = ?d" using 2(3) sl(2) by simp
  have "blk_drive cf core (nat (latency cf) + 256) t b = (?b4, ([core_see ?b1] @ os2) @ os3 @ [core_see ?b4])"
    using blk_drive_add [OF blk_drive_add [OF blk_drive_add [OF 1 2(1)] 3(1)] 4] by (simp add: n(2))
  moreover have "d_open (disk ?b4 i)" "d_writable (disk ?b4 i)" using c4 f(2) by (simp_all add: wr_at_def)
  ultimately show ?thesis using f sl(4) 2(5) 3(3,4) dd by simp
qed

section \<open>Mounting\<close>

text \<open>Disk i is being announced and the shared delay stands at a.\<close>

definition announcing :: "nat \<Rightarrow> nat \<Rightarrow> SimBlockDevice \<Rightarrow> bool" where
  "announcing i a b \<longleftrightarrow> current_disk b = -1 \<and> \<not> reading b \<and> \<not> writing b \<and> ack_delay b = int a \<and>
     img_mounted b = 2 ^ i \<and> (\<forall>j. \<not> mountQueue b j) \<and> sd_rd b = 0 \<and> sd_wr b = 0 \<and>
     sd_buff_wr b = 0"

lemma announcing_slot:
  assumes "announcing i (Suc a) b" "j = i \<longrightarrow> a \<noteq> 0"
  shows "announcing i a (blk_slot cf j b)"
proof -
  have n: "\<not> (ack_delay b = 1 \<and> bitcheck (img_mounted b) j)"
    using assms by (auto simp: announcing_def)
  have m: "blk_mount j b = b\<lparr>ack_delay := int a\<rparr>"
    using assms(1) n by (auto simp: blk_mount_def announcing_def)
  show ?thesis using assms(1) by (simp add: blk_slot_def m blk_start_def blk_ack_def announcing_def)
qed

lemma announcing_others:
  "announcing i (length xs + a) b \<Longrightarrow> i \<notin> set xs \<Longrightarrow> announcing i a (fold (blk_slot cf) xs b)"
proof (induction xs arbitrary: b)
  case (Cons x xs)
  then have "announcing i (length xs + a) (blk_slot cf x b)" by (intro announcing_slot) auto
  with Cons show ?case by simp
qed simp

lemma slots_split: "i < kVDNUM \<Longrightarrow> [0..<kVDNUM] = [0..<i] @ i # [Suc i..<kVDNUM]"
  using upt_add_eq_append [of 0 i "kVDNUM - i"] by (simp add: upt_conv_Cons)

lemma announcing_call:
  assumes "announcing i (a + 10) b" "i < 8" "a + 10 \<noteq> Suc i"
  shows "announcing i a (BlkBeforeEval cf 2000 b)"
proof -
  have k: "i < kVDNUM" "length [Suc i..<kVDNUM] = 9 - i" using assms(2) by (simp_all add: kVDNUM_def)
  have 1: "announcing i (a + 10 - i) (fold (blk_slot cf) [0..<i] b)"
    using assms(1,2) announcing_others [of i "[0..<i]" "a + 10 - i" b cf] by simp
  have "a + 10 - i = Suc (a + (9 - i))" using assms(2) by simp
  then have 2: "announcing i (a + (9 - i)) (blk_slot cf i (fold (blk_slot cf) [0..<i] b))"
    using announcing_slot [of i "a + (9 - i)" "fold (blk_slot cf) [0..<i] b" i cf] 1 assms(2) by simp
  have "announcing i a (fold (blk_slot cf) [Suc i..<kVDNUM] (blk_slot cf i (fold (blk_slot cf) [0..<i] b)))"
    using announcing_others [of i "[Suc i..<kVDNUM]" a _ cf] 2 k(2) by (simp add: add.commute)
  then show ?thesis by (simp add: BlkBeforeEval_def slots_split [OF k(1)])
qed

lemma announcing_clear:
  assumes "announcing i (Suc i) b" "i < 8"
  shows "blk_free (BlkBeforeEval cf 2000 b)"
proof -
  have k: "i < kVDNUM" using assms(2) by (simp add: kVDNUM_def)
  define c where "c = fold (blk_slot cf) [0..<i] b"
  have c: "announcing i 1 c"
    using announcing_others [of i "[0..<i]" 1 b cf] assms by (simp add: c_def)
  define e where "e = blk_slot cf i c"
  have e: "e = c\<lparr>img_mounted := 0\<rparr>"
  proof -
    have z: "bitclear (2 ^ i) i = 0"
      by (rule bit_word_eqI) (auto simp: bitclear_def bit_simps)
    have m: "blk_mount i c = c\<lparr>img_mounted := 0\<rparr>"
      using c assms(2) by (simp add: blk_mount_def announcing_def z)
    show ?thesis using c by (simp add: e_def blk_slot_def m blk_start_def blk_ack_def announcing_def)
  qed
  define g where "g = blk_slot cf (Suc i) e"
  have g: "blk_free g" "sd_rd g = 0" "sd_wr g = 0"
    using c by (simp_all add: g_def e blk_slot_def blk_mount_def blk_start_def blk_ack_def announcing_def blk_free_def)
  have "\<forall>x\<in>set [Suc (Suc i)..<kVDNUM]. blk_slot cf x g = g"
    using g by (simp add: blk_slot_def blk_free_def blk_mount_free blk_start_def blk_ack_def)
  then have f: "fold (blk_slot cf) [Suc (Suc i)..<kVDNUM] g = g" by (rule fold_id)
  have "[Suc i..<kVDNUM] = Suc i # [Suc (Suc i)..<kVDNUM]"
    using assms(2) by (simp add: kVDNUM_def upt_conv_Cons)
  then have "BlkBeforeEval cf 2000 b = g"
    by (simp add: BlkBeforeEval_def slots_split [OF k] c_def [symmetric] e_def [symmetric] g_def [symmetric] f)
  then show ?thesis using g(1) by simp
qed

lemma core_set_idle_announcing:
  "in_rd c = 0 \<Longrightarrow> in_wr c = 0 \<Longrightarrow> announcing i a b \<Longrightarrow> announcing i a (core_set c b)"
  by (simp add: announcing_def)

text \<open>The call that issues the mount: the slots after i already count the delay down.\<close>

lemma mount_call:
  assumes "current_disk b = -1" "\<not> reading b" "\<not> writing b" "ack_delay b = 0" "img_mounted b = 0"
    "sd_buff_wr b = 0" "sd_rd b = 0" "sd_wr b = 0" "mountQueue b = (\<lambda>j. j = i)" "i < 8"
  shows "announcing i (1191 + i) (BlkBeforeEval cf 2000 b)"
    "img_size (BlkBeforeEval cf 2000 b) = of_int (disk_size b i)"
proof -
  have k: "i < kVDNUM" using assms(10) by (simp add: kVDNUM_def)
  have 1: "fold (blk_slot cf) [0..<i] b = b"
    using assms by (intro fold_id) (simp add: blk_slot_def blk_mount_free blk_start_def blk_ack_def)
  let ?m = "blk_slot cf i b"
  have m: "announcing i 1200 ?m" "img_size ?m = of_int (disk_size b i)"
    using assms
    by (auto simp: blk_slot_def blk_mount_def blk_start_def blk_ack_def announcing_def bitset_def)
  have l: "1200 = length [Suc i..<kVDNUM] + (1191 + i)" using assms(10) by (simp add: kVDNUM_def)
  have sz: "announcing i (length xs + a) x \<Longrightarrow> i \<notin> set xs \<Longrightarrow>
      img_size (fold (blk_slot cf) xs x) = img_size x" for xs a x
  proof (induction xs arbitrary: x)
    case (Cons y ys)
    have "announcing i (length ys + a) (blk_slot cf y x)"
      using Cons.prems by (intro announcing_slot) auto
    moreover have "img_size (blk_slot cf y x) = img_size x"
      using Cons.prems(1) by (simp add: blk_slot_def blk_mount_def blk_start_def blk_ack_def announcing_def)
    ultimately show ?case using Cons by simp
  qed simp
  have e: "BlkBeforeEval cf 2000 b = fold (blk_slot cf) [Suc i..<kVDNUM] ?m"
    by (simp add: BlkBeforeEval_def slots_split [OF k] 1)
  show "announcing i (1191 + i) (BlkBeforeEval cf 2000 b)"
    unfolding e by (rule announcing_others) (use m(1) l in simp_all)
  show "img_size (BlkBeforeEval cf 2000 b) = of_int (disk_size b i)"
    unfolding e using sz [of "[Suc i..<kVDNUM]" "1191 + i" ?m] m l by simp
qed

lemma announcing_run:
  "announcing i (10 * n + Suc i) b \<Longrightarrow> i < 8 \<Longrightarrow> \<forall>t x. in_rd (core t x) = 0 \<and> in_wr (core t x) = 0 \<Longrightarrow>
   m \<le> n \<Longrightarrow> announcing i (10 * (n - m) + Suc i) (fst (blk_drive cf core m t b))"
proof (induction m arbitrary: n t b)
  case (Suc m)
  then obtain n' where n': "n = Suc n'" by (cases n) auto
  let ?b1 = "BlkBeforeEval cf 2000 (core_set (core t (core_see b)) b)"
  have "announcing i (10 * n' + Suc i) ?b1"
    by (rule announcing_call) (use Suc.prems n' in \<open>auto intro: core_set_idle_announcing\<close>)
  from Suc.IH [OF this Suc.prems(2,3), of "Suc t"] show ?case
    using Suc.prems(4) n' by (simp add: Let_def case_prod_beta)
qed simp

section \<open>Properties\<close>

text \<open>C5. A sector read is exact. From a free device with disk i open and a latency of at least two
  ticks, a core that asks for sector lba of disk i and withdraws the request before the end gets, in
  exactly latency + 511 calls, 256 strobes with the addresses 0 to 255 in order, each carrying the
  big-endian pair of image bytes at its place (0xFF beyond the end of the image), all of them
  while the acknowledge bit of disk i is set; then the device is free again, the acknowledge bit is
  clear and the image unchanged. Between the first and the last call the request lines are free to
  do anything, also for other disks.\<close>

theorem blk_read_sector:
  assumes "blk_free b" "i < 8" "2 \<le> latency cf" "d_open (disk b i)" "unat (sd_lba b i) < 2 ^ 22"
    "\<forall>x. in_rd (core 0 x) = push_bit i 1 \<and> in_wr (core 0 x) = 0"
    "\<forall>x. in_rd (core (nat (latency cf) + 510) x) = 0 \<and> in_wr (core (nat (latency cf) + 510) x) = 0"
  shows "\<exists>b' os. blk_drive cf core (nat (latency cf) + 511) 0 b = (b', os) \<and> blk_free b' \<and>
     strobes os = map (\<lambda>k. (of_nat k, sector_word (d_data (disk b i)) (512 * unat (sd_lba b i)) k)) [0..<256] \<and>
     (\<forall>x\<in>set os. out_wr x = 1 \<longrightarrow> bit (out_ack x) i) \<and> \<not> bit (sd_ack b') i \<and>
     d_data (disk b' i) = d_data (disk b i)"
  using read_sector [OF assms(1-5), of core 0] assms(6,7) by (auto simp: acked_def)

definition demo_dev :: "u8 list \<Rightarrow> SimBlockDevice" where
  "demo_dev d = blk_init\<lparr>disk := (\<lambda>_. \<lparr>d_data = d, d_pos = 0, d_fail = False, d_open = True, d_writable = True\<rparr>),
                         sd_lba := (\<lambda>_. 1)\<rparr>"

definition demo_core :: "u8 \<Rightarrow> u8 \<Rightarrow> nat \<Rightarrow> core_out \<Rightarrow> core_in" where
  "demo_core rd wr t x = \<lparr>in_rd = (if t = 0 then rd else 0), in_wr = (if t = 0 then wr else 0),
                          in_din = ucast (out_addr x)\<rparr>"

theorem blk_read_sector_witness:
  "\<exists>b' os. blk_drive \<lparr>latency = 16000, ignore_scsi_writes = False\<rparr> (demo_core 2 0) 16511 0
        (demo_dev (replicate 600 7)) = (b', os) \<and> blk_free b' \<and>
     strobes os = map (\<lambda>k. (of_nat k, sector_word (replicate 600 7) 512 k)) [0..<256]"
  using blk_read_sector [of "demo_dev (replicate 600 7)" 1 "\<lparr>latency = 16000, ignore_scsi_writes = False\<rparr>"
      "demo_core 2 0"]
  by (auto simp: demo_dev_def demo_core_def blk_init_def blk_free_def)

text \<open>C13. A sector write is exact. From a free device with disk i opened for writing and the sector
  inside the image, a core whose sector buffer answers every address with its word gets, in exactly
  latency + 256 calls, the 512 bytes of the buffer stored big-endian at the sector and every other
  byte of the image unchanged; no strobe is given and the device is free again.\<close>

theorem blk_write_sector:
  assumes "blk_free b" "i < 8" "2 \<le> latency cf" "\<not> ignore_scsi_writes cf"
    "d_open (disk b i)" "d_writable (disk b i)" "unat (sd_lba b i) < 2 ^ 22"
    "512 * unat (sd_lba b i) + 512 \<le> length (d_data (disk b i))"
    "\<forall>x. in_rd (core 0 x) = 0 \<and> in_wr (core 0 x) = push_bit i 1"
    "\<forall>t x. in_din (core t x) = buf (unat (out_addr x))"
    "\<forall>x. in_rd (core (nat (latency cf) + 255) x) = 0 \<and> in_wr (core (nat (latency cf) + 255) x) = 0"
  shows "\<exists>b' os. blk_drive cf core (nat (latency cf) + 256) 0 b = (b', os) \<and> blk_free b' \<and>
     strobes os = [] \<and>
     d_data (disk b' i) = take (512 * unat (sd_lba b i)) (d_data (disk b i)) @ sector_bytes buf 256 @
       drop (512 * unat (sd_lba b i) + 512) (d_data (disk b i))"
  using write_sector [OF assms(1-8), of core 0 buf] assms(9-11) by auto

theorem blk_write_sector_witness:
  "\<exists>b' os. blk_drive \<lparr>latency = 3, ignore_scsi_writes = False\<rparr> (demo_core 0 1) 259 0
        (demo_dev (replicate 1030 7)) = (b', os) \<and>
     d_data (disk b' 0) = replicate 512 7 @ sector_bytes of_nat 256 @ replicate 6 7"
  using blk_write_sector [of "demo_dev (replicate 1030 7)" 0 "\<lparr>latency = 3, ignore_scsi_writes = False\<rparr>"
      "demo_core 0 1" of_nat]
  by (auto simp: demo_dev_def demo_core_def blk_init_def blk_free_def)

lemma sector_word_written:
  assumes "k < 256" "base + 512 \<le> length d"
  shows "sector_word (take base d @ sector_bytes buf 256 @ drop (base + 512) d) base k = buf k"
proof -
  have n: "sector_bytes buf n ! (2 * j) = hi8 (buf j) \<and> sector_bytes buf n ! (2 * j + 1) = lo8 (buf j)"
    if "j < n" for n j
    using that
  proof (induction n)
    case (Suc n)
    then show ?case by (cases "j = n") (auto simp: sector_bytes_Suc nth_append)
  qed simp
  show ?thesis using assms n [of k 256]
    by (simp add: sector_word_def img_byte_def nth_append)
qed

text \<open>What was written is read back: after a sector write, a read of the same sector of the same
  disk presents exactly the words of the buffer, in order.\<close>

theorem blk_write_read_roundtrip:
  assumes "blk_free b" "i < 8" "2 \<le> latency cf" "\<not> ignore_scsi_writes cf"
    "d_open (disk b i)" "d_writable (disk b i)" "unat (sd_lba b i) < 2 ^ 22"
    "512 * unat (sd_lba b i) + 512 \<le> length (d_data (disk b i))"
    "\<forall>x. in_rd (wcore 0 x) = 0 \<and> in_wr (wcore 0 x) = push_bit i 1"
    "\<forall>t x. in_din (wcore t x) = buf (unat (out_addr x))"
    "\<forall>x. in_rd (wcore (nat (latency cf) + 255) x) = 0 \<and> in_wr (wcore (nat (latency cf) + 255) x) = 0"
    "\<forall>x. in_rd (rcore 0 x) = push_bit i 1 \<and> in_wr (rcore 0 x) = 0"
    "\<forall>x. in_rd (rcore (nat (latency cf) + 510) x) = 0 \<and> in_wr (rcore (nat (latency cf) + 510) x) = 0"
    "blk_drive cf wcore (nat (latency cf) + 256) 0 b = (b1, os1)"
    "blk_drive cf rcore (nat (latency cf) + 511) 0 b1 = (b2, os2)"
  shows "strobes os2 = map (\<lambda>k. (of_nat k, buf k)) [0..<256] \<and> blk_free b2"
proof -
  let ?base = "512 * unat (sd_lba b i)"
  have 1: "blk_free b1" "d_open (disk b1 i)"
    "d_data (disk b1 i) = take ?base (d_data (disk b i)) @ sector_bytes buf 256 @
       drop (?base + 512) (d_data (disk b i))"
    using write_sector [OF assms(1-8), of wcore 0 buf] assms(9-11,14) by auto
  have "map (\<lambda>k. (of_nat k :: u8, sector_word (d_data (disk b1 i)) ?base k)) [0..<256] =
        map (\<lambda>k. (of_nat k, buf k)) [0..<256]"
    using sector_word_written [OF _ assms(8), of _ buf] 1(3) by simp
  then show ?thesis
    using read_sector [OF 1(1) assms(2,3) 1(2), of rcore 0] assms(7,12,13,15)
      blk_drive_lba [OF assms(14)] by simp
qed

theorem blk_write_read_roundtrip_witness:
  "\<exists>b1 os1 b2 os2.
     blk_drive \<lparr>latency = 2, ignore_scsi_writes = False\<rparr> (demo_core 0 4) 258 0 (demo_dev (replicate 1024 0)) = (b1, os1) \<and>
     blk_drive \<lparr>latency = 2, ignore_scsi_writes = False\<rparr> (demo_core 4 0) 513 0 b1 = (b2, os2) \<and>
     strobes os2 = map (\<lambda>k. (of_nat k, of_nat k)) [0..<256]"
proof -
  let ?cf = "\<lparr>latency = 2, ignore_scsi_writes = False\<rparr>" and ?d = "demo_dev (replicate 1024 0)"
  obtain b1 os1 where 1: "blk_drive ?cf (demo_core 0 4) 258 0 ?d = (b1, os1)"
    by (cases "blk_drive ?cf (demo_core 0 4) 258 0 ?d")
  obtain b2 os2 where 2: "blk_drive ?cf (demo_core 4 0) 513 0 b1 = (b2, os2)"
    by (cases "blk_drive ?cf (demo_core 4 0) 513 0 b1")
  have "strobes os2 = map (\<lambda>k. (of_nat k, ucast (of_nat k :: u8))) [0..<256] \<and> blk_free b2"
    by (rule blk_write_read_roundtrip [of ?d 2 ?cf "demo_core 0 4" "\<lambda>k. ucast (of_nat k :: u8)" "demo_core 4 0" b1 os1 b2 os2])
      (use 1 2 in \<open>simp_all add: demo_dev_def demo_core_def blk_init_def blk_free_def\<close>)
  moreover have "(ucast (of_nat k :: u8) :: u16) = of_nat k" if "k < 256" for k
    using that by (simp add: unsigned_of_nat take_bit_nat_eq_self)
  ultimately have "strobes os2 = map (\<lambda>k. (of_nat k, of_nat k)) [0..<256]" by simp
  with 1 2 show ?thesis by blast
qed

text \<open>Mounting announces the image once and for a fixed time. On an idle device with only disk i
  queued for mounting, the next call publishes the size of the image and raises the mounted flag of
  disk i alone, the flag stays up for exactly 120 calls, and the call after that lowers it and leaves
  the device free, so the flag is never left standing.\<close>

theorem blk_mount_pulse:
  assumes "current_disk b = -1" "\<not> reading b" "\<not> writing b" "ack_delay b = 0" "img_mounted b = 0"
    "sd_buff_wr b = 0" "mountQueue b = (\<lambda>j. j = i)" "i < 8"
    "\<forall>t x. in_rd (core t x) = 0 \<and> in_wr (core t x) = 0" "m < 120"
  shows "img_mounted (fst (blk_drive cf core (Suc m) 0 b)) = 2 ^ i \<and>
         img_size (fst (blk_drive cf core 1 0 b)) = of_int (disk_size b i) \<and>
         blk_free (fst (blk_drive cf core 121 0 b))"
proof -
  let ?c = "core_set (core 0 (core_see b)) b"
  let ?b1 = "BlkBeforeEval cf 2000 ?c"
  have 1: "announcing i (10 * 119 + Suc i) ?b1" "img_size ?b1 = of_int (disk_size b i)"
    using mount_call [of ?c i cf] assms by (simp_all add: core_set_def)
  have s: "fst (blk_drive cf core (Suc n) 0 b) = fst (blk_drive cf core n 1 ?b1)" for n
    by (simp add: Let_def case_prod_beta)
  have r: "announcing i (10 * (119 - n) + Suc i) (fst (blk_drive cf core n 1 ?b1))" if "n \<le> 119" for n
    by (rule announcing_run [OF 1(1) assms(8,9) that])
  obtain b2 os2 where 2: "blk_drive cf core 119 1 ?b1 = (b2, os2)" by fastforce
  have "announcing i (Suc i) (core_set (core 120 (core_see b2)) b2)"
    using r [of 119] 2 assms(9) by (intro core_set_idle_announcing) simp_all
  from announcing_clear [OF this assms(8), of cf]
  have "blk_free (fst (blk_drive cf core (119 + 1) 1 ?b1))"
    using blk_drive_add [OF 2, of 1] by (simp add: Let_def)
  then have "blk_free (fst (blk_drive cf core 121 0 b))" using s [of 120] by simp
  moreover have "img_mounted (fst (blk_drive cf core (Suc m) 0 b)) = 2 ^ i"
    unfolding s using r [of m] assms(10) by (simp add: announcing_def)
  moreover have "fst (blk_drive cf core 1 0 b) = ?b1" by (simp add: Let_def)
  ultimately show ?thesis using 1(2) by simp
qed

theorem blk_mount_pulse_witness:
  "img_mounted (fst (blk_drive \<lparr>latency = 16000, ignore_scsi_writes = False\<rparr> (demo_core 0 0) 100 0
      (blk_init\<lparr>mountQueue := (\<lambda>j. j = 1), disk_size := (\<lambda>_. 1024)\<rparr>))) = 2"
  using blk_mount_pulse [of "blk_init\<lparr>mountQueue := (\<lambda>j. j = 1), disk_size := (\<lambda>_. 1024)\<rparr>" 1 "demo_core 0 0" 99
      "\<lparr>latency = 16000, ignore_scsi_writes = False\<rparr>"]
  by (simp add: blk_init_def demo_core_def del: blk_drive.simps)

end
