(* ===== verification/ClockAudio.thy ===== *)
theory ClockAudio
  imports SimPrelude
begin

text \<open>
  The clock divider of verilator/sim/sim_clock.cpp and the audio sampler of
  verilator/sim/sim_audio.cpp, which uses a divider of its own to pick one sample out of many
  system clocks and a ring of the newest samples for the plot. A sample is kept as the 16-bit
  integer it comes from: the float the code stores is that integer divided by 32768, exactly.
\<close>

section \<open>SimClock\<close>

record SimClock =
  clk :: bool
  clk_old :: bool
  ratio :: int
  count :: int

definition SimClock_init :: "int \<Rightarrow> SimClock" where
  "SimClock_init r = \<lparr>clk = False, clk_old = False, ratio = r, count = 0\<rparr>"

definition ClockTick :: "SimClock \<Rightarrow> SimClock" where
  "ClockTick c =
     (let n = count c + 1; n' = (if n > ratio c then 0 else n)
      in c\<lparr>clk_old := clk c, count := n', clk := (n' = 0)\<rparr>)"

definition ClockReset :: "SimClock \<Rightarrow> SimClock" where
  "ClockReset c = c\<lparr>count := 0, clk := False, clk_old := False\<rparr>"

definition IsRising :: "SimClock \<Rightarrow> bool" where
  "IsRising c \<longleftrightarrow> clk c \<and> \<not> clk_old c"

text \<open>The divider after n ticks: where the counter is, and when the output rises.\<close>

lemma ticks_state:
  assumes "r \<ge> 0" "c = SimClock_init r"
  shows "(ClockTick ^^ n) c = c\<lparr>count := int n mod (r + 1),
           clk := (0 < n \<and> int n mod (r + 1) = 0),
           clk_old := (1 < n \<and> (int n - 1) mod (r + 1) = 0)\<rparr>"
proof (induction n)
  case 0
  then show ?case using assms by (simp add: SimClock_init_def)
next
  case (Suc n)
  let ?m = "int n mod (r + 1)"
  have b: "0 \<le> ?m" "?m \<le> r" using assms(1) pos_mod_bound [of "r + 1" "int n"] by simp_all
  have e: "int (Suc n) mod (r + 1) = (if ?m + 1 > r then 0 else ?m + 1)"
    using b assms(1) mod_add_left_eq [of "int n" "r + 1" 1]
    by (cases "?m = r") (simp_all add: add.commute mod_pos_pos_trivial)
  have n0: "0 < n \<longleftrightarrow> 1 < Suc n" by simp
  show ?case using Suc.IH e assms(2) by (simp add: ClockTick_def Let_def SimClock_init_def)
qed

lemma clock_rises:
  assumes "r \<ge> 1"
  shows "IsRising ((ClockTick ^^ n) (SimClock_init r)) \<longleftrightarrow> 0 < n \<and> int n mod (r + 1) = 0"
proof -
  let ?c = "(ClockTick ^^ n) (SimClock_init r)"
  have s: "clk ?c \<longleftrightarrow> 0 < n \<and> int n mod (r + 1) = 0"
    "clk_old ?c \<longleftrightarrow> 1 < n \<and> (int n - 1) mod (r + 1) = 0"
    using ticks_state [of r "SimClock_init r" n] assms by simp_all
  have "\<not> (int n mod (r + 1) = 0 \<and> (int n - 1) mod (r + 1) = 0)"
  proof
    assume "int n mod (r + 1) = 0 \<and> (int n - 1) mod (r + 1) = 0"
    then have "(r + 1) dvd int n" "(r + 1) dvd (int n - 1)" by (simp_all add: mod_eq_0_iff_dvd)
    then have "(r + 1) dvd (int n - (int n - 1))" by (rule dvd_diff)
    then show False using assms by simp
  qed
  then show ?thesis using s by (auto simp: IsRising_def)
qed

text \<open>With ratio 0 the output rises once and stays up.\<close>

lemma clock_ratio_0_stuck: "IsRising ((ClockTick ^^ n) (SimClock_init 0)) \<longleftrightarrow> n = 1"
  using ticks_state [of 0 "SimClock_init 0" n] by (auto simp: IsRising_def)

section \<open>SimAudio\<close>

definition debug_max_samples :: nat where
  "debug_max_samples = 600"

record SimAudio =
  audio_clk :: SimClock
  outputToFile :: bool
  audioFile :: "int list"
  debug_wave_l :: "int list"
  debug_wave_r :: "int list"
  debug_pos :: nat

definition SimAudio_init :: "int \<Rightarrow> bool \<Rightarrow> SimAudio" where
  "SimAudio_init systemClockFrequency saveToFile =
     \<lparr>audio_clk = SimClock_init (systemClockFrequency div 44100), outputToFile = saveToFile,
      audioFile = [], debug_wave_l = replicate debug_max_samples 0,
      debug_wave_r = replicate debug_max_samples 0, debug_pos = 0\<rparr>"

definition AudioInitialise :: "SimAudio \<Rightarrow> SimAudio" where
  "AudioInitialise a = a\<lparr>debug_wave_l := replicate debug_max_samples 0,
     debug_wave_r := replicate debug_max_samples 0\<rparr>"

definition AudioClock :: "int \<times> int \<Rightarrow> SimAudio \<Rightarrow> SimAudio" where
  "AudioClock lr a =
     (let a1 = a\<lparr>audio_clk := ClockTick (audio_clk a)\<rparr>
      in if IsRising (audio_clk a1) \<and> outputToFile a1
         then a1\<lparr>audioFile := audioFile a1 @ [fst lr]\<rparr> else a1)"

definition CollectDebug :: "int \<times> int \<Rightarrow> SimAudio \<Rightarrow> SimAudio" where
  "CollectDebug lr a =
     (let p = debug_pos a + 1; p' = (if p = debug_max_samples then 0 else p)
      in a\<lparr>debug_pos := p', debug_wave_l := (debug_wave_l a)[p' := fst lr],
           debug_wave_r := (debug_wave_r a)[p' := snd lr]\<rparr>)"

section \<open>What the sampler writes\<close>

text \<open>The divider of the sampler is ticked once per call, whatever the samples are.\<close>

lemma audio_clk_ticks: "audio_clk (fold AudioClock ins a) = (ClockTick ^^ length ins) (audio_clk a)"
  by (induction ins arbitrary: a) (simp_all add: AudioClock_def Let_def funpow_swap1)

lemma outputToFile_ticks [simp]: "outputToFile (fold AudioClock ins a) = outputToFile a"
  by (induction ins arbitrary: a) (simp_all add: AudioClock_def Let_def)

lemma audioFile_AudioClock:
  "audioFile (AudioClock lr a) =
     audioFile a @ (if IsRising (ClockTick (audio_clk a)) \<and> outputToFile a then [fst lr] else [])"
  by (simp add: AudioClock_def Let_def)

text \<open>Audio decimation. With a clock of f Hz (at least 88200) and file output on, the sampler
  writes the left channel of exactly every (f div 44100 + 1)th call, beginning with that call, and
  nothing else: for 32 MHz one sample in 726 clocks.
\<close>

theorem audio_decimates:
  assumes "f \<ge> 88200"
  shows "audioFile (fold AudioClock ins (SimAudio_init f True)) =
    map (\<lambda>k. fst (ins ! k)) (filter (\<lambda>k. int (Suc k) mod (f div 44100 + 1) = 0) [0..<length ins])"
proof (induction ins rule: rev_induct)
  case Nil
  then show ?case by (simp add: SimAudio_init_def)
next
  case (snoc x xs)
  let ?a = "fold AudioClock xs (SimAudio_init f True)" and ?r = "f div 44100"
  have r: "?r \<ge> 1" using assms by simp
  have "ClockTick (audio_clk ?a) = (ClockTick ^^ Suc (length xs)) (SimClock_init ?r)"
    by (simp add: audio_clk_ticks SimAudio_init_def)
  then have "IsRising (ClockTick (audio_clk ?a)) \<longleftrightarrow> int (Suc (length xs)) mod (?r + 1) = 0"
    using clock_rises [OF r, of "Suc (length xs)"] by (simp del: of_nat_Suc)
  moreover have "outputToFile ?a" by (simp add: SimAudio_init_def)
  ultimately have "audioFile (AudioClock x ?a) =
      audioFile ?a @ (if int (Suc (length xs)) mod (?r + 1) = 0 then [fst x] else [])"
    by (simp only: audioFile_AudioClock simp_thms)
  then show ?case using snoc by (simp add: nth_append del: of_nat_Suc)
qed

theorem audio_decimates_witness:
  "audioFile (fold AudioClock [(5, 0), (6, 0), (7, 0), (8, 0), (9, 0), (1, 0)] (SimAudio_init 88200 True))
     = [7, 1]"
  using audio_decimates [of 88200 "[(5, 0), (6, 0), (7, 0), (8, 0), (9, 0), (1, 0)]"]
  by (simp add: upt_rec)

section \<open>The ring of the plot\<close>

definition ring_ok :: "SimAudio \<Rightarrow> bool" where
  "ring_ok a \<longleftrightarrow> debug_pos a < debug_max_samples \<and> length (debug_wave_l a) = debug_max_samples \<and>
     length (debug_wave_r a) = debug_max_samples"

text \<open>The ring from its oldest entry to its newest, which is at debug_pos.\<close>

definition ring :: "SimAudio \<Rightarrow> int list" where
  "ring a = rotate (Suc (debug_pos a)) (debug_wave_l a)"

lemma ring_ok_init [simp]: "ring_ok (SimAudio_init f b)"
  by (simp add: ring_ok_def SimAudio_init_def debug_max_samples_def)

lemma ring_ok_CollectDebug [simp]: "ring_ok a \<Longrightarrow> ring_ok (CollectDebug lr a)"
  by (auto simp: ring_ok_def CollectDebug_def Let_def)

lemma rotate_update:
  assumes "p < length w"
  shows "rotate (Suc p) (w[p := x]) = tl (rotate p w) @ [x]"
proof -
  have e: "w = take p w @ w ! p # drop (Suc p) w" using assms by (simp add: id_take_nth_drop)
  have "rotate p w = drop p w @ take p w" using assms by (simp add: rotate_drop_take)
  then have t: "tl (rotate p w) = drop (Suc p) w @ take p w"
    using assms by (simp add: Cons_nth_drop_Suc [symmetric])
  have u: "w[p := x] = take p w @ x # drop (Suc p) w" using assms by (simp add: upd_conv_take_nth_drop)
  have "rotate (Suc p) (w[p := x]) = drop (Suc p) w @ take p w @ [x]"
    unfolding u using assms by (cases "Suc p = length w") (simp_all add: rotate_drop_take)
  then show ?thesis using t by simp
qed

lemma ring_CollectDebug:
  assumes "ring_ok a"
  shows "ring (CollectDebug lr a) = tl (ring a) @ [fst lr]"
proof -
  let ?p = "if debug_pos a + 1 = debug_max_samples then 0 else debug_pos a + 1"
  have p: "?p < length (debug_wave_l a)" "?p = Suc (debug_pos a) mod length (debug_wave_l a)"
    using assms by (auto simp: ring_ok_def debug_max_samples_def)
  have "ring (CollectDebug lr a) = rotate (Suc ?p) ((debug_wave_l a)[?p := fst lr])"
    by (simp add: ring_def CollectDebug_def Let_def)
  also have "\<dots> = tl (rotate ?p (debug_wave_l a)) @ [fst lr]" by (rule rotate_update [OF p(1)])
  also have "rotate ?p (debug_wave_l a) = ring a"
    unfolding ring_def p(2) by (metis rotate_conv_mod)
  finally show ?thesis .
qed

lemma ring_newest:
  assumes "ring_ok a"
  shows "ring (fold CollectDebug ms a) = drop (length ms) (ring a @ map fst ms)"
  using assms
proof (induction ms arbitrary: a)
  case (Cons m ms)
  have l: "length (ring a) = debug_max_samples" using Cons.prems by (simp add: ring_def ring_ok_def)
  then obtain z zs where r: "ring a = z # zs" by (cases "ring a") (simp_all add: debug_max_samples_def)
  show ?case using Cons.IH [of "CollectDebug m a"] Cons.prems r by (simp add: ring_CollectDebug)
qed simp

end
