(* ===== verification/VideoOut.thy ===== *)
theory VideoOut
  imports SimPrelude
begin

text \<open>
  The video capture of verilator/sim/sim_video.cpp (struct SimVideo and the file-level variables
  its functions use) and the screenshot of verilator/sim_main.cpp. A call of Clock looks at the
  blanking and sync lines of one pixel clock, keeps the beam position and writes the pixel into the
  frame buffer at a rotated, flipped and clamped position. Writing through a null buffer or outside
  of it is the value None. The two floating point statistics of the window (frame time in float and
  frames per second) are left out; the times they are computed from are kept.
\<close>

section \<open>State\<close>

record px =
  hblank :: bool
  vblank :: bool
  hsync :: bool
  vsync :: bool
  colour :: u32

text \<open>One line of the [VIDDBG] report.\<close>

record viddbg =
  vd_frame :: int
  vd_de :: nat
  vd_cmin :: u32
  vd_cmax :: u32
  vd_hbf :: nat
  vd_lineMax :: int
  vd_pixMax :: int

record SimVideo =
  output_width :: int
  output_height :: int
  output_rotate :: int
  output_vflip :: bool
  count_pixel :: int
  count_line :: int
  count_frame :: int
  last_hblank :: bool
  last_vblank :: bool
  last_hsync :: bool
  last_vsync :: bool
  frame_ready :: bool
  time_ms :: int
  old_time :: int
  frame_time :: int
  stats_xMax :: int
  stats_yMax :: int
  stats_xMin :: int
  stats_yMin :: int
  dbg_de :: nat
  dbg_cmin :: u32
  dbg_cmax :: u32
  dbg_hbf :: nat
  dbg_log :: "viddbg list"
  output_ptr :: "u32 list option"
  texture :: "u32 list"

definition SimVideo_init :: "int \<Rightarrow> int \<Rightarrow> int \<Rightarrow> SimVideo" where
  "SimVideo_init width height rot =
     \<lparr>output_width = width, output_height = height, output_rotate = rot, output_vflip = False,
      count_pixel = 0, count_line = 0, count_frame = 0,
      last_hblank = False, last_vblank = False, last_hsync = False, last_vsync = False,
      frame_ready = True, time_ms = 0, old_time = 0, frame_time = 0,
      stats_xMax = -1000, stats_yMax = -1000, stats_xMin = 1000, stats_yMin = 1000,
      dbg_de = 0, dbg_cmin = 0xFFFFFFFF, dbg_cmax = 0, dbg_hbf = 0, dbg_log = [],
      output_ptr = None, texture = []\<rparr>"

text \<open>
  Initialise allocates the buffer, fills it with 0xAA bytes and uploads it; the headless program
  only allocates it, with whatever its memory held.
\<close>

definition VideoInitialise :: "SimVideo \<Rightarrow> SimVideo" where
  "VideoInitialise v =
     (let b = replicate (nat (output_width v * output_height v)) 0xAAAAAAAA
      in v\<lparr>output_ptr := Some b, texture := b\<rparr>)"

definition headless_alloc :: "u32 list \<Rightarrow> SimVideo \<Rightarrow> SimVideo" where
  "headless_alloc junk v = v\<lparr>output_ptr := Some junk\<rparr>"

definition UpdateTexture :: "SimVideo \<Rightarrow> SimVideo" where
  "UpdateTexture v =
     (let v1 = (if frame_ready v
                then v\<lparr>texture := (case output_ptr v of None \<Rightarrow> texture v | Some b \<Rightarrow> b)\<rparr> else v)
      in v1\<lparr>frame_ready := False\<rparr>)"

section \<open>Clock\<close>

definition de :: "px \<Rightarrow> bool" where
  "de i \<longleftrightarrow> \<not> (hblank i \<or> vblank i)"

definition hb_falling :: "px \<Rightarrow> SimVideo \<Rightarrow> bool" where
  "hb_falling i v \<longleftrightarrow> \<not> hblank i \<and> last_hblank v"

definition vs_rising :: "px \<Rightarrow> SimVideo \<Rightarrow> bool" where
  "vs_rising i v \<longleftrightarrow> vsync i \<and> \<not> last_vsync v"

text \<open>The beam position.\<close>

definition vid_count :: "px \<Rightarrow> SimVideo \<Rightarrow> SimVideo" where
  "vid_count i v =
     (if vblank i then v
      else let v1 = (if hb_falling i v then v\<lparr>count_line := count_line v + 1, count_pixel := 0\<rparr> else v)
           in if de i then v1\<lparr>count_pixel := count_pixel v1 + 1\<rparr> else v1)"

text \<open>The end of a frame; now is the time of day in milliseconds.\<close>

definition vid_frame :: "int \<Rightarrow> px \<Rightarrow> SimVideo \<Rightarrow> SimVideo" where
  "vid_frame now i v =
     (if last_vsync v \<and> \<not> vsync i
      then v\<lparr>count_frame := count_frame v + 1, count_line := 0, frame_ready := True,
             time_ms := now, frame_time := now - old_time v, old_time := now\<rparr>
      else v)"

text \<open>Where the pixel of the beam position goes: rotation, flip, clamping.\<close>

definition clamp :: "int \<Rightarrow> int \<Rightarrow> int" where
  "clamp n x = (let x1 = (if x < 0 then 0 else x) in if x1 > n - 1 then n - 1 else x1)"

definition vid_target :: "int \<Rightarrow> bool \<Rightarrow> int \<Rightarrow> int \<Rightarrow> int \<Rightarrow> int \<Rightarrow> int \<times> int" where
  "vid_target rot vflip w h ox oy =
     (let (x, y) = (if rot = 1 then (w - oy, ox) else if rot = -1 then (oy, h - ox) else (ox, oy));
          y1 = (if vflip then h - y else y)
      in (clamp w x, clamp h y1))"

definition vga_addr :: "SimVideo \<Rightarrow> u32" where
  "vga_addr v =
     (case vid_target (output_rotate v) (output_vflip v) (output_width v) (output_height v)
             (count_pixel v - 1) (count_line v - 1) of
        (x, y) \<Rightarrow> of_int (y * output_width v + x))"

definition vid_draw :: "px \<Rightarrow> SimVideo \<Rightarrow> SimVideo option" where
  "vid_draw i v =
     (if de i then
        (case output_ptr v of
           None \<Rightarrow> None
         | Some b \<Rightarrow> if unat (vga_addr v) < length b
                    then Some (v\<lparr>output_ptr := Some (b[unat (vga_addr v) := colour i])\<rparr>) else None)
      else Some v)"

definition vid_stats :: "SimVideo \<Rightarrow> SimVideo" where
  "vid_stats v =
     v\<lparr>stats_xMax := max (stats_xMax v) (count_pixel v), stats_yMax := max (stats_yMax v) (count_line v),
       stats_xMin := min (stats_xMin v) (count_pixel v), stats_yMin := min (stats_yMin v) (count_line v)\<rparr>"

text \<open>The per-frame report. fell is the falling edge of hblank seen at the start of the call.\<close>

definition vid_dbg :: "bool \<Rightarrow> px \<Rightarrow> SimVideo \<Rightarrow> SimVideo" where
  "vid_dbg fell i v =
     (let v1 = (if de i
                then v\<lparr>dbg_de := dbg_de v + 1, dbg_cmin := min (colour i) (dbg_cmin v),
                       dbg_cmax := max (colour i) (dbg_cmax v)\<rparr> else v);
          v2 = (if fell then v1\<lparr>dbg_hbf := dbg_hbf v1 + 1\<rparr> else v1)
      in if vs_rising i v
         then v2\<lparr>dbg_log := dbg_log v2 @
                  [\<lparr>vd_frame = count_frame v2, vd_de = dbg_de v2, vd_cmin = dbg_cmin v2,
                    vd_cmax = dbg_cmax v2, vd_hbf = dbg_hbf v2, vd_lineMax = stats_yMax v2,
                    vd_pixMax = stats_xMax v2\<rparr>],
                dbg_de := 0, dbg_cmin := 0xFFFFFFFF, dbg_cmax := 0, dbg_hbf := 0\<rparr>
         else v2)"

definition vid_latch :: "px \<Rightarrow> SimVideo \<Rightarrow> SimVideo" where
  "vid_latch i v =
     v\<lparr>last_hblank := hblank i, last_vblank := vblank i, last_hsync := hsync i, last_vsync := vsync i\<rparr>"

definition VideoClock :: "int \<Rightarrow> px \<Rightarrow> SimVideo \<Rightarrow> SimVideo option" where
  "VideoClock now i v =
     map_option (\<lambda>v1. vid_latch i (vid_dbg (hb_falling i v) i (vid_stats v1)))
       (vid_draw i (vid_frame now i (vid_count i v)))"

text \<open>A stretch of pixel clocks; the clock of the host is read at each of them.\<close>

fun VideoRun :: "(int \<times> px) list \<Rightarrow> SimVideo \<Rightarrow> SimVideo option" where
  "VideoRun [] v = Some v"
| "VideoRun (i # is) v = Option.bind (VideoClock (fst i) (snd i) v) (VideoRun is)"

lemma VideoRun_append: "VideoRun (xs @ ys) v = Option.bind (VideoRun xs v) (VideoRun ys)"
proof (induction xs arbitrary: v)
  case (Cons x xs)
  then show ?case by (cases "VideoClock (fst x) (snd x) v") simp_all
qed simp

section \<open>Screenshot\<close>

text \<open>The three bytes of a pixel 0xFF000000 | B << 16 | G << 8 | R, in the order they are stored.\<close>

definition rgb_of :: "u32 \<Rightarrow> u8 list" where
  "rgb_of pixel = [ucast pixel, ucast (drop_bit 8 pixel), ucast (drop_bit 16 pixel)]"

text \<open>The image handed to the PNG writer: width, height and rows of bytes. None: no buffer.\<close>

definition save_screenshot :: "SimVideo \<Rightarrow> (int \<times> int \<times> u8 list) option" where
  "save_screenshot v =
     (case output_ptr v of
        None \<Rightarrow> None
      | Some b \<Rightarrow> Some (output_width v, output_height v,
          concat (map (\<lambda>y. concat (map (\<lambda>x. rgb_of (b ! (y * nat (output_width v) + x)))
                                        [0..<nat (output_width v)])) [0..<nat (output_height v)])))"

text \<open>The colour sim_main.cpp passes to Clock.\<close>

definition pack_colour :: "u8 \<Rightarrow> u8 \<Rightarrow> u8 \<Rightarrow> u32" where
  "pack_colour r g b = 0xFF000000 OR push_bit 16 (ucast b) OR push_bit 8 (ucast g) OR ucast r"

section \<open>Every pixel stays inside the buffer\<close>

definition video_ok :: "SimVideo \<Rightarrow> bool" where
  "video_ok v \<longleftrightarrow> 0 < output_width v \<and> 0 < output_height v \<and> output_width v * output_height v < 2 ^ 31 \<and>
     (\<exists>b. output_ptr v = Some b \<and> length b = nat (output_width v * output_height v))"

lemma clamp_bounds: "0 < n \<Longrightarrow> 0 \<le> clamp n x \<and> clamp n x < n"
  by (simp add: clamp_def Let_def)

lemma clamp_id: "0 \<le> x \<Longrightarrow> x < n \<Longrightarrow> clamp n x = x"
  by (simp add: clamp_def)

lemma pixel_index:
  fixes x y w h :: int
  assumes "0 \<le> x" "x < w" "0 \<le> y" "y < h" "w * h < 2 ^ 31"
  shows "unat (of_int (y * w + x) :: u32) = nat (y * w + x)" "nat (y * w + x) < nat (w * h)"
    "0 \<le> y * w + x"
proof -
  have "(y + 1) * w \<le> h * w" using assms by (intro mult_right_mono) simp_all
  then have b: "y * w + x < w * h" using assms(2) by (simp add: ring_distribs mult.commute)
  have n: "0 \<le> y * w" using assms by simp
  then show "0 \<le> y * w + x" using assms by simp
  moreover have "uint (of_int k :: u32) = k" if "0 \<le> k" "k < 2 ^ 31" for k
    using that by (simp add: uint_word_of_int take_bit_int_eq_self)
  ultimately have "uint (of_int (y * w + x) :: u32) = y * w + x" using b assms(5) by (simp only: order.strict_trans)
  then show "unat (of_int (y * w + x) :: u32) = nat (y * w + x)" by (metis nat_uint_eq)
  show "nat (y * w + x) < nat (w * h)" using b n assms by simp
qed

lemma vid_target_bounds:
  assumes "0 < w" "0 < h" "vid_target rot vf w h ox oy = (x, y)"
  shows "0 \<le> x \<and> x < w \<and> 0 \<le> y \<and> y < h"
  using assms clamp_bounds [of w] clamp_bounds [of h]
  by (auto simp: vid_target_def Let_def split: prod.splits)

lemma vga_addr_less:
  assumes "0 < output_width v" "0 < output_height v" "output_width v * output_height v < 2 ^ 31"
  shows "unat (vga_addr v) < nat (output_width v * output_height v)"
proof -
  obtain x y where t: "vid_target (output_rotate v) (output_vflip v) (output_width v)
      (output_height v) (count_pixel v - 1) (count_line v - 1) = (x, y)" by fastforce
  then show ?thesis
    using vid_target_bounds [OF assms(1,2) t] assms(3) pixel_index [of x "output_width v" y "output_height v"]
    by (simp add: vga_addr_def)
qed

text \<open>What a step of the clock leaves of the fields the later steps read.\<close>

lemma vid_step_fields [simp]:
  "output_width (vid_count i v) = output_width v" "output_height (vid_count i v) = output_height v"
  "output_rotate (vid_count i v) = output_rotate v" "output_vflip (vid_count i v) = output_vflip v"
  "output_ptr (vid_count i v) = output_ptr v" "last_vsync (vid_count i v) = last_vsync v"
  "count_frame (vid_count i v) = count_frame v" "frame_ready (vid_count i v) = frame_ready v"
  "output_width (vid_frame t i v) = output_width v" "output_height (vid_frame t i v) = output_height v"
  "output_rotate (vid_frame t i v) = output_rotate v" "output_vflip (vid_frame t i v) = output_vflip v"
  "output_ptr (vid_frame t i v) = output_ptr v" "count_pixel (vid_frame t i v) = count_pixel v"
  by (simp_all add: vid_count_def vid_frame_def Let_def)

lemma vid_tail_fields [simp]:
  fixes v :: SimVideo and f :: bool and i :: px
  defines "u \<equiv> vid_latch i (vid_dbg f i (vid_stats v))"
  shows "output_width u = output_width v" "output_height u = output_height v"
    "output_rotate u = output_rotate v" "output_vflip u = output_vflip v"
    "output_ptr u = output_ptr v" "count_pixel u = count_pixel v" "count_line u = count_line v"
    "count_frame u = count_frame v" "frame_ready u = frame_ready v"
    "last_hblank u = hblank i" "last_vsync u = vsync i" "texture u = texture v"
  unfolding u_def by (simp_all add: vid_latch_def vid_dbg_def vid_stats_def Let_def)

lemma VideoClock_ok:
  assumes "video_ok v"
  obtains v' where "VideoClock t i v = Some v'" "video_ok v'"
    "output_width v' = output_width v" "output_height v' = output_height v"
proof -
  let ?u = "vid_frame t i (vid_count i v)"
  obtain b where b: "output_ptr v = Some b" "length b = nat (output_width v * output_height v)"
    using assms by (auto simp: video_ok_def)
  have "unat (vga_addr ?u) < nat (output_width ?u * output_height ?u)"
    using assms by (intro vga_addr_less) (simp_all add: video_ok_def)
  then have l: "unat (vga_addr ?u) < length b" using b by simp
  obtain u' where u: "vid_draw i ?u = Some u'" "output_width u' = output_width v"
      "output_height u' = output_height v" "\<exists>c. output_ptr u' = Some c \<and> length c = length b"
    using l b by (cases "de i") (auto simp: vid_draw_def)
  then show ?thesis using assms b
    by (intro that [of "vid_latch i (vid_dbg (hb_falling i v) i (vid_stats u'))"])
      (auto simp: VideoClock_def video_ok_def)
qed

text \<open>Memory safety of the video capture. For every size below 2^31 pixels, rotation, flip and
  sequence of blanking, sync and colour inputs, Clock always writes inside the allocated buffer: a
  run is never undefined, and the buffer keeps its size.\<close>

theorem video_run_safe:
  assumes "video_ok v"
  shows "\<exists>v'. VideoRun is v = Some v' \<and> video_ok v'"
  using assms
proof (induction "is" arbitrary: v)
  case (Cons i "is")
  obtain v1 where "VideoClock (fst i) (snd i) v = Some v1" "video_ok v1"
    using VideoClock_ok [OF Cons.prems] by blast
  then show ?case using Cons.IH by simp
qed simp

lemma video_ok_init: "0 < w \<Longrightarrow> 0 < h \<Longrightarrow> w * h < 2 ^ 31 \<Longrightarrow> video_ok (VideoInitialise (SimVideo_init w h r))"
  by (simp add: video_ok_def VideoInitialise_def SimVideo_init_def Let_def)

theorem video_run_safe_witness:
  "\<exists>v'. VideoRun (replicate 5 (0, \<lparr>hblank = False, vblank = False, hsync = False, vsync = False, colour = 7\<rparr>))
      (VideoInitialise (SimVideo_init 640 480 (-1))) = Some v' \<and> video_ok v'"
  by (rule video_run_safe) (rule video_ok_init, simp_all)

section \<open>A frame is captured exactly\<close>

text \<open>The part of the state that a line of the picture does not change.\<close>

definition screen :: "SimVideo \<Rightarrow> int \<times> int \<times> int \<times> bool \<times> bool \<times> int" where
  "screen v = (output_width v, output_height v, output_rotate v, output_vflip v, last_vsync v, count_frame v)"

definition upright :: "nat \<Rightarrow> nat \<Rightarrow> bool \<Rightarrow> SimVideo \<Rightarrow> bool" where
  "upright w h vs v \<longleftrightarrow> screen v = (int w, int h, 0, False, vs, count_frame v) \<and> 0 < w \<and> 0 < h \<and> w * h < 2 ^ 31"

text \<open>Horizontal blanking, and the visible pixels of a line.\<close>

definition blank_run :: "bool \<Rightarrow> (int \<times> px) list \<Rightarrow> bool" where
  "blank_run vs is \<longleftrightarrow> (\<forall>i\<in>set is. hblank (snd i) \<and> vsync (snd i) = vs)"

definition active_run :: "bool \<Rightarrow> (int \<times> px) list \<Rightarrow> bool" where
  "active_run vs is \<longleftrightarrow> (\<forall>i\<in>set is. \<not> hblank (snd i) \<and> \<not> vblank (snd i) \<and> vsync (snd i) = vs)"

abbreviation pixels :: "(int \<times> px) list \<Rightarrow> u32 list" where
  "pixels is \<equiv> map (\<lambda>i. colour (snd i)) is"

lemma blit_Cons: "p < length ys \<Longrightarrow> blit p (x # xs) ys = blit (Suc p) xs (ys[p := x])"
  by (simp add: blit_def take_Suc_conv_app_nth)

lemma blit_append:
  "p \<le> length ys \<Longrightarrow> blit (p + length xs) zs (blit p xs ys) = blit p (xs @ zs) ys"
  by (simp add: blit_def add.commute add.left_commute)

lemma blit_Nil [simp]: "blit p [] ys = ys"
  by (simp add: blit_def)

lemma blit_all: "length xs = length ys \<Longrightarrow> blit 0 xs ys = xs"
  by (simp add: blit_def)

lemma vga_addr_upright:
  assumes "upright w h vs v" "count_pixel v = int (Suc x)" "count_line v = int (Suc y)" "x < w" "y < h"
  shows "unat (vga_addr v) = y * w + x" "y * w + x < w * h"
proof -
  have l: "int w * int h < 2 ^ 31" using assms(1) unfolding upright_def
    by (metis of_nat_less_iff of_nat_mult of_nat_numeral of_nat_power)
  have e: "vga_addr v = of_int (int y * int w + int x)"
    using assms by (simp add: vga_addr_def vid_target_def clamp_id upright_def screen_def)
  have i: "unat (vga_addr v) = nat (int y * int w + int x)" "nat (int y * int w + int x) < nat (int w * int h)"
    unfolding e by (rule pixel_index; use assms(4,5) l in simp)+
  have "nat (int y * int w + int x) = y * w + x" "nat (int w * int h) = w * h"
    by (metis nat_int of_nat_add of_nat_mult)+
  with i show "unat (vga_addr v) = y * w + x" "y * w + x < w * h" by simp_all
qed

lemma pixel_in_row: "x < w \<Longrightarrow> y < h \<Longrightarrow> y * w + x < w * (h :: nat)"
proof -
  assume "x < w" "y < h"
  then have "Suc y * w \<le> h * w" by (intro mult_le_mono1) simp
  then show ?thesis using \<open>x < w\<close> by (simp add: mult.commute)
qed

lemma blank_step:
  assumes "hblank i" "vsync i = last_vsync v"
  shows "\<exists>v'. VideoClock t i v = Some v' \<and> screen v' = screen v \<and> count_line v' = count_line v \<and>
    output_ptr v' = output_ptr v \<and> last_hblank v'"
  using assms
  by (simp add: VideoClock_def vid_draw_def de_def screen_def vid_frame_def vid_count_def hb_falling_def)

lemma blank_run_steps:
  assumes "blank_run (last_vsync v) is" "is \<noteq> []"
  shows "\<exists>v'. VideoRun is v = Some v' \<and> screen v' = screen v \<and> count_line v' = count_line v \<and>
    output_ptr v' = output_ptr v \<and> last_hblank v'"
  using assms
proof (induction "is" arbitrary: v)
  case (Cons i "is")
  obtain v1 where 1: "VideoClock (fst i) (snd i) v = Some v1" "screen v1 = screen v"
      "count_line v1 = count_line v" "output_ptr v1 = output_ptr v" "last_hblank v1"
    using blank_step [of "snd i" v "fst i"] Cons.prems by (auto simp: blank_run_def)
  show ?case
  proof (cases "is = []")
    case True
    then show ?thesis using 1 by simp
  next
    case False
    have "last_vsync v1 = last_vsync v" using 1(2) by (simp add: screen_def)
    then have "blank_run (last_vsync v1) is" using Cons.prems by (simp add: blank_run_def)
    from Cons.IH [OF this False] 1 show ?thesis by simp
  qed
qed simp

text \<open>One visible pixel: the first of a line, or a further one.\<close>

lemma active_step:
  assumes u: "upright w h vs v" and i: "\<not> hblank i" "\<not> vblank i" "vsync i = vs"
    and c: "(if last_hblank v then count_line v + 1 else count_line v) = int (Suc y)"
      "(if last_hblank v then 1 else count_pixel v + 1) = int (Suc x)"
    and b: "x < w" "y < h" "output_ptr v = Some b" "length b = w * h"
  shows "\<exists>v'. VideoClock t i v = Some v' \<and> screen v' = screen v \<and> count_line v' = int (Suc y) \<and>
    count_pixel v' = int (Suc x) \<and> \<not> last_hblank v' \<and> output_ptr v' = Some (b[y * w + x := colour i])"
proof -
  let ?v = "vid_frame t i (vid_count i v)"
  have vs: "last_vsync v = vs" using u by (simp add: upright_def screen_def)
  have f: "count_line ?v = int (Suc y)" "count_pixel ?v = int (Suc x)" "count_frame ?v = count_frame v"
      "last_vsync ?v = vs"
    using i c vs by (auto simp: vid_count_def vid_frame_def hb_falling_def de_def Let_def split: if_splits)
  have u2: "upright w h vs ?v" using u f by (simp add: upright_def screen_def)
  have a: "unat (vga_addr ?v) = y * w + x" "unat (vga_addr ?v) < length b"
    using vga_addr_upright [OF u2 f(2,1) b(1,2)] b(4) by simp_all
  have "vid_draw i ?v = Some (?v\<lparr>output_ptr := Some (b[y * w + x := colour i])\<rparr>)"
    using a b(3) i by (simp add: vid_draw_def de_def)
  then show ?thesis using f i vs by (simp add: VideoClock_def screen_def)
qed

lemma active_rest:
  assumes "upright w h vs v" "active_run vs is" "\<not> last_hblank v" "count_line v = int (Suc y)"
    "count_pixel v = int x" "x + length is \<le> w" "y < h" "output_ptr v = Some b" "length b = w * h"
  shows "\<exists>v'. VideoRun is v = Some v' \<and> screen v' = screen v \<and> count_line v' = int (Suc y) \<and>
    output_ptr v' = Some (blit (y * w + x) (pixels is) b)"
  using assms
proof (induction "is" arbitrary: v x b)
  case (Cons i "is")
  obtain v1 where 1: "VideoClock (fst i) (snd i) v = Some v1" "screen v1 = screen v"
      "count_line v1 = int (Suc y)" "count_pixel v1 = int (Suc x)" "\<not> last_hblank v1"
      "output_ptr v1 = Some (b[y * w + x := colour (snd i)])"
    using active_step [OF Cons.prems(1), of "snd i" y x b "fst i"] Cons.prems by (auto simp: active_run_def)
  have u: "upright w h vs v1" using Cons.prems(1) 1(2) by (simp add: upright_def screen_def)
  have "\<exists>v'. VideoRun is v1 = Some v' \<and> screen v' = screen v1 \<and> count_line v' = int (Suc y) \<and>
    output_ptr v' = Some (blit (y * w + Suc x) (pixels is) (b[y * w + x := colour (snd i)]))"
    by (rule Cons.IH [OF u _ 1(5,3,4)]) (use Cons.prems 1(6) in \<open>auto simp: active_run_def\<close>)
  moreover have "y * w + x < length b"
    using Cons.prems pixel_in_row [of x w y h] by simp
  ultimately show ?case using 1 by (simp add: blit_Cons)
qed simp

text \<open>A line is some horizontal blanking followed by w visible pixels; a picture is a list of lines.\<close>

definition row_ok :: "bool \<Rightarrow> nat \<Rightarrow> (int \<times> px) list \<times> (int \<times> px) list \<Rightarrow> bool" where
  "row_ok vs w r \<longleftrightarrow> blank_run vs (fst r) \<and> fst r \<noteq> [] \<and> active_run vs (snd r) \<and> length (snd r) = w"

abbreviation row_clocks :: "(int \<times> px) list \<times> (int \<times> px) list \<Rightarrow> (int \<times> px) list" where
  "row_clocks r \<equiv> fst r @ snd r"

abbreviation row_pixels :: "(int \<times> px) list \<times> (int \<times> px) list \<Rightarrow> u32 list" where
  "row_pixels r \<equiv> pixels (snd r)"

lemma row_exact:
  assumes "upright w h vs v" "row_ok vs w r" "count_line v = int y" "y < h"
    "output_ptr v = Some b" "length b = w * h"
  shows "\<exists>v'. VideoRun (row_clocks r) v = Some v' \<and> screen v' = screen v \<and> count_line v' = int (Suc y) \<and>
    output_ptr v' = Some (blit (y * w) (row_pixels r) b)"
proof -
  have vs: "last_vsync v = vs" and w: "0 < w" using assms(1) by (simp_all add: upright_def screen_def)
  obtain v1 where 1: "VideoRun (fst r) v = Some v1" "screen v1 = screen v" "count_line v1 = int y"
      "output_ptr v1 = Some b" "last_hblank v1"
    using blank_run_steps [of v "fst r"] assms vs by (auto simp: row_ok_def)
  obtain i "is" where r: "snd r = i # is" using assms(2) w by (cases "snd r") (auto simp: row_ok_def)
  have u1: "upright w h vs v1" using assms(1) 1(2) by (simp add: upright_def screen_def)
  obtain v2 where 2: "VideoClock (fst i) (snd i) v1 = Some v2" "screen v2 = screen v1"
      "count_line v2 = int (Suc y)" "count_pixel v2 = int (Suc 0)" "\<not> last_hblank v2"
      "output_ptr v2 = Some (b[y * w + 0 := colour (snd i)])"
    using active_step [OF u1, of "snd i" y 0 b "fst i"] assms(2,4,6) 1 w r
    by (auto simp: row_ok_def active_run_def)
  have u2: "upright w h vs v2" using u1 2(2) by (simp add: upright_def screen_def)
  have "\<exists>v'. VideoRun is v2 = Some v' \<and> screen v' = screen v2 \<and> count_line v' = int (Suc y) \<and>
      output_ptr v' = Some (blit (y * w + Suc 0) (pixels is) (b[y * w + 0 := colour (snd i)]))"
    by (rule active_rest [OF u2 _ 2(5,3,4)]) (use assms(2,4,6) 2(6) r in \<open>auto simp: row_ok_def active_run_def\<close>)
  moreover have "y * w < length b" using pixel_in_row [OF w assms(4)] assms(6) by simp
  ultimately show ?thesis using 1 2 r by (simp add: VideoRun_append blit_Cons)
qed

lemma rows_exact:
  assumes "upright w h vs v" "\<forall>r\<in>set rows. row_ok vs w r" "count_line v = int y" "y + length rows \<le> h"
    "output_ptr v = Some b" "length b = w * h"
  shows "\<exists>v'. VideoRun (concat (map row_clocks rows)) v = Some v' \<and> screen v' = screen v \<and>
    count_line v' = int (y + length rows) \<and> output_ptr v' = Some (blit (y * w) (concat (map row_pixels rows)) b)"
  using assms
proof (induction rows arbitrary: v y b)
  case (Cons r rows)
  have rw: "row_ok vs w r" "y < h" using Cons.prems(2,4) by simp_all
  obtain v1 where 1: "VideoRun (row_clocks r) v = Some v1" "screen v1 = screen v" "count_line v1 = int (Suc y)"
      "output_ptr v1 = Some (blit (y * w) (row_pixels r) b)"
    using row_exact [OF Cons.prems(1) rw(1) Cons.prems(3) rw(2) Cons.prems(5,6)] by blast
  have l: "length (row_pixels r) = w" using rw(1) by (simp add: row_ok_def)
  have "Suc y * w \<le> h * w" using rw(2) by (intro mult_le_mono1) simp
  then have le: "y * w + w \<le> length b" using Cons.prems(6) by (simp add: mult.commute)
  have "\<exists>v'. VideoRun (concat (map row_clocks rows)) v1 = Some v' \<and> screen v' = screen v1 \<and>
      count_line v' = int (Suc y + length rows) \<and>
      output_ptr v' = Some (blit (Suc y * w) (concat (map row_pixels rows)) (blit (y * w) (row_pixels r) b))"
    using Cons.prems 1 l le by (intro Cons.IH) (simp_all add: upright_def screen_def)
  moreover have "blit (Suc y * w) (concat (map row_pixels rows)) (blit (y * w) (row_pixels r) b) =
      blit (y * w) (row_pixels r @ concat (map row_pixels rows)) b"
    using blit_append [of "y * w" b "row_pixels r" "concat (map row_pixels rows)"] l le
    by (simp add: add.commute)
  moreover have "VideoRun (concat (map row_clocks (r # rows))) v = VideoRun (concat (map row_clocks rows)) v1"
    by (simp only: list.map concat.simps VideoRun_append [of "row_clocks r"] 1(1) bind.simps)
  ultimately show ?case using 1(2) by simp
qed simp

text \<open>Vertical blanking: nothing is drawn, and the frame ends at the falling edge of vsync.\<close>

lemma vblank_step:
  assumes "vblank i" "last_vsync v \<le> vsync i"
  shows "\<exists>v'. VideoClock t i v = Some v' \<and> last_vsync v' = vsync i \<and> count_frame v' = count_frame v \<and>
    output_ptr v' = output_ptr v \<and> output_width v' = output_width v \<and> output_height v' = output_height v"
  using assms by (auto simp: VideoClock_def vid_draw_def de_def vid_frame_def vid_count_def)

lemma vblank_run:
  assumes "\<forall>i\<in>set is. vblank (snd i)" "sorted (last_vsync v # map (vsync \<circ> snd) is)"
  shows "\<exists>v'. VideoRun is v = Some v' \<and> last_vsync v' = last (last_vsync v # map (vsync \<circ> snd) is) \<and>
    count_frame v' = count_frame v \<and> output_ptr v' = output_ptr v \<and>
    output_width v' = output_width v \<and> output_height v' = output_height v"
  using assms
proof (induction "is" arbitrary: v)
  case (Cons i "is")
  obtain v1 where 1: "VideoClock (fst i) (snd i) v = Some v1" "last_vsync v1 = vsync (snd i)"
      "count_frame v1 = count_frame v" "output_ptr v1 = output_ptr v"
      "output_width v1 = output_width v" "output_height v1 = output_height v"
    using vblank_step [of "snd i" v "fst i"] Cons.prems by auto
  then show ?case using Cons.IH [of v1] Cons.prems by simp
qed simp

lemma vsync_falls:
  assumes "vblank i" "last_vsync v" "\<not> vsync i"
  shows "\<exists>v'. VideoClock t i v = Some v' \<and> count_frame v' = count_frame v + 1 \<and> count_line v' = 0 \<and>
    frame_ready v' \<and> output_ptr v' = output_ptr v \<and>
    output_width v' = output_width v \<and> output_height v' = output_height v"
  using assms by (simp add: VideoClock_def vid_draw_def de_def vid_frame_def vid_count_def)

section \<open>The screenshot\<close>

lemma rgb_of_pack_colour: "rgb_of (pack_colour r g b) = [r, g, b]"
proof -
  define K :: u32 where "K = push_bit 24 (mask 8)"
  have k: "(0xFF000000 :: u32) = K" by (simp add: K_def mask_eq_exp_minus_1 push_bit_eq_mult)
  have h: "bit K n \<longleftrightarrow> 24 \<le> n \<and> n < 32" for n by (auto simp: K_def bit_simps)
  show ?thesis unfolding rgb_of_def pack_colour_def k
    by (intro list.inject [THEN iffD2] conjI refl; rule bit_word_eqI)
      (auto simp: bit_simps h dest: bit_imp_le_length)
qed

lemma rows_of_upt:
  "concat (map (\<lambda>y. concat (map (\<lambda>x. f (b ! (y * w + x))) [0..<w])) [0..<h]) = concat (map f (take (w * h) b))"
  if "w * h \<le> length b" for w h :: nat
  using that
proof (induction h)
  case (Suc h)
  have "map f (take (w * Suc h) b) = map f (take (w * h) b) @ map (\<lambda>x. f (b ! (h * w + x))) [0..<w]"
  proof -
    have "take (w * h + w) b = take (w * h) b @ take w (drop (w * h) b)" by (simp add: take_add)
    moreover have "take w (drop (w * h) b) = map (\<lambda>x. b ! (h * w + x)) [0..<w]"
      using Suc.prems by (intro nth_equalityI) (simp_all add: mult.commute)
    ultimately show ?thesis by (simp add: add.commute)
  qed
  then show ?case using Suc by simp
qed simp

lemma screenshot_all:
  assumes "output_ptr v = Some b" "output_width v = int w" "output_height v = int h" "length b = w * h"
  shows "save_screenshot v = Some (int w, int h, concat (map rgb_of b))"
  using assms rows_of_upt [of w h b rgb_of] by (simp add: save_screenshot_def)

section \<open>The whole frame\<close>

text \<open>C7. A frame is captured exactly. Feed the capture, not rotated and at the top of a frame,
  h lines of w pixels (each after some horizontal blanking, with any horizontal sync), then vertical
  blanking in which vsync falls once, at the last clock: the frame counter advances by one, and the
  buffer and the texture uploaded next are the pixels in reading order, and a screenshot consists
  of their red, green and blue bytes.\<close>

theorem video_frame_exact:
  assumes "upright w h vs v" "count_line v = 0" "output_ptr v = Some b" "length b = w * h"
    and "length rows = h" "\<forall>r\<in>set rows. row_ok vs w r"
    and "\<forall>i\<in>set tail. vblank (snd i)" "sorted (vs # map (vsync \<circ> snd) tail)"
      "last (vs # map (vsync \<circ> snd) tail)" "vblank (snd e)" "\<not> vsync (snd e)"
  shows "\<exists>v'. VideoRun (concat (map row_clocks rows) @ tail @ [e]) v = Some v' \<and>
    count_frame v' = count_frame v + 1 \<and> count_line v' = 0 \<and>
    output_ptr v' = Some (concat (map row_pixels rows)) \<and>
    texture (UpdateTexture v') = concat (map row_pixels rows) \<and>
    save_screenshot v' = Some (int w, int h, concat (map rgb_of (concat (map row_pixels rows))))"
proof -
  let ?p = "concat (map row_pixels rows)"
  have c0: "count_line v = int 0" and le: "0 + length rows \<le> h" using assms(2,5) by simp_all
  have len: "length ?p = w * h"
    using assms(5,6) by (induction rows arbitrary: h) (auto simp: row_ok_def)
  then have lp: "blit (0 * w) ?p b = ?p" using blit_all [of ?p b] assms(4) by simp
  obtain v1 where 1: "VideoRun (concat (map row_clocks rows)) v = Some v1" "screen v1 = screen v"
      "output_ptr v1 = Some ?p"
    using rows_exact [OF assms(1,6) c0 le assms(3,4)] unfolding lp by blast
  have s: "last_vsync v1 = vs" "count_frame v1 = count_frame v"
    using 1(2) assms(1) by (simp_all add: upright_def screen_def)
  obtain v2 where 2: "VideoRun tail v1 = Some v2" "last_vsync v2" "count_frame v2 = count_frame v"
      "output_ptr v2 = Some ?p"
      "output_width v2 = int w" "output_height v2 = int h"
    using vblank_run [of tail v1] assms(1,7,8,9) s 1(2,3) by (auto simp: upright_def screen_def)
  obtain v3 where 3: "VideoClock (fst e) (snd e) v2 = Some v3" "count_frame v3 = count_frame v + 1"
      "count_line v3 = 0" "frame_ready v3" "output_ptr v3 = Some ?p"
      "output_width v3 = int w" "output_height v3 = int h"
    using vsync_falls [of "snd e" v2 "fst e"] assms(10,11) 2 by auto
  then show ?thesis using 1 2 screenshot_all [OF 3(5,6,7) len] by (simp add: VideoRun_append UpdateTexture_def)
qed

text \<open>The frame of a two by two picture, with the vertical sync as a positive pulse.\<close>

definition demo_px :: "bool \<Rightarrow> bool \<Rightarrow> bool \<Rightarrow> u32 \<Rightarrow> int \<times> px" where
  "demo_px hb vb vs c = (0, \<lparr>hblank = hb, vblank = vb, hsync = hb, vsync = vs, colour = c\<rparr>)"

definition demo_rows :: "((int \<times> px) list \<times> (int \<times> px) list) list" where
  "demo_rows = [([demo_px True True False 0], [demo_px False False False 1, demo_px False False False 2]),
                ([demo_px True False False 0], [demo_px False False False 3, demo_px False False False 4])]"

theorem video_frame_exact_witness:
  "\<exists>v'. VideoRun (concat (map row_clocks demo_rows) @ [demo_px True True True 0] @ [demo_px True True False 0])
      (VideoInitialise (SimVideo_init 2 2 0)) = Some v' \<and>
    count_frame v' = count_frame (VideoInitialise (SimVideo_init 2 2 0)) + 1 \<and> count_line v' = 0 \<and>
    output_ptr v' = Some (concat (map row_pixels demo_rows)) \<and>
    texture (UpdateTexture v') = concat (map row_pixels demo_rows) \<and>
    save_screenshot v' = Some (int 2, int 2, concat (map rgb_of (concat (map row_pixels demo_rows))))"
  by (rule video_frame_exact [where w = 2 and h = 2 and vs = False and b = "replicate 4 0xAAAAAAAA"])
    (simp_all add: upright_def screen_def VideoInitialise_def SimVideo_init_def demo_rows_def demo_px_def
      row_ok_def blank_run_def active_run_def Let_def)

section \<open>Rotation and flip\<close>

text \<open>Rotation and flip lose a line. Rotated to the left, the first two pixels of every line have
  the same place; rotated to the right, or flipped, the first two lines have the same places; and the
  flip leaves row 0 of the buffer unwritten by every pixel of the picture: the mirrored coordinate is
  computed one too large and clamped.\<close>

theorem video_transform_collides:
  "vid_target (-1) False w h 0 oy = vid_target (-1) False w h 1 oy \<and>
   vid_target 1 False w h ox 0 = vid_target 1 False w h ox 1 \<and>
   vid_target 0 True w h ox 0 = vid_target 0 True w h ox 1 \<and>
   (1 < h \<longrightarrow> oy < h \<longrightarrow> snd (vid_target 0 True w h ox oy) \<noteq> 0)"
  by (simp add: vid_target_def clamp_def Let_def)

theorem video_transform_collides_witness:
  "snd (vid_target 0 True 640 480 5 479) \<noteq> 0"
  using video_transform_collides [of 640 480 479 5] by simp

end
