(* ===== verification/KeyInput.thy ===== *)
theory KeyInput
  imports SimPrelude
begin

text \<open>
  The keyboard of verilator/sim/sim_input.cpp: the tables from scan codes to PS/2 codes, the scan
  of the host keyboard that queues an event for every key that changed, and the delivery of the
  queued events to the core, one at a time with a pause in between. The host keyboard (SDL or
  DirectInput) is an argument: the array of key states. Reading or writing outside of an array is
  the value None. Both builds of the file are modelled: the SDL one, and the WIN32 one with its own
  table and scan.
\<close>

section \<open>Tables\<close>

definition NONE :: u32 where "NONE = 0xFF"
definition EXT :: u32 where "EXT = 0x080000"
definition EMU_SWITCH_1 :: u32 where "EMU_SWITCH_1 = 0x100000"
definition EMU_SWITCH_2 :: u32 where "EMU_SWITCH_2 = 0x200000"

definition ev2ps2_sdl_low :: "u32 list" where
  "ev2ps2_sdl_low =
     [NONE, NONE, NONE, NONE, 0x1c, 0x32, 0x21, 0x23, 0x24, 0x2b, 0x34, 0x33, 0x43, 0x3b,
     0x42, 0x4b, 0x3a, 0x31, 0x44, 0x4d, 0x15, 0x2d, 0x1b, 0x2c, 0x3c, 0x2a, 0x1d, 0x22,
     0x35, 0x1a, 0x16, 0x1e, 0x26, 0x25, 0x2e, 0x36, 0x3d, 0x3e, 0x46, 0x45, 0x5a, 0x76,
     0x66, 0x0d, 0x29, 0x4e, 0x55, 0x54, 0x5b, 0x5d, NONE, 0x4c, 0x52, 0x0e, 0x41, 0x49,
     0x4a, 0x58, 0x05, 0x06, 0x04, 0x0c, 0x03, 0x0b, 0x83, 0x0a, 0x01, 0x09, 0x78, 0x07,
     NONE, EMU_SWITCH_1 OR 0x7E, 0xE1, EXT OR 0x70, EXT OR 0x6c, EXT OR 0x7d, EXT OR 0x71,
     EXT OR 0x69, EXT OR 0x7a, EXT OR 0x74, EXT OR 0x6b, EXT OR 0x72, EXT OR 0x75,
     EMU_SWITCH_2 OR 0x77, EXT OR 0x4a, 0x7c, 0x7b, 0x79, EXT OR 0x5a, 0x69, 0x72, 0x7a,
     0x6b, 0x73, 0x74, 0x6c, 0x75, 0x7d, 0x70, 0x71]"

definition ev2ps2_sdl_high :: "u32 list" where
  "ev2ps2_sdl_high =
     replicate 8 NONE @ [EMU_SWITCH_1 OR 1, EMU_SWITCH_1 OR 2, EMU_SWITCH_1 OR 3,
     EMU_SWITCH_1 OR 4] @ replicate 113 NONE @ [0x12, 0x11, NONE, EXT OR 0x14, 0x59, EXT OR
     0x11]"

definition ev2ps2_sdl :: "u32 list" where
  "ev2ps2_sdl = ev2ps2_sdl_low @ ev2ps2_sdl_high"

definition ev2ps2_win_low :: "u32 list" where
  "ev2ps2_win_low =
     [NONE, 0x76, 0x16, 0x1e, 0x26, 0x25, 0x2e, 0x36, 0x3d, 0x3e, 0x46, 0x45, 0x4e, 0x55,
     0x66, 0x0d, 0x15, 0x1d, 0x24, 0x2d, 0x2c, 0x35, 0x3c, 0x43, 0x44, 0x4d, 0x54, 0x5b,
     0x5a, 0x14, 0x1c, 0x1b, 0x23, 0x2b, 0x34, 0x33, 0x3b, 0x42, 0x4b, 0x4c, 0x52, 0x0e,
     0x12, 0x5d, 0x1a, 0x22, 0x21, 0x2a, 0x32, 0x31, 0x3a, 0x41, 0x49, 0x4a, 0x59, 0x7c,
     0x11, 0x29, 0x58, 0x05, 0x06, 0x04, 0x0c, 0x03, 0x0b, 0x83, 0x0a, 0x01, 0x09,
     EMU_SWITCH_2 OR 0x77, EMU_SWITCH_1 OR 0x7E, 0x6c, 0x75, 0x7d, 0x7b, 0x6b, 0x73, 0x74,
     0x79, 0x69, 0x72, 0x7a, 0x70, 0x71, NONE, NONE, 0x61, 0x78, 0x07, NONE, NONE, NONE,
     NONE, NONE, NONE, NONE, EXT OR 0x5a, EXT OR 0x14, EXT OR 0x4a, 0xE2, EXT OR 0x11, NONE,
     EXT OR 0x6c, EXT OR 0x75, EXT OR 0x7d, EXT OR 0x6b, EXT OR 0x74, EXT OR 0x69, EXT OR
     0x72, EXT OR 0x7a, EXT OR 0x70, EXT OR 0x71, NONE, NONE, NONE, NONE, NONE, NONE, NONE,
     0xE1, NONE, NONE, NONE, NONE, NONE, EXT OR 0x1f, EXT OR 0x27, NONE]"

definition ev2ps2_win_high :: "u32 list" where
  "ev2ps2_win_high =
     replicate 59 NONE @ [EMU_SWITCH_1 OR 1, EMU_SWITCH_1 OR 2, EMU_SWITCH_1 OR 3,
     EMU_SWITCH_1 OR 4, NONE, NONE, NONE, 0x5D, NONE, NONE, NONE, NONE, NONE, EXT OR 0x75,
     NONE, NONE, EXT OR 0x6b, NONE, EXT OR 0x74, NONE, NONE, EXT OR 0x72] @ replicate 47
     NONE"

definition ev2ps2_win :: "u32 list" where
  "ev2ps2_win = ev2ps2_win_low @ ev2ps2_win_high"

section \<open>State\<close>

record PS2KeyEvent =
  ev_code :: u8
  ev_pressed :: bool
  ev_extended :: bool
  ev_mapped :: u32

record SimInput =
  inputCount :: nat
  inputs :: "bool list"
  mappings :: "int list"
  ps2_key :: u16
  keyEvents :: "PS2KeyEvent list"
  keyEventTimer :: u32
  keyEventWait :: u32
  ps2_clock :: bool
  keyboard_last :: "u8 list option"

definition SimInput_init :: "nat \<Rightarrow> SimInput" where
  "SimInput_init n =
     \<lparr>inputCount = n, inputs = replicate 16 False, mappings = replicate 16 0, ps2_key = 0,
      keyEvents = [], keyEventTimer = 0, keyEventWait = 50000, ps2_clock = True, keyboard_last = None\<rparr>"

definition SetMapping :: "nat \<Rightarrow> int \<Rightarrow> SimInput \<Rightarrow> SimInput option" where
  "SetMapping index kcode s =
     (if index < length (mappings s)
      then Some (s\<lparr>mappings := (mappings s)[index := (if kcode < 256 then kcode else 0)]\<rparr>) else None)"

section \<open>Reading the keyboard\<close>

text \<open>The first loop of Read: one input line per mapped key. down says how a key state reads.\<close>

definition read_inputs :: "(u8 \<Rightarrow> bool) \<Rightarrow> u8 list \<Rightarrow> SimInput \<Rightarrow> SimInput option" where
  "read_inputs down kb s =
     (if inputCount s \<le> length (inputs s) \<and> inputCount s \<le> length (mappings s) \<and>
         list_all (\<lambda>m. 0 \<le> m \<and> nat m < length kb) (take (inputCount s) (mappings s))
      then Some (s\<lparr>inputs := map (\<lambda>m. down (kb ! nat m)) (take (inputCount s) (mappings s)) @
                              drop (inputCount s) (inputs s)\<rparr>)
      else None)"

definition sdl_event :: "nat \<Rightarrow> u8 \<Rightarrow> u32 \<Rightarrow> PS2KeyEvent" where
  "sdl_event k now m = \<lparr>ev_code = of_nat k, ev_pressed = (now \<noteq> 0), ev_extended = False, ev_mapped = m\<rparr>"

definition win_event :: "nat \<Rightarrow> u8 \<Rightarrow> u32 \<Rightarrow> PS2KeyEvent" where
  "win_event k now m =
     \<lparr>ev_code = of_nat k, ev_pressed = (now \<noteq> 0), ev_extended = (m AND EXT \<noteq> 0), ev_mapped = m\<rparr>"

text \<open>The second loop, from key k on: an event for each key whose state changed. The table is read
  for changed keys only; reading it past its end is None.\<close>

fun scan_keys :: "(nat \<Rightarrow> u8 \<Rightarrow> u32 \<Rightarrow> PS2KeyEvent) \<Rightarrow> u32 list \<Rightarrow> nat \<Rightarrow> u8 list \<Rightarrow> u8 list \<Rightarrow> PS2KeyEvent list option" where
  "scan_keys mk tbl k (l # ls) (n # ns) =
     (if l \<noteq> n then
        (if k < length tbl then map_option (Cons (mk k n (tbl ! k))) (scan_keys mk tbl (Suc k) ls ns) else None)
      else scan_keys mk tbl (Suc k) ls ns)"
| "scan_keys mk tbl k _ _ = Some []"

definition ReadSdl :: "u8 list \<Rightarrow> SimInput \<Rightarrow> SimInput option" where
  "ReadSdl kb s =
     (let last = (case keyboard_last s of None \<Rightarrow> replicate (length kb) 0 | Some l \<Rightarrow> l)
      in Option.bind (read_inputs (\<lambda>k. k \<noteq> 0) kb s) (\<lambda>s1.
         Option.bind (scan_keys sdl_event ev2ps2_sdl 0 last kb) (\<lambda>es.
         Some (s1\<lparr>keyEvents := keyEvents s1 @ es, keyboard_last := Some kb\<rparr>))))"

text \<open>The WIN32 build reads the high bit for the input lines and scans 220 of its 256 keys; its
  array of last states exists from the start.\<close>

definition ReadWin :: "u8 list \<Rightarrow> SimInput \<Rightarrow> SimInput option" where
  "ReadWin kb s =
     (let last = (case keyboard_last s of None \<Rightarrow> replicate 256 0 | Some l \<Rightarrow> l)
      in Option.bind (read_inputs (\<lambda>k. k AND 0x80 \<noteq> 0) kb s) (\<lambda>s1.
         Option.bind (scan_keys win_event ev2ps2_win 0 (take 220 last) (take 220 kb)) (\<lambda>es.
         Some (s1\<lparr>keyEvents := keyEvents s1 @ es, keyboard_last := Some (take 220 kb @ drop 220 last)\<rparr>))))"

section \<open>Delivery to the core\<close>

definition key_word :: "bool \<Rightarrow> PS2KeyEvent \<Rightarrow> u16" where
  "key_word clock e =
     ucast (ev_mapped e OR (if ev_extended e then push_bit 8 1 else 0) OR
            (if ev_pressed e then push_bit 9 1 else 0) OR (if clock then push_bit 10 1 else 0))"

definition InputBeforeEval :: "SimInput \<Rightarrow> SimInput" where
  "InputBeforeEval s =
     (if keyEventTimer s = 0 then
        (case keyEvents s of
           [] \<Rightarrow> s
         | e # es \<Rightarrow> s\<lparr>keyEvents := es, ps2_key := key_word (ps2_clock s) e, ps2_clock := \<not> ps2_clock s,
                       keyEventTimer := keyEventWait s\<rparr>)
      else s\<lparr>keyEventTimer := keyEventTimer s - 1\<rparr>)"

section \<open>Every key event is delivered in order, with its pause\<close>

lemma pause:
  "j \<le> unat (keyEventTimer s) \<Longrightarrow> (InputBeforeEval ^^ j) s = s\<lparr>keyEventTimer := keyEventTimer s - of_nat j\<rparr>"
proof (induction j)
  case (Suc j)
  let ?t = "keyEventTimer s"
  have "?t - of_nat j \<noteq> 0"
  proof
    assume "?t - of_nat j = 0"
    then have "unat ?t = unat (of_nat j :: u32)" by simp
    also have "\<dots> \<le> j" by (simp add: unat_of_nat)
    finally show False using Suc.prems by simp
  qed
  then show ?case using Suc by (simp add: InputBeforeEval_def diff_diff_eq add.commute)
qed simp

text \<open>One event and the pause after it.\<close>

lemma deliver:
  assumes "keyEventTimer s = 0" "keyEvents s = e # es" "j \<le> unat (keyEventWait s)"
  shows "(InputBeforeEval ^^ Suc j) s =
    s\<lparr>keyEvents := es, ps2_key := key_word (ps2_clock s) e, ps2_clock := \<not> ps2_clock s,
      keyEventTimer := keyEventWait s - of_nat j\<rparr>"
proof -
  let ?s = "InputBeforeEval s"
  have s: "?s = s\<lparr>keyEvents := es, ps2_key := key_word (ps2_clock s) e, ps2_clock := \<not> ps2_clock s,
      keyEventTimer := keyEventWait s\<rparr>"
    using assms by (simp add: InputBeforeEval_def)
  have "(InputBeforeEval ^^ Suc j) s = (InputBeforeEval ^^ j) ?s" by (simp add: funpow_swap1)
  also have "\<dots> = ?s\<lparr>keyEventTimer := keyEventTimer ?s - of_nat j\<rparr>"
    by (rule pause) (use assms(3) s in simp)
  finally show ?thesis by (simp add: s)
qed



section \<open>The events say what the keyboard did\<close>

abbreviation down :: "u8 \<Rightarrow> bool" where
  "down x \<equiv> x \<noteq> 0"

text \<open>A listener that keeps its own picture of the keyboard.\<close>

definition apply_key :: "PS2KeyEvent \<Rightarrow> bool list \<Rightarrow> bool list" where
  "apply_key e ks = ks[unat (ev_code e) := ev_pressed e]"

lemma length_ev2ps2 [simp]: "length ev2ps2_sdl = 231" "length ev2ps2_win = 256"
  by (simp_all add: ev2ps2_sdl_def ev2ps2_sdl_low_def ev2ps2_sdl_high_def
      ev2ps2_win_def ev2ps2_win_low_def ev2ps2_win_high_def)

lemma scan_keys_replay:
  assumes "scan_keys sdl_event tbl (length pre) ls ns = Some es" "length ls = length ns" "length tbl \<le> 256"
  shows "fold apply_key es (pre @ map down ls) = pre @ map down ns"
  using assms
proof (induction ls ns arbitrary: pre es rule: list_induct2')
  case (4 l ls n ns)
  have IH: "fold apply_key es' (pre @ down n # map down ls) = pre @ down n # map down ns"
    if "scan_keys sdl_event tbl (Suc (length pre)) ls ns = Some es'" for es'
    using "4.IH" [of "pre @ [down n]" es'] that "4.prems" by simp
  show ?case
  proof (cases "l = n")
    case True
    then show ?thesis using IH "4.prems" by simp
  next
    case False
    then have k: "length pre < 256" and "\<exists>es'. es = sdl_event (length pre) n (tbl ! length pre) # es' \<and>
        scan_keys sdl_event tbl (Suc (length pre)) ls ns = Some es'"
      using "4.prems" by (auto split: if_splits)
    then obtain es' where es: "es = sdl_event (length pre) n (tbl ! length pre) # es'"
        "scan_keys sdl_event tbl (Suc (length pre)) ls ns = Some es'" by blast
    have "apply_key (sdl_event (length pre) n (tbl ! length pre)) (pre @ down l # map down ls) =
        pre @ down n # map down ls"
      using k by (simp add: apply_key_def sdl_event_def unat_of_nat)
    then show ?thesis using IH [OF es(2)] es(1) by simp
  qed
qed simp_all

lemma scan_keys_defined:
  "length ls = length ns \<Longrightarrow>
   scan_keys mk tbl k ls ns = None \<longleftrightarrow> (\<exists>i<length ls. length tbl \<le> k + i \<and> ls ! i \<noteq> ns ! i)"
proof (induction ls ns arbitrary: k rule: list_induct2')
  case (4 l ls n ns)
  have "(\<exists>i<length (l # ls). length tbl \<le> k + i \<and> (l # ls) ! i \<noteq> (n # ns) ! i) \<longleftrightarrow>
      length tbl \<le> k \<and> l \<noteq> n \<or> (\<exists>i<length ls. length tbl \<le> Suc k + i \<and> ls ! i \<noteq> ns ! i)"
    by (simp add: Ex_less_Suc2)
  then show ?case using "4.IH" [of "Suc k"] "4.prems" by auto
qed simp_all

text \<open>C30. Reading the keyboard. A scan of the SDL build queues, after the events already there,
  events that lead a listener from the previous picture of the keyboard to the present one, as long
  as only keys of the table changed; a change of any key from scan code 231 on reads past the end
  of the table.\<close>

theorem read_replays:
  assumes "keyboard_last s = Some prev" "length prev = length kb" "read_inputs down kb s \<noteq> None"
  shows "((\<forall>k<length kb. 231 \<le> k \<longrightarrow> prev ! k = kb ! k) \<longrightarrow>
      (\<exists>s' es. ReadSdl kb s = Some s' \<and> keyEvents s' = keyEvents s @ es \<and> keyboard_last s' = Some kb \<and>
         fold apply_key es (map down prev) = map down kb)) \<and>
    ((\<exists>k<length kb. 231 \<le> k \<and> prev ! k \<noteq> kb ! k) \<longrightarrow> ReadSdl kb s = None)"
proof -
  obtain s1 where s1: "read_inputs down kb s = Some s1" "keyEvents s1 = keyEvents s"
    using assms(3) by (auto simp: read_inputs_def split: if_splits)
  have d: "scan_keys sdl_event ev2ps2_sdl 0 prev kb = None \<longleftrightarrow> (\<exists>k<length kb. 231 \<le> k \<and> prev ! k \<noteq> kb ! k)"
    using scan_keys_defined [of prev kb sdl_event ev2ps2_sdl 0] assms(2) by simp
  show ?thesis
  proof (cases "scan_keys sdl_event ev2ps2_sdl 0 prev kb")
    case None
    then show ?thesis using d s1 assms(1) by (auto simp: ReadSdl_def)
  next
    case (Some es)
    have "fold apply_key es (map down prev) = map down kb"
      using scan_keys_replay [of ev2ps2_sdl "[]" prev kb es] Some assms(2) by simp
    then show ?thesis using d s1 assms(1) Some by (auto simp: ReadSdl_def)
  qed
qed

theorem read_replays_witness:
  "ReadSdl ((replicate 512 0)[231 := 1]) ((SimInput_init 13)\<lparr>keyboard_last := Some (replicate 512 0)\<rparr>) = None"
proof -
  let ?s = "(SimInput_init 13)\<lparr>keyboard_last := Some (replicate 512 0)\<rparr>" and ?kb = "(replicate 512 0)[231 := 1] :: u8 list"
  have "read_inputs down ?kb ?s \<noteq> None" by (simp add: read_inputs_def SimInput_init_def list_all_iff)
  moreover have "\<exists>k<length ?kb. 231 \<le> k \<and> replicate 512 0 ! k \<noteq> ?kb ! k" by (rule exI [of _ 231]) simp
  ultimately show ?thesis using read_replays [of ?s "replicate 512 0" ?kb] by simp
qed

section \<open>Extended keys\<close>

text \<open>The SDL build loses the extended flag. No event of its scan has bit 8 of the key word set,
  so the arrow keys send the words of the keypad digits; the WIN32 build sets the bit for them.\<close>

theorem sdl_extended_lost:
  "(\<forall>k<231. \<not> bit (key_word c (sdl_event k x (ev2ps2_sdl ! k))) 8) \<and>
   key_word c (sdl_event 79 x (ev2ps2_sdl ! 79)) = key_word c (sdl_event 94 x (ev2ps2_sdl ! 94)) \<and>
   key_word c (win_event 205 x (ev2ps2_win ! 205)) \<noteq> key_word c (win_event 77 x (ev2ps2_win ! 77))"
proof -
  have "list_all (\<lambda>m. \<not> bit m 8) ev2ps2_sdl"
    by (simp add: ev2ps2_sdl_def ev2ps2_sdl_low_def ev2ps2_sdl_high_def NONE_def EXT_def
        EMU_SWITCH_1_def EMU_SWITCH_2_def bit_simps list_all_iff)
  then have "\<not> bit (ev2ps2_sdl ! k) 8" if "k < 231" for k using that by (simp add: list_all_length)
  then have "\<forall>k<231. \<not> bit (key_word c (sdl_event k x (ev2ps2_sdl ! k))) 8"
    by (simp add: key_word_def sdl_event_def bit_simps)
  moreover have "ev2ps2_sdl ! 79 = EXT OR 0x74" "ev2ps2_sdl ! 94 = 0x74"
    by (simp_all add: ev2ps2_sdl_def ev2ps2_sdl_low_def nth_append)
  moreover have "ev2ps2_win ! 205 = EXT OR 0x74" "ev2ps2_win ! 77 = 0x74"
    by (simp_all add: ev2ps2_win_def ev2ps2_win_low_def ev2ps2_win_high_def nth_append)
  ultimately show ?thesis
    by (cases c; cases "x = 0") (simp_all add: key_word_def sdl_event_def win_event_def EXT_def push_bit_eq_mult)
qed

section \<open>Keyboards the table covers\<close>

definition keyboard_ok :: "u8 list \<Rightarrow> bool" where
  "keyboard_ok kb \<longleftrightarrow> length kb = 512 \<and> list_all (\<lambda>x. x = 0) (drop 231 kb)"

definition keys_ok :: "SimInput \<Rightarrow> bool" where
  "keys_ok s \<longleftrightarrow> inputCount s \<le> length (inputs s) \<and> inputCount s \<le> length (mappings s) \<and>
     list_all (\<lambda>m. 0 \<le> m \<and> m < 256) (mappings s) \<and> (\<forall>l. keyboard_last s = Some l \<longrightarrow> keyboard_ok l)"

lemma keyboard_ok_zero: "keyboard_ok kb \<Longrightarrow> 231 \<le> i \<Longrightarrow> i < 512 \<Longrightarrow> kb ! i = 0"
  unfolding keyboard_ok_def list_all_length
  by (elim conjE allE [of _ "i - 231"]) simp

lemma ReadSdl_ok:
  assumes "keys_ok s" "keyboard_ok kb"
  obtains s' where "ReadSdl kb s = Some s'" "keys_ok s'"
proof -
  let ?prev = "case keyboard_last s of None \<Rightarrow> replicate (length kb) 0 | Some l \<Rightarrow> l"
  have kb: "length kb = 512" using assms(2) by (simp add: keyboard_ok_def)
  have p: "keyboard_ok ?prev" using assms kb by (auto simp: keys_ok_def keyboard_ok_def list_all_iff split: option.split)
  then have "length ?prev = 512" by (simp add: keyboard_ok_def)
  moreover have "?prev ! i = kb ! i" if "231 \<le> i" "i < 512" for i
    using keyboard_ok_zero [OF p that] keyboard_ok_zero [OF assms(2) that] by simp
  ultimately have "scan_keys sdl_event ev2ps2_sdl 0 ?prev kb \<noteq> None"
    using scan_keys_defined [of ?prev kb sdl_event ev2ps2_sdl 0] kb by auto
  then obtain es where es: "scan_keys sdl_event ev2ps2_sdl 0 ?prev kb = Some es" by blast
  have "list_all (\<lambda>m. 0 \<le> m \<and> nat m < length kb) (take (inputCount s) (mappings s))"
    using assms(1) kb by (fastforce simp: keys_ok_def list_all_iff dest: in_set_takeD)
  then have "ReadSdl kb s = Some (s\<lparr>inputs := map (\<lambda>m. kb ! nat m \<noteq> 0) (take (inputCount s) (mappings s)) @
      drop (inputCount s) (inputs s), keyEvents := keyEvents s @ es, keyboard_last := Some kb\<rparr>)"
    using assms(1) es by (simp add: ReadSdl_def Let_def read_inputs_def keys_ok_def)
  then show ?thesis using that assms by (simp add: keys_ok_def)
qed

lemma InputBeforeEval_ok [simp]: "keys_ok (InputBeforeEval s) = keys_ok s"
  by (simp add: InputBeforeEval_def keys_ok_def split: list.split)

end
