(* ===== verification/CpuTrace.thy ===== *)
theory CpuTrace
  imports SimPrelude
begin

text \<open>
  The instruction tracer of verilator/sim_main.cpp (the block "CPU trace output" of verilate) with
  the helpers of verilator/sim/m68k_dasm_stubs.cpp. The core shows every code-space word it fetches;
  the tracer buffers consecutive fetches and uses the length the disassembler reports to tell
  opcodes from extension words. The disassembler (m68k_disassemble_raw of the Musashi sources) is a
  parameter: from an address and 16 bytes to a text and a length in bytes. Formatting of the lines
  is left out; a line is the entry and the text.
\<close>

section \<open>Disassembly helpers\<close>

type_synonym dasm = "u32 \<Rightarrow> u8 list \<Rightarrow> string \<times> nat"

definition opdata :: "u16 list \<Rightarrow> u8 list" where
  "opdata ws = (let bs = concat (map (\<lambda>w. [hi8 w, lo8 w]) (take 5 ws)) in bs @ replicate (16 - length bs) 0)"

definition disassemble_68k :: "dasm \<Rightarrow> u32 \<Rightarrow> u16 \<Rightarrow> string" where
  "disassemble_68k d pc w = fst (d pc ([hi8 w, lo8 w] @ replicate 14 0))"

definition disassemble_68k_ext :: "dasm \<Rightarrow> u32 \<Rightarrow> u16 list \<Rightarrow> nat \<Rightarrow> string" where
  "disassemble_68k_ext d pc opwords num_words = fst (d pc (opdata (take num_words opwords)))"

definition disassemble_68k_ext_len :: "dasm \<Rightarrow> u32 \<Rightarrow> u16 list \<Rightarrow> nat \<Rightarrow> string \<times> nat" where
  "disassemble_68k_ext_len d pc opwords num_words = d pc (opdata (take num_words opwords))"

section \<open>State\<close>

record FetchEntry =
  fe_pc :: u32
  fe_word :: u16
  fe_frame :: int
  fe_data_addr :: u32

definition FETCH_BUF_SIZE :: nat where
  "FETCH_BUF_SIZE = 8"

datatype trace_line = FrameMark int | Line FetchEntry string

record Tracer =
  fetch_buf :: "FetchEntry list"
  cpu_trace_last_pc :: u32
  cpu_trace_count :: nat
  cpu_trace_last_frame :: int
  trace_from_frame :: int
  trace_to_frame :: int
  trace_console :: "(FetchEntry \<times> string) list"
  cpu_trace_file :: "trace_line list option"

definition Tracer_init :: "int \<Rightarrow> int \<Rightarrow> trace_line list option \<Rightarrow> Tracer" where
  "Tracer_init a b f =
     \<lparr>fetch_buf = [], cpu_trace_last_pc = 0xFFFFFFFF, cpu_trace_count = 0, cpu_trace_last_frame = -1,
      trace_from_frame = a, trace_to_frame = b, trace_console = [], cpu_trace_file = f\<rparr>"

section \<open>Operations\<close>

text \<open>A line to the console, and to the file when the frame is in the window.\<close>

definition emit_line :: "FetchEntry \<Rightarrow> string \<Rightarrow> Tracer \<Rightarrow> Tracer" where
  "emit_line e dis t =
     (let t1 = t\<lparr>cpu_trace_count := cpu_trace_count t + 1, trace_console := trace_console t @ [(e, dis)]\<rparr>
      in case cpu_trace_file t1 of
           None \<Rightarrow> t1
         | Some f \<Rightarrow>
            (if trace_from_frame t1 \<le> fe_frame e \<and> fe_frame e \<le> trace_to_frame t1 then
              (let f1 = (if fe_frame e \<noteq> cpu_trace_last_frame t1 then f @ [FrameMark (fe_frame e)] else f)
               in t1\<lparr>cpu_trace_last_frame := fe_frame e, cpu_trace_file := Some (f1 @ [Line e dis])\<rparr>)
             else t1))"

text \<open>The words of the disassembler call: the array of five is zero where no entry is.\<close>

definition opwords :: "FetchEntry list \<Rightarrow> u16 list" where
  "opwords es = map fe_word (take 5 es) @ replicate (5 - length es) 0"

text \<open>Emit the first entry; the result is the number of words the instruction has.\<close>

definition emit_first :: "dasm \<Rightarrow> nat \<Rightarrow> FetchEntry list \<Rightarrow> Tracer \<Rightarrow> nat \<times> Tracer" where
  "emit_first d avail es t =
     (case disassemble_68k_ext_len d (fe_pc (hd es)) (opwords es) avail of (dis, len) \<Rightarrow>
        let len1 = (if len < 2 then 2 else len) in (len1 div 2, emit_line (hd es) dis t))"

lemma emit_first_pos [simp]: "0 < fst (emit_first d n es t)"
  by (auto simp: emit_first_def Let_def split: prod.splits)

text \<open>The loop that empties the buffer after a branch.\<close>

function flush :: "dasm \<Rightarrow> FetchEntry list \<Rightarrow> Tracer \<Rightarrow> Tracer" where
  "flush d es t =
     (if es = [] then t
      else case emit_first d (length es) es t of (words, t1) \<Rightarrow> flush d (drop words es) t1)"
  by pat_completeness auto
termination
proof (relation "measure (\<lambda>(d, es, t). length es)")
  fix d es t words t1
  assume "es \<noteq> []" and e: "(words, t1) = emit_first d (length es) es t"
  have "0 < words" using emit_first_pos [of d "length es" es t] by (simp add: e [symmetric])
  then show "((d, drop words es, t1), (d, es, t)) \<in> measure (\<lambda>(d, es, t). length es)"
    using \<open>es \<noteq> []\<close> by simp
qed simp

declare flush.simps [simp del]

definition sequential :: "u32 \<Rightarrow> Tracer \<Rightarrow> bool" where
  "sequential pc t \<longleftrightarrow> fetch_buf t \<noteq> [] \<and> pc = fe_pc (last (fetch_buf t)) + 2"

text \<open>A branch: every buffered instruction is written and the buffer is emptied.\<close>

definition flush_if_branch :: "dasm \<Rightarrow> FetchEntry \<Rightarrow> Tracer \<Rightarrow> Tracer" where
  "flush_if_branch d e t =
     (if \<not> sequential (fe_pc e) t \<and> fetch_buf t \<noteq> []
      then (flush d (fetch_buf t) t)\<lparr>fetch_buf := []\<rparr> else t)"

text \<open>Append the fetch; when the buffer is full, write the oldest instruction first.\<close>

definition append_fetch :: "dasm \<Rightarrow> FetchEntry \<Rightarrow> Tracer \<Rightarrow> Tracer" where
  "append_fetch d e t =
     (if length (fetch_buf t) < FETCH_BUF_SIZE then t\<lparr>fetch_buf := fetch_buf t @ [e]\<rparr>
      else case emit_first d 5 (fetch_buf t) t of (words, t1) \<Rightarrow>
             let words1 = (if words > FETCH_BUF_SIZE then FETCH_BUF_SIZE else words)
             in t1\<lparr>fetch_buf := drop words1 (fetch_buf t) @ [e]\<rparr>)"

definition trace_fetch :: "dasm \<Rightarrow> FetchEntry \<Rightarrow> Tracer \<Rightarrow> Tracer" where
  "trace_fetch d e t =
     (if fe_pc e \<noteq> cpu_trace_last_pc t
      then append_fetch d e (flush_if_branch d e (t\<lparr>cpu_trace_last_pc := fe_pc e\<rparr>)) else t)"

section \<open>The buffer and the file in every run\<close>

abbreviation in_window :: "Tracer \<Rightarrow> FetchEntry \<Rightarrow> bool" where
  "in_window t e \<equiv> trace_from_frame t \<le> fe_frame e \<and> fe_frame e \<le> trace_to_frame t"

fun line_of :: "trace_line \<Rightarrow> FetchEntry list" where
  "line_of (Line e _) = [e]"
| "line_of (FrameMark _) = []"

text \<open>The file holds the lines of the console that are in the window, in the same order.\<close>

definition file_agrees :: "Tracer \<Rightarrow> bool" where
  "file_agrees t \<longleftrightarrow> (\<forall>f. cpu_trace_file t = Some f \<longrightarrow>
     concat (map line_of f) = filter (in_window t) (map fst (trace_console t)))"

definition trace_ok :: "Tracer \<Rightarrow> bool" where
  "trace_ok t \<longleftrightarrow> length (fetch_buf t) \<le> FETCH_BUF_SIZE \<and> file_agrees t \<and>
     cpu_trace_count t = length (trace_console t)"

lemma emit_line_fields [simp]:
  "fetch_buf (emit_line e x t) = fetch_buf t" "cpu_trace_last_pc (emit_line e x t) = cpu_trace_last_pc t"
  "trace_console (emit_line e x t) = trace_console t @ [(e, x)]"
  "cpu_trace_count (emit_line e x t) = cpu_trace_count t + 1"
  "trace_from_frame (emit_line e x t) = trace_from_frame t" "trace_to_frame (emit_line e x t) = trace_to_frame t"
  by (simp_all add: emit_line_def Let_def split: option.split)

lemma emit_line_agrees: "file_agrees t \<Longrightarrow> file_agrees (emit_line e x t)"
  by (auto simp: file_agrees_def emit_line_def Let_def split: option.split)

lemma emit_first_snd:
  "snd (emit_first d n es t) = emit_line (hd es) (fst (disassemble_68k_ext_len d (fe_pc (hd es)) (opwords es) n)) t"
  by (simp add: emit_first_def Let_def split: prod.split)

text \<open>What a step of the tracer may rely on when it writes lines.\<close>

lemma flush_induct_step:
  assumes "\<And>e x t. P t \<Longrightarrow> P (emit_line e x t)" "P t"
  shows "P (flush d es t)"
  using assms(2)
proof (induction d es t rule: flush.induct)
  case (1 d es t)
  show ?case
  proof (cases "es = []")
    case False
    obtain words t1 where e: "emit_first d (length es) es t = (words, t1)" by fastforce
    then have "P t1" using assms(1) [OF "1.prems"] emit_first_snd [of d "length es" es t] by simp
    then show ?thesis using "1.IH" [OF False e [symmetric]] e False by (subst flush.simps) simp
  qed (simp add: flush.simps "1.prems")
qed

lemma flush_fetch_buf [simp]: "fetch_buf (flush d es t) = fetch_buf t"
  by (rule flush_induct_step [of "\<lambda>u. fetch_buf u = fetch_buf t"]) simp_all

lemma flush_last_pc [simp]: "cpu_trace_last_pc (flush d es t) = cpu_trace_last_pc t"
  by (rule flush_induct_step [of "\<lambda>u. cpu_trace_last_pc u = cpu_trace_last_pc t"]) simp_all

definition written_ok :: "Tracer \<Rightarrow> bool" where
  "written_ok t \<longleftrightarrow> file_agrees t \<and> cpu_trace_count t = length (trace_console t)"

lemma written_ok_buf [simp]: "written_ok (t\<lparr>fetch_buf := b\<rparr>) = written_ok t"
  "written_ok (t\<lparr>cpu_trace_last_pc := p\<rparr>) = written_ok t"
  by (simp_all add: written_ok_def file_agrees_def)

lemma written_ok_emit_line: "written_ok t \<Longrightarrow> written_ok (emit_line e x t)"
  by (simp add: written_ok_def emit_line_agrees)

lemma written_ok_flush: "written_ok t \<Longrightarrow> written_ok (flush d es t)"
  by (rule flush_induct_step) (simp_all add: written_ok_emit_line)

lemma trace_fetch_ok:
  assumes "trace_ok t"
  shows "trace_ok (trace_fetch d e t)"
proof -
  let ?t = "flush_if_branch d e (t\<lparr>cpu_trace_last_pc := fe_pc e\<rparr>)"
  have f: "written_ok ?t" "length (fetch_buf ?t) \<le> FETCH_BUF_SIZE"
    using assms by (auto simp: trace_ok_def written_ok_def [symmetric] flush_if_branch_def written_ok_flush)
  have "written_ok (snd (emit_first d 5 (fetch_buf ?t) ?t))"
    using f(1) by (simp add: emit_first_snd written_ok_emit_line)
  moreover have "0 < fst (emit_first d 5 (fetch_buf ?t) ?t)" by simp
  ultimately have "written_ok (append_fetch d e ?t) \<and> length (fetch_buf (append_fetch d e ?t)) \<le> FETCH_BUF_SIZE"
    using f by (cases "emit_first d 5 (fetch_buf ?t) ?t") (auto simp: append_fetch_def Let_def FETCH_BUF_SIZE_def)
  then show ?thesis using assms by (simp add: trace_fetch_def trace_ok_def written_ok_def)
qed

text \<open>The tracer as a clocked component: its invariant holds in every run.\<close>

interpretation tracer: clocked "\<lambda>t e. (trace_fetch d e t, ())" trace_ok "\<lambda>_. True" "\<lambda>_ _. True" for d
  by unfold_locales (simp_all add: trace_fetch_ok)

text \<open>The tracer in every run. Whatever words the core fetches and whatever the disassembler
  answers, at most eight entries are buffered, the number of traced instructions is the number of
  console lines, and the lines in the file are exactly the console lines whose frame is in the
  window, in order.\<close>

theorem trace_run_ok:
  "trace_ok (fst (run (\<lambda>t e. (trace_fetch d e t, ())) (Tracer_init a b (Some [])) es))"
  by (rule tracer.run_inv) (simp_all add: trace_ok_def Tracer_init_def file_agrees_def FETCH_BUF_SIZE_def)

section \<open>Straight code is traced instruction by instruction\<close>

text \<open>
  An instruction is the list of its fetches. The disassembler knows it when, whatever follows in
  memory, it reports its length.
\<close>

definition knows :: "dasm \<Rightarrow> FetchEntry list \<Rightarrow> bool" where
  "knows d i \<longleftrightarrow> i \<noteq> [] \<and> length i \<le> FETCH_BUF_SIZE \<and>
     (\<forall>rest. snd (d (fe_pc (hd i)) (opdata (map fe_word i @ rest))) = 2 * length i)"

text \<open>Consecutive fetches.\<close>

fun straight :: "FetchEntry list \<Rightarrow> bool" where
  "straight (e # f # es) \<longleftrightarrow> fe_pc f = fe_pc e + 2 \<and> straight (f # es)"
| "straight _ \<longleftrightarrow> True"

text \<open>
  The flow of a program, after a fetch from p: straight runs of known instructions, each run entered
  by a jump to another place than the word fetched last or the one after it.
\<close>

fun flow :: "dasm \<Rightarrow> u32 \<Rightarrow> FetchEntry list list list \<Rightarrow> bool" where
  "flow d p [] \<longleftrightarrow> True"
| "flow d p (r # rs) \<longleftrightarrow> r \<noteq> [] \<and> (\<forall>i\<in>set r. knows d i) \<and> straight (concat r) \<and>
     fe_pc (hd (concat r)) \<noteq> p \<and> fe_pc (hd (concat r)) \<noteq> p + 2 \<and> flow d (fe_pc (last (concat r))) rs"

lemma zero_bytes: "concat (replicate n [hi8 0, lo8 0]) = replicate (2 * n) 0"
  by (induction n) (simp_all add: hi8_def lo8_def)

lemma opdata_opwords:
  assumes "min 5 (length es) \<le> n"
  shows "opdata (take n (opwords es)) = opdata (map fe_word es)"
proof (cases "5 \<le> length es")
  case True
  then have "take n (opwords es) = map fe_word (take 5 es)" using assms by (simp add: opwords_def)
  then show ?thesis by (simp add: opdata_def Let_def take_map)
next
  case False
  define m where "m = min (n - length es) (5 - length es)"
  have e: "take n (opwords es) = map fe_word es @ replicate m 0"
    using False assms by (simp add: opwords_def m_def)
  have "length es + m \<le> 5" using False by (auto simp: m_def)
  then show ?thesis unfolding e
    by (simp add: opdata_def Let_def zero_bytes length_concat comp_def sum_list_replicate sum_list_triv replicate_add [symmetric])
qed

lemma emit_first_knows:
  assumes "knows d i" "min 5 (length (i @ es)) \<le> n"
  shows "\<exists>dis. emit_first d n (i @ es) t = (length i, emit_line (hd i) dis t)"
proof -
  let ?r = "d (fe_pc (hd i)) (opdata (map fe_word (i @ es)))"
  have h: "hd (i @ es) = hd i" "i \<noteq> []" using assms(1) by (simp_all add: knows_def)
  have "disassemble_68k_ext_len d (fe_pc (hd i)) (opwords (i @ es)) n = ?r"
    using opdata_opwords [OF assms(2)] by (simp add: disassemble_68k_ext_len_def)
  moreover have "snd ?r = 2 * length i" using assms(1) by (simp add: knows_def)
  moreover have "\<not> 2 * length i < 2" using h(2) by (cases i) simp_all
  ultimately show ?thesis using h by (cases ?r) (auto simp: emit_first_def)
qed

lemma flush_knows:
  "\<forall>i\<in>set ks. knows d i \<Longrightarrow>
   map fst (trace_console (flush d (concat ks) t)) = map fst (trace_console t) @ map hd ks"
proof (induction ks arbitrary: t)
  case Nil
  then show ?case by (simp add: flush.simps)
next
  case (Cons i ks)
  then have k: "knows d i" by simp
  then have ne: "i \<noteq> []" by (simp add: knows_def)
  obtain dis where "emit_first d (length (i @ concat ks)) (i @ concat ks) t = (length i, emit_line (hd i) dis t)"
    using emit_first_knows [OF k] by (metis min.cobounded2)
  then have "flush d (concat (i # ks)) t = flush d (concat ks) (emit_line (hd i) dis t)"
    using ne by (subst flush.simps) simp
  then show ?case using Cons by simp
qed

lemma straight_suffix: "straight (as @ bs) \<Longrightarrow> straight bs"
proof (induction as)
  case (Cons a as)
  then show ?case by (cases "as @ bs") simp_all
qed simp

lemma straight_join: "B \<noteq> [] \<Longrightarrow> straight (B @ r # R) \<Longrightarrow> fe_pc r = fe_pc (last B) + 2"
  using straight_suffix [of "butlast B" "last B # r # R"] by (cases B rule: rev_cases) simp_all

lemma flow_feed:
  assumes "fetch_buf t \<noteq> []" "fetch_buf t @ R = concat is" "\<forall>i\<in>set is. knows d i"
    "straight (fetch_buf t @ R)" "cpu_trace_last_pc t = fe_pc (last (fetch_buf t))"
    "length (fetch_buf t) \<le> FETCH_BUF_SIZE"
  shows "\<exists>js ks. is = js @ ks \<and> fetch_buf (fold (trace_fetch d) R t) = concat ks \<and>
    map fst (trace_console (fold (trace_fetch d) R t)) = map fst (trace_console t) @ map hd js \<and>
    cpu_trace_last_pc (fold (trace_fetch d) R t) = fe_pc (last (concat is)) \<and>
    last (concat ks) = last (concat is) \<and> concat ks \<noteq> []"
  using assms
proof (induction R arbitrary: t "is")
  case Nil
  then show ?case by (intro exI [of _ "[]"] exI [of _ "is"]) simp
next
  case (Cons r R)
  let ?B = "fetch_buf t" and ?t = "t\<lparr>cpu_trace_last_pc := fe_pc r\<rparr>"
  have pc: "fe_pc r = fe_pc (last ?B) + 2"
    using Cons.prems(1,4) by (rule straight_join)
  have st: "straight ((bs @ [r]) @ R)" if "?B = as @ bs" for as bs
    using Cons.prems(4) that straight_suffix [of as "bs @ r # R"] by simp
  have step: "trace_fetch d r t = append_fetch d r ?t"
    using pc Cons.prems(1,5) by (simp add: trace_fetch_def flush_if_branch_def sequential_def)
  show ?case
  proof (cases "length ?B < FETCH_BUF_SIZE")
    case True
    then have t1: "trace_fetch d r t = ?t\<lparr>fetch_buf := ?B @ [r]\<rparr>" by (simp add: step append_fetch_def)
    show ?thesis using Cons.IH [of "trace_fetch d r t" "is"] Cons.prems st [of "[]" ?B] True t1 by simp
  next
    case False
    obtain i is' where i: "is = i # is'" using Cons.prems(1,2) by (cases "is") simp_all
    have k: "knows d i" using Cons.prems(3) i by simp
    have li: "length i \<le> length ?B" using k False by (simp add: knows_def)
    have bi: "?B = i @ drop (length i) ?B"
    proof -
      have "take (length i) ?B = take (length i) (?B @ r # R)" using li by simp
      also have "\<dots> = i" using Cons.prems(2) i by simp
      finally show ?thesis by (metis append_take_drop_id)
    qed
    obtain dis where e: "emit_first d 5 ?B ?t = (length i, emit_line (hd i) dis ?t)"
      using emit_first_knows [OF k, of "drop (length i) ?B" 5 ?t] bi by auto
    have t1: "trace_fetch d r t = (emit_line (hd i) dis ?t)\<lparr>fetch_buf := drop (length i) ?B @ [r]\<rparr>"
      using False e k by (simp add: step append_fetch_def knows_def)
    have c: "(drop (length i) ?B @ [r]) @ R = concat is'"
      using Cons.prems(2) i bi by (metis append_assoc append_Cons append_Nil concat.simps(2) same_append_eq)
    let ?u = "trace_fetch d r t"
    have u: "fetch_buf ?u = drop (length i) ?B @ [r]" "cpu_trace_last_pc ?u = fe_pc r"
      "map fst (trace_console ?u) = map fst (trace_console t) @ [hd i]"
      by (simp_all add: t1)
    have "\<exists>js ks. is' = js @ ks \<and> fetch_buf (fold (trace_fetch d) R ?u) = concat ks \<and>
      map fst (trace_console (fold (trace_fetch d) R ?u)) = map fst (trace_console ?u) @ map hd js \<and>
      cpu_trace_last_pc (fold (trace_fetch d) R ?u) = fe_pc (last (concat is')) \<and>
      last (concat ks) = last (concat is') \<and> concat ks \<noteq> []"
    proof (rule Cons.IH)
      show "length (fetch_buf ?u) \<le> FETCH_BUF_SIZE"
        using Cons.prems(6) k li by (cases i) (simp_all add: u(1) knows_def)
    qed (use u c Cons.prems(3) i st [OF bi] in simp_all)
    then obtain js ks where jk: "is' = js @ ks" "fetch_buf (fold (trace_fetch d) R ?u) = concat ks"
      "map fst (trace_console (fold (trace_fetch d) R ?u)) = map fst (trace_console ?u) @ map hd js"
      "cpu_trace_last_pc (fold (trace_fetch d) R ?u) = fe_pc (last (concat is'))"
      "last (concat ks) = last (concat is')" "concat ks \<noteq> []"
      by blast
    have "concat is' \<noteq> []" unfolding c [symmetric] by simp
    then have "last (concat is) = last (concat is')" by (simp only: i concat.simps last_append if_False)
    moreover have "is = (i # js) @ ks" by (simp add: i jk(1))
    moreover have "map fst (trace_console (fold (trace_fetch d) R ?u)) = map fst (trace_console t) @ map hd (i # js)"
      by (simp add: jk(3) u(3))
    ultimately show ?thesis using jk(2,4,5,6) unfolding fold_Cons comp_apply by metis
  qed
qed

text \<open>A jump writes what is buffered, then the new run is followed.\<close>

lemma flow_run:
  assumes "fetch_buf t = concat ks" "\<forall>i\<in>set ks. knows d i"
    "fetch_buf t \<noteq> [] \<longrightarrow> cpu_trace_last_pc t = fe_pc (last (fetch_buf t))"
    "r \<noteq> []" "\<forall>i\<in>set r. knows d i" "straight (concat r)"
    "fe_pc (hd (concat r)) \<noteq> cpu_trace_last_pc t" "fe_pc (hd (concat r)) \<noteq> cpu_trace_last_pc t + 2"
  shows "\<exists>js ks'. r = js @ ks' \<and> fetch_buf (fold (trace_fetch d) (concat r) t) = concat ks' \<and>
    map fst (trace_console (fold (trace_fetch d) (concat r) t)) = map fst (trace_console t) @ map hd ks @ map hd js \<and>
    cpu_trace_last_pc (fold (trace_fetch d) (concat r) t) = fe_pc (last (concat r)) \<and>
    last (concat ks') = last (concat r) \<and> concat ks' \<noteq> []"
proof -
  obtain e R where r: "concat r = e # R" using assms(4,5) by (cases r; cases "hd r") (auto simp: knows_def)
  let ?t = "t\<lparr>cpu_trace_last_pc := fe_pc e\<rparr>" and ?u = "trace_fetch d e t"
  have f: "flush_if_branch d e ?t = (if concat ks = [] then ?t else (flush d (concat ks) ?t)\<lparr>fetch_buf := []\<rparr>)"
    using assms(1,3,8) r by (auto simp: flush_if_branch_def sequential_def)
  have fb: "fetch_buf (flush_if_branch d e ?t) = []" "cpu_trace_last_pc (flush_if_branch d e ?t) = fe_pc e"
    using assms(1) unfolding f by (cases "concat ks = []"; simp)+
  have s: "?u = (flush_if_branch d e ?t)\<lparr>fetch_buf := [e]\<rparr>"
    using assms(7) r fb by (simp add: trace_fetch_def append_fetch_def FETCH_BUF_SIZE_def)
  have u: "fetch_buf ?u = [e]" "cpu_trace_last_pc ?u = fe_pc e" by (simp_all add: s fb)
  have "map fst (trace_console (flush_if_branch d e ?t)) = map fst (trace_console t) @ map hd ks"
  proof (cases "ks = []")
    case False
    then have "concat ks \<noteq> []" using assms(2) by (cases ks) (auto simp: knows_def)
    then show ?thesis using flush_knows [OF assms(2), of ?t] by (simp only: f if_False) simp
  qed (simp add: f)
  then have c: "map fst (trace_console ?u) = map fst (trace_console t) @ map hd ks"
    by (simp add: s)
  have "\<exists>js ks'. r = js @ ks' \<and> fetch_buf (fold (trace_fetch d) R ?u) = concat ks' \<and>
    map fst (trace_console (fold (trace_fetch d) R ?u)) = map fst (trace_console ?u) @ map hd js \<and>
    cpu_trace_last_pc (fold (trace_fetch d) R ?u) = fe_pc (last (concat r)) \<and>
    last (concat ks') = last (concat r) \<and> concat ks' \<noteq> []"
    by (rule flow_feed) (use u r assms(5,6) in \<open>simp_all add: FETCH_BUF_SIZE_def\<close>)
  then show ?thesis by (simp add: c r)
qed

lemma flow_runs:
  assumes "fetch_buf t = concat ks" "\<forall>i\<in>set ks. knows d i"
    "fetch_buf t \<noteq> [] \<longrightarrow> cpu_trace_last_pc t = fe_pc (last (fetch_buf t))"
    "flow d (cpu_trace_last_pc t) runs"
  shows "\<exists>ks'. fetch_buf (fold (trace_fetch d) (concat (concat runs)) t) = concat ks' \<and>
    map fst (trace_console (fold (trace_fetch d) (concat (concat runs)) t)) @ map hd ks' =
      map fst (trace_console t) @ map hd ks @ map hd (concat runs)"
  using assms
proof (induction runs arbitrary: t ks)
  case Nil
  then show ?case by auto
next
  case (Cons r runs)
  let ?u = "fold (trace_fetch d) (concat r) t"
  obtain js ks' where r: "r = js @ ks'" "fetch_buf ?u = concat ks'"
      "map fst (trace_console ?u) = map fst (trace_console t) @ map hd ks @ map hd js"
      "cpu_trace_last_pc ?u = fe_pc (last (concat r))" "last (concat ks') = last (concat r)"
    using flow_run [OF Cons.prems(1,2,3), of r] Cons.prems(4) unfolding flow.simps by blast
  have "\<exists>ks2. fetch_buf (fold (trace_fetch d) (concat (concat runs)) ?u) = concat ks2 \<and>
    map fst (trace_console (fold (trace_fetch d) (concat (concat runs)) ?u)) @ map hd ks2 =
      map fst (trace_console ?u) @ map hd ks' @ map hd (concat runs)"
  proof (rule Cons.IH)
    show "fetch_buf ?u \<noteq> [] \<longrightarrow> cpu_trace_last_pc ?u = fe_pc (last (fetch_buf ?u))" by (simp only: r(2,4,5)) simp
    show "\<forall>i\<in>set ks'. knows d i" using Cons.prems(4) r(1) by simp
    show "flow d (cpu_trace_last_pc ?u) runs" using Cons.prems(4) r(4) by simp
  qed (rule r(2))
  then show ?case using r(1,3) by simp
qed


text \<open>A disassembler that knows two instructions: 7200 has one word, 203C has three.\<close>

definition demo_dasm :: dasm where
  "demo_dasm pc bs = (''?'', if take 2 bs = [0x20, 0x3C] then 6 else 2)"

definition demo_fetch :: "u32 \<Rightarrow> u16 \<Rightarrow> FetchEntry" where
  "demo_fetch pc w = \<lparr>fe_pc = pc, fe_word = w, fe_frame = 0, fe_data_addr = 0\<rparr>"

definition demo_runs :: "FetchEntry list list list" where
  "demo_runs =
     [[[demo_fetch 0x1000 0x7200], [demo_fetch 0x1002 0x203C, demo_fetch 0x1004 0, demo_fetch 0x1006 1]],
      [[demo_fetch 0x2000 0x7200]]]"


end
