(* ===== verification/SimArgs.thy ===== *)
theory SimArgs
  imports SimPrelude
begin

text \<open>
  The command line of the simulator (verilator/sim_main.cpp, first part of main) and the settings it
  fills. Converting a number follows std::stoi: leading white space, a sign and digits are read, the
  rest is ignored; no digit or a value outside of int throws, which ends the program. Messages are left
  out.
\<close>

section \<open>Library functions\<close>

definition isspace :: "char \<Rightarrow> bool" where
  "isspace c \<longleftrightarrow> (let n = (of_char c :: nat) in n = 32 \<or> (9 \<le> n \<and> n \<le> 13))"

definition isdigit :: "char \<Rightarrow> bool" where
  "isdigit c \<longleftrightarrow> (let n = (of_char c :: nat) in 48 \<le> n \<and> n \<le> 57)"

definition digits_value :: "string \<Rightarrow> int" where
  "digits_value ds = foldl (\<lambda>a c. a * 10 + (of_char c - 48)) 0 ds"

definition stoi :: "string \<Rightarrow> int option" where
  "stoi s =
     (let s1 = dropWhile isspace s;
          neg = (s1 \<noteq> [] \<and> hd s1 = CHR ''-'');
          s2 = (if s1 \<noteq> [] \<and> (hd s1 = CHR ''-'' \<or> hd s1 = CHR ''+'') then tl s1 else s1);
          ds = takeWhile isdigit s2;
          v = (if neg then - digits_value ds else digits_value ds)
      in if ds = [] \<or> v < - (2 ^ 31) \<or> 2 ^ 31 \<le> v then None else Some v)"

text \<open>The tokens the loop over std::getline sees: nothing after a comma that ends the text.\<close>

function getlines :: "char \<Rightarrow> string \<Rightarrow> string list" where
  "getlines sep s =
     (if s = [] then []
      else takeWhile (\<lambda>c. c \<noteq> sep) s # getlines sep (drop (Suc (length (takeWhile (\<lambda>c. c \<noteq> sep) s))) s))"
  by pat_completeness auto
termination by (relation "measure (\<lambda>(sep, s). length s)") auto

declare getlines.simps [simp del]

section \<open>Settings\<close>

record Settings =
  headless :: bool
  screenshot_mode :: bool
  screenshot_frames :: "int list"
  stop_at_frame :: int
  stop_at_frame_enabled :: bool
  reset_at_frame :: int
  nmi_at_frame :: int
  cpu_trace_disabled :: bool
  trace_from :: int
  trace_to :: int
  verbose_diag :: bool
  pc_heartbeat :: bool
  scsi0_file :: string
  scsi1_file :: string
  cdrom_file :: string
  floppy0_file :: string
  floppy1_file :: string
  rom_file_override :: string
  cfg_cpuType :: int
  cfg_memSize :: int
  cfg_sdramMod :: int
  mouse_inject_from :: int
  mouse_inject_to :: int

definition default_settings :: Settings where
  "default_settings =
     \<lparr>headless = False, screenshot_mode = False, screenshot_frames = [], stop_at_frame = -1,
      stop_at_frame_enabled = False, reset_at_frame = -1, nmi_at_frame = -1,
      cpu_trace_disabled = False, trace_from = 0, trace_to = 0x7FFFFFFF, verbose_diag = False,
      pc_heartbeat = False, scsi0_file = [], scsi1_file = [], cdrom_file = [], floppy0_file = [],
      floppy1_file = [], rom_file_override = [], cfg_cpuType = 2, cfg_memSize = 0, cfg_sdramMod = 3,
      mouse_inject_from = -1, mouse_inject_to = 0x7FFFFFFF\<rparr>"

definition ram_mb_table :: "int list" where
  "ram_mb_table = [4, 8, 20, 36, 48, 68]"

section \<open>Parsing\<close>

datatype outcome = Run Settings | ExitWith int | Throw

definition with_int :: "string \<Rightarrow> (int \<Rightarrow> outcome) \<Rightarrow> outcome" where
  "with_int v f = (case stoi v of None \<Rightarrow> Throw | Some n \<Rightarrow> f n)"

text \<open>The loop over ram_mb_table: the index of the size, -1 if there is none.\<close>

definition ram_index :: "int \<Rightarrow> int" where
  "ram_index mb = fold (\<lambda>k r. if ram_mb_table ! k = mb then int k else r) [0..<6] (-1)"

definition opt_ram :: "string \<Rightarrow> Settings \<Rightarrow> outcome" where
  "opt_ram v c = with_int v (\<lambda>mb. if ram_index mb < 0 then ExitWith 1 else Run (c\<lparr>cfg_memSize := ram_index mb\<rparr>))"

definition sdram_index :: "int \<Rightarrow> int" where
  "sdram_index mb = (if mb = 32 then 1 else if mb = 64 then 2 else if mb = 128 then 3 else -1)"

definition opt_sdram_module :: "string \<Rightarrow> Settings \<Rightarrow> outcome" where
  "opt_sdram_module v c =
     with_int v (\<lambda>mb. if sdram_index mb < 0 then ExitWith 1 else Run (c\<lparr>cfg_sdramMod := sdram_index mb\<rparr>))"

definition opt_screenshot :: "string \<Rightarrow> Settings \<Rightarrow> outcome" where
  "opt_screenshot v c =
     fold (\<lambda>w r. case r of Run c1 \<Rightarrow> with_int w (\<lambda>n. Run (c1\<lparr>screenshot_frames := screenshot_frames c1 @ [n]\<rparr>)) | _ \<Rightarrow> r)
       (getlines CHR '','' v) (Run (c\<lparr>screenshot_mode := True\<rparr>))"

definition opt_trace_frames :: "string \<Rightarrow> Settings \<Rightarrow> outcome" where
  "opt_trace_frames s c =
     (let a = takeWhile (\<lambda>x. x \<noteq> CHR '','') s
      in with_int a (\<lambda>m. if a = s then Run (c\<lparr>trace_from := m, trace_to := m\<rparr>)
           else with_int (drop (Suc (length a)) s) (\<lambda>n. Run (c\<lparr>trace_from := m, trace_to := n\<rparr>))))"

text \<open>Options without a value, as the chain of comparisons tries them.\<close>

definition flag_table :: "(string \<times> (Settings \<Rightarrow> Settings)) list" where
  "flag_table =
     [(''--headless'', headless_update (\<lambda>_. True)), (''--no-gui'', headless_update (\<lambda>_. True)),
      (''--no-cpu-trace'', cpu_trace_disabled_update (\<lambda>_. True)),
      (''--verbose'', verbose_diag_update (\<lambda>_. True)), (''-v'', verbose_diag_update (\<lambda>_. True)),
      (''--heartbeat'', pc_heartbeat_update (\<lambda>_. True))]"

definition flag_option :: "string \<Rightarrow> (Settings \<Rightarrow> Settings) option" where
  "flag_option = map_of flag_table"

text \<open>Options that need a value.\<close>

definition arg_table :: "(string \<times> (string \<Rightarrow> Settings \<Rightarrow> outcome)) list" where
  "arg_table =
     [(''--screenshot'', opt_screenshot),
      (''--stop-at-frame'', \<lambda>v c. with_int v (\<lambda>n. Run (c\<lparr>stop_at_frame := n, stop_at_frame_enabled := True\<rparr>))),
      (''--reset-at-frame'', \<lambda>v c. with_int v (\<lambda>n. Run (c\<lparr>reset_at_frame := n\<rparr>))),
      (''--nmi-at-frame'', \<lambda>v c. with_int v (\<lambda>n. Run (c\<lparr>nmi_at_frame := n\<rparr>))),
      (''--trace-frames'', opt_trace_frames),
      (''--scsi0'', \<lambda>v c. Run (c\<lparr>scsi0_file := v\<rparr>)),
      (''--scsi1'', \<lambda>v c. Run (c\<lparr>scsi1_file := v\<rparr>)),
      (''--cdrom'', \<lambda>v c. Run (c\<lparr>cdrom_file := v\<rparr>)),
      (''--floppy0'', \<lambda>v c. Run (c\<lparr>floppy0_file := v\<rparr>)),
      (''--floppy1'', \<lambda>v c. Run (c\<lparr>floppy1_file := v\<rparr>)),
      (''--rom'', \<lambda>v c. Run (c\<lparr>rom_file_override := v\<rparr>)),
      (''--ram'', opt_ram),
      (''--sdram-module'', opt_sdram_module),
      (''--mouse-from'', \<lambda>v c. with_int v (\<lambda>n. Run (c\<lparr>mouse_inject_from := n\<rparr>))),
      (''--mouse-to'', \<lambda>v c. with_int v (\<lambda>n. Run (c\<lparr>mouse_inject_to := n\<rparr>)))]"

definition arg_option :: "string \<Rightarrow> (string \<Rightarrow> Settings \<Rightarrow> outcome) option" where
  "arg_option = map_of arg_table"

text \<open>The loop over the arguments. An option that misses its value, and an unknown word, are skipped.\<close>

fun sim_args :: "string list \<Rightarrow> Settings \<Rightarrow> outcome" where
  "sim_args [] c = Run c"
| "sim_args [a] c =
     (if a = ''-h'' \<or> a = ''--help'' then ExitWith 0
      else case flag_option a of Some f \<Rightarrow> Run (f c) | None \<Rightarrow> Run c)"
| "sim_args (a # v # rest) c =
     (if a = ''-h'' \<or> a = ''--help'' then ExitWith 0
      else case flag_option a of
             Some f \<Rightarrow> sim_args (v # rest) (f c)
           | None \<Rightarrow> (case arg_option a of
                        Some f \<Rightarrow> (case f v c of Run c1 \<Rightarrow> sim_args rest c1 | r \<Rightarrow> r)
                      | None \<Rightarrow> sim_args (v # rest) c))"

section \<open>What a command line can set\<close>

text \<open>The settings the rest of the program indexes its tables with.\<close>

definition settings_ok :: "Settings \<Rightarrow> bool" where
  "settings_ok c \<longleftrightarrow> cfg_memSize c \<in> {0..5} \<and> cfg_sdramMod c \<in> {1..3}"

definition keeps_ok :: "(Settings \<Rightarrow> outcome) \<Rightarrow> bool" where
  "keeps_ok f \<longleftrightarrow> (\<forall>c c'. settings_ok c \<longrightarrow> f c = Run c' \<longrightarrow> settings_ok c')"

lemma keeps_ok_with_int: "(\<And>n. keeps_ok (\<lambda>c. f c n)) \<Longrightarrow> keeps_ok (\<lambda>c. with_int v (f c))"
  by (auto simp: keeps_ok_def with_int_def split: option.splits)

lemma keeps_ok_other:
  "(\<And>c. cfg_memSize (g c) = cfg_memSize c \<and> cfg_sdramMod (g c) = cfg_sdramMod c) \<Longrightarrow> keeps_ok (\<lambda>c. Run (g c))"
  by (auto simp: keeps_ok_def settings_ok_def)

lemma ram_index_bounds: "ram_index mb < 0 \<or> ram_index mb \<in> {0..5}"
  by (simp add: ram_index_def upt_rec)

lemma ram_index_lookup: "0 \<le> ram_index mb \<Longrightarrow> ram_mb_table ! nat (ram_index mb) = mb"
  by (auto simp: ram_index_def upt_rec ram_mb_table_def split: if_splits)

lemma keeps_ok_ram: "keeps_ok (opt_ram v)"
  unfolding opt_ram_def
  by (rule keeps_ok_with_int) (use ram_index_bounds in \<open>auto simp: keeps_ok_def settings_ok_def split: if_splits\<close>)

lemma keeps_ok_sdram: "keeps_ok (opt_sdram_module v)"
  unfolding opt_sdram_module_def
  by (rule keeps_ok_with_int) (auto simp: keeps_ok_def settings_ok_def sdram_index_def split: if_splits)

lemma keeps_ok_run_int:
  "(\<And>c n. cfg_memSize (g c n) = cfg_memSize c \<and> cfg_sdramMod (g c n) = cfg_sdramMod c) \<Longrightarrow>
   keeps_ok (\<lambda>c. with_int v (\<lambda>n. Run (g c n)))"
  by (rule keeps_ok_with_int) (rule keeps_ok_other)

lemma keeps_ok_trace: "keeps_ok (opt_trace_frames v)"
proof -
  let ?a = "takeWhile (\<lambda>x. x \<noteq> CHR '','') v"
  have "keeps_ok (\<lambda>c. if ?a = v then Run (c\<lparr>trace_from := m, trace_to := m\<rparr>)
      else with_int (drop (Suc (length ?a)) v) (\<lambda>n. Run (c\<lparr>trace_from := m, trace_to := n\<rparr>)))" for m
  proof (cases "?a = v")
    case True
    show ?thesis unfolding if_P [OF True] by (rule keeps_ok_other) simp
  next
    case False
    show ?thesis unfolding if_not_P [OF False] by (rule keeps_ok_run_int) simp
  qed
  then show ?thesis unfolding opt_trace_frames_def Let_def by (rule keeps_ok_with_int)
qed

lemma keeps_ok_screenshot: "keeps_ok (opt_screenshot v)"
proof -
  have "fold (\<lambda>w r. case r of Run c1 \<Rightarrow> with_int w (\<lambda>n. Run (c1\<lparr>screenshot_frames := screenshot_frames c1 @ [n]\<rparr>)) | _ \<Rightarrow> r)
      ws r = Run c' \<Longrightarrow> (\<And>c. r = Run c \<Longrightarrow> settings_ok c) \<Longrightarrow> settings_ok c'" for ws r c'
    by (induction ws arbitrary: r) (fastforce simp: with_int_def settings_ok_def split: outcome.splits option.splits)+
  then show ?thesis by (fastforce simp: keeps_ok_def opt_screenshot_def settings_ok_def)
qed

lemma keeps_ok_flag: "flag_option a = Some f \<Longrightarrow> settings_ok c \<Longrightarrow> settings_ok (f c)"
proof -
  assume "flag_option a = Some f" "settings_ok c"
  then have "(a, f) \<in> set flag_table" unfolding flag_option_def by (simp add: map_of_SomeD)
  moreover have "\<forall>p\<in>set flag_table. settings_ok (snd p c)"
    using \<open>settings_ok c\<close> by (simp add: flag_table_def settings_ok_def)
  ultimately show ?thesis by fastforce
qed

lemma keeps_ok_arg: "arg_option a = Some f \<Longrightarrow> keeps_ok (f v)"
proof -
  assume "arg_option a = Some f"
  then have "(a, f) \<in> set arg_table" unfolding arg_option_def by (simp add: map_of_SomeD)
  moreover have "\<forall>p\<in>set arg_table. keeps_ok (snd p v)"
    unfolding arg_table_def list.set ball_simps snd_conv
    by (intro conjI ballI TrueI keeps_ok_screenshot keeps_ok_ram keeps_ok_sdram keeps_ok_trace)
      ((rule keeps_ok_run_int keeps_ok_other; simp)+)
  ultimately show ?thesis by fastforce
qed

lemma sim_settings_ok:
  assumes "settings_ok c" "sim_args args c = Run c'"
  shows "settings_ok c'"
  using assms
proof (induction args c rule: sim_args.induct)
  case (3 a v rest c)
  have h: "\<not> (a = ''-h'' \<or> a = ''--help'')" using "3.prems"(2) by (cases "a = ''-h'' \<or> a = ''--help''") auto
  show ?case
  proof (cases "flag_option a")
    case (Some f)
    show ?thesis using "3.IH"(3) [OF h Some keeps_ok_flag [OF Some "3.prems"(1)]] "3.prems"(2) h Some by simp
  next
    case n: None
    show ?thesis
    proof (cases "arg_option a")
      case None
      show ?thesis using "3.IH"(1) [OF h n None "3.prems"(1)] "3.prems"(2) h n None by simp
    next
      case (Some f)
      obtain c1 where c1: "f v c = Run c1" "sim_args rest c1 = Run c'"
        using "3.prems"(2) h n Some by (cases "f v c") simp_all
      have "settings_ok c1" using keeps_ok_arg [OF Some, of v] "3.prems"(1) c1(1) unfolding keeps_ok_def by blast
      then show ?thesis using "3.IH"(2) [OF h n Some c1(1)] c1(2) by simp
    qed
  qed
qed (auto intro: keeps_ok_flag split: if_splits option.splits)

text \<open>Settings are in range. Whatever the command line, when the program runs the memory size
  indexes the table of six sizes and the module number is one of the three sizes; every other value
  ends the program before the core is built.\<close>

theorem sim_args_ok:
  assumes "settings_ok c" "sim_args args c = Run c'"
  shows "settings_ok c' \<and> nat (cfg_memSize c') < length ram_mb_table"
  using sim_settings_ok [OF assms] by (auto simp: settings_ok_def ram_mb_table_def)

theorem sim_args_ok_witness:
  "settings_ok default_settings \<and>
   settings_ok (default_settings\<lparr>headless := True, cfg_memSize := 3\<rparr>)"
proof -
  have d: "settings_ok default_settings" by (simp add: settings_ok_def default_settings_def)
  have "stoi ''36x'' = Some 36" by code_simp
  then have "sim_args [''--headless'', ''--ram'', ''36x'', ''--rom''] default_settings =
      Run (default_settings\<lparr>headless := True, cfg_memSize := 3\<rparr>)"
    by (simp add: flag_option_def arg_option_def flag_table_def arg_table_def opt_ram_def with_int_def ram_index_def upt_rec ram_mb_table_def)
  from sim_args_ok [OF d this] d show ?thesis by blast
qed

end
