(* ===== verification/MousePort.thy ===== *)
theory MousePort
  imports SimArgs
begin

text \<open>
  The mouse of the simulator (verilator/sim_main.cpp, main loop): host events are collected while
  the mouse is captured, a synthetic wiggle or the arrow keys stand in otherwise, and the result is
  packed into the ps2_mouse word of the core. The headless loop sends one synthetic packet per frame.
\<close>

section \<open>The packet\<close>

definition clamp127 :: "int \<Rightarrow> int" where
  "clamp127 d = (let d1 = (if d > 127 then 127 else d) in if d1 < -127 then -127 else d1)"

definition status_byte :: "int \<Rightarrow> int \<Rightarrow> int \<Rightarrow> u8" where
  "status_byte dx dy btn =
     of_int (btn AND 7) OR 8 OR (if dx < 0 then 0x10 else 0) OR (if dy < 0 then 0x20 else 0)"

definition mouse_packet :: "int \<Rightarrow> int \<Rightarrow> int \<Rightarrow> bool \<Rightarrow> u32" where
  "mouse_packet dx dy btn mouse_clock =
     ucast (status_byte dx dy btn) OR push_bit 8 (ucast (of_int dx :: u8)) OR
     push_bit 16 (ucast (of_int dy :: u8)) OR (if mouse_clock then push_bit 24 1 else 0)"

section \<open>Where the motion comes from\<close>

text \<open>The host events of one frame that main looks at.\<close>

datatype HostEvent = Quit | Motion int int | LeftDown | LeftUp | ReleaseKey | Other

record MouseState =
  mouse_captured :: bool
  sdl_mouse_dx :: int
  sdl_mouse_dy :: int
  sdl_mouse_btn :: bool
  mouse_clock :: bool
  last_inject_frame :: int
  ps2_mouse :: u32
  sim_done :: bool

definition MouseState_init :: MouseState where
  "MouseState_init = \<lparr>mouse_captured = False, sdl_mouse_dx = 0, sdl_mouse_dy = 0, sdl_mouse_btn = False,
     mouse_clock = False, last_inject_frame = -1, ps2_mouse = 0, sim_done = False\<rparr>"

fun host_event :: "HostEvent \<Rightarrow> MouseState \<Rightarrow> MouseState" where
  "host_event Quit m = m\<lparr>sim_done := True\<rparr>"
| "host_event (Motion x y) m =
     (if mouse_captured m then m\<lparr>sdl_mouse_dx := sdl_mouse_dx m + x, sdl_mouse_dy := sdl_mouse_dy m + y\<rparr> else m)"
| "host_event LeftDown m = (if mouse_captured m then m\<lparr>sdl_mouse_btn := True\<rparr> else m)"
| "host_event LeftUp m = (if mouse_captured m then m\<lparr>sdl_mouse_btn := False\<rparr> else m)"
| "host_event ReleaseKey m = (if mouse_captured m then m\<lparr>mouse_captured := False\<rparr> else m)"
| "host_event Other m = m"

definition poll_events :: "HostEvent list \<Rightarrow> MouseState \<Rightarrow> MouseState" where
  "poll_events es m = fold host_event es (m\<lparr>sdl_mouse_dx := 0, sdl_mouse_dy := 0\<rparr>)"

definition wig :: "(int \<times> int) list" where
  "wig = [(2, 0), (0, 2), (-2, 0), (0, -2)]"

definition wiggle :: "int \<Rightarrow> int \<times> int" where
  "wiggle f = wig ! nat (f AND 3)"

text \<open>The motion and the buttons of one frame of the windowed loop.\<close>

definition gui_motion :: "Settings \<Rightarrow> int \<Rightarrow> bool list \<Rightarrow> MouseState \<Rightarrow> int \<times> int \<times> int" where
  "gui_motion c frame inp m =
     (if mouse_captured m
      then (sdl_mouse_dx m, - sdl_mouse_dy m, if sdl_mouse_btn m then 1 else 0)
      else if mouse_inject_from c \<ge> 0 \<and> frame \<ge> mouse_inject_from c \<and> frame \<le> mouse_inject_to c
      then (fst (wiggle frame), snd (wiggle frame), 0)
      else (if inp ! 0 then 2 else if inp ! 1 then -2 else 0,
            if inp ! 2 then -2 else if inp ! 3 then 2 else 0,
            (if inp ! 4 then 1 else 0) OR (if inp ! 5 then 2 else 0)))"

definition gui_mouse :: "Settings \<Rightarrow> int \<Rightarrow> bool list \<Rightarrow> MouseState \<Rightarrow> MouseState" where
  "gui_mouse c frame inp m =
     (case gui_motion c frame inp m of (dx, dy, btn) \<Rightarrow>
        m\<lparr>ps2_mouse := mouse_packet (clamp127 dx) (clamp127 dy) btn (mouse_clock m),
          mouse_clock := \<not> mouse_clock m\<rparr>)"

definition headless_mouse :: "Settings \<Rightarrow> int \<Rightarrow> MouseState \<Rightarrow> MouseState" where
  "headless_mouse c f m =
     (if mouse_inject_from c \<ge> 0 \<and> f \<noteq> last_inject_frame m \<and> f \<ge> mouse_inject_from c \<and> f \<le> mouse_inject_to c
      then m\<lparr>last_inject_frame := f,
             ps2_mouse := mouse_packet (fst (wiggle f)) (snd (wiggle f)) 0 (mouse_clock m),
             mouse_clock := \<not> mouse_clock m\<rparr>
      else m)"

section \<open>What the core reads\<close>

text \<open>The motion as the core takes it: a byte and its sign bit, nine bits in two's complement.\<close>

definition core_dx :: "u32 \<Rightarrow> int" where
  "core_dx p = uint (ucast (drop_bit 8 p) :: u8) - (if bit p 4 then 256 else 0)"

definition core_dy :: "u32 \<Rightarrow> int" where
  "core_dy p = uint (ucast (drop_bit 16 p) :: u8) - (if bit p 5 then 256 else 0)"

lemma clamp127_bounds: "-127 \<le> clamp127 d \<and> clamp127 d \<le> 127"
  by (simp add: clamp127_def Let_def)

lemma nine_bits: "-127 \<le> d \<Longrightarrow> d \<le> 127 \<Longrightarrow> uint (of_int d :: u8) - (if d < 0 then 256 else 0) = d"
proof -
  assume "-127 \<le> d" "d \<le> 127"
  then have "d mod 256 - (if d < 0 then 256 else 0) = d" by presburger
  then show ?thesis by (simp add: uint_word_of_int take_bit_eq_mod)
qed

text \<open>A single bit, kept from being evaluated.\<close>

definition flag :: "nat \<Rightarrow> bool \<Rightarrow> 'a::len word" where
  "flag n b = (if b then push_bit n 1 else 0)"

lemma bit_flag [simp]: "bit (flag n b :: 'a::len word) k \<longleftrightarrow> b \<and> k = n \<and> n < LENGTH('a)"
  by (auto simp: flag_def bit_simps)

lemma status_flags: "status_byte dx dy btn = of_int (take_bit 3 btn) OR flag 3 True OR flag 4 (dx < 0) OR flag 5 (dy < 0)"
proof -
  have "(7 :: int) = mask 3" by (simp add: mask_eq_exp_minus_1)
  then have "btn AND 7 = take_bit 3 btn" by (simp only: take_bit_eq_mask)
  then show ?thesis by (simp add: status_byte_def flag_def push_bit_eq_mult)
qed

lemma status_bits:
  "bit (status_byte dx dy btn) 4 \<longleftrightarrow> dx < 0" "bit (status_byte dx dy btn) 5 \<longleftrightarrow> dy < 0"
  "bit (status_byte dx dy btn) 3" "k < 3 \<Longrightarrow> bit (status_byte dx dy btn) k \<longleftrightarrow> bit btn k"
  unfolding status_flags by (auto simp: bit_simps)

lemma packet_flags: "mouse_packet dx dy btn c =
    ucast (status_byte dx dy btn) OR push_bit 8 (ucast (of_int dx :: u8)) OR
    push_bit 16 (ucast (of_int dy :: u8)) OR flag 24 c"
  by (simp add: mouse_packet_def flag_def)

lemma packet_fields:
  "ucast (drop_bit 8 (mouse_packet dx dy btn c)) = (of_int dx :: u8)"
  "ucast (drop_bit 16 (mouse_packet dx dy btn c)) = (of_int dy :: u8)"
  "bit (mouse_packet dx dy btn c) 24 \<longleftrightarrow> c"
  "k < 8 \<Longrightarrow> bit (mouse_packet dx dy btn c) k \<longleftrightarrow> bit (status_byte dx dy btn) k"
proof -
  show "ucast (drop_bit 8 (mouse_packet dx dy btn c)) = (of_int dx :: u8)"
    unfolding packet_flags by (rule bit_word_eqI) (auto simp: bit_simps dest: bit_imp_le_length)
  show "ucast (drop_bit 16 (mouse_packet dx dy btn c)) = (of_int dy :: u8)"
    unfolding packet_flags by (rule bit_word_eqI) (auto simp: bit_simps dest: bit_imp_le_length)
  show "bit (mouse_packet dx dy btn c) 24 \<longleftrightarrow> c"
    unfolding packet_flags by (auto simp: bit_simps dest: bit_imp_le_length)
  show "k < 8 \<Longrightarrow> bit (mouse_packet dx dy btn c) k \<longleftrightarrow> bit (status_byte dx dy btn) k"
    unfolding packet_flags by (auto simp: bit_simps)
qed

text \<open>The mouse packet carries the motion. For every motion, and the buttons 0 to 7, the core reads
  back from the word exactly the motion limited to -127 .. 127 in both directions, the three button
  bits, and the strobe.\<close>

theorem mouse_packet_roundtrip:
  "core_dx (mouse_packet (clamp127 dx) (clamp127 dy) btn c) = clamp127 dx \<and>
   core_dy (mouse_packet (clamp127 dx) (clamp127 dy) btn c) = clamp127 dy \<and>
   (bit (mouse_packet (clamp127 dx) (clamp127 dy) btn c) 24 \<longleftrightarrow> c) \<and>
   map (bit (mouse_packet (clamp127 dx) (clamp127 dy) btn c)) [0, 1, 2] = map (bit btn) [0, 1, 2]"
  using nine_bits [of "clamp127 dx"] nine_bits [of "clamp127 dy"] clamp127_bounds [of dx] clamp127_bounds [of dy]
  by (simp add: core_dx_def core_dy_def packet_fields status_bits)

text \<open>The wiggle has no net drift: four frames in a row add up to nothing.\<close>

lemma wiggle_no_drift:
  assumes "0 \<le> f"
  shows "sum_list (map (fst \<circ> wiggle) [f, f + 1, f + 2, f + 3]) = 0 \<and>
    sum_list (map (snd \<circ> wiggle) [f, f + 1, f + 2, f + 3]) = 0"
proof -
  have m: "g AND 3 = g mod 4" for g :: int
    using take_bit_eq_mask [of 2 g] by (simp add: take_bit_eq_mod mask_eq_exp_minus_1)
  have "f mod 4 = 0 \<or> f mod 4 = 1 \<or> f mod 4 = 2 \<or> f mod 4 = 3" by presburger
  moreover have "(f + 1) mod 4 = (f mod 4 + 1) mod 4" "(f + 2) mod 4 = (f mod 4 + 2) mod 4"
    "(f + 3) mod 4 = (f mod 4 + 3) mod 4" by (simp_all add: mod_add_left_eq)
  ultimately show ?thesis by (elim disjE) (simp_all add: wiggle_def m wig_def)
qed

text \<open>One packet per frame: a second look at the same frame changes nothing.\<close>

lemma headless_once_per_frame: "headless_mouse c f (headless_mouse c f m) = headless_mouse c f m"
  by (simp add: headless_mouse_def)

end
