(* ===== verification/SimMain.thy ===== *)
theory SimMain
  imports SerialTerm DownloadBus BlockDev ClockAudio VideoOut KeyInput CpuTrace MousePort
begin

text \<open>
  The simulator as a whole (verilator/sim_main.cpp): verilate, one half period of the system clock with
  all components around the compiled core, the reset button, and the loops of main. The core is a
  parameter: a function from its state and its input lines to its next state and its output lines,
  which is what top->eval() does. The time of day and the host devices are inputs. Undefined
  behaviour of a component is the value None; the end of the simulation is a value of its own.

  Not modelled here: the diagnostic printouts of verilate (they keep counters of their own and write
  to stderr), the RAM and peripheral logs (disabled by constants), and drawing.
\<close>

section \<open>Lines of the core\<close>

record CoreIn =
  ci_clk :: bool
  ci_reset :: bool
  ci_nmi :: bool
  ci_cpuType :: int
  ci_memSize :: int
  ci_sdramMod :: int
  ci_ioctl :: "u32 \<times> u8 \<times> u8 \<times> u8 \<times> u16"
  ci_ps2_key :: u16
  ci_ps2_mouse :: u32
  ci_rxd :: bool
  ci_sd :: "u8 \<times> u8 \<times> u16 \<times> u8"
  ci_img :: "u8 \<times> u64"

record CoreOut =
  co_finish :: bool
  co_ioctl_wait :: u8
  co_sd_lba :: "nat \<Rightarrow> u32"
  co_sd_rd :: u8
  co_sd_wr :: u8
  co_sd_buff_din :: "nat \<Rightarrow> u16"
  co_audio :: "int \<times> int"
  co_ce_pixel :: bool
  co_blank :: "bool \<times> bool"
  co_sync :: "bool \<times> bool"
  co_rgb :: "u8 \<times> u8 \<times> u8"
  co_txd :: bool
  co_baud_div :: u32
  co_fetch_valid :: bool
  co_pc :: u32
  co_opcode :: u16
  co_data_addr :: u32
  co_as :: bool
  co_dtack :: bool

type_synonym 'h core = "'h \<Rightarrow> CoreIn \<Rightarrow> 'h \<times> CoreOut"

section \<open>State\<close>

text \<open>The counters of the bus measurement.\<close>

record BusStat =
  bm_total :: nat
  bm_stall :: nat
  bm_xfer :: nat
  bm_idle :: nat
  bm_accesses :: nat
  bm_as_prev :: bool

record 'h Sim =
  main_time :: nat
  reset_line :: bool
  nmi_pulse :: bool
  warm_reset_start :: int
  nmi_start :: int
  clk_sys :: SimClock
  sbus :: SimBus
  blkdev :: SimBlockDevice
  keys :: SimInput
  video :: SimVideo
  audio :: SimAudio
  serialTerminal :: SimSerialTerminal
  serial_rxd :: bool
  last_baud_div :: u32
  tracer :: Tracer
  cpu_trace_enable :: bool
  last_download :: bool
  bm :: BusStat
  mouse :: MouseState
  hw :: 'h
  co :: CoreOut
  cfg :: Settings

definition initialReset :: nat where "initialReset = 48"
definition WARM_RESET_LEN :: nat where "WARM_RESET_LEN = 4000"
definition batchSize :: nat where "batchSize = 150000"

section \<open>One call of verilate\<close>

text \<open>The reset at startup, the warm reset at a frame, and the interrupt at a frame.\<close>

definition cold_reset :: "'h Sim \<Rightarrow> 'h Sim" where
  "cold_reset s =
     (if main_time s < initialReset then s\<lparr>reset_line := True\<rparr>
      else if main_time s = initialReset then s\<lparr>reset_line := False\<rparr> else s)"

definition warm_reset :: "'h Sim \<Rightarrow> 'h Sim" where
  "warm_reset s =
     (if reset_at_frame (cfg s) \<ge> 0 then
       (let s1 = (if warm_reset_start s < 0 \<and> count_frame (video s) \<ge> reset_at_frame (cfg s)
                  then s\<lparr>warm_reset_start := int (main_time s)\<rparr> else s);
            w = warm_reset_start s1
        in if w \<ge> 0 \<and> int (main_time s1) < w + int WARM_RESET_LEN then s1\<lparr>reset_line := True\<rparr>
           else if w \<ge> 0 \<and> int (main_time s1) = w + int WARM_RESET_LEN then s1\<lparr>reset_line := False\<rparr>
           else s1)
      else s)"

definition nmi_test :: "'h Sim \<Rightarrow> 'h Sim" where
  "nmi_test s =
     (if nmi_at_frame (cfg s) \<ge> 0 then
       (let s1 = (if nmi_start s < 0 \<and> count_frame (video s) \<ge> nmi_at_frame (cfg s)
                  then s\<lparr>nmi_start := int (main_time s)\<rparr> else s)
        in s1\<lparr>nmi_pulse := (nmi_start s1 \<ge> 0 \<and> int (main_time s1) < nmi_start s1 + int WARM_RESET_LEN)\<rparr>)
      else s)"

text \<open>What the components do before the core is evaluated; the pointers of the components are the
  lines of the core.\<close>

definition before_eval :: "(string \<Rightarrow> u8 list option) \<Rightarrow> blk_config \<Rightarrow> 'h Sim \<Rightarrow> 'h Sim" where
  "before_eval fs bcf s =
     (let s1 = (if IsRising (clk_sys s) \<and> ioctl_download (sbus s) \<noteq> 1
                then s\<lparr>blkdev := BlkBeforeEval bcf (int (main_time s))
                        ((blkdev s)\<lparr>sd_lba := co_sd_lba (co s), sd_rd := co_sd_rd (co s),
                           sd_wr := co_sd_wr (co s), sd_buff_din := co_sd_buff_din (co s)\<rparr>)\<rparr> else s)
      in if clk (clk_sys s1)
         then s1\<lparr>keys := InputBeforeEval (keys s1),
                 sbus := BusBeforeEval fs ((sbus s1)\<lparr>ioctl_wait := co_ioctl_wait (co s1)\<rparr>)\<rparr>
         else s1)"

definition core_in :: "'h Sim \<Rightarrow> CoreIn" where
  "core_in s =
     \<lparr>ci_clk = clk (clk_sys s), ci_reset = reset_line s, ci_nmi = nmi_pulse s,
      ci_cpuType = cfg_cpuType (cfg s), ci_memSize = cfg_memSize (cfg s), ci_sdramMod = cfg_sdramMod (cfg s),
      ci_ioctl = (ioctl_addr (sbus s), ioctl_index (sbus s), ioctl_download (sbus s), ioctl_wr (sbus s),
                  ioctl_dout (sbus s)),
      ci_ps2_key = ps2_key (keys s), ci_ps2_mouse = ps2_mouse (mouse s), ci_rxd = serial_rxd s,
      ci_sd = (sd_ack (blkdev s), sd_buff_addr (blkdev s), sd_buff_dout (blkdev s), sd_buff_wr (blkdev s)),
      ci_img = (img_mounted (blkdev s), img_size (blkdev s))\<rparr>"

definition eval_core :: "'h core \<Rightarrow> 'h Sim \<Rightarrow> 'h Sim" where
  "eval_core ev s = (case ev (hw s) (core_in s) of (h, x) \<Rightarrow> s\<lparr>hw := h, co := x\<rparr>)"

text \<open>The text of a traced instruction in the console, which all console objects share: the padding of
  the address is to six digits, that of the other numbers is their width.\<close>

definition hex_bytes :: "u32 \<Rightarrow> string" where
  "hex_bytes w = concat (map hex2 [ucast (drop_bit 24 w), ucast (drop_bit 16 w), ucast (drop_bit 8 w), ucast w])"

definition trace_text :: "FetchEntry \<Rightarrow> string \<Rightarrow> string" where
  "trace_text e dis =
     (let a = hex_bytes (fe_data_addr e); ds = dropWhile (\<lambda>c. c = CHR ''0'') a
      in ''[F'' @ dec_int (fe_frame e) @ ''] '' @ hex_bytes (fe_pc e) @ '': '' @ drop 4 (hex_bytes (ucast (fe_word e))) @
         ''  '' @ dis @ ''  @'' @ drop (8 - max 6 (length ds)) a)"

definition trace_cpu :: "dasm \<Rightarrow> 'h Sim \<Rightarrow> 'h Sim" where
  "trace_cpu d s =
     (if cpu_trace_enable s \<and> co_fetch_valid (co s) \<and> ioctl_download (sbus s) = 0
      then let t = trace_fetch d \<lparr>fe_pc = co_pc (co s), fe_word = co_opcode (co s),
                     fe_frame = count_frame (video s), fe_data_addr = co_data_addr (co s)\<rparr> (tracer s);
               new = drop (length (trace_console (tracer s))) (trace_console t)
           in s\<lparr>tracer := t,
                sbus := (sbus s)\<lparr>bus_console := fold (\<lambda>(e, dis). AddLog (trace_text e dis)) new (bus_console (sbus s))\<rparr>\<rparr>
      else s)"

text \<open>Both edges of the clock.\<close>

definition on_edge :: "'h core \<Rightarrow> (string \<Rightarrow> u8 list option) \<Rightarrow> blk_config \<Rightarrow> dasm \<Rightarrow> 'h Sim \<Rightarrow> 'h Sim" where
  "on_edge ev fs bcf d s =
     (if clk (clk_sys s) \<noteq> clk_old (clk_sys s) then trace_cpu d (eval_core ev (before_eval fs bcf s)) else s)"

text \<open>The rising edge: sound, picture, serial line, time.\<close>

definition show_pixel :: "int \<Rightarrow> 'h Sim \<Rightarrow> 'h Sim option" where
  "show_pixel now s =
     (if co_ce_pixel (co s)
      then map_option (\<lambda>v. s\<lparr>video := v\<rparr>)
             (VideoClock now
               \<lparr>hblank = fst (co_blank (co s)), vblank = snd (co_blank (co s)),
                hsync = fst (co_sync (co s)), vsync = snd (co_sync (co s)),
                colour = (case co_rgb (co s) of (r, g, b) \<Rightarrow> pack_colour r g b)\<rparr> (video s))
      else Some s)"

definition serial_port :: "'h Sim \<Rightarrow> 'h Sim" where
  "serial_port s =
     (case Tick (serialTerminal s) (co_txd (co s)) of (t, pin) \<Rightarrow>
       (let s1 = s\<lparr>serialTerminal := t, serial_rxd := pin\<rparr>; dv = co_baud_div (co s1)
        in if dv \<noteq> last_baud_div s1
           then s1\<lparr>serialTerminal := UpdateConfigDirect dv 8 1 False False (serialTerminal s1),
                   last_baud_div := dv\<rparr>
           else s1))"

definition bm_step :: "CoreOut \<Rightarrow> BusStat \<Rightarrow> BusStat" where
  "bm_step x m =
     (let mpc = co_pc x AND 0xFFFFFF
      in if 0xA46880 \<le> mpc \<and> mpc \<le> 0xA46960 then
           (let m1 = m\<lparr>bm_total := bm_total m + 1\<rparr>;
                m2 = (if \<not> co_as x \<and> co_dtack x then m1\<lparr>bm_stall := bm_stall m1 + 1\<rparr>
                      else if \<not> co_as x \<and> \<not> co_dtack x then m1\<lparr>bm_xfer := bm_xfer m1 + 1\<rparr>
                      else m1\<lparr>bm_idle := bm_idle m1 + 1\<rparr>);
                m3 = (if bm_as_prev m2 \<and> \<not> co_as x then m2\<lparr>bm_accesses := bm_accesses m2 + 1\<rparr> else m2)
            in m3\<lparr>bm_as_prev := co_as x\<rparr>)
         else m)"

text \<open>The trace starts after the download; fopen for writing starts an empty file.\<close>

definition start_trace :: "'h Sim \<Rightarrow> 'h Sim" where
  "start_trace s =
     (let dl = (ioctl_download (sbus s) \<noteq> 0);
          s1 = (if last_download s \<and> \<not> dl \<and> \<not> cpu_trace_enable s \<and> \<not> cpu_trace_disabled (cfg s)
                then s\<lparr>cpu_trace_enable := True,
                       tracer := (if cpu_trace_file (tracer s) = None
                                  then (tracer s)\<lparr>cpu_trace_file := Some []\<rparr> else tracer s)\<rparr> else s)
      in s1\<lparr>last_download := dl\<rparr>)"

definition on_rising :: "int \<Rightarrow> 'h Sim \<Rightarrow> 'h Sim option" where
  "on_rising now s =
     (if IsRising (clk_sys s)
      then map_option (\<lambda>s1. start_trace ((serial_port s1)
               \<lparr>main_time := main_time s1 + 1, bm := bm_step (co s1) (bm s1)\<rparr>))
             (show_pixel now (s\<lparr>audio := AudioClock (co_audio (co s)) (audio s)\<rparr>))
      else Some s)"

datatype 'h sim_result = Finished | Undefined | Running "'h Sim"

definition verilate :: "'h core \<Rightarrow> (string \<Rightarrow> u8 list option) \<Rightarrow> blk_config \<Rightarrow> dasm \<Rightarrow> int \<Rightarrow> 'h Sim \<Rightarrow> 'h sim_result" where
  "verilate ev fs bcf d now s =
     (if co_finish (co s) then Finished
      else let s1 = nmi_test (warm_reset (cold_reset s));
               s2 = s1\<lparr>clk_sys := ClockTick (clk_sys s1)\<rparr>
           in case on_rising now (on_edge ev fs bcf d s2) of None \<Rightarrow> Undefined | Some s3 \<Rightarrow> Running s3)"

text \<open>A stretch of calls: one per entry of the list, which holds the time of day.\<close>

fun verilates :: "'h core \<Rightarrow> (string \<Rightarrow> u8 list option) \<Rightarrow> blk_config \<Rightarrow> dasm \<Rightarrow> int list \<Rightarrow> 'h Sim \<Rightarrow> 'h sim_result" where
  "verilates ev fs bcf d [] s = Running s"
| "verilates ev fs bcf d (t # ts) s =
     (case verilate ev fs bcf d t s of Running s1 \<Rightarrow> verilates ev fs bcf d ts s1 | r \<Rightarrow> r)"

text \<open>The reset button of the control window.\<close>

definition resetSim :: "'h Sim \<Rightarrow> 'h Sim" where
  "resetSim s = s\<lparr>main_time := 0, reset_line := True, clk_sys := ClockReset (clk_sys s)\<rparr>"

section \<open>The state main starts from\<close>

text \<open>Four console objects are constructed on the shared globals: those of main, of the bus, of the block
  device and of the input component.\<close>

definition bus_init :: SimBus where
  "bus_init = \<lparr>downloadQueue = [], currentDownload = chunk3 [] (-1) False, ioctl_file = None,
     ioctl_next_addr = 0, nextword = 0, bus_console = (DebugConsole_ctor ^^ 4) console_globals, ioctl_addr = 0, ioctl_index = 0,
     ioctl_wait = 0, ioctl_download = 0, ioctl_wr = 0, ioctl_dout = 0\<rparr>"

definition bm_init :: BusStat where
  "bm_init = \<lparr>bm_total = 0, bm_stall = 0, bm_xfer = 0, bm_idle = 0, bm_accesses = 0, bm_as_prev = True\<rparr>"

text \<open>The global objects and the new core in state h with outputs x.\<close>

definition sim_globals :: "'h \<Rightarrow> CoreOut \<Rightarrow> Settings \<Rightarrow> 'h Sim" where
  "sim_globals h x c =
     \<lparr>main_time = 0, reset_line = False, nmi_pulse = False, warm_reset_start = -1, nmi_start = -1,
      clk_sys = SimClock_init 1, sbus = bus_init, blkdev = blk_init, keys = SimInput_init 13,
      video = SimVideo_init 640 480 0, audio = SimAudio_init 32000000 False, serialTerminal = term_init,
      serial_rxd = False, last_baud_div = 0, tracer = Tracer_init (trace_from c) (trace_to c) None,
      cpu_trace_enable = False, last_download = False, bm = bm_init, mouse = MouseState_init,
      hw = h, co = x, cfg = c\<rparr>"

section \<open>Every run is defined and keeps the invariants of the components\<close>

definition bm_ok :: "BusStat \<Rightarrow> bool" where
  "bm_ok m \<longleftrightarrow> bm_total m = bm_stall m + bm_xfer m + bm_idle m"

definition sim_ok :: "'h Sim \<Rightarrow> bool" where
  "sim_ok s \<longleftrightarrow> video_ok (video s) \<and> SerialTerm.lines_ok (serialTerminal s) \<and> trace_ok (tracer s) \<and>
     (\<not> cpu_trace_enable s \<longrightarrow> trace_console (tracer s) = []) \<and> bm_ok (bm s) \<and> settings_ok (cfg s)"

lemma bm_step_ok: "bm_ok m \<Longrightarrow> bm_ok (bm_step x m)"
  by (simp add: bm_ok_def bm_step_def Let_def)

text \<open>The fields of the state that a part of verilate leaves alone.\<close>

lemma cold_reset_fields [simp]:
  "video (cold_reset s) = video s"
  "serialTerminal (cold_reset s) = serialTerminal s"
  "tracer (cold_reset s) = tracer s"
  "cpu_trace_enable (cold_reset s) = cpu_trace_enable s"
  "bm (cold_reset s) = bm s"
  "cfg (cold_reset s) = cfg s"
  "clk_sys (cold_reset s) = clk_sys s"
  "main_time (cold_reset s) = main_time s"
  "sbus (cold_reset s) = sbus s"
  "blkdev (cold_reset s) = blkdev s"
  "warm_reset_start (cold_reset s) = warm_reset_start s"
  by (simp_all add: cold_reset_def)

lemma warm_reset_fields [simp]:
  "video (warm_reset s) = video s"
  "serialTerminal (warm_reset s) = serialTerminal s"
  "tracer (warm_reset s) = tracer s"
  "cpu_trace_enable (warm_reset s) = cpu_trace_enable s"
  "bm (warm_reset s) = bm s"
  "cfg (warm_reset s) = cfg s"
  "clk_sys (warm_reset s) = clk_sys s"
  "main_time (warm_reset s) = main_time s"
  "sbus (warm_reset s) = sbus s"
  "blkdev (warm_reset s) = blkdev s"
  by (simp_all add: warm_reset_def Let_def)

lemma nmi_test_fields [simp]:
  "video (nmi_test s) = video s"
  "serialTerminal (nmi_test s) = serialTerminal s"
  "tracer (nmi_test s) = tracer s"
  "cpu_trace_enable (nmi_test s) = cpu_trace_enable s"
  "bm (nmi_test s) = bm s"
  "cfg (nmi_test s) = cfg s"
  "clk_sys (nmi_test s) = clk_sys s"
  "main_time (nmi_test s) = main_time s"
  "sbus (nmi_test s) = sbus s"
  "blkdev (nmi_test s) = blkdev s"
  "reset_line (nmi_test s) = reset_line s"
  "warm_reset_start (nmi_test s) = warm_reset_start s"
  by (simp_all add: nmi_test_def Let_def)

lemma warm_reset_cold [simp]: "warm_reset_start (warm_reset (cold_reset s)) = warm_reset_start (warm_reset s)"
  by (simp add: warm_reset_def Let_def)

lemma before_eval_fields [simp]:
  "video (before_eval fs bcf s) = video s"
  "serialTerminal (before_eval fs bcf s) = serialTerminal s"
  "cpu_trace_enable (before_eval fs bcf s) = cpu_trace_enable s"
  "bm (before_eval fs bcf s) = bm s"
  "cfg (before_eval fs bcf s) = cfg s"
  "clk_sys (before_eval fs bcf s) = clk_sys s"
  "main_time (before_eval fs bcf s) = main_time s"
  "reset_line (before_eval fs bcf s) = reset_line s"
  "warm_reset_start (before_eval fs bcf s) = warm_reset_start s"
  "tracer (before_eval fs bcf s) = tracer s"
  by (simp_all add: before_eval_def Let_def)

lemma eval_core_fields [simp]:
  "video (eval_core ev s) = video s"
  "serialTerminal (eval_core ev s) = serialTerminal s"
  "cpu_trace_enable (eval_core ev s) = cpu_trace_enable s"
  "bm (eval_core ev s) = bm s"
  "cfg (eval_core ev s) = cfg s"
  "clk_sys (eval_core ev s) = clk_sys s"
  "main_time (eval_core ev s) = main_time s"
  "reset_line (eval_core ev s) = reset_line s"
  "warm_reset_start (eval_core ev s) = warm_reset_start s"
  "tracer (eval_core ev s) = tracer s"
  by (cases "ev (hw s) (core_in s)"; simp add: eval_core_def)+

lemma trace_cpu_fields [simp]:
  "video (trace_cpu d s) = video s"
  "serialTerminal (trace_cpu d s) = serialTerminal s"
  "cpu_trace_enable (trace_cpu d s) = cpu_trace_enable s"
  "bm (trace_cpu d s) = bm s"
  "cfg (trace_cpu d s) = cfg s"
  "clk_sys (trace_cpu d s) = clk_sys s"
  "main_time (trace_cpu d s) = main_time s"
  "reset_line (trace_cpu d s) = reset_line s"
  "warm_reset_start (trace_cpu d s) = warm_reset_start s"
  by (simp_all add: trace_cpu_def Let_def)

lemma edge_fields [simp]:
  "video (on_edge ev fs bcf d s) = video s"
  "serialTerminal (on_edge ev fs bcf d s) = serialTerminal s"
  "cpu_trace_enable (on_edge ev fs bcf d s) = cpu_trace_enable s"
  "bm (on_edge ev fs bcf d s) = bm s"
  "cfg (on_edge ev fs bcf d s) = cfg s"
  "clk_sys (on_edge ev fs bcf d s) = clk_sys s"
  "main_time (on_edge ev fs bcf d s) = main_time s"
  "reset_line (on_edge ev fs bcf d s) = reset_line s"
  "warm_reset_start (on_edge ev fs bcf d s) = warm_reset_start s"
  by (simp_all add: on_edge_def)

lemma trace_cpu_tracer:
  "trace_ok (tracer s) \<Longrightarrow> trace_ok (tracer (trace_cpu d s))"
  "\<not> cpu_trace_enable s \<Longrightarrow> tracer (trace_cpu d s) = tracer s"
  by (simp_all add: trace_cpu_def Let_def trace_fetch_ok)

lemma on_edge_tracer:
  assumes "trace_ok (tracer s)" "\<not> cpu_trace_enable s \<longrightarrow> trace_console (tracer s) = []"
  shows "trace_ok (tracer (on_edge ev fs bcf d s)) \<and>
    (\<not> cpu_trace_enable s \<longrightarrow> trace_console (tracer (on_edge ev fs bcf d s)) = [])"
  using assms by (simp add: on_edge_def trace_cpu_tracer)

lemma trace_ok_open:
  "trace_ok t \<Longrightarrow> trace_console t = [] \<Longrightarrow> trace_ok (t\<lparr>cpu_trace_file := Some []\<rparr>)"
  by (simp add: trace_ok_def file_agrees_def)

lemma start_trace_ok:
  assumes "trace_ok (tracer s)" "\<not> cpu_trace_enable s \<longrightarrow> trace_console (tracer s) = []"
  shows "trace_ok (tracer (start_trace s)) \<and>
    (\<not> cpu_trace_enable (start_trace s) \<longrightarrow> trace_console (tracer (start_trace s)) = [])"
  using assms by (simp add: start_trace_def Let_def trace_ok_open)

lemma start_trace_fields [simp]:
  "video (start_trace s) = video s" "serialTerminal (start_trace s) = serialTerminal s"
  "bm (start_trace s) = bm s" "cfg (start_trace s) = cfg s" "clk_sys (start_trace s) = clk_sys s"
  "main_time (start_trace s) = main_time s" "reset_line (start_trace s) = reset_line s"
  "warm_reset_start (start_trace s) = warm_reset_start s"
  by (simp_all add: start_trace_def Let_def)

lemma serial_port_fields [simp]:
  "video (serial_port s) = video s" "tracer (serial_port s) = tracer s"
  "cpu_trace_enable (serial_port s) = cpu_trace_enable s" "bm (serial_port s) = bm s"
  "cfg (serial_port s) = cfg s" "clk_sys (serial_port s) = clk_sys s" "main_time (serial_port s) = main_time s"
  "reset_line (serial_port s) = reset_line s" "warm_reset_start (serial_port s) = warm_reset_start s"
  by (simp_all add: serial_port_def Let_def split: prod.split)

lemma serial_port_ok: "SerialTerm.lines_ok (serialTerminal s) \<Longrightarrow> SerialTerm.lines_ok (serialTerminal (serial_port s))"
  using Tick_lines_ok [of "serialTerminal s" "co_txd (co s)"]
  by (cases "Tick (serialTerminal s) (co_txd (co s))") (simp add: serial_port_def Let_def UpdateConfigDirect_def)

lemma show_pixel_ok:
  assumes "video_ok (video s)"
  obtains v where "show_pixel t s = Some (s\<lparr>video := v\<rparr>)" "video_ok v"
proof (cases "co_ce_pixel (co s)")
  case True
  then show ?thesis using VideoClock_ok [OF assms] that by (metis (no_types, lifting) option.map(2) show_pixel_def)
next
  case False
  then show ?thesis using that [of "video s"] assms by (simp add: show_pixel_def)
qed

lemma on_rising_ok:
  assumes "sim_ok s"
  obtains s' where "on_rising t s = Some s'" "sim_ok s'" "clk_sys s' = clk_sys s"
    "main_time s' = (if IsRising (clk_sys s) then main_time s + 1 else main_time s)"
    "reset_line s' = reset_line s" "warm_reset_start s' = warm_reset_start s" "cfg s' = cfg s"
proof (cases "IsRising (clk_sys s)")
  case True
  let ?a = "s\<lparr>audio := AudioClock (co_audio (co s)) (audio s)\<rparr>"
  have "video_ok (video ?a)" using assms by (simp add: sim_ok_def)
  then obtain v where v: "show_pixel t ?a = Some (?a\<lparr>video := v\<rparr>)" "video_ok v"
    by (rule show_pixel_ok)
  let ?b = "(serial_port (?a\<lparr>video := v\<rparr>))\<lparr>main_time := main_time s + 1, bm := bm_step (co s) (bm s)\<rparr>"
  have "trace_ok (tracer (start_trace ?b)) \<and>
      (\<not> cpu_trace_enable (start_trace ?b) \<longrightarrow> trace_console (tracer (start_trace ?b)) = [])"
    using assms by (intro start_trace_ok) (simp_all add: sim_ok_def)
  moreover have "SerialTerm.lines_ok (serialTerminal (serial_port (?a\<lparr>video := v\<rparr>)))"
    using assms by (intro serial_port_ok) (simp add: sim_ok_def)
  ultimately have "sim_ok (start_trace ?b)" using assms v(2) by (simp add: sim_ok_def bm_step_ok)
  then show ?thesis using v True by (intro that [of "start_trace ?b"]) (simp_all add: on_rising_def)
next
  case False
  then show ?thesis using assms by (intro that [of s]) (simp_all add: on_rising_def)
qed

text \<open>One call: what it keeps, and what it does to the time and to the reset line.\<close>

lemma verilate_ok:
  assumes "sim_ok s"
  shows "verilate ev fs bcf d t s = Finished \<or>
    (\<exists>s'. verilate ev fs bcf d t s = Running s' \<and> sim_ok s' \<and> clk_sys s' = ClockTick (clk_sys s) \<and>
       main_time s' = (if IsRising (ClockTick (clk_sys s)) then main_time s + 1 else main_time s) \<and>
       reset_line s' = reset_line (warm_reset (cold_reset s)) \<and>
       warm_reset_start s' = warm_reset_start (warm_reset s) \<and> cfg s' = cfg s)"
proof (cases "co_finish (co s)")
  case True
  then show ?thesis by (simp add: verilate_def)
next
  case False
  let ?u = "nmi_test (warm_reset (cold_reset s))"
  let ?v = "?u\<lparr>clk_sys := ClockTick (clk_sys ?u)\<rparr>"
  have "sim_ok (on_edge ev fs bcf d ?v)"
    using assms on_edge_tracer [of ?v ev fs bcf d] by (simp add: sim_ok_def)
  then obtain s' where s': "on_rising t (on_edge ev fs bcf d ?v) = Some s'" "sim_ok s'" "clk_sys s' = ClockTick (clk_sys s)"
      "main_time s' = (if IsRising (ClockTick (clk_sys s)) then main_time s + 1 else main_time s)"
      "reset_line s' = reset_line (warm_reset (cold_reset s))"
      "warm_reset_start s' = warm_reset_start (warm_reset s)" "cfg s' = cfg s"
    by (rule on_rising_ok [where t = t]) simp
  then show ?thesis using False by (simp add: verilate_def Let_def)
qed

lemma verilates_snoc:
  "verilates ev fs bcf d (ts @ [t]) s =
     (case verilates ev fs bcf d ts s of Running s1 \<Rightarrow> verilate ev fs bcf d t s1 | r \<Rightarrow> r)"
  by (induction ts arbitrary: s) (simp_all split: sim_result.split)

text \<open>The input component runs on its own.\<close>

lemma keys_resets [simp]:
  "keys (cold_reset s) = keys s" "keys (warm_reset s) = keys s" "keys (nmi_test s) = keys s"
  by (simp_all add: cold_reset_def warm_reset_def nmi_test_def Let_def)

lemma keys_edge [simp]: "keys_ok (keys (on_edge ev fs bcf d s)) = keys_ok (keys s)"
  by (cases "ev (hw (before_eval fs bcf s)) (core_in (before_eval fs bcf s))")
    (simp add: on_edge_def trace_cpu_def eval_core_def before_eval_def Let_def)

lemma keys_parts [simp]: "keys (serial_port s) = keys s" "keys (start_trace s) = keys s"
  by (cases "Tick (serialTerminal s) (co_txd (co s))"; simp add: serial_port_def start_trace_def Let_def)+

lemma keys_rising: "on_rising t s = Some s' \<Longrightarrow> keys s' = keys s"
  by (auto simp: on_rising_def show_pixel_def split: if_splits)

lemma verilates_keys:
  "verilates ev fs bcf d ts s = Running s' \<Longrightarrow> keys_ok (keys s') = keys_ok (keys s)"
proof (induction ts arbitrary: s)
  case (Cons t ts)
  then obtain s1 where s1: "verilate ev fs bcf d t s = Running s1" "verilates ev fs bcf d ts s1 = Running s'"
    by (auto split: sim_result.splits)
  let ?u = "nmi_test (warm_reset (cold_reset s))"
  have "on_rising t (on_edge ev fs bcf d (?u\<lparr>clk_sys := ClockTick (clk_sys ?u)\<rparr>)) = Some s1"
    using s1(1) by (simp add: verilate_def Let_def split: if_splits option.splits)
  from keys_rising [OF this] have "keys_ok (keys s1) = keys_ok (keys s)" by simp
  then show ?case using Cons.IH [OF s1(2)] by simp
qed simp

text \<open>C6. The whole simulator is memory safe. Whatever the core does, whatever files are loaded and
  however long it runs, no call of verilate reaches undefined behaviour, the picture stays inside
  its buffer, the terminal keeps at most its thousand lines, the tracer its invariant, and the bus
  counters add up.\<close>

theorem simulation_safe:
  assumes "sim_ok s"
  shows "verilates ev fs bcf d ts s = Finished \<or> (\<exists>s'. verilates ev fs bcf d ts s = Running s' \<and> sim_ok s')"
  using assms
proof (induction ts arbitrary: s)
  case (Cons t ts)
  then show ?case using verilate_ok [OF Cons.prems, of ev fs bcf d t] by fastforce
qed simp

text \<open>With a frame buffer of the right size the global objects satisfy the invariant.\<close>

lemma sim_globals_ok:
  assumes "settings_ok c" "length b = 307200"
  shows "sim_ok ((sim_globals h x c)\<lparr>video := headless_alloc b (SimVideo_init 640 480 0)\<rparr>)"
  using assms
  by (simp add: sim_ok_def sim_globals_def video_ok_def headless_alloc_def SimVideo_init_def SerialTerm.lines_ok_def
      term_init_def MAX_LINES_def trace_ok_def Tracer_init_def file_agrees_def bm_ok_def bm_init_def)

text \<open>A core that never does anything, for the witnesses.\<close>

definition demo_out :: CoreOut where
  "demo_out = \<lparr>co_finish = False, co_ioctl_wait = 0, co_sd_lba = (\<lambda>_. 0), co_sd_rd = 0, co_sd_wr = 0,
     co_sd_buff_din = (\<lambda>_. 0), co_audio = (0, 0), co_ce_pixel = False, co_blank = (True, True),
     co_sync = (False, False), co_rgb = (0, 0, 0), co_txd = True, co_baud_div = 0, co_fetch_valid = False,
     co_pc = 0, co_opcode = 0, co_data_addr = 0, co_as = True, co_dtack = True\<rparr>"

definition idle_core :: "unit core" where
  "idle_core h i = (h, demo_out)"

definition demo_sim :: "unit Sim" where
  "demo_sim = (sim_globals () demo_out default_settings)
     \<lparr>video := headless_alloc (replicate 307200 0) (SimVideo_init 640 480 0)\<rparr>"

lemma demo_sim_ok: "sim_ok demo_sim"
  unfolding demo_sim_def by (rule sim_globals_ok) (simp_all add: settings_ok_def default_settings_def)

text \<open>The idle core keeps its outputs, so its runs do not finish.\<close>

lemma co_edge: "co s = demo_out \<Longrightarrow> co (on_edge idle_core fs bcf d s) = demo_out"
  by (simp add: on_edge_def trace_cpu_def eval_core_def idle_core_def before_eval_def Let_def)

lemma co_resets [simp]: "co (cold_reset s) = co s" "co (warm_reset s) = co s" "co (nmi_test s) = co s"
  by (simp_all add: cold_reset_def warm_reset_def nmi_test_def Let_def)

lemma co_parts [simp]: "co (serial_port s) = co s" "co (start_trace s) = co s"
  by (cases "Tick (serialTerminal s) (co_txd (co s))"; simp add: serial_port_def start_trace_def Let_def)+

lemma co_rising: "on_rising t w = Some s' \<Longrightarrow> co s' = co w"
  by (auto simp: on_rising_def show_pixel_def split: if_splits)

lemma idle_core_runs:
  assumes "sim_ok s" "co s = demo_out"
  shows "\<exists>s'. verilates idle_core fs bcf d ts s = Running s' \<and> co s' = demo_out"
  using assms
proof (induction ts arbitrary: s)
  case (Cons t ts)
  let ?u = "nmi_test (warm_reset (cold_reset s))"
  let ?v = "on_edge idle_core fs bcf d (?u\<lparr>clk_sys := ClockTick (clk_sys ?u)\<rparr>)"
  have v: "verilate idle_core fs bcf d t s = (case on_rising t ?v of None \<Rightarrow> Undefined | Some s3 \<Rightarrow> Running s3)"
    using Cons.prems(2) by (simp add: verilate_def Let_def demo_out_def)
  then have "verilate idle_core fs bcf d t s \<noteq> Finished" by (cases "on_rising t ?v") simp_all
  with verilate_ok [OF Cons.prems(1), of idle_core fs bcf d t]
  obtain s1 where s1: "verilate idle_core fs bcf d t s = Running s1" "sim_ok s1" by blast
  have "co ?v = demo_out" by (rule co_edge) (simp add: Cons.prems(2))
  moreover have "on_rising t ?v = Some s1" using v s1(1) by (cases "on_rising t ?v") simp_all
  ultimately have "co s1 = demo_out" using co_rising by metis
  then show ?case using Cons.IH [OF s1(2)] s1(1) by simp
qed simp

abbreviation demo_run :: "int list \<Rightarrow> unit Sim \<Rightarrow> unit sim_result" where
  "demo_run \<equiv> verilates idle_core Map.empty \<lparr>latency = 1, ignore_scsi_writes = False\<rparr> demo_dasm"

lemma demo_fields [simp]:
  "co demo_sim = demo_out" "clk_sys demo_sim = SimClock_init 1" "main_time demo_sim = 0"
  "cfg demo_sim = default_settings" "warm_reset_start demo_sim = -1" "count_frame (video demo_sim) = 0"
  by (simp_all add: demo_sim_def sim_globals_def headless_alloc_def SimVideo_init_def)

theorem simulation_safe_witness: "\<exists>s'. demo_run (replicate 5 0) demo_sim = Running s' \<and> sim_ok s'"
proof -
  obtain s' where "demo_run (replicate 5 0) demo_sim = Running s'"
    using idle_core_runs [OF demo_sim_ok demo_fields(1)] by metis
  then show ?thesis
    using simulation_safe [OF demo_sim_ok, of idle_core Map.empty "\<lparr>latency = 1, ignore_scsi_writes = False\<rparr>" demo_dasm "replicate 5 0"]
    by simp
qed

section \<open>Time and reset\<close>

text \<open>The system clock has ratio 1: two calls are one period.\<close>

definition in_phase :: "nat \<Rightarrow> SimClock \<Rightarrow> bool" where
  "in_phase n c \<longleftrightarrow> ratio c = 1 \<and> count c = int (n mod 2) \<and> (odd n \<longrightarrow> \<not> clk c)"

lemma in_phase_tick:
  assumes "in_phase n c"
  shows "in_phase (Suc n) (ClockTick c)" "IsRising (ClockTick c) \<longleftrightarrow> odd n"
proof -
  have "n mod 2 = 0 \<and> Suc n mod 2 = 1 \<or> n mod 2 = 1 \<and> Suc n mod 2 = 0" by presburger
  then consider "even n" "n mod 2 = 0" "Suc n mod 2 = 1" | "odd n" "n mod 2 = 1" "Suc n mod 2 = 0"
    by (auto simp: even_iff_mod_2_eq_zero)
  then show "in_phase (Suc n) (ClockTick c)" "IsRising (ClockTick c) \<longleftrightarrow> odd n"
    using assms by (cases; simp add: in_phase_def ClockTick_def IsRising_def Let_def)+
qed

text \<open>The state after n calls that all returned.\<close>

lemma verilates_time:
  assumes "sim_ok s" "in_phase 0 (clk_sys s)" "verilates ev fs bcf d ts s = Running s'"
  shows "sim_ok s' \<and> in_phase (length ts) (clk_sys s') \<and> main_time s' = main_time s + length ts div 2 \<and> cfg s' = cfg s"
  using assms(3)
proof (induction ts arbitrary: s' rule: rev_induct)
  case Nil
  then show ?case using assms by simp
next
  case (snoc t ts)
  obtain s1 where 1: "verilates ev fs bcf d ts s = Running s1" "verilate ev fs bcf d t s1 = Running s'"
    using snoc.prems by (auto simp: verilates_snoc split: sim_result.splits)
  note h = snoc.IH [OF 1(1)]
  then have "sim_ok s1" by simp
  from verilate_ok [OF this, of ev fs bcf d t] 1(2)
  have "sim_ok s'" "clk_sys s' = ClockTick (clk_sys s1)" "cfg s' = cfg s1"
    "main_time s' = (if IsRising (ClockTick (clk_sys s1)) then main_time s1 + 1 else main_time s1)"
    by auto
  then show ?case using h in_phase_tick [of "length ts" "clk_sys s1"] by auto
qed

lemma verilates_snoc_cases:
  assumes "verilates ev fs bcf d (ts @ [t]) s = Running s'"
  obtains s1 where "verilates ev fs bcf d ts s = Running s1" "verilate ev fs bcf d t s1 = Running s'"
  using assms by (auto simp: verilates_snoc split: sim_result.splits)

text \<open>The startup reset. Without the warm reset option, the core sees reset asserted in the first 96
  calls of verilate, which is 48 clocks, and negated from then on.\<close>

theorem cold_reset_window:
  assumes "sim_ok s" "in_phase 0 (clk_sys s)" "main_time s = 0" "reset_at_frame (cfg s) < 0"
    "ts \<noteq> []" "verilates ev fs bcf d ts s = Running s'"
  shows "(reset_line s' \<longleftrightarrow> length ts \<le> 96) \<and> main_time s' = length ts div 2"
  using assms(5,6)
proof (induction ts arbitrary: s' rule: rev_induct)
  case (snoc t ts)
  obtain s1 where 1: "verilates ev fs bcf d ts s = Running s1" "verilate ev fs bcf d t s1 = Running s'"
    using verilates_snoc_cases [OF snoc.prems(2)] .
  have h: "sim_ok s1" "main_time s1 = length ts div 2" "reset_at_frame (cfg s1) < 0"
    using verilates_time [OF assms(1,2) 1(1)] assms(3,4) by simp_all
  have r: "reset_line s' = reset_line (cold_reset s1)"
    using verilate_ok [OF h(1), of ev fs bcf d t] 1(2) h(3) by (auto simp: warm_reset_def)
  have m: "main_time s' = length (ts @ [t]) div 2" using verilates_time [OF assms(1,2) snoc.prems(2)] assms(3) by simp
  show ?case
  proof (cases "ts = []")
    case True
    then show ?thesis using r m h(2) by (simp add: cold_reset_def initialReset_def)
  next
    case False
    have "reset_line s1 \<longleftrightarrow> length ts \<le> 96" using snoc.IH [OF False 1(1)] by simp
    moreover have "length ts div 2 < 48 \<longleftrightarrow> length ts \<le> 95" "length ts div 2 = 48 \<longleftrightarrow> length ts = 96 \<or> length ts = 97"
      by presburger+
    ultimately show ?thesis using r m h(2) by (auto simp: cold_reset_def initialReset_def)
  qed
qed simp

lemma warm_reset_armed:
  assumes "reset_at_frame (cfg u) \<ge> 0" "warm_reset_start u = int W"
  shows "reset_line (warm_reset u) =
      (if main_time u < W + 4000 then True else if main_time u = W + 4000 then False else reset_line u)"
    "warm_reset_start (warm_reset u) = int W"
proof -
  have e: "int (main_time u) < int W + int WARM_RESET_LEN \<longleftrightarrow> main_time u < W + 4000"
    "int (main_time u) = int W + int WARM_RESET_LEN \<longleftrightarrow> main_time u = W + 4000"
    by (simp_all add: WARM_RESET_LEN_def) linarith+
  show "reset_line (warm_reset u) =
      (if main_time u < W + 4000 then True else if main_time u = W + 4000 then False else reset_line u)"
    "warm_reset_start (warm_reset u) = int W"
    using assms e by (simp_all add: warm_reset_def Let_def)
qed

lemma in_phase_init [simp]: "in_phase 0 (SimClock_init 1)"
  by (simp add: in_phase_def SimClock_init_def)

theorem cold_reset_window_witness: "\<exists>s'. demo_run (replicate 100 0) demo_sim = Running s' \<and> \<not> reset_line s'"
proof -
  obtain s' where r: "demo_run (replicate 100 0) demo_sim = Running s'"
    using idle_core_runs [OF demo_sim_ok demo_fields(1)] by metis
  have "\<not> reset_line s'" using cold_reset_window [OF demo_sim_ok _ _ _ _ r] by (simp add: default_settings_def)
  with r show ?thesis by blast
qed

text \<open>With the warm reset armed at time W, the line is decided by the time of the call alone.\<close>

lemma armed_line:
  assumes "sim_ok s" "in_phase 0 (clk_sys s)" "reset_at_frame (cfg s) \<ge> 0" "warm_reset_start s = int W"
    "main_time s \<le> W" "ts \<noteq> []" "verilates ev fs bcf d ts s = Running s'"
  shows "(reset_line s' \<longleftrightarrow> main_time s + (length ts - 1) div 2 < W + 4000) \<and> warm_reset_start s' = int W"
  using assms(6,7)
proof (induction ts arbitrary: s' rule: rev_induct)
  case (snoc t ts)
  obtain s1 where 1: "verilates ev fs bcf d ts s = Running s1" "verilate ev fs bcf d t s1 = Running s'"
    using verilates_snoc_cases [OF snoc.prems(2)] .
  have h: "sim_ok s1" "main_time s1 = main_time s + length ts div 2" "reset_at_frame (cfg s1) \<ge> 0"
    using verilates_time [OF assms(1,2) 1(1)] assms(3) by simp_all
  have w: "warm_reset_start s1 = int W"
    using snoc.IH 1(1) assms(4) by (cases "ts = []") simp_all
  have r: "reset_line s' = reset_line (warm_reset (cold_reset s1))" "warm_reset_start s' = int W"
    using verilate_ok [OF h(1), of ev fs bcf d t] 1(2) warm_reset_armed(2) [OF h(3) w] by auto
  have cw: "reset_line (warm_reset (cold_reset s1)) =
      (if main_time s1 < W + 4000 then True else if main_time s1 = W + 4000 then False else reset_line (cold_reset s1))"
    using warm_reset_armed(1) [of "cold_reset s1" W] h(3) w by simp
  have l: "reset_line s1 \<longleftrightarrow> main_time s + (length ts - 1) div 2 < W + 4000" if "ts \<noteq> []"
    using snoc.IH [OF that 1(1)] by simp
  have late: "\<not> main_time s1 < initialReset" "main_time s1 \<noteq> initialReset" if "W + 4000 < main_time s1"
    using that by (simp_all add: initialReset_def)
  show ?case
  proof (cases "main_time s1 \<le> W + 4000")
    case True
    then have "reset_line s' \<longleftrightarrow> main_time s1 < W + 4000"
      using r(1) cw by auto
    then show ?thesis using h(2) r(2) by simp
  next
    case False
    then have "reset_line s' = reset_line s1"
      using r(1) cw late by (simp add: cold_reset_def)
    moreover have "ts \<noteq> []" using False h(2) assms(5) by auto
    moreover have "\<not> main_time s + length ts div 2 < W + 4000" using False h(2) by simp
    moreover have "\<not> main_time s + (length ts - 1) div 2 < W + 4000"
      using False h(2) by presburger
    ultimately show ?thesis using l r(2) by simp
  qed
qed simp

text \<open>Reaching the frame arms the warm reset with the time of the call.\<close>

lemma warm_reset_arms:
  assumes "reset_at_frame (cfg s) \<ge> 0" "warm_reset_start s < 0" "count_frame (video s) \<ge> reset_at_frame (cfg s)"
  shows "warm_reset (cold_reset s) = warm_reset (cold_reset (s\<lparr>warm_reset_start := int (main_time s)\<rparr>))"
proof -
  let ?u = "cold_reset s"
  have "cold_reset (s\<lparr>warm_reset_start := int (main_time s)\<rparr>) = ?u\<lparr>warm_reset_start := int (main_time s)\<rparr>"
    by (simp add: cold_reset_def)
  moreover have "warm_reset ?u = warm_reset (?u\<lparr>warm_reset_start := int (main_time ?u)\<rparr>)"
    unfolding warm_reset_def Let_def using assms by simp
  ultimately show ?thesis by simp
qed

lemma verilates_arms:
  assumes "reset_at_frame (cfg s) \<ge> 0" "warm_reset_start s < 0" "count_frame (video s) \<ge> reset_at_frame (cfg s)" "ts \<noteq> []"
  shows "verilates ev fs bcf d ts s = verilates ev fs bcf d ts (s\<lparr>warm_reset_start := int (main_time s)\<rparr>)"
proof -
  obtain t ts' where ts: "ts = t # ts'" using assms(4) by (cases ts) auto
  have "verilate ev fs bcf d t s = verilate ev fs bcf d t (s\<lparr>warm_reset_start := int (main_time s)\<rparr>)"
    by (simp add: verilate_def warm_reset_arms [OF assms(1,2,3)])
  then show ?thesis by (simp add: ts)
qed

text \<open>C24. The warm reset. From the first call in which the picture has reached the frame of
  --reset-at-frame, the core sees reset asserted in exactly 8000 calls, which is 4000 clocks, and
  negated afterwards.\<close>

theorem warm_reset_window:
  assumes "sim_ok s" "in_phase 0 (clk_sys s)" "reset_at_frame (cfg s) \<ge> 0" "warm_reset_start s < 0"
    "count_frame (video s) \<ge> reset_at_frame (cfg s)" "ts \<noteq> []" "verilates ev fs bcf d ts s = Running s'"
  shows "reset_line s' \<longleftrightarrow> length ts \<le> 8000"
proof -
  let ?s = "s\<lparr>warm_reset_start := int (main_time s)\<rparr>"
  have "verilates ev fs bcf d ts ?s = Running s'"
    using assms(7) verilates_arms [OF assms(3,4,5,6)] by simp
  then have "reset_line s' \<longleftrightarrow> main_time s + (length ts - 1) div 2 < main_time s + 4000"
    using armed_line [of ?s "main_time s" ts] assms(1,2,3,6) by (simp add: sim_ok_def)
  moreover have "(length ts - 1) div 2 < 4000 \<longleftrightarrow> length ts \<le> 8000" by presburger
  ultimately show ?thesis by simp
qed

definition demo_warm :: "int \<Rightarrow> unit Sim" where
  "demo_warm w = demo_sim\<lparr>cfg := default_settings\<lparr>reset_at_frame := 0\<rparr>, warm_reset_start := w\<rparr>"

lemma demo_warm_ok: "sim_ok (demo_warm w)"
  using demo_sim_ok by (simp add: demo_warm_def sim_ok_def settings_ok_def)

lemma demo_warm_fields [simp]:
  "co (demo_warm w) = demo_out" "clk_sys (demo_warm w) = SimClock_init 1" "warm_reset_start (demo_warm w) = w"
  "reset_at_frame (cfg (demo_warm w)) = 0" "count_frame (video (demo_warm w)) = 0"
  by (simp_all add: demo_warm_def)

theorem warm_reset_window_witness: "\<exists>s'. demo_run (replicate 100 0) (demo_warm (-1)) = Running s' \<and> reset_line s'"
proof -
  obtain s' where r: "demo_run (replicate 100 0) (demo_warm (-1)) = Running s'"
    using idle_core_runs [OF demo_warm_ok demo_warm_fields(1)] by metis
  have "reset_line s'" using warm_reset_window [OF demo_warm_ok _ _ _ _ _ r] by simp
  with r show ?thesis by blast
qed

text \<open>C35. The reset button after a warm reset. When a warm reset has started at time W, pressing the
  reset button puts the time back to zero but not W: the core is held in reset for W + 4000 clocks
  instead of 48.\<close>

theorem reset_button_after_warm_reset:
  assumes "sim_ok s" "ratio (clk_sys s) = 1" "reset_at_frame (cfg s) \<ge> 0" "warm_reset_start s = int W"
    "ts \<noteq> []" "verilates ev fs bcf d ts (resetSim s) = Running s'"
  shows "reset_line s' \<longleftrightarrow> length ts \<le> 2 * (W + 4000)"
proof -
  have "sim_ok (resetSim s)" using assms(1) by (simp add: sim_ok_def resetSim_def)
  moreover have "in_phase 0 (clk_sys (resetSim s))" using assms(2) by (simp add: in_phase_def resetSim_def ClockReset_def)
  ultimately have "reset_line s' \<longleftrightarrow> 0 + (length ts - 1) div 2 < W + 4000"
    using armed_line [of "resetSim s" W ts] assms(3,4,5,6) by (simp add: resetSim_def)
  moreover have "(length ts - 1) div 2 < W + 4000 \<longleftrightarrow> length ts \<le> 2 * (W + 4000)" using assms(5) by (cases ts) auto
  ultimately show ?thesis by simp
qed

theorem reset_button_after_warm_reset_witness:
  "\<exists>s'. demo_run (replicate 100 0) (resetSim (demo_warm 7)) = Running s' \<and> reset_line s'"
proof -
  have o: "sim_ok (resetSim (demo_warm 7))" "co (resetSim (demo_warm 7)) = demo_out"
    using demo_warm_ok [of 7] by (simp_all add: sim_ok_def resetSim_def)
  obtain s' where r: "demo_run (replicate 100 0) (resetSim (demo_warm 7)) = Running s'"
    using idle_core_runs [OF o] by metis
  have "reset_line s'"
    using reset_button_after_warm_reset [OF demo_warm_ok _ _ _ _ r, of 7] by (simp add: SimClock_init_def)
  with r show ?thesis by blast
qed

end
