(* ===== verification/SimLoop.thy ===== *)
theory SimLoop
  imports SimMain "HOL-Library.Multiset"
begin

text \<open>
  The program around verilate (verilator/sim_main.cpp, main): what is set up before the loop, the
  headless loop with its screenshots, and one pass of the windowed loop. The disk images and the
  files of the loader are functions from paths; what the user does in a pass is an input record. A
  batch of calls of verilate is given by the times of day at which they are made.
\<close>

section \<open>Setting up\<close>

text \<open>Which of the thirteen inputs is mapped to which SDL scan code.\<close>

definition key_map :: "(nat \<times> int) list" where
  "key_map = [(3, 82), (0, 79), (2, 81), (1, 80), (4, 4), (5, 5), (6, 27), (7, 28), (8, 15), (9, 8),
     (11, 30), (10, 31), (12, 16)]"

definition setup_keys :: "SimInput \<Rightarrow> SimInput option" where
  "setup_keys k = fold (\<lambda>p r. Option.bind r (SetMapping (fst p) (snd p))) key_map (Some k)"

definition mount_images :: "(string \<Rightarrow> (u8 list \<times> bool) option) \<Rightarrow> Settings \<Rightarrow> SimBlockDevice \<Rightarrow> SimBlockDevice" where
  "mount_images img c =
     fold (\<lambda>p b. if fst p = [] then b else MountDisk (img (fst p)) (snd p) b)
       [(scsi0_file c, 0), (scsi1_file c, 1), (cdrom_file c, 2)]"

definition rom_file :: "Settings \<Rightarrow> string" where
  "rom_file c = (if rom_file_override c = [] then ''../releases/boot0.rom'' else rom_file_override c)"

definition queue_files :: "Settings \<Rightarrow> SimBus \<Rightarrow> SimBus" where
  "queue_files c b =
     fold (\<lambda>p b1. if fst p = [] then b1 else QueueDownload (fst p) (snd p) True b1)
       [(floppy0_file c, 1), (floppy1_file c, 2)] (QueueDownload (rom_file c) 0 True b)"

text \<open>The first evaluation of the core: clock low, reset high, the configuration inputs still zero.\<close>

definition first_eval :: "'h core \<Rightarrow> 'h Sim \<Rightarrow> 'h Sim" where
  "first_eval ev s =
     (let s1 = s\<lparr>reset_line := True\<rparr>
      in case ev (hw s1) ((core_in s1)\<lparr>ci_clk := False, ci_cpuType := 0, ci_memSize := 0, ci_sdramMod := 0\<rparr>) of
           (h, x) \<Rightarrow> s1\<lparr>hw := h, co := x\<rparr>)"

text \<open>junk is what the frame buffer of the headless program holds before the first pixel.\<close>

definition main_setup :: "'h core \<Rightarrow> (string \<Rightarrow> (u8 list \<times> bool) option) \<Rightarrow> u32 list \<Rightarrow> 'h \<Rightarrow> CoreOut \<Rightarrow>
    Settings \<Rightarrow> 'h Sim option" where
  "main_setup ev img junk h x c =
     (let s = sim_globals h x c
      in map_option (\<lambda>k. first_eval ev
           (s\<lparr>blkdev := mount_images img c (blkdev s), keys := k,
              audio := (if headless c then audio s else AudioInitialise (audio s)),
              video := (if headless c then headless_alloc junk (video s) else VideoInitialise (video s)),
              sbus := queue_files c (sbus s)\<rparr>))
         (setup_keys (keys s)))"

text \<open>What becomes of the program before its loop; an uncaught exception aborts it.\<close>

datatype 'h start_result = Started "'h Sim option" | Exited int | Aborted

definition main_start :: "'h core \<Rightarrow> (string \<Rightarrow> (u8 list \<times> bool) option) \<Rightarrow> u32 list \<Rightarrow> 'h \<Rightarrow> CoreOut \<Rightarrow>
    string list \<Rightarrow> 'h start_result" where
  "main_start ev img junk h x args =
     (case sim_args args default_settings of
        Run c \<Rightarrow> Started (main_setup ev img junk h x c)
      | ExitWith n \<Rightarrow> Exited n
      | Throw \<Rightarrow> Aborted)"

section \<open>Screenshots and the end\<close>

type_synonym shot = "int \<times> (int \<times> int \<times> u8 list) option"

definition screenshot_step :: "'h Sim \<Rightarrow> 'h Sim \<times> shot list" where
  "screenshot_step s =
     (let f = count_frame (video s)
      in if screenshot_mode (cfg s) \<and> f \<in> set (screenshot_frames (cfg s))
         then (s\<lparr>cfg := (cfg s)\<lparr>screenshot_frames := remove1 f (screenshot_frames (cfg s))\<rparr>\<rparr>,
               [(f, save_screenshot (video s))])
         else (s, []))"

definition stop_reached :: "'h Sim \<Rightarrow> bool" where
  "stop_reached s \<longleftrightarrow> stop_at_frame_enabled (cfg s) \<and> count_frame (video s) \<ge> stop_at_frame (cfg s)"

section \<open>The headless loop\<close>

datatype 'h loop_result = Stopped "'h Sim" | Closed "'h Sim" | CoreFinished | LoopUndefined | Looping "'h Sim"

fun of_result :: "'h sim_result \<Rightarrow> 'h loop_result" where
  "of_result Finished = CoreFinished"
| "of_result Undefined = LoopUndefined"
| "of_result (Running s) = Looping s"

definition headless_step :: "'h core \<Rightarrow> (string \<Rightarrow> u8 list option) \<Rightarrow> blk_config \<Rightarrow> dasm \<Rightarrow> int list \<Rightarrow> 'h Sim \<Rightarrow>
    shot list \<times> 'h loop_result" where
  "headless_step ev fs bcf d batch s =
     (case screenshot_step s of (s1, shots) \<Rightarrow>
        (shots,
         if stop_reached s1 then Stopped s1
         else of_result (verilates ev fs bcf d batch
                (s1\<lparr>mouse := headless_mouse (cfg s1) (count_frame (video s1)) (mouse s1)\<rparr>))))"

fun headless_run :: "'h core \<Rightarrow> (string \<Rightarrow> u8 list option) \<Rightarrow> blk_config \<Rightarrow> dasm \<Rightarrow> int list list \<Rightarrow> 'h Sim \<Rightarrow>
    shot list \<times> 'h loop_result" where
  "headless_run ev fs bcf d [] s = ([], Looping s)"
| "headless_run ev fs bcf d (b # bs) s =
     (case headless_step ev fs bcf d b s of
        (shots, Looping s1) \<Rightarrow> (case headless_run ev fs bcf d bs s1 of (later, r) \<Rightarrow> (shots @ later, r))
      | (shots, r) \<Rightarrow> (shots, r))"

section \<open>A pass of the windowed loop\<close>

record RunControl =
  run_enable :: bool
  batch_size :: nat
  single_step :: bool
  multi_step :: bool
  multi_step_amount :: nat

definition RunControl_init :: RunControl where
  "RunControl_init = \<lparr>run_enable = True, batch_size = batchSize, single_step = False, multi_step = False,
     multi_step_amount = 1024\<rparr>"

text \<open>What the user and the host do in one pass; sliders and boxes give their new value.\<close>

record GuiIn =
  gi_events :: "HostEvent list"
  gi_keyboard :: "u8 list"
  gi_reset :: bool
  gi_start :: bool
  gi_stop :: bool
  gi_toggle_run :: bool
  gi_batch :: nat
  gi_single :: bool
  gi_multi :: bool
  gi_amount :: nat
  gi_toggle_trace :: bool
  gi_console :: console_ui
  gi_rotate :: int
  gi_vflip :: bool
  gi_click :: bool
  gi_scc :: "u8 \<times> u8 \<times> u8 \<times> u8 \<times> u8"
  gi_term :: term_ui
  gi_rom :: "string option"
  gi_times :: "int list"

definition gui_controls :: "GuiIn \<Rightarrow> RunControl \<Rightarrow> RunControl" where
  "gui_controls i g =
     (let g1 = (if gi_start i then g\<lparr>run_enable := True\<rparr> else g);
          g2 = (if gi_stop i then g1\<lparr>run_enable := False\<rparr> else g1);
          g3 = (if gi_toggle_run i then g2\<lparr>run_enable := \<not> run_enable g2\<rparr> else g2);
          g4 = g3\<lparr>batch_size := gi_batch i, single_step := False\<rparr>;
          g5 = (if gi_single i then g4\<lparr>run_enable := False, single_step := True\<rparr> else g4);
          g6 = g5\<lparr>multi_step := False\<rparr>;
          g7 = (if gi_multi i then g6\<lparr>run_enable := False, multi_step := True\<rparr> else g6)
      in g7\<lparr>multi_step_amount := gi_amount i\<rparr>)"

text \<open>How many calls of verilate a pass makes.\<close>

definition gui_calls :: "RunControl \<Rightarrow> nat" where
  "gui_calls g =
     (if run_enable g then batch_size g
      else (if single_step g then 1 else 0) + (if multi_step g then multi_step_amount g else 0))"

definition gui_windows :: "GuiIn \<Rightarrow> 'h Sim \<Rightarrow> 'h Sim option" where
  "gui_windows i s =
     (let s1 = (if gi_toggle_trace i then s\<lparr>cpu_trace_enable := \<not> cpu_trace_enable s\<rparr> else s)
      in map_option (\<lambda>dc.
           let s2 = s1\<lparr>sbus := (sbus s1)\<lparr>bus_console := fst dc\<rparr>,
                       video := (video s1)\<lparr>output_rotate := gi_rotate i, output_vflip := gi_vflip i\<rparr>,
                       mouse := (if gi_click i then (mouse s1)\<lparr>mouse_captured := True\<rparr> else mouse s1)\<rparr>;
               t = (case gi_scc i of (w3, w4, w5, w9, w14) \<Rightarrow> UpdateSCCStatus w3 w4 w5 w9 w14 (serialTerminal s2))
           in s2\<lparr>serialTerminal := fst (Draw (gi_term i) t),
                 sbus := (case gi_rom i of None \<Rightarrow> sbus s2 | Some path \<Rightarrow> QueueDownload path 0 True (sbus s2))\<rparr>)
         (DrawConsole (gi_console i) (bus_console (sbus s1))))"

text \<open>A pass up to the screenshot: events, keyboard, windows, sound display, texture.\<close>

definition gui_frame :: "GuiIn \<Rightarrow> RunControl \<Rightarrow> 'h Sim \<Rightarrow> 'h Sim option" where
  "gui_frame i g1 s =
     Option.bind (ReadSdl (gi_keyboard i) (keys s)) (\<lambda>k.
       let s1 = s\<lparr>mouse := poll_events (gi_events i) (mouse s), keys := k\<rparr>;
           s2 = (if gi_reset i then resetSim s1 else s1)
       in map_option (\<lambda>s3.
            let s4 = (if run_enable g1 then s3\<lparr>audio := CollectDebug (co_audio (co s3)) (audio s3)\<rparr> else s3)
            in s4\<lparr>video := UpdateTexture (video s4)\<rparr>) (gui_windows i s2))"

definition gui_step :: "'h core \<Rightarrow> (string \<Rightarrow> u8 list option) \<Rightarrow> blk_config \<Rightarrow> dasm \<Rightarrow> GuiIn \<Rightarrow> RunControl \<Rightarrow> 'h Sim \<Rightarrow>
    shot list \<times> 'h loop_result" where
  "gui_step ev fs bcf d i g s =
     (let g1 = gui_controls i g
      in case gui_frame i g1 s of
           None \<Rightarrow> ([], LoopUndefined)
         | Some s5 \<Rightarrow>
             (case screenshot_step s5 of (s6, shots) \<Rightarrow>
               (shots,
                if stop_reached s6 then Stopped s6
                else of_result (verilates ev fs bcf d (take (gui_calls g1) (gi_times i))
                       (s6\<lparr>mouse := gui_mouse (cfg s6) (count_frame (video s6)) (inputs (keys s6)) (mouse s6)\<rparr>)))))"

text \<open>The loop: it is left after the pass in which the window was closed.\<close>

fun gui_run :: "'h core \<Rightarrow> (string \<Rightarrow> u8 list option) \<Rightarrow> blk_config \<Rightarrow> dasm \<Rightarrow> GuiIn list \<Rightarrow> RunControl \<Rightarrow> 'h Sim \<Rightarrow>
    shot list \<times> 'h loop_result" where
  "gui_run ev fs bcf d [] g s = ([], Looping s)"
| "gui_run ev fs bcf d (i # is) g s =
     (if sim_done (mouse s) then ([], Closed s)
      else case gui_step ev fs bcf d i g s of
        (shots, Looping s1) \<Rightarrow>
          (case gui_run ev fs bcf d is (gui_controls i g) s1 of (later, r) \<Rightarrow> (shots @ later, r))
      | (shots, r) \<Rightarrow> (shots, r))"

section \<open>The setup is defined and satisfies the invariants\<close>

lemma setup_keys_defined: "\<exists>k'. setup_keys (SimInput_init 13) = Some k'"
  by (simp add: setup_keys_def key_map_def SetMapping_def SimInput_init_def)

lemma first_eval_ok [simp]: "sim_ok (first_eval ev s) = sim_ok s" "cfg (first_eval ev s) = cfg s"
  by (simp_all add: first_eval_def Let_def sim_ok_def split: prod.split)

lemma main_setup_ok:
  assumes "settings_ok c" "length junk = 307200"
  shows "\<exists>s. main_setup ev img junk h x c = Some s \<and> sim_ok s \<and> cfg s = c"
proof -
  obtain k where k: "setup_keys (SimInput_init 13) = Some k" using setup_keys_defined by blast
  define v where "v = (if headless c then headless_alloc junk (SimVideo_init 640 480 0)
      else VideoInitialise (SimVideo_init 640 480 0))"
  have v: "video_ok v"
    using assms(2) video_ok_init [of 640 480 0] by (simp add: v_def video_ok_def headless_alloc_def SimVideo_init_def)
  have g: "keys (sim_globals h x c) = SimInput_init 13" "video (sim_globals h x c) = SimVideo_init 640 480 0"
    "cfg (sim_globals h x c) = c"
    by (simp_all add: sim_globals_def)
  define u where "u = (sim_globals h x c)\<lparr>blkdev := mount_images img c (blkdev (sim_globals h x c)), keys := k,
      audio := (if headless c then audio (sim_globals h x c) else AudioInitialise (audio (sim_globals h x c))),
      video := v, sbus := queue_files c (sbus (sim_globals h x c))\<rparr>"
  have "main_setup ev img junk h x c = Some (first_eval ev u)"
    using k by (simp add: main_setup_def Let_def g u_def v_def)
  moreover have "sim_ok u" "cfg u = c"
    using v sim_globals_ok [OF assms, of h x] by (simp_all add: u_def sim_ok_def g(3))
  ultimately show ?thesis by simp
qed

lemma default_settings_ok [simp]: "settings_ok default_settings"
  by (simp add: settings_ok_def default_settings_def)

section \<open>The headless program\<close>

lemma verilates_ok:
  assumes "sim_ok s"
  shows "verilates ev fs bcf d ts s = Finished \<or>
    (\<exists>s'. verilates ev fs bcf d ts s = Running s' \<and> sim_ok s' \<and> cfg s' = cfg s)"
  using assms
proof (induction ts arbitrary: s)
  case (Cons t ts)
  then show ?case using verilate_ok [OF Cons.prems, of ev fs bcf d t] by fastforce
qed simp

lemma sim_ok_update [simp]:
  "sim_ok (s\<lparr>mouse := m\<rparr>) = sim_ok s"
  "sim_ok (s\<lparr>cfg := (cfg s)\<lparr>screenshot_frames := fr\<rparr>\<rparr>) = sim_ok s"
  by (simp_all add: sim_ok_def settings_ok_def)

lemma screenshot_step_ok:
  assumes "sim_ok s" "screenshot_step s = (s1, shots)"
  shows "sim_ok s1" "mset (map fst shots) + mset (screenshot_frames (cfg s1)) = mset (screenshot_frames (cfg s))"
    "\<forall>p\<in>set shots. snd p \<noteq> None" "video s1 = video s" "stop_at_frame (cfg s1) = stop_at_frame (cfg s)"
proof -
  obtain b where b: "output_ptr (video s) = Some b" using assms(1) by (auto simp: sim_ok_def video_ok_def)
  show "sim_ok s1" "mset (map fst shots) + mset (screenshot_frames (cfg s1)) = mset (screenshot_frames (cfg s))"
    "\<forall>p\<in>set shots. snd p \<noteq> None" "video s1 = video s" "stop_at_frame (cfg s1) = stop_at_frame (cfg s)"
    using assms b by (auto simp: screenshot_step_def Let_def save_screenshot_def split: if_splits)
qed

text \<open>One pass of the loop.\<close>

definition pass_ok :: "'h Sim \<Rightarrow> shot list \<times> 'h loop_result \<Rightarrow> bool" where
  "pass_ok s r \<longleftrightarrow> (\<forall>p\<in>set (fst r). snd p \<noteq> None) \<and>
     (case snd r of
        LoopUndefined \<Rightarrow> False
      | CoreFinished \<Rightarrow> True
      | Closed s' \<Rightarrow> sim_done (mouse s') \<and>
          mset (map fst (fst r)) + mset (screenshot_frames (cfg s')) = mset (screenshot_frames (cfg s))
      | Stopped s' \<Rightarrow> stop_at_frame (cfg s) \<le> count_frame (video s') \<and>
          mset (map fst (fst r)) + mset (screenshot_frames (cfg s')) = mset (screenshot_frames (cfg s))
      | Looping s' \<Rightarrow> sim_ok s' \<and> stop_at_frame (cfg s') = stop_at_frame (cfg s) \<and>
          mset (map fst (fst r)) + mset (screenshot_frames (cfg s')) = mset (screenshot_frames (cfg s)))"

lemma headless_step_ok:
  assumes "sim_ok s"
  shows "pass_ok s (headless_step ev fs bcf d b s)"
proof -
  obtain s1 shots where s: "screenshot_step s = (s1, shots)" by fastforce
  note o = screenshot_step_ok [OF assms s]
  let ?s = "s1\<lparr>mouse := headless_mouse (cfg s1) (count_frame (video s1)) (mouse s1)\<rparr>"
  have "verilates ev fs bcf d b ?s = Finished \<or>
      (\<exists>s'. verilates ev fs bcf d b ?s = Running s' \<and> sim_ok s' \<and> cfg s' = cfg s1)"
    using verilates_ok [of ?s ev fs bcf d b] o(1) by simp
  then show ?thesis using s o by (auto simp: headless_step_def pass_ok_def stop_reached_def)
qed

lemma pass_ok_append:
  assumes "mset (map fst shots) + mset (screenshot_frames (cfg s1)) = mset (screenshot_frames (cfg s))"
    "stop_at_frame (cfg s1) = stop_at_frame (cfg s)" "\<forall>q\<in>set shots. snd q \<noteq> None" "pass_ok s1 (later, r)"
  shows "pass_ok s (shots @ later, r)"
proof -
  have e: "mset (map fst (shots @ later)) + n = mset (screenshot_frames (cfg s))"
    if "mset (map fst later) + n = mset (screenshot_frames (cfg s1))" for n
    using assms(1) that by (metis add.assoc map_append mset_append)
  have n: "\<forall>q\<in>set (shots @ later). snd q \<noteq> None" using assms(3,4) by (auto simp: pass_ok_def)
  show ?thesis
  proof (cases r)
    case (Stopped s')
    then show ?thesis using assms(2,4) e n unfolding pass_ok_def by simp
  next
    case (Closed s')
    then show ?thesis using assms(4) e n unfolding pass_ok_def by simp
  next
    case (Looping s')
    then show ?thesis using assms(2,4) e n unfolding pass_ok_def by simp
  qed (use assms(4) n in \<open>simp_all add: pass_ok_def\<close>)
qed

lemma headless_run_pass:
  assumes "sim_ok s"
  shows "pass_ok s (headless_run ev fs bcf d bs s)"
  using assms
proof (induction bs arbitrary: s)
  case Nil
  then show ?case by (simp add: pass_ok_def)
next
  case (Cons b bs)
  obtain shots r where r: "headless_step ev fs bcf d b s = (shots, r)" by fastforce
  have p: "pass_ok s (shots, r)" using headless_step_ok [OF Cons.prems, of ev fs bcf d b] r by simp
  show ?case
  proof (cases r)
    case (Looping s1)
    then have s1: "sim_ok s1" "stop_at_frame (cfg s1) = stop_at_frame (cfg s)"
      "mset (map fst shots) + mset (screenshot_frames (cfg s1)) = mset (screenshot_frames (cfg s))"
      "\<forall>q\<in>set shots. snd q \<noteq> None"
      using p by (simp_all add: pass_ok_def)
    obtain later r2 where l: "headless_run ev fs bcf d bs s1 = (later, r2)" by fastforce
    have "pass_ok s1 (later, r2)" using Cons.IH [OF s1(1)] l by simp
    moreover have "headless_run ev fs bcf d (b # bs) s = (shots @ later, r2)" using r l Looping by simp
    ultimately show ?thesis using pass_ok_append [OF s1(3,2,4)] by simp
  qed (use p r in simp_all)
qed



section \<open>The windowed program\<close>

text \<open>What a user may do: press keys of the table, leave the trace box and the "Clear 10,000" button alone.\<close>

definition gui_in_ok :: "GuiIn \<Rightarrow> bool" where
  "gui_in_ok i \<longleftrightarrow> keyboard_ok (gi_keyboard i) \<and> \<not> gi_toggle_trace i \<and> \<not> cu_clear_top (gi_console i)"

lemma setup_keys_ok: "setup_keys (SimInput_init 13) = Some k \<Longrightarrow> keys_ok k"
  by (auto simp: setup_keys_def key_map_def SetMapping_def SimInput_init_def keys_ok_def eval_nat_numeral)

lemma main_setup_keys:
  assumes "main_setup ev img junk h x c = Some s"
  shows "keys_ok (keys s)"
proof -
  have k: "keys (sim_globals h x c) = SimInput_init 13" by (simp add: sim_globals_def)
  have "keys (first_eval ev u) = keys u" for u by (simp add: first_eval_def Let_def split: prod.split)
  then show ?thesis using assms setup_keys_ok by (auto simp: main_setup_def Let_def k)
qed

lemma SendInput_lines [simp]: "m_lines (SendInput t) = m_lines t" "m_suppressing (SendInput t) = m_suppressing t"
proof -
  have "m_lines (fold (\<lambda>b s. s\<lparr>m_uart := TxEnqueue b (m_uart s), m_tx_byte_count := m_tx_byte_count s + 1\<rparr>) bs u) = m_lines u \<and>
      m_suppressing (fold (\<lambda>b s. s\<lparr>m_uart := TxEnqueue b (m_uart s), m_tx_byte_count := m_tx_byte_count s + 1\<rparr>) bs u) =
        m_suppressing u" for bs and u :: SimSerialTerminal
    by (induction bs arbitrary: u) simp_all
  then show "m_lines (SendInput t) = m_lines t" "m_suppressing (SendInput t) = m_suppressing t"
    by (simp_all add: SendInput_def Let_def)
qed

lemma Draw_lines_ok: "SerialTerm.lines_ok t \<Longrightarrow> SerialTerm.lines_ok (fst (Draw ui t))"
  by (auto simp: SerialTerm.lines_ok_def Draw_def Let_def split: if_splits)

lemma UpdateSCCStatus_lines_ok [simp]: "SerialTerm.lines_ok (UpdateSCCStatus a b c e f t) = SerialTerm.lines_ok t"
  by (simp add: SerialTerm.lines_ok_def UpdateSCCStatus_def)

lemma video_ok_window [simp]:
  "video_ok (v\<lparr>output_rotate := r, output_vflip := f\<rparr>) = video_ok v" "video_ok (UpdateTexture v) = video_ok v"
  by (simp_all add: video_ok_def UpdateTexture_def)

lemma DrawConsole_defined: "\<not> cu_clear_top ui \<Longrightarrow> DrawConsole ui c \<noteq> None"
  by (auto simp: DrawConsole_def Let_def)

lemma gui_windows_ok:
  assumes "sim_ok s" "gui_in_ok i"
  obtains s' where "gui_windows i s = Some s'" "sim_ok s'" "keys s' = keys s" "cfg s' = cfg s"
proof -
  obtain c where c: "DrawConsole (gi_console i) (bus_console (sbus s)) = Some c"
    using DrawConsole_defined [of "gi_console i" "bus_console (sbus s)"] assms(2) by (auto simp: gui_in_ok_def)
  obtain w3 w4 w5 w9 w14 where w: "gi_scc i = (w3, w4, w5, w9, w14)" by (cases "gi_scc i") auto
  have t: "\<not> gi_toggle_trace i" using assms(2) by (simp add: gui_in_ok_def)
  have "gui_windows i s \<noteq> None" by (simp only: gui_windows_def Let_def t c if_False option.map option.distinct simp_thms)
  then obtain s' where s': "gui_windows i s = Some s'" by blast
  have "SerialTerm.lines_ok (fst (Draw (gi_term i) (UpdateSCCStatus w3 w4 w5 w9 w14 (serialTerminal s))))"
    using assms(1) by (intro Draw_lines_ok) (simp add: sim_ok_def)
  then have "sim_ok s' \<and> keys s' = keys s \<and> cfg s' = cfg s"
    using assms c w s' by (auto simp: gui_windows_def gui_in_ok_def Let_def sim_ok_def)
  with s' that show ?thesis by blast
qed

lemma gui_frame_ok:
  assumes "sim_ok s" "keys_ok (keys s)" "gui_in_ok i"
  obtains s' where "gui_frame i g s = Some s'" "sim_ok s'" "keys_ok (keys s')" "cfg s' = cfg s"
proof -
  have "keyboard_ok (gi_keyboard i)" using assms(3) by (simp add: gui_in_ok_def)
  then obtain k where k: "ReadSdl (gi_keyboard i) (keys s) = Some k" "keys_ok k" using ReadSdl_ok assms(2) by metis
  let ?s1 = "s\<lparr>mouse := poll_events (gi_events i) (mouse s), keys := k\<rparr>"
  let ?s2 = "if gi_reset i then resetSim ?s1 else ?s1"
  have 2: "sim_ok ?s2" "keys ?s2 = k" "cfg ?s2 = cfg s" using assms(1) by (simp_all add: sim_ok_def resetSim_def)
  obtain s3 where s3: "gui_windows i ?s2 = Some s3" "sim_ok s3" "keys s3 = keys ?s2" "cfg s3 = cfg ?s2"
    using gui_windows_ok [OF 2(1) assms(3)] .
  define s4 where "s4 = (if run_enable g then s3\<lparr>audio := CollectDebug (co_audio (co s3)) (audio s3)\<rparr> else s3)"
  have "sim_ok (s4\<lparr>video := UpdateTexture (video s4)\<rparr>)" "keys s4 = k" "cfg s4 = cfg s"
    using s3 2 by (simp_all add: s4_def sim_ok_def)
  then show ?thesis using that [of "s4\<lparr>video := UpdateTexture (video s4)\<rparr>"] k s3(1)
    by (simp add: gui_frame_def Let_def s4_def)
qed

lemma screenshot_step_keys: "screenshot_step s = (s1, shots) \<Longrightarrow> keys s1 = keys s"
  by (auto simp: screenshot_step_def Let_def split: if_splits)

lemma gui_step_ok:
  assumes "sim_ok s" "keys_ok (keys s)" "gui_in_ok i"
  shows "pass_ok s (gui_step ev fs bcf d i g s)"
    "snd (gui_step ev fs bcf d i g s) = Looping s' \<Longrightarrow> keys_ok (keys s')"
proof -
  obtain s5 where s5: "gui_frame i (gui_controls i g) s = Some s5" "sim_ok s5" "keys_ok (keys s5)" "cfg s5 = cfg s"
    using gui_frame_ok [OF assms] .
  obtain s6 shots where s6: "screenshot_step s5 = (s6, shots)" by fastforce
  note o = screenshot_step_ok [OF s5(2) s6]
  let ?ts = "take (gui_calls (gui_controls i g)) (gi_times i)"
  let ?s = "s6\<lparr>mouse := gui_mouse (cfg s6) (count_frame (video s6)) (inputs (keys s6)) (mouse s6)\<rparr>"
  have step: "gui_step ev fs bcf d i g s =
      (shots, if stop_reached s6 then Stopped s6 else of_result (verilates ev fs bcf d ?ts ?s))"
    using s5(1) s6 by (simp add: gui_step_def Let_def)
  have "verilates ev fs bcf d ?ts ?s = Finished \<or>
      (\<exists>s'. verilates ev fs bcf d ?ts ?s = Running s' \<and> sim_ok s' \<and> cfg s' = cfg s6)"
    using verilates_ok [of ?s ev fs bcf d ?ts] o(1) by simp
  then show "pass_ok s (gui_step ev fs bcf d i g s)"
    using o s5(4) by (auto simp: step pass_ok_def stop_reached_def)
  have "keys_ok (keys ?s)" using s5(3) screenshot_step_keys [OF s6] by simp
  then show "keys_ok (keys s')" if "snd (gui_step ev fs bcf d i g s) = Looping s'"
    using that verilates_keys [of ev fs bcf d ?ts ?s]
    by (cases "verilates ev fs bcf d ?ts ?s") (auto simp: step split: if_splits)
qed

lemma gui_run_pass:
  assumes "sim_ok s" "keys_ok (keys s)" "list_all gui_in_ok is"
  shows "pass_ok s (gui_run ev fs bcf d is g s)"
  using assms
proof (induction "is" arbitrary: s g)
  case Nil
  then show ?case by (simp add: pass_ok_def)
next
  case (Cons i "is")
  obtain shots r where r: "gui_step ev fs bcf d i g s = (shots, r)" by fastforce
  have i: "gui_in_ok i" "list_all gui_in_ok is" using Cons.prems(3) by simp_all
  note k = gui_step_ok [OF Cons.prems(1,2) i(1), of ev fs bcf d g]
  have p: "pass_ok s (shots, r)" using k(1) r by simp
  show ?case
  proof (cases "sim_done (mouse s)")
    case False
    show ?thesis
    proof (cases r)
      case (Looping s1)
      then have s1: "sim_ok s1" "stop_at_frame (cfg s1) = stop_at_frame (cfg s)"
        "mset (map fst shots) + mset (screenshot_frames (cfg s1)) = mset (screenshot_frames (cfg s))"
        "\<forall>q\<in>set shots. snd q \<noteq> None"
        using p by (simp_all add: pass_ok_def)
      have "keys_ok (keys s1)" using k(2) r Looping by simp
      obtain later r2 where l: "gui_run ev fs bcf d is (gui_controls i g) s1 = (later, r2)" by fastforce
      have "pass_ok s1 (later, r2)" using Cons.IH [OF s1(1) \<open>keys_ok (keys s1)\<close> i(2)] l by metis
      moreover have "gui_run ev fs bcf d (i # is) g s = (shots @ later, r2)" using r l Looping False by simp
      ultimately show ?thesis using pass_ok_append [OF s1(3,2,4)] by simp
    qed (use p r False in simp_all)
  qed (simp add: pass_ok_def)
qed


definition demo_gui :: "u8 \<Rightarrow> GuiIn" where
  "demo_gui key = \<lparr>gi_events = [Motion 3 4], gi_keyboard = (replicate 512 0)[4 := key], gi_reset = False,
     gi_start = False, gi_stop = False, gi_toggle_run = False, gi_batch = 2, gi_single = False, gi_multi = False,
     gi_amount = 8, gi_toggle_trace = False,
     gi_console = \<lparr>cu_visible = True, cu_clear_top = False, cu_clear = False, cu_menu_clear = False,
       cu_auto_scroll = True, cu_filter = (\<lambda>_. True), cu_at_bottom = True, cu_input = ''HELP'', cu_enter = True\<rparr>,
     gi_rotate = 0, gi_vflip = False, gi_click = True, gi_scc = (0, 0, 0, 0, 0),
     gi_term = \<lparr>ui_visible = False, ui_clear = False, ui_copy = False, ui_hex = False, ui_auto_scroll = True,
       ui_mute = None, ui_at_bottom = True, ui_input = [], ui_enter = False, ui_ending = None\<rparr>,
     gi_rom = None, gi_times = [0, 1]\<rparr>"


end
