(* ===== verification/BenchRam.thy ===== *)
theory BenchRam
  imports SimPrelude
begin

text \<open>
  The memory the processor benches share (SingleStepTests/tg68k, verilator/ksw_bench,
  verilator/berr_bench): 16 MiB of bytes, read and written by the 16-bit bus of the processor and by
  the 32-bit bus of the page-table walker, and filled with programs and tables before a run.
\<close>

section \<open>Memory\<close>

text \<open>A byte vector of 2^24 entries; every address below is masked to its size.\<close>

type_synonym ram24 = "nat \<Rightarrow> u8"

definition be_long :: "u8 \<Rightarrow> u8 \<Rightarrow> u8 \<Rightarrow> u8 \<Rightarrow> u32" where
  "be_long a b c d = push_bit 24 (ucast a) OR push_bit 16 (ucast b) OR push_bit 8 (ucast c) OR ucast d"

definition long_bytes :: "u32 \<Rightarrow> u8 list" where
  "long_bytes v = [ucast (drop_bit 24 v), ucast (drop_bit 16 v), ucast (drop_bit 8 v), ucast v]"

definition word_index :: "u32 \<Rightarrow> nat" where
  "word_index a = unat (a AND 0x00FFFFFE)"

definition r16 :: "u32 \<Rightarrow> ram24 \<Rightarrow> u16" where
  "r16 a m = be16 (m (word_index a)) (m (Suc (word_index a)))"

definition w16 :: "u32 \<Rightarrow> u16 \<Rightarrow> bool \<Rightarrow> bool \<Rightarrow> ram24 \<Rightarrow> ram24" where
  "w16 a v uds lds m =
     (let i = word_index a;
          m1 = (if uds then m(i := hi8 v) else m)
      in if lds then m1(Suc i := lo8 v) else m1)"

definition r32 :: "u32 \<Rightarrow> ram24 \<Rightarrow> u32" where
  "r32 a m = (let i = unat (a AND 0x00FFFFFC) in be_long (m i) (m (i + 1)) (m (i + 2)) (m (i + 3)))"

definition w8 :: "u32 \<Rightarrow> u8 \<Rightarrow> ram24 \<Rightarrow> ram24" where
  "w8 a v m = m(unat (a AND 0x00FFFFFF) := v)"

definition wl :: "u32 \<Rightarrow> u32 \<Rightarrow> ram24 \<Rightarrow> ram24" where
  "wl a v m = w8 (a + 3) (ucast v) (w8 (a + 2) (ucast (drop_bit 8 v))
     (w8 (a + 1) (ucast (drop_bit 16 v)) (w8 a (ucast (drop_bit 24 v)) m)))"

text \<open>Filling a stretch byte by byte, and reading a stretch.\<close>

definition plant :: "nat \<Rightarrow> u8 list \<Rightarrow> ram24 \<Rightarrow> ram24" where
  "plant p bs m = (\<lambda>a. if p \<le> a \<and> a < p + length bs then bs ! (a - p) else m a)"

definition stretch :: "nat \<Rightarrow> nat \<Rightarrow> ram24 \<Rightarrow> u8 list" where
  "stretch p n m = map m [p..<p + n]"

section \<open>Words and long words\<close>

lemma be_long_bytes [simp]:
  "be_long (ucast (drop_bit 24 v)) (ucast (drop_bit 16 v)) (ucast (drop_bit 8 v)) (ucast v) = v"
proof (rule bit_word_eqI)
  fix n assume n: "n < LENGTH(32)"
  then consider "n < 8" | "8 \<le> n" "n < 16" | "16 \<le> n" "n < 24" | "24 \<le> n" by linarith
  then show "bit (be_long (ucast (drop_bit 24 v)) (ucast (drop_bit 16 v)) (ucast (drop_bit 8 v)) (ucast v)) n = bit v n"
    using n by cases (auto simp: be_long_def bit_simps)
qed

lemma length_long_bytes [simp]: "length (long_bytes v) = 4"
  by (simp add: long_bytes_def)

lemma be_long_inject: "be_long a b c d = be_long a' b' c' d' \<longleftrightarrow> a = a' \<and> b = b' \<and> c = c' \<and> d = d'"
proof -
  have "ucast (drop_bit 24 (be_long a b c d)) = a" "ucast (drop_bit 16 (be_long a b c d)) = b"
    "ucast (drop_bit 8 (be_long a b c d)) = c" "ucast (be_long a b c d) = d" for a b c d
    unfolding be_long_def by (rule bit_word_eqI, auto simp: bit_simps dest: bit_imp_le_length)+
  then show ?thesis by metis
qed

lemma unat_and_bound: "unat (a AND m) \<le> unat (m :: u32)"
  by (simp add: word_le_nat_alt [symmetric] word_and_le1)

lemma word_index_bound: "Suc (word_index a) < 2 ^ 24"
  using unat_and_bound [of a "0xFFFFFE"] by (simp add: word_index_def)

lemma word_index_even: "even (word_index a)"
proof -
  have "\<not> bit (a AND 0xFFFFFE) 0" by (simp add: bit_simps)
  then have "\<not> bit (word_index a) 0" unfolding word_index_def by (simp only: bit_unsigned_iff) simp
  then show ?thesis by (simp add: bit_0)
qed

lemma r16_w16_lanes:
  "r16 a (w16 a v u l m) = be16 (if u then hi8 v else m (word_index a)) (if l then lo8 v else m (Suc (word_index a)))"
  by (simp add: r16_def w16_def Let_def)

lemma r16_w16_other:
  assumes "word_index b \<noteq> word_index a"
  shows "r16 b (w16 a v u l m) = r16 b m"
proof -
  have "word_index b \<noteq> Suc (word_index a)" "Suc (word_index b) \<noteq> word_index a"
    using word_index_even [of a] word_index_even [of b] by (metis even_Suc)+
  then show ?thesis using assms by (simp add: r16_def w16_def Let_def)
qed

lemma w16_outside:
  "n \<noteq> word_index a \<Longrightarrow> n \<noteq> Suc (word_index a) \<Longrightarrow> w16 a v u l m n = m n"
  by (simp add: w16_def Let_def)

section \<open>Stretches\<close>

lemma length_stretch [simp]: "length (stretch p n m) = n"
  by (simp add: stretch_def)

interpretation ramr: region_store plant stretch "\<lambda>_ _. True" "\<lambda>_ _. True"
proof unfold_locales
  fix p q n m :: nat and xs :: "u8 list" and s :: ram24
  show "stretch p (length xs) (plant p xs s) = xs"
    by (rule nth_equalityI) (simp_all add: stretch_def plant_def)
  show "stretch q n (plant p xs s) = stretch q n s" if d: "q + n \<le> p \<or> p + length xs \<le> q"
  proof -
    have "plant p xs s a = s a" if "a \<in> set [q..<q + n]" for a
    proof -
      have "a < p \<or> p + length xs \<le> a" using that d by simp linarith
      then show ?thesis by (auto simp: plant_def)
    qed
    then show ?thesis by (simp add: stretch_def)
  qed
  show "stretch p (m + n) s = stretch p m s @ stretch (p + m) n s"
    using upt_add_eq_append [of p "p + m" n] by (simp add: stretch_def add.assoc flip: map_append)
qed (simp_all add: stretch_def)

lemma stretch_same: "stretch p (length xs) (plant p xs m) = xs"
  by (rule ramr.get_put_same) simp

lemma stretch_other: "q + n \<le> p \<or> p + length xs \<le> q \<Longrightarrow> stretch q n (plant p xs m) = stretch q n m"
  by (rule ramr.get_put_other) simp_all

lemmas stretch_add = ramr.get_add

lemma stretch_one [simp]: "stretch p (Suc 0) m = [m p]"
  by (simp add: stretch_def)

lemma plant_Nil [simp]: "plant p [] m = m"
  by (rule ext) (auto simp: plant_def)

lemma stretch_sub: "k + n \<le> l \<Longrightarrow> stretch (p + k) n m = take n (drop k (stretch p l m))"
  by (rule nth_equalityI) (simp_all add: stretch_def add.assoc)

lemma plant_outside [simp]: "a < p \<or> p + length xs \<le> a \<Longrightarrow> plant p xs m a = m a"
  by (auto simp: plant_def)

text \<open>Consecutive stretches planted one after the other are one stretch.\<close>

lemma plant_plant: "plant (p + length xs) ys (plant p xs m) = plant p (xs @ ys) m"
  by (rule ext) (auto simp: plant_def nth_append)

text \<open>A long word at a multiple of four is the four bytes at that place.\<close>

lemma aligned_index:
  assumes "n < 2 ^ 24" "n mod 4 = 0"
  shows "unat ((of_nat n :: u32) AND 0x00FFFFFC) = n"
proof -
  let ?w = "of_nat n :: u32"
  have u: "unat ?w = n" using assms(1) by (simp add: unat_of_nat)
  have m: "(0x00FFFFFC :: u32) = push_bit 2 (mask 22)" by (simp add: mask_eq_exp_minus_1)
  have "?w AND 0x00FFFFFC = push_bit 2 (drop_bit 2 (take_bit 24 ?w))"
  proof (rule bit_word_eqI)
    fix k assume "k < LENGTH(32)"
    consider "k < 2" | j where "k = 2 + j" by (metis le_Suc_ex not_less)
    then show "bit (?w AND 0x00FFFFFC) k = bit (push_bit 2 (drop_bit 2 (take_bit 24 ?w))) k"
      unfolding m by cases (auto simp: bit_simps)
  qed
  also have "take_bit 24 ?w = ?w" using assms(1) u by (intro take_bit_eq_self_word) simp
  also have "push_bit 2 (drop_bit 2 ?w) = ?w"
  proof -
    have "unat (take_bit 2 ?w) = take_bit 2 (unat ?w)" by (rule unsigned_take_bit_eq)
    also have "\<dots> = 0" using assms(2) by (simp add: u take_bit_eq_mod)
    finally have "unat (take_bit 2 ?w) = 0" .
    then have "take_bit 2 ?w = 0" by (simp add: word_unat_eq_iff)
    then show ?thesis using bits_ident [of 2 ?w] by simp
  qed
  finally show ?thesis using u by simp
qed

lemma r32_stretch:
  assumes "n < 2 ^ 24" "n mod 4 = 0" "stretch n 4 m = long_bytes v"
  shows "r32 (of_nat n) m = v"
proof -
  have "stretch n 4 m = [m n, m (n + 1), m (n + 2), m (n + 3)]" by (simp add: stretch_def upt_rec numeral_3_eq_3)
  then have b: "m n = ucast (drop_bit 24 v)" "m (n + 1) = ucast (drop_bit 16 v)"
    "m (n + 2) = ucast (drop_bit 8 v)" "m (n + 3) = ucast v"
    using assms(3) by (simp_all add: long_bytes_def)
  show ?thesis unfolding r32_def Let_def aligned_index [OF assms(1,2)] b by (rule be_long_bytes)
qed

text \<open>Writing a long word at a multiple of four is planting its bytes.\<close>

lemma byte_index: "n < 2 ^ 24 \<Longrightarrow> unat ((of_nat n :: u32) AND 0x00FFFFFF) = n"
proof -
  assume n: "n < 2 ^ 24"
  have "(0x00FFFFFF :: u32) = mask 24" by (simp add: mask_eq_exp_minus_1)
  then have "(of_nat n :: u32) AND 0x00FFFFFF = take_bit 24 (of_nat n)" by (simp add: take_bit_eq_mask)
  also have "\<dots> = of_nat n" using n by (intro take_bit_eq_self_word) (simp add: unat_of_nat)
  finally show ?thesis using n by (simp add: unat_of_nat)
qed

lemma wl_plant:
  assumes "n + 3 < 2 ^ 24"
  shows "wl (of_nat n) v m = plant n (long_bytes v) m"
proof
  fix a
  have b: "unat ((of_nat n :: u32) AND 0x00FFFFFF) = n" "unat (((of_nat n :: u32) + 1) AND 0x00FFFFFF) = n + 1"
    "unat (((of_nat n :: u32) + 2) AND 0x00FFFFFF) = n + 2" "unat (((of_nat n :: u32) + 3) AND 0x00FFFFFF) = n + 3"
    using assms byte_index [of n] byte_index [of "n + 1"] byte_index [of "n + 2"] byte_index [of "n + 3"]
    by (simp_all only: of_nat_add of_nat_1 of_nat_numeral)
  have "wl (of_nat n) v m a =
      (if a = n + 3 then ucast v else if a = n + 2 then ucast (drop_bit 8 v)
       else if a = n + 1 then ucast (drop_bit 16 v) else if a = n then ucast (drop_bit 24 v) else m a)"
    by (simp only: wl_def w8_def b fun_upd_apply)
  moreover have "a = n \<or> a = n + 1 \<or> a = n + 2 \<or> a = n + 3 \<or> a < n \<or> n + 4 \<le> a" by linarith
  ultimately show "wl (of_nat n) v m a = plant n (long_bytes v) m a"
    by (auto simp: plant_def long_bytes_def)
qed

end
