(* ===== verification/CpuHarness.thy ===== *)
theory CpuHarness
  imports BenchRam
begin

text \<open>
  The single-step harness of the processor (SingleStepTests/tg68k/sim_main.cpp, and its variant
  sim_main_maclc.cpp): a test is planted in a cleared memory between a prologue that sets the
  condition codes and an epilogue that dumps them, registers are injected, the processor runs until
  the dump, and its state is compared with that of the corpus. The compiled processor is a
  parameter: its evaluation, and the reading and poking of its registers. The corpus is parsed by the
  JSON library, a parameter too; messages on stderr are the reasons of the verdict.
\<close>

section \<open>The processor\<close>

record TgIn =
  ti_reset :: bool
  ti_clk :: bool
  ti_clkena :: bool
  ti_data_in :: u16

record TgOut =
  to_busstate :: u8
  to_addr :: u32
  to_data :: u16
  to_nUDS :: bool
  to_nLDS :: bool
  to_pc :: u32
  to_sr :: u16
  to_usp :: u32

record 'h cpu =
  cpu_eval :: "'h \<Rightarrow> TgIn \<Rightarrow> 'h \<times> TgOut"
  cpu_reg :: "'h \<Rightarrow> nat \<Rightarrow> u32"
  cpu_poke :: "nat \<Rightarrow> u32 \<Rightarrow> 'h \<Rightarrow> 'h"
  cpu_poke_usp :: "u32 \<Rightarrow> 'h \<Rightarrow> 'h"

definition BS_FETCH :: u8 where "BS_FETCH = 0"
definition BS_IDLE :: u8 where "BS_IDLE = 1"
definition BS_READ :: u8 where "BS_READ = 2"
definition BS_WRITE :: u8 where "BS_WRITE = 3"

record 'h harness =
  hs_top :: 'h
  hs_in :: TgIn
  hs_out :: TgOut
  hs_ram :: ram24
  hs_time :: nat

section \<open>Clock and bus\<close>

definition eval_top :: "'h cpu \<Rightarrow> 'h harness \<Rightarrow> 'h harness" where
  "eval_top c s = (case cpu_eval c (hs_top s) (hs_in s) of (h, x) \<Rightarrow> s\<lparr>hs_top := h, hs_out := x\<rparr>)"

definition service_bus :: "'h harness \<Rightarrow> 'h harness" where
  "service_bus s =
     (let x = hs_out s; bs = to_busstate x
      in if bs = BS_IDLE then s
         else if bs = BS_FETCH \<or> bs = BS_READ
         then s\<lparr>hs_in := (hs_in s)\<lparr>ti_data_in := r16 (to_addr x) (hs_ram s)\<rparr>\<rparr>
         else if bs = BS_WRITE
         then s\<lparr>hs_ram := w16 (to_addr x) (to_data x) (\<not> to_nUDS x) (\<not> to_nLDS x) (hs_ram s)\<rparr>
         else s)"

definition harness_tick :: "'h cpu \<Rightarrow> bool \<Rightarrow> 'h harness \<Rightarrow> 'h harness" where
  "harness_tick c clkena s =
     (let s1 = eval_top c (s\<lparr>hs_in := (hs_in s)\<lparr>ti_clkena := clkena, ti_clk := False\<rparr>\<rparr>);
          s2 = eval_top c (s1\<lparr>hs_time := hs_time s1 + 1, hs_in := (hs_in s1)\<lparr>ti_clk := True\<rparr>\<rparr>);
          s3 = (if clkena then service_bus s2 else s2)
      in s3\<lparr>hs_time := hs_time s3 + 1\<rparr>)"

abbreviation ticks :: "'h cpu \<Rightarrow> nat \<Rightarrow> 'h harness \<Rightarrow> 'h harness" where
  "ticks c n \<equiv> (harness_tick c True ^^ n)"

definition set_reset :: "bool \<Rightarrow> 'h harness \<Rightarrow> 'h harness" where
  "set_reset b s = s\<lparr>hs_in := (hs_in s)\<lparr>ti_reset := b\<rparr>\<rparr>"

definition set_reg :: "'h cpu \<Rightarrow> nat \<Rightarrow> u32 \<Rightarrow> 'h harness \<Rightarrow> 'h harness" where
  "set_reg c i v s = s\<lparr>hs_top := cpu_poke c i v (hs_top s)\<rparr>"

definition reset_pulse :: "'h cpu \<Rightarrow> 'h harness \<Rightarrow> 'h harness" where
  "reset_pulse c s = set_reset False (ticks c 32 (set_reset True s))"

section \<open>A test and its program\<close>

text \<open>The program bytes of a test are the first test_len of its array.\<close>

record CpuTestSpec =
  cs_name :: string
  cs_test :: "u8 list"
  cs_hw_unsafe :: bool
  cs_ccr_mask :: u8

record Snapshot =
  sn_d :: "u32 list"
  sn_a :: "u32 list"
  sn_ccr :: u32
  sn_ram :: "u32 list"
  sn_pc :: "u32 option"
  sn_sr :: "u32 option"
  sn_usp :: "u32 option"

record TestRec =
  tr_name :: string
  tr_initial :: Snapshot
  tr_final :: "Snapshot option"

definition move_ccr_addr :: "CpuTestSpec \<Rightarrow> nat" where
  "move_ccr_addr t = 0x1004 + length (cs_test t)"

definition prologue :: "Snapshot \<Rightarrow> u8 list" where
  "prologue i = [0x44, 0xFC, 0, ucast (sn_ccr i)]"

definition dump_ccr :: "u8 list" where
  "dump_ccr = [0x42, 0xF9, 0, 0, 0x19, 0]"

definition stop_2700 :: "u8 list" where
  "stop_2700 = [0x4E, 0x72, 0x27, 0]"

text \<open>All exception vectors but the two of reset.\<close>

definition vector_numbers :: "nat list" where
  "vector_numbers = [2..<256]"

definition plant_vectors :: "u32 \<Rightarrow> nat list \<Rightarrow> ram24 \<Rightarrow> ram24" where
  "plant_vectors target vs m = fold (\<lambda>v. plant (v * 4) (long_bytes target)) vs m"

definition scratch_bytes :: "Snapshot \<Rightarrow> u8 list" where
  "scratch_bytes i = map (\<lambda>k. ucast (sn_ram i ! k)) [0..<64]"

definition test_image :: "CpuTestSpec \<Rightarrow> Snapshot \<Rightarrow> ram24" where
  "test_image t i =
     (let e = move_ccr_addr t;
          m1 = plant 0 (long_bytes (sn_a i ! 7)) (\<lambda>_. 0);
          m2 = plant 4 [0, 0, 0x10, 0] m1;
          m3 = plant 0x1000 (prologue i) m2;
          m4 = plant 0x1004 (cs_test t) m3;
          m5 = plant e dump_ccr m4;
          m6 = plant (e + 6) stop_2700 m5;
          m7 = plant_vectors (of_nat e) vector_numbers m6
      in plant 0x1800 (scratch_bytes i) m7)"

section \<open>Running a test\<close>

definition inject :: "'h cpu \<Rightarrow> Snapshot \<Rightarrow> 'h harness \<Rightarrow> 'h harness" where
  "inject c i s =
     (let s1 = fold (\<lambda>r s. set_reg c (8 + r) (sn_a i ! r) (set_reg c r (sn_d i ! r) s)) [0..<8] s
      in case sn_usp i of None \<Rightarrow> s1 | Some u \<Rightarrow> s1\<lparr>hs_top := cpu_poke_usp c u (hs_top s1)\<rparr>)"

record Capture =
  saw_test_done :: bool
  saw_ccr_write :: bool
  got_pc :: u32
  got_sr :: u16
  got_usp :: u32

definition capture_init :: Capture where
  "capture_init = \<lparr>saw_test_done = False, saw_ccr_write = False, got_pc = 0, got_sr = 0, got_usp = 0\<rparr>"

definition even_addr :: "u32 \<Rightarrow> u32" where
  "even_addr a = a AND 0xFFFFFFFE"

definition capture_step :: "'h cpu \<Rightarrow> u32 \<Rightarrow> Capture \<Rightarrow> 'h harness \<Rightarrow> Capture \<times> 'h harness" where
  "capture_step c e k s =
     (let s1 = harness_tick c True s; x = hs_out s1;
          k1 = (if \<not> saw_test_done k \<and> to_busstate x = BS_FETCH \<and> even_addr (to_addr x) = even_addr e
                then k\<lparr>saw_test_done := True, got_pc := to_pc x\<rparr> else k)
      in if to_busstate x = BS_WRITE \<and> even_addr (to_addr x) = 0x1900
         then (k1\<lparr>saw_ccr_write := True, got_sr := to_sr x, got_usp := to_usp x\<rparr>, ticks c 16 s1)
         else (k1, s1))"

fun capture_loop :: "'h cpu \<Rightarrow> u32 \<Rightarrow> nat \<Rightarrow> Capture \<Rightarrow> 'h harness \<Rightarrow> Capture \<times> 'h harness" where
  "capture_loop c e 0 k s = (k, s)"
| "capture_loop c e (Suc n) k s =
     (if saw_ccr_write k then (k, s)
      else case capture_step c e k s of (k1, s1) \<Rightarrow> capture_loop c e n k1 s1)"

definition run_program :: "'h cpu \<Rightarrow> CpuTestSpec \<Rightarrow> Snapshot \<Rightarrow> 'h harness \<Rightarrow> Capture \<times> 'h harness" where
  "run_program c t i s =
     capture_loop c (of_nat (move_ccr_addr t)) 5000 capture_init
       (inject c i (reset_pulse c (s\<lparr>hs_ram := test_image t i\<rparr>)))"

section \<open>The verdict\<close>

datatype reason = Timeout | BadCcr u8 u32 u8 | BadD nat u32 u32 | BadA nat u32 u32 | BadPc u32 u32
  | BadSr u16 u16 u16 | BadUsp u32 u32 | BadRam nat u8 u8

datatype verdict = Passed | FailedBy reason

definition differs :: "'a \<Rightarrow> 'a \<Rightarrow> reason \<Rightarrow> reason option" where
  "differs got expected r = (if got \<noteq> expected then Some r else None)"

definition check_ccr :: "CpuTestSpec \<Rightarrow> Snapshot \<Rightarrow> ram24 \<Rightarrow> reason option" where
  "check_ccr t f m =
     (let mk = cs_ccr_mask t
      in differs (m 0x1901 AND mk) (ucast (sn_ccr f) AND mk) (BadCcr (m 0x1901) (sn_ccr f AND 0xFF) mk))"

definition check_d :: "'h cpu \<Rightarrow> Snapshot \<Rightarrow> 'h \<Rightarrow> nat \<Rightarrow> reason option" where
  "check_d c f h r = differs (cpu_reg c h r) (sn_d f ! r) (BadD r (cpu_reg c h r) (sn_d f ! r))"

definition check_a :: "'h cpu \<Rightarrow> Snapshot \<Rightarrow> 'h \<Rightarrow> nat \<Rightarrow> reason option" where
  "check_a c f h r = differs (cpu_reg c h (8 + r)) (sn_a f ! r) (BadA r (cpu_reg c h (8 + r)) (sn_a f ! r))"

definition check_pc :: "Snapshot \<Rightarrow> Snapshot \<Rightarrow> Capture \<Rightarrow> reason option" where
  "check_pc i f k =
     (case (saw_test_done k, sn_pc f, sn_pc i) of
        (True, Some pf, Some pi) \<Rightarrow> (let e = 0x1004 + (pf - pi) in differs (got_pc k) e (BadPc (got_pc k) e))
      | _ \<Rightarrow> None)"

definition sr_mask :: "CpuTestSpec \<Rightarrow> u16" where
  "sr_mask t = (NOT 0x0700 AND 0xFFE0) OR (ucast (cs_ccr_mask t) AND 0x1F)"

definition check_sr :: "CpuTestSpec \<Rightarrow> Snapshot \<Rightarrow> Capture \<Rightarrow> reason option" where
  "check_sr t f k =
     (case sn_sr f of
        None \<Rightarrow> None
      | Some v \<Rightarrow> differs (got_sr k AND sr_mask t) (ucast v AND sr_mask t)
                    (BadSr (got_sr k AND NOT 0x0700) (ucast v AND NOT 0x0700) (sr_mask t)))"

definition check_usp :: "Snapshot \<Rightarrow> Capture \<Rightarrow> reason option" where
  "check_usp f k =
     (case (saw_test_done k, sn_usp f) of
        (True, Some u) \<Rightarrow> differs (got_usp k) u (BadUsp (got_usp k) u)
      | _ \<Rightarrow> None)"

definition check_ram :: "Snapshot \<Rightarrow> ram24 \<Rightarrow> nat \<Rightarrow> reason option" where
  "check_ram f m j = differs (m (0x1800 + j)) (ucast (sn_ram f ! j)) (BadRam j (m (0x1800 + j)) (ucast (sn_ram f ! j)))"

text \<open>Each check runs only while no earlier one failed.\<close>

fun first_reason :: "reason option list \<Rightarrow> verdict" where
  "first_reason [] = Passed"
| "first_reason (None # rs) = first_reason rs"
| "first_reason (Some r # rs) = FailedBy r"

definition judge :: "'h cpu \<Rightarrow> CpuTestSpec \<Rightarrow> Snapshot \<Rightarrow> Snapshot \<Rightarrow> Capture \<Rightarrow> 'h harness \<Rightarrow> verdict" where
  "judge c t i f k s =
     (if \<not> saw_ccr_write k then FailedBy Timeout
      else first_reason
        ([check_ccr t f (hs_ram s)] @ map (check_d c f (hs_top s)) [0..<8] @ map (check_a c f (hs_top s)) [0..<8] @
         [check_pc i f k, check_sr t f k, check_usp f k] @ map (check_ram f (hs_ram s)) [0..<64]))"

section \<open>The runner\<close>

record Tally =
  tl_passed :: nat
  tl_failed :: nat
  tl_skipped :: nat

definition tally_init :: Tally where
  "tally_init = \<lparr>tl_passed = 0, tl_failed = 0, tl_skipped = 0\<rparr>"

text \<open>The last test of a name wins, as in the map of the harness.\<close>

definition spec_of :: "CpuTestSpec list \<Rightarrow> string \<Rightarrow> CpuTestSpec option" where
  "spec_of specs = fold (\<lambda>t m. m(cs_name t \<mapsto> t)) specs Map.empty"

datatype 'h line_result = Skip | Judged verdict "'h harness" | Throws

definition run_line :: "'h cpu \<Rightarrow> CpuTestSpec list \<Rightarrow> TestRec \<Rightarrow> 'h harness \<Rightarrow> 'h line_result" where
  "run_line c specs r s =
     (case spec_of specs (tr_name r) of
        None \<Rightarrow> Skip
      | Some t \<Rightarrow>
          if cs_hw_unsafe t then Skip
          else case tr_final r of
                 None \<Rightarrow> Skip
               | Some f \<Rightarrow> (case run_program c t (tr_initial r) s of
                               (k, s1) \<Rightarrow> Judged (judge c t (tr_initial r) f k s1) s1))"

text \<open>The variant for the Macintosh LC has no guard for records without a final state: reading the
  missing condition codes throws once the dump was seen.\<close>

definition run_line_maclc :: "'h cpu \<Rightarrow> CpuTestSpec list \<Rightarrow> TestRec \<Rightarrow> 'h harness \<Rightarrow> 'h line_result" where
  "run_line_maclc c specs r s =
     (case spec_of specs (tr_name r) of
        None \<Rightarrow> Skip
      | Some t \<Rightarrow>
          if cs_hw_unsafe t then Skip
          else case run_program c t (tr_initial r) s of
                 (k, s1) \<Rightarrow>
                   (case tr_final r of
                      Some f \<Rightarrow> Judged (judge c t (tr_initial r) f k s1) s1
                    | None \<Rightarrow> if saw_ccr_write k then Throws else Judged (FailedBy Timeout) s1))"

definition count_result :: "verdict \<Rightarrow> Tally \<Rightarrow> Tally" where
  "count_result v n =
     (if v = Passed then n\<lparr>tl_passed := tl_passed n + 1\<rparr> else n\<lparr>tl_failed := tl_failed n + 1\<rparr>)"

text \<open>The loop over the lines of the file; parse is the JSON library, None an exception.\<close>

fun run_lines :: "(TestRec \<Rightarrow> 'h harness \<Rightarrow> 'h line_result) \<Rightarrow> (string \<Rightarrow> TestRec option) \<Rightarrow> string list \<Rightarrow>
    Tally \<Rightarrow> 'h harness \<Rightarrow> (Tally \<times> 'h harness) option" where
  "run_lines rl parse [] n s = Some (n, s)"
| "run_lines rl parse (l # ls) n s =
     (if l = [] then run_lines rl parse ls n s
      else case parse l of
             None \<Rightarrow> None
           | Some r \<Rightarrow>
               (case rl r s of
                  Skip \<Rightarrow> run_lines rl parse ls (n\<lparr>tl_skipped := tl_skipped n + 1\<rparr>) s
                | Judged v s1 \<Rightarrow> run_lines rl parse ls (count_result v n) s1
                | Throws \<Rightarrow> None))"

text \<open>The state at the start of main, and the exit code.\<close>

definition harness_start :: "'h cpu \<Rightarrow> 'h \<Rightarrow> TgOut \<Rightarrow> 'h harness" where
  "harness_start c h x =
     reset_pulse c \<lparr>hs_top = h, hs_in = \<lparr>ti_reset = True, ti_clk = False, ti_clkena = False, ti_data_in = 0\<rparr>,
       hs_out = x, hs_ram = (\<lambda>_. 0), hs_time = 0\<rparr>"

definition harness_main :: "'h cpu \<Rightarrow> CpuTestSpec list \<Rightarrow> (string \<Rightarrow> TestRec option) \<Rightarrow> string list option \<Rightarrow>
    'h \<Rightarrow> TgOut \<Rightarrow> int option" where
  "harness_main c specs parse file h x =
     (case file of
        None \<Rightarrow> Some 1
      | Some ls \<Rightarrow>
          map_option (\<lambda>(n, s). if tl_failed n \<noteq> 0 then 1 else 0)
            (run_lines (run_line c specs) parse ls tally_init (harness_start c h x)))"

section \<open>The register probe\<close>

definition probe_image :: "ram24 \<Rightarrow> ram24" where
  "probe_image m =
     plant 0x1006 stop_2700
       (plant 0x1000 [0x23, 0xC0, 0, 0, 0x02, 0] (plant 0 [0, 0xFF, 0xFF, 0xF8, 0, 0, 0x10, 0] m))"

definition probe_regs :: "'h cpu \<Rightarrow> 'h harness \<Rightarrow> int" where
  "probe_regs c s =
     (let s1 = reset_pulse c (s\<lparr>hs_ram := probe_image (hs_ram s)\<rparr>);
          s2 = ticks c 200 (set_reg c 0 0xDEADBEEF s1);
          result = be_long (hs_ram s2 0x200) (hs_ram s2 0x201) (hs_ram s2 0x202) (hs_ram s2 0x203)
      in if result = 0xDEADBEEF then 0 else 1)"

section \<open>The planted image\<close>

lemma plant_vectors_hit:
  "v \<in> set vs \<Longrightarrow> stretch (v * 4) 4 (plant_vectors w vs m) = long_bytes w"
proof (induction vs rule: rev_induct)
  case (snoc x vs)
  let ?m = "plant_vectors w vs m"
  have e: "plant_vectors w (vs @ [x]) m = plant (x * 4) (long_bytes w) ?m" by (simp add: plant_vectors_def)
  show ?case
  proof (cases "v = x")
    case True
    then show ?thesis using stretch_same [of "x * 4" "long_bytes w" ?m] by (simp add: e)
  next
    case False
    then have "v * 4 + 4 \<le> x * 4 \<or> x * 4 + 4 \<le> v * 4" by linarith
    then show ?thesis using False snoc stretch_other [of "v * 4" 4 "x * 4" "long_bytes w" ?m] by (simp add: e)
  qed
qed (simp add: plant_vectors_def)

lemma plant_vectors_frame:
  "\<forall>v\<in>set vs. q + n \<le> v * 4 \<or> v * 4 + 4 \<le> q \<Longrightarrow> stretch q n (plant_vectors w vs m) = stretch q n m"
proof (induction vs arbitrary: m)
  case (Cons v vs)
  have "stretch q n (plant_vectors w vs (plant (v * 4) (long_bytes w) m)) = stretch q n (plant (v * 4) (long_bytes w) m)"
    using Cons.IH Cons.prems by simp
  also have "\<dots> = stretch q n m" using Cons.prems stretch_other [of q n "v * 4" "long_bytes w" m] by simp
  finally show ?case by (simp add: plant_vectors_def)
qed (simp add: plant_vectors_def)

lemma set_vector_numbers [simp]: "v \<in> set vector_numbers \<longleftrightarrow> 2 \<le> v \<and> v < 256"
  unfolding vector_numbers_def set_upt by simp

lemma vectors_low: "\<forall>v\<in>set vector_numbers. 0 + 8 \<le> v * 4 \<or> v * 4 + 4 \<le> (0::nat)"
  by simp

lemma vectors_high: "1024 \<le> q \<Longrightarrow> \<forall>v\<in>set vector_numbers. q + n \<le> v * 4 \<or> v * 4 + 4 \<le> (q::nat)"
  by simp

lemma long_1000: "[0, 0, 0x10, 0] = long_bytes 0x1000"
  by (simp add: long_bytes_def)

lemma stretch_eq_nth: "stretch a n m = stretch a n m' \<Longrightarrow> a \<le> b \<Longrightarrow> b < a + n \<Longrightarrow> m b = m' b"
  unfolding stretch_def by (auto simp: map_eq_conv)

definition test_program :: "CpuTestSpec \<Rightarrow> Snapshot \<Rightarrow> u8 list" where
  "test_program t i = prologue i @ cs_test t @ dump_ccr @ stop_2700"

lemma test_image_parts:
  "test_image t i = plant 0x1800 (scratch_bytes i) (plant_vectors (of_nat (move_ccr_addr t)) vector_numbers
     (plant 0x1000 (test_program t i) (plant 0 (long_bytes (sn_a i ! 7) @ long_bytes 0x1000) (\<lambda>_. 0))))"
proof -
  let ?z = "plant 0 (long_bytes (sn_a i ! 7) @ long_bytes 0x1000) (\<lambda>_. 0)"
  have 1: "plant 4 (long_bytes 0x1000) (plant 0 (long_bytes (sn_a i ! 7)) (\<lambda>_. 0)) = ?z"
    using plant_plant [of 0 "long_bytes (sn_a i ! 7)" "long_bytes 0x1000"] by simp
  have 2: "plant 0x1004 (cs_test t) (plant 0x1000 (prologue i) ?z) = plant 0x1000 (prologue i @ cs_test t) ?z"
    using plant_plant [of "0x1000" "prologue i" "cs_test t" ?z] by (simp add: prologue_def)
  have 3: "plant (move_ccr_addr t) dump_ccr (plant 0x1000 (prologue i @ cs_test t) ?z) =
      plant 0x1000 (prologue i @ cs_test t @ dump_ccr) ?z"
    using plant_plant [of "0x1000" "prologue i @ cs_test t" dump_ccr ?z] by (simp add: prologue_def move_ccr_addr_def add.assoc)
  have 4: "plant (move_ccr_addr t + 6) stop_2700 (plant 0x1000 (prologue i @ cs_test t @ dump_ccr) ?z) =
      plant 0x1000 (test_program t i) ?z"
    using plant_plant [of "0x1000" "prologue i @ cs_test t @ dump_ccr" stop_2700 ?z]
    by (simp add: prologue_def move_ccr_addr_def dump_ccr_def test_program_def add.assoc)
  show ?thesis by (simp only: test_image_def Let_def long_1000 1 2 3 4)
qed

text \<open>The planted image. For every test of at most 2034 bytes no part of the image overwrites
  another: the reset vectors hold the initial stack pointer and 0x1000, all other exception vectors
  lead to the dump, the program is prologue, test, dump and stop in this order, the scratch bytes
  are in place, and every other byte is zero.\<close>

theorem harness_image:
  assumes "length (cs_test t) \<le> 2034" "2 \<le> v" "v < 256"
    "8 \<le> a" "a < 0x1000 \<longrightarrow> 1024 \<le> a" "0x1000 \<le> a \<longrightarrow> 0x1000 + length (test_program t i) \<le> a"
    "0x1800 \<le> a \<longrightarrow> 0x1840 \<le> a"
  shows "r32 0 (test_image t i) = sn_a i ! 7 \<and> r32 4 (test_image t i) = 0x1000 \<and>
    r32 (of_nat (v * 4)) (test_image t i) = 0x1004 + of_nat (length (cs_test t)) \<and>
    stretch 0x1000 (length (test_program t i)) (test_image t i) = test_program t i \<and>
    stretch 0x1800 64 (test_image t i) = scratch_bytes i \<and> test_image t i a = 0"
proof -
  let ?e = "of_nat (move_ccr_addr t) :: u32" and ?p = "test_program t i"
  let ?z = "plant 0 (long_bytes (sn_a i ! 7) @ long_bytes 0x1000) (\<lambda>_. 0)"
  let ?q = "plant 0x1000 ?p ?z" and ?m = "test_image t i"
  let ?v = "plant_vectors ?e vector_numbers ?q"
  have m: "?m = plant 0x1800 (scratch_bytes i) ?v" by (rule test_image_parts)
  have len: "length ?p = length (cs_test t) + 14" "length (scratch_bytes i) = 64"
    by (simp_all add: test_program_def prologue_def dump_ccr_def stop_2700_def scratch_bytes_def)
  have low: "stretch q n ?m = stretch q n ?v" if "q + n \<le> 0x1800" for q n
    using that stretch_other [of q n "0x1800" "scratch_bytes i" ?v] by (simp add: m)
  have "stretch 0 8 ?m = long_bytes (sn_a i ! 7) @ long_bytes 0x1000"
    using low [of 0 8] plant_vectors_frame [OF vectors_low, of ?e ?q]
      stretch_other [of 0 8 "0x1000" ?p ?z] stretch_same [of 0 "long_bytes (sn_a i ! 7) @ long_bytes 0x1000" "\<lambda>_. 0"]
    by simp
  then have "stretch 0 4 ?m = long_bytes (sn_a i ! 7)" "stretch 4 4 ?m = long_bytes 0x1000"
    using stretch_add [of 0 4 4 ?m] by (simp_all add: append_eq_append_conv)
  then have "r32 0 ?m = sn_a i ! 7" "r32 4 ?m = 0x1000"
    using r32_stretch [of 0] r32_stretch [of 4] by simp_all
  moreover have "r32 (of_nat (v * 4)) ?m = ?e"
  proof (rule r32_stretch)
    show "stretch (v * 4) 4 ?m = long_bytes ?e"
      using low [of "v * 4" 4] plant_vectors_hit [of v "vector_numbers" ?e ?q] assms(2,3) by simp
  qed (use assms(2,3) in simp_all)
  moreover have "stretch 0x1000 (length ?p) ?m = ?p"
    using low [of "0x1000" "length ?p"] plant_vectors_frame [OF vectors_high, of "0x1000" "length ?p" ?e ?q]
      stretch_same [of "0x1000" ?p ?z] assms(1) len by simp
  moreover have "stretch 0x1800 64 ?m = scratch_bytes i"
    using stretch_same [of "0x1800" "scratch_bytes i" ?v] len(2) by (simp add: m)
  moreover have "?m a = 0"
  proof -
    have "a < 0x1800 \<or> 0x1800 + length (scratch_bytes i) \<le> a" using assms(7) len(2) by linarith
    then have "?m a = ?v a" unfolding m by (rule plant_outside)
    also have "\<dots> = ?q a"
    proof (rule stretch_eq_nth [OF plant_vectors_frame])
      show "\<forall>v\<in>set vector_numbers. a + 1 \<le> v * 4 \<or> v * 4 + 4 \<le> a" using assms(4,5) by (cases "a < 0x1000") auto
    qed simp_all
    also have "\<dots> = 0" using assms(4,6) by (auto simp: plant_def)
    finally show ?thesis .
  qed
  ultimately show ?thesis by (simp add: move_ccr_addr_def)
qed

definition demo_snapshot :: Snapshot where
  "demo_snapshot = \<lparr>sn_d = replicate 8 0, sn_a = replicate 7 0 @ [0x00010000], sn_ccr = 0x1F, sn_ram = replicate 64 7,
     sn_pc = Some 0x1004, sn_sr = None, sn_usp = None\<rparr>"

definition demo_spec :: CpuTestSpec where
  "demo_spec = \<lparr>cs_name = ''NOP'', cs_test = [0x4E, 0x71], cs_hw_unsafe = False, cs_ccr_mask = 0xFF\<rparr>"

theorem harness_image_witness: "r32 0 (test_image demo_spec demo_snapshot) = 0x10000 \<and> test_image demo_spec demo_snapshot 0x1010 = 0"
  using harness_image [of demo_spec 2 "0x1010" demo_snapshot]
  by (simp add: demo_spec_def demo_snapshot_def test_program_def prologue_def dump_ccr_def stop_2700_def nth_append)

section \<open>What a run captures\<close>

text \<open>The outputs after each tick, and the two events a run looks for.\<close>

definition obs :: "'h cpu \<Rightarrow> 'h harness \<Rightarrow> nat \<Rightarrow> TgOut" where
  "obs c s j = hs_out (ticks c (Suc j) s)"

definition is_dump :: "TgOut \<Rightarrow> bool" where
  "is_dump x \<longleftrightarrow> to_busstate x = BS_WRITE \<and> even_addr (to_addr x) = 0x1900"

definition is_fetch :: "u32 \<Rightarrow> TgOut \<Rightarrow> bool" where
  "is_fetch e x \<longleftrightarrow> to_busstate x = BS_FETCH \<and> even_addr (to_addr x) = even_addr e"

definition latch :: "u32 \<Rightarrow> Capture \<Rightarrow> TgOut list \<Rightarrow> Capture" where
  "latch e k xs =
     (if saw_test_done k then k
      else case find (is_fetch e) xs of None \<Rightarrow> k | Some x \<Rightarrow> k\<lparr>saw_test_done := True, got_pc := to_pc x\<rparr>)"

lemma latch_simps [simp]: "latch e k [] = k" "saw_ccr_write (latch e k xs) = saw_ccr_write k"
  by (simp_all add: latch_def split: option.split)

lemma latch_Cons: "latch e (latch e k [x]) xs = latch e k (x # xs)"
  by (cases "is_fetch e x"; cases "saw_test_done k"; simp add: latch_def)

lemma obs_Suc [simp]: "obs c s 0 = hs_out (harness_tick c True s)" "obs c (harness_tick c True s) j = obs c s (Suc j)"
  by (simp_all add: obs_def funpow_swap1)

lemma obs_list: "map (obs c s) [0..<Suc n] = hs_out (harness_tick c True s) # map (obs c (harness_tick c True s)) [0..<n]"
proof -
  have "obs c (harness_tick c True s) = obs c s \<circ> Suc" by (rule ext) simp
  then show ?thesis
    by (simp only: upt_conv_Cons zero_less_Suc map_Suc_upt [symmetric] list.map map_map obs_Suc(1))
qed

lemma ticks_Suc: "ticks c n (harness_tick c True s) = ticks c (Suc n) s"
  by (simp add: funpow_swap1)

lemma capture_step_latch:
  "capture_step c e k s =
     (let s1 = harness_tick c True s; x = hs_out s1; k1 = latch e k [x]
      in if is_dump x then (k1\<lparr>saw_ccr_write := True, got_sr := to_sr x, got_usp := to_usp x\<rparr>, ticks c 16 s1) else (k1, s1))"
  by (simp add: capture_step_def Let_def latch_def is_fetch_def is_dump_def)

lemma capture_none:
  assumes "\<forall>j<n. \<not> is_dump (obs c s j)" "\<not> saw_ccr_write k"
  shows "capture_loop c e n k s = (latch e k (map (obs c s) [0..<n]), ticks c n s)"
  using assms
proof (induction n arbitrary: k s)
  case (Suc n)
  let ?s = "harness_tick c True s"
  have d: "\<not> is_dump (hs_out ?s)" using Suc.prems(1) by (metis obs_Suc(1) zero_less_Suc)
  have "capture_loop c e (Suc n) k s = capture_loop c e n (latch e k [hs_out ?s]) ?s"
    using d Suc.prems(2) by (simp add: capture_step_latch Let_def)
  also have "\<dots> = (latch e (latch e k [hs_out ?s]) (map (obs c ?s) [0..<n]), ticks c n ?s)"
    by (rule Suc.IH) (use Suc.prems in simp_all)
  also have "\<dots> = (latch e k (map (obs c s) [0..<Suc n]), ticks c (Suc n) s)"
    by (simp only: obs_list ticks_Suc latch_Cons)
  finally show ?case .
qed simp

lemma capture_stop: "saw_ccr_write k \<Longrightarrow> capture_loop c e n k s = (k, s)"
  by (cases n) simp_all

lemma capture_dump:
  assumes "N < n" "is_dump (obs c s N)" "\<forall>j<N. \<not> is_dump (obs c s j)" "\<not> saw_ccr_write k"
  shows "capture_loop c e n k s =
    ((latch e k (map (obs c s) [0..<Suc N]))\<lparr>saw_ccr_write := True, got_sr := to_sr (obs c s N), got_usp := to_usp (obs c s N)\<rparr>,
     ticks c 16 (ticks c (Suc N) s))"
  using assms
proof (induction N arbitrary: n k s)
  case 0
  obtain m where n: "n = Suc m" using 0(1) by (cases n) auto
  show ?case using 0 by (simp add: n capture_step_latch Let_def capture_stop)
next
  case (Suc N)
  obtain m where n: "n = Suc m" "N < m" using Suc.prems(1) by (cases n) auto
  let ?s = "harness_tick c True s"
  have d: "\<not> is_dump (hs_out ?s)" using Suc.prems(3) by (metis obs_Suc(1) zero_less_Suc)
  have "capture_loop c e n k s = capture_loop c e m (latch e k [hs_out ?s]) ?s"
    using d Suc.prems(4) by (simp add: n capture_step_latch Let_def)
  also have "\<dots> = ((latch e (latch e k [hs_out ?s]) (map (obs c ?s) [0..<Suc N]))
      \<lparr>saw_ccr_write := True, got_sr := to_sr (obs c ?s N), got_usp := to_usp (obs c ?s N)\<rparr>, ticks c 16 (ticks c (Suc N) ?s))"
    by (rule Suc.IH) (use Suc.prems n in simp_all)
  finally show ?case by (simp only: obs_list [of c s "Suc N"] latch_Cons obs_Suc ticks_Suc)
qed

lemma ticks_time: "hs_time (ticks c n s) = hs_time s + 2 * n"
proof (induction n)
  case (Suc n)
  have "hs_time (eval_top c u) = hs_time u" for u :: "'a harness" by (simp add: eval_top_def split: prod.split)
  moreover have "hs_time (service_bus u) = hs_time u" for u :: "'a harness" by (simp add: service_bus_def Let_def)
  ultimately have "hs_time (harness_tick c True u) = hs_time u + 2" for u :: "'a harness"
    by (simp add: harness_tick_def Let_def)
  then show ?case using Suc by simp
qed simp

text \<open>C27. What a run captures. For any processor: when the first write to the dump word is seen after
  tick N + 1, within the 5000 ticks, the status register and the user stack pointer are those of that
  tick, the program counter is that of the first fetch of the dump instruction seen so far (if any),
  and memory and registers are compared 16 ticks later; without such a write the test times out after
  exactly 5000 ticks.\<close>

theorem harness_capture:
  assumes "\<forall>j<N. \<not> is_dump (obs c s j)" "N < 5000 \<longrightarrow> is_dump (obs c s N)" "N \<le> 5000"
    "os = map (obs c s) [0..<if N < 5000 then Suc N else N]"
    "capture_loop c e 5000 capture_init s = (k, s')"
  shows "saw_ccr_write k = (N < 5000) \<and> saw_test_done k = list_ex (is_fetch e) os \<and>
    (\<forall>x. find (is_fetch e) os = Some x \<longrightarrow> got_pc k = to_pc x) \<and>
    (N < 5000 \<longrightarrow> got_sr k = to_sr (obs c s N) \<and> got_usp k = to_usp (obs c s N)) \<and>
    s' = ticks c (if N < 5000 then N + 17 else 5000) s \<and> hs_time s' = hs_time s + 2 * (if N < 5000 then N + 17 else 5000)"
proof -
  have l: "saw_test_done (latch e capture_init xs) = list_ex (is_fetch e) xs" for xs
  proof -
    have "list_ex (is_fetch e) xs = (find (is_fetch e) xs \<noteq> None)"
      by (auto simp: find_None_iff list_ex_iff simp del: not_None_eq)
    then show ?thesis by (cases "find (is_fetch e) xs") (simp_all add: latch_def capture_init_def)
  qed
  have p: "got_pc (latch e capture_init xs) = to_pc x" if "find (is_fetch e) xs = Some x" for xs x
    using that by (simp add: latch_def capture_init_def)
  have i: "\<not> saw_ccr_write capture_init" by (simp add: capture_init_def)
  show ?thesis
  proof (cases "N < 5000")
    case True
    have "k = (latch e capture_init os)\<lparr>saw_ccr_write := True, got_sr := to_sr (obs c s N), got_usp := to_usp (obs c s N)\<rparr>"
      "s' = ticks c 16 (ticks c (Suc N) s)"
      using capture_dump [OF True _ assms(1) i, of e] assms(2,4,5) True by simp_all
    moreover have "ticks c 16 (ticks c (Suc N) s) = ticks c (N + 17) s"
      using funpow_add [of 16 "Suc N" "harness_tick c True"] by (simp add: comp_def add.commute)
    ultimately show ?thesis using True l p ticks_time [of "N + 17" c s] by simp
  next
    case False
    then have N: "N = 5000" using assms(3) by simp
    have "k = latch e capture_init os" "s' = ticks c 5000 s"
      using capture_none [OF _ i, of 5000 c s e] assms(1,4,5) N by simp_all
    then show ?thesis using N l p i ticks_time [of 5000 c s] by simp
  qed
qed

definition demo_cpu :: "unit cpu" where
  "demo_cpu = \<lparr>cpu_eval = (\<lambda>h i. (h, \<lparr>to_busstate = BS_WRITE, to_addr = 0x1901, to_data = 4, to_nUDS = False, to_nLDS = False,
       to_pc = 0x1006, to_sr = 0x2704, to_usp = 0\<rparr>)),
     cpu_reg = (\<lambda>h r. if r = 15 then 0x10000 else 0), cpu_poke = (\<lambda>r v h. h), cpu_poke_usp = (\<lambda>v h. h)\<rparr>"

lemma demo_obs: "hs_out (harness_tick demo_cpu True s) =
    \<lparr>to_busstate = BS_WRITE, to_addr = 0x1901, to_data = 4, to_nUDS = False, to_nLDS = False,
     to_pc = 0x1006, to_sr = 0x2704, to_usp = 0\<rparr>"
  by (simp add: harness_tick_def Let_def eval_top_def service_bus_def demo_cpu_def BS_WRITE_def BS_IDLE_def BS_FETCH_def BS_READ_def)

theorem harness_capture_witness:
  "\<forall>s. \<exists>k s'. capture_loop demo_cpu 0x1006 5000 capture_init s = (k, s') \<and> saw_ccr_write k \<and> \<not> saw_test_done k \<and> got_sr k = 0x2704"
proof
  fix s
  obtain k s' where r: "capture_loop demo_cpu 0x1006 5000 capture_init s = (k, s')" by fastforce
  have "is_dump (obs demo_cpu s 0)" by (simp add: demo_obs is_dump_def even_addr_def)
  with harness_capture [of 0 demo_cpu s _ "0x1006", OF _ _ _ refl r] r
  show "\<exists>k s'. capture_loop demo_cpu 0x1006 5000 capture_init s = (k, s') \<and> saw_ccr_write k \<and> \<not> saw_test_done k \<and> got_sr k = 0x2704"
    by (simp add: demo_obs is_fetch_def BS_WRITE_def BS_FETCH_def)
qed

section \<open>The verdict\<close>

lemma first_reason_passed: "first_reason rs = Passed \<longleftrightarrow> (\<forall>r\<in>set rs. r = None)"
  by (induction rs rule: first_reason.induct) simp_all

lemma differs_None [simp]: "differs a b r = None \<longleftrightarrow> a = b"
  by (simp add: differs_def)

lemma first_reason_first:
  "first_reason rs = FailedBy r \<longleftrightarrow> (\<exists>k<length rs. rs ! k = Some r \<and> (\<forall>j<k. rs ! j = None))"
proof (induction rs rule: first_reason.induct)
  case (2 rs)
  then show ?case by (auto simp: Ex_less_Suc2 All_less_Suc2)
next
  case (3 a rs)
  then show ?case by (auto simp: Ex_less_Suc2 All_less_Suc2)
qed simp

text \<open>C21. The verdict. A test passes exactly when the dump was seen and the condition codes agree under
  the mask of the test, all sixteen registers agree, the distance the program counter has come agrees
  (when the corpus records it and the dump instruction was seen fetched), the status register agrees
  outside the interrupt mask and the masked codes, the user stack pointer agrees, and all 64 bytes of
  scratch memory agree.\<close>

theorem harness_verdict:
  "judge c t i f k s = Passed \<longleftrightarrow>
     saw_ccr_write k \<and> hs_ram s 0x1901 AND cs_ccr_mask t = ucast (sn_ccr f) AND cs_ccr_mask t \<and>
     (\<forall>r\<in>{..<8}. cpu_reg c (hs_top s) r = sn_d f ! r \<and> cpu_reg c (hs_top s) (8 + r) = sn_a f ! r) \<and>
     (\<forall>pf pi. saw_test_done k \<and> sn_pc f = Some pf \<and> sn_pc i = Some pi \<longrightarrow> got_pc k - 0x1004 = pf - pi) \<and>
     (\<forall>v. sn_sr f = Some v \<longrightarrow> got_sr k AND sr_mask t = ucast v AND sr_mask t) \<and>
     (\<forall>u. saw_test_done k \<and> sn_usp f = Some u \<longrightarrow> got_usp k = u) \<and>
     (\<forall>j\<in>{..<64}. hs_ram s (0x1800 + j) = ucast (sn_ram f ! j))"
proof -
  have pc: "check_pc i f k = None \<longleftrightarrow>
      (\<forall>pf pi. saw_test_done k \<and> sn_pc f = Some pf \<and> sn_pc i = Some pi \<longrightarrow> got_pc k - 0x1004 = pf - pi)"
    by (auto simp: check_pc_def Let_def algebra_simps split: bool.split option.split)
  have sr: "check_sr t f k = None \<longleftrightarrow> (\<forall>v. sn_sr f = Some v \<longrightarrow> got_sr k AND sr_mask t = ucast v AND sr_mask t)"
    by (simp add: check_sr_def split: option.split)
  have usp: "check_usp f k = None \<longleftrightarrow> (\<forall>u. saw_test_done k \<and> sn_usp f = Some u \<longrightarrow> got_usp k = u)"
    by (auto simp: check_usp_def split: bool.split option.split)
  have regs: "(\<forall>r\<in>set (map (check_d c f h) [0..<8]). r = None) \<longleftrightarrow> (\<forall>r\<in>{..<8}. cpu_reg c h r = sn_d f ! r)"
    "(\<forall>r\<in>set (map (check_a c f h) [0..<8]). r = None) \<longleftrightarrow> (\<forall>r\<in>{..<8}. cpu_reg c h (8 + r) = sn_a f ! r)"
    "(\<forall>r\<in>set (map (check_ram f m) [0..<64]). r = None) \<longleftrightarrow> (\<forall>j\<in>{..<64}. m (0x1800 + j) = ucast (sn_ram f ! j))" for h m
    unfolding set_map set_upt by (auto simp: check_d_def check_a_def check_ram_def)
  have ccr: "check_ccr t f m = None \<longleftrightarrow> m 0x1901 AND cs_ccr_mask t = ucast (sn_ccr f) AND cs_ccr_mask t" for m
    by (simp add: check_ccr_def Let_def)
  show ?thesis
    unfolding judge_def using pc sr usp regs ccr
    by (simp add: first_reason_passed ball_Un ball_conj_distrib del: set_map map_upt_eqI) blast
qed

definition demo_seen :: Capture where
  "demo_seen = capture_init\<lparr>saw_test_done := True, saw_ccr_write := True, got_pc := 0x1006\<rparr>"

definition demo_state :: "unit harness" where
  "demo_state = \<lparr>hs_top = (), hs_in = \<lparr>ti_reset = False, ti_clk = False, ti_clkena = True, ti_data_in = 0\<rparr>,
     hs_out = \<lparr>to_busstate = 1, to_addr = 0, to_data = 0, to_nUDS = True, to_nLDS = True, to_pc = 0, to_sr = 0, to_usp = 0\<rparr>,
     hs_ram = (\<lambda>_. 7), hs_time = 0\<rparr>"

lemma nth_demo_a: "r < 8 \<Longrightarrow> (replicate 7 (0::u32) @ [x]) ! r = (if r = 7 then x else 0)"
  by (simp add: nth_append)

theorem harness_verdict_witness:
  "judge demo_cpu demo_spec demo_snapshot (demo_snapshot\<lparr>sn_ccr := 7, sn_pc := Some 0x1006\<rparr>) demo_seen demo_state = Passed"
  by (subst harness_verdict)
    (auto simp: demo_cpu_def demo_spec_def demo_snapshot_def demo_seen_def demo_state_def capture_init_def nth_demo_a)

section \<open>The tally\<close>

lemma run_lines_tally:
  assumes "run_lines rl parse ls n s = Some (n', s')"
  shows "tl_passed n' + tl_failed n' + tl_skipped n' =
      tl_passed n + tl_failed n + tl_skipped n + length (filter (\<lambda>l. l \<noteq> []) ls)"
  using assms
proof (induction ls arbitrary: n s)
  case (Cons l ls)
  show ?case
  proof (cases "l = []")
    case False
    then obtain r where r: "parse l = Some r" using Cons.prems by (cases "parse l") simp_all
    show ?thesis
    proof (cases "rl r s")
      case (Judged v s1)
      then show ?thesis using Cons.IH [of "count_result v n" s1] Cons.prems False r by (simp add: count_result_def split: if_splits)
    qed (use Cons.IH Cons.prems False r in force)+
  qed (use Cons.IH Cons.prems in simp)
qed simp

text \<open>No test run has failed.\<close>

fun clean :: "(TestRec \<Rightarrow> 'h harness \<Rightarrow> 'h line_result) \<Rightarrow> (string \<Rightarrow> TestRec option) \<Rightarrow> string list \<Rightarrow> 'h harness \<Rightarrow> bool" where
  "clean rl parse [] s = True"
| "clean rl parse (l # ls) s =
     (if l = [] then clean rl parse ls s
      else case parse l of
             None \<Rightarrow> False
           | Some r \<Rightarrow> (case rl r s of
                          Skip \<Rightarrow> clean rl parse ls s
                        | Judged v s1 \<Rightarrow> v = Passed \<and> clean rl parse ls s1
                        | Throws \<Rightarrow> False))"

lemma run_lines_failed_mono:
  "run_lines rl parse ls n s = Some (n', s') \<Longrightarrow> tl_failed n \<le> tl_failed n'"
proof (induction ls arbitrary: n s)
  case (Cons l ls)
  then show ?case
    by (fastforce simp: count_result_def split: if_splits option.splits line_result.splits dest: Suc_leD)
qed simp

lemma run_lines_clean:
  "(\<exists>n' s'. run_lines rl parse ls n s = Some (n', s') \<and> tl_failed n' = tl_failed n) \<longleftrightarrow> clean rl parse ls s"
proof (induction ls arbitrary: n s)
  case (Cons l ls)
  show ?case
  proof (cases "l = [] \<or> parse l = None")
    case False
    then obtain r where r: "l \<noteq> []" "parse l = Some r" by auto
    show ?thesis
    proof (cases "rl r s")
      case Skip
      then show ?thesis using r Cons.IH [of "n\<lparr>tl_skipped := tl_skipped n + 1\<rparr>" s] by simp
    next
      case (Judged v s1)
      show ?thesis
      proof (cases "v = Passed")
        case True
        then show ?thesis using r Judged Cons.IH [of "n\<lparr>tl_passed := tl_passed n + 1\<rparr>" s1] by (simp add: count_result_def)
      next
        case F: False
        then show ?thesis using r Judged run_lines_failed_mono [of rl parse ls "n\<lparr>tl_failed := tl_failed n + 1\<rparr>" s1]
          by (fastforce simp: count_result_def)
      qed
    qed (use r in simp)
  qed (use Cons.IH [of n s] in auto)
qed simp

text \<open>The exit code of the harness: 0 exactly when the corpus could be read to its end and no test that was
  run failed.\<close>

lemma harness_exit:
  "harness_main c specs parse (Some ls) h x = Some 0 \<longleftrightarrow>
     clean (run_line c specs) parse ls (harness_start c h x)"
proof -
  have "harness_main c specs parse (Some ls) h x = Some 0 \<longleftrightarrow>
      (\<exists>n' s'. run_lines (run_line c specs) parse ls tally_init (harness_start c h x) = Some (n', s') \<and> tl_failed n' = 0)"
    by (auto simp: harness_main_def split: if_splits)
  then show ?thesis using run_lines_clean [of "run_line c specs" parse ls tally_init] by (simp add: tally_init_def)
qed

text \<open>The variant for the Macintosh LC stops with an exception at the first record without a final state
  whose dump was seen.\<close>

lemma maclc_throws:
  assumes "spec_of specs (tr_name r) = Some t" "\<not> cs_hw_unsafe t" "tr_final r = None"
  shows "run_line c specs r s = Skip"
    "run_line_maclc c specs r s = Throws \<longleftrightarrow> saw_ccr_write (fst (run_program c t (tr_initial r) s))"
  using assms by (simp_all add: run_line_def run_line_maclc_def split: prod.split)

end
