(* ===== verification/KswBench.thy ===== *)
theory KswBench
  imports BenchRam
begin

text \<open>
  The mode-switch bench (verilator/ksw_bench/ksw_bench.cpp): a small program switches the memory
  management unit on and jumps through an alias of the ROM; the bench serves the 16-bit bus of the
  processor and the 32-bit bus of the table walker from one memory, and judges where the jump
  landed. The compiled hardware is a parameter. The trace it prints with -v is left out, but not
  the effect the option has on the stall detection.
\<close>

section \<open>Hardware\<close>

record MmuIn =
  mi_reset :: bool
  mi_clk :: bool
  mi_clkena :: bool
  mi_data_in :: u16
  mi_walker_data :: u32
  mi_walker_ack :: bool

record MmuOut =
  mo_busstate :: u8
  mo_addr :: u32
  mo_data :: u16
  mo_nUDS :: bool
  mo_nLDS :: bool
  mo_busy :: bool
  mo_walker_req :: bool
  mo_walker_we :: bool
  mo_walker_addr :: u32
  mo_walker_wdat :: u32

record KswOut = MmuOut +
  ko_tc_en :: bool
  ko_addr_log :: u32

type_synonym 'h ksw_eval = "'h \<Rightarrow> MmuIn \<Rightarrow> 'h \<times> KswOut"

record 'h ksw =
  ks_top :: 'h
  ks_in :: MmuIn
  ks_out :: KswOut
  ks_ram :: ram24

section \<open>Buses and clock\<close>

definition ksw_cpu_bus :: "'h ksw \<Rightarrow> 'h ksw" where
  "ksw_cpu_bus s =
     (let x = ks_out s
      in if mo_busstate x = 0 \<or> mo_busstate x = 2
         then s\<lparr>ks_in := (ks_in s)\<lparr>mi_data_in := r16 (mo_addr x) (ks_ram s)\<rparr>\<rparr>
         else if mo_busstate x = 3
         then s\<lparr>ks_ram := w16 (mo_addr x) (mo_data x) (\<not> mo_nUDS x) (\<not> mo_nLDS x) (ks_ram s)\<rparr>
         else s)"

definition ksw_walker_bus :: "'h ksw \<Rightarrow> 'h ksw" where
  "ksw_walker_bus s =
     (let x = ks_out s
      in if mo_walker_req x
         then (let s1 = (if mo_walker_we x
                         then s\<lparr>ks_ram := wl (mo_walker_addr x) (mo_walker_wdat x) (ks_ram s)\<rparr>
                         else s\<lparr>ks_in := (ks_in s)\<lparr>mi_walker_data := r32 (mo_walker_addr x) (ks_ram s)\<rparr>\<rparr>)
               in s1\<lparr>ks_in := (ks_in s1)\<lparr>mi_walker_ack := True\<rparr>\<rparr>)
         else s\<lparr>ks_in := (ks_in s)\<lparr>mi_walker_ack := False\<rparr>\<rparr>)"

definition ksw_service :: "'h ksw \<Rightarrow> 'h ksw" where
  "ksw_service s = ksw_walker_bus (ksw_cpu_bus s)"

definition ksw_eval_top :: "'h ksw_eval \<Rightarrow> 'h ksw \<Rightarrow> 'h ksw" where
  "ksw_eval_top ev s = (case ev (ks_top s) (ks_in s) of (h, x) \<Rightarrow> s\<lparr>ks_top := h, ks_out := x\<rparr>)"

definition ksw_clk :: "bool \<Rightarrow> 'h ksw \<Rightarrow> 'h ksw" where
  "ksw_clk b s = s\<lparr>ks_in := (ks_in s)\<lparr>mi_clk := b\<rparr>\<rparr>"

definition ksw_tick :: "'h ksw_eval \<Rightarrow> 'h ksw \<Rightarrow> 'h ksw" where
  "ksw_tick ev s =
     (let s1 = ksw_eval_top ev (ksw_clk False s);
          ena = \<not> (mo_busy (ks_out s1) \<or> mo_walker_req (ks_out s1));
          s2 = s1\<lparr>ks_in := (ks_in s1)\<lparr>mi_clkena := ena\<rparr>\<rparr>;
          s3 = ksw_eval_top ev (ksw_service s2);
          s4 = ksw_eval_top ev (ksw_clk True s3)
      in ksw_eval_top ev (ksw_service s4))"

section \<open>The image\<close>

definition ksw_program :: "u8 list" where
  "ksw_program =
     [0x2A, 0x7C, 0x40, 0xA0, 0x01, 0x0E] @
     [0xF0, 0x39, 0x4C, 0x00, 0x00, 0x00, 0x19, 0x00] @
     [0xF0, 0x39, 0x40, 0x00, 0x00, 0x00, 0x19, 0x08] @
     [0x4E, 0x71] @ [0x4E, 0x71] @
     [0xF0, 0x39, 0x40, 0x00, 0x00, 0x00, 0x19, 0x08] @
     [0x4E, 0xD5]"

definition fault_catcher :: "u8 list" where
  "fault_catcher = [0x23, 0xFC, 0xDE, 0xAD, 0x00, 0x00, 0x00, 0x00, 0x20, 0x04, 0x4E, 0x72, 0x27, 0x00]"

definition all_vectors :: "u32 \<Rightarrow> ram24 \<Rightarrow> ram24" where
  "all_vectors target m = fold (\<lambda>v. wl (of_nat (v * 4)) target) [2..<256] m"

definition mmu_operands :: "nat \<Rightarrow> u32 \<Rightarrow> ram24 \<Rightarrow> ram24" where
  "mmu_operands p root m = wl (of_nat (p + 8)) 0x80F84500 (wl (of_nat (p + 4)) root (wl (of_nat p) 0x7FFF0003 m))"

text \<open>Sixteen long descriptors of one megabyte each: high word, then the page base.\<close>

definition root_table :: "nat \<Rightarrow> (nat \<Rightarrow> u32) \<Rightarrow> ram24 \<Rightarrow> ram24" where
  "root_table base high m =
     fold (\<lambda>i m. wl (of_nat (base + i * 8 + 4)) (push_bit 20 (of_nat i)) (wl (of_nat (base + i * 8)) (high i) m))
       [0..<16] m"

definition ksw_image :: ram24 where
  "ksw_image =
     (let m1 = wl 4 0x1000 (wl 0 0x10000 (\<lambda>_. 0));
          m2 = plant 0x1000 ksw_program m1;
          m3 = plant 0x1808 fault_catcher (plant 0x1800 [0x4E, 0x72, 0x27, 0] m2);
          m4 = all_vectors 0x1808 m3;
          m5 = mmu_operands 0x1900 0x3000 m4;
          m6 = root_table 0x3000 (\<lambda>_. 0x7FFFFC19) m5
      in plant 0x00A0010E [0x60, 0xFE] m6)"

section \<open>The run\<close>

record KswLog =
  kl_mmu_on :: bool
  kl_jmp_seen :: nat
  kl_alias_phys :: u32
  kl_alias_fetched :: bool
  kl_last_activity :: int

definition kswlog_init :: KswLog where
  "kswlog_init = \<lparr>kl_mmu_on = False, kl_jmp_seen = 0, kl_alias_phys = 0, kl_alias_fetched = False, kl_last_activity = 0\<rparr>"

definition ksw_watch :: "bool \<Rightarrow> int \<Rightarrow> KswOut \<Rightarrow> KswLog \<Rightarrow> KswLog" where
  "ksw_watch g_trace cyc x l =
     (let l1 = (if g_trace \<and> mo_walker_req x then l\<lparr>kl_last_activity := cyc\<rparr> else l)
      in if mo_busstate x \<noteq> 1 then
           (let l2 = l1\<lparr>kl_last_activity := cyc\<rparr>;
                l3 = (if ko_tc_en x \<and> \<not> kl_mmu_on l2 then l2\<lparr>kl_mmu_on := True\<rparr> else l2)
            in if ko_addr_log x = 0x40A0010E \<and> mo_busstate x = 0
               then (let l4 = (if \<not> kl_alias_fetched l3 then l3\<lparr>kl_alias_fetched := True, kl_alias_phys := mo_addr x\<rparr> else l3)
                     in l4\<lparr>kl_jmp_seen := kl_jmp_seen l4 + 1\<rparr>)
               else l3)
         else l1)"

datatype ksw_end = Executing | CatcherHit | Stalled | OutOfCycles

definition ksw_stop :: "int \<Rightarrow> KswLog \<Rightarrow> ram24 \<Rightarrow> ksw_end option" where
  "ksw_stop cyc l m =
     (if kl_jmp_seen l \<ge> 4 then Some Executing
      else if r32 0x2004 m = 0xDEAD0000 then Some CatcherHit
      else if kl_mmu_on l \<and> cyc - kl_last_activity l > 1000 then Some Stalled
      else None)"

fun ksw_loop :: "'h ksw_eval \<Rightarrow> bool \<Rightarrow> nat \<Rightarrow> int \<Rightarrow> KswLog \<Rightarrow> 'h ksw \<Rightarrow> ksw_end \<times> KswLog \<times> 'h ksw" where
  "ksw_loop ev g 0 cyc l s = (OutOfCycles, l, s)"
| "ksw_loop ev g (Suc n) cyc l s =
     (let s1 = ksw_tick ev s; l1 = ksw_watch g cyc (ks_out s1) l
      in case ksw_stop cyc l1 (ks_ram s1) of
           Some e \<Rightarrow> (e, l1, s1)
         | None \<Rightarrow> ksw_loop ev g n (cyc + 1) l1 s1)"

definition ksw_reset :: "'h ksw_eval \<Rightarrow> 'h \<Rightarrow> KswOut \<Rightarrow> 'h ksw" where
  "ksw_reset ev h x =
     (let s = (ksw_tick ev ^^ 32) \<lparr>ks_top = h, ks_in = \<lparr>mi_reset = True, mi_clk = False, mi_clkena = False, mi_data_in = 0,
                mi_walker_data = 0, mi_walker_ack = False\<rparr>, ks_out = x, ks_ram = ksw_image\<rparr>
      in s\<lparr>ks_in := (ks_in s)\<lparr>mi_reset := False\<rparr>\<rparr>)"

definition ksw_main :: "'h ksw_eval \<Rightarrow> bool \<Rightarrow> 'h \<Rightarrow> KswOut \<Rightarrow> int" where
  "ksw_main ev g h x =
     (case ksw_loop ev g 200000 0 kswlog_init (ksw_reset ev h x) of
        (e, l, s) \<Rightarrow> if kl_alias_fetched l \<and> kl_alias_phys l = 0x00A0010E \<and> kl_jmp_seen l \<ge> 4 then 0 else 1)"

section \<open>Parts of an image\<close>

lemma all_vectors_frame:
  assumes "1024 \<le> q" shows "stretch q n (all_vectors t m) = stretch q n m"
proof -
  have "stretch q n (fold (\<lambda>v. wl (of_nat (v * 4)) t) vs m) = stretch q n m" if "\<forall>v\<in>set vs. v < 256" for vs
    using that
  proof (induction vs arbitrary: m)
    case (Cons v vs)
    have "stretch q n (wl (of_nat (v * 4)) t m) = stretch q n m"
      using Cons.prems assms by (subst wl_plant) (auto intro!: stretch_other)
    then show ?case using Cons.IH [of "wl (of_nat (v * 4)) t m"] Cons.prems by simp
  qed simp
  from this [of "[2..<256]"] show ?thesis unfolding all_vectors_def set_upt by simp
qed

lemma mmu_operands_plant:
  assumes "p + 12 \<le> 2 ^ 24"
  shows "mmu_operands p root m = plant p (long_bytes 0x7FFF0003 @ long_bytes root @ long_bytes 0x80F84500) m"
  using assms plant_plant [of p "long_bytes 0x7FFF0003" "long_bytes root" m]
    plant_plant [of p "long_bytes 0x7FFF0003 @ long_bytes root" "long_bytes 0x80F84500" m]
  by (simp add: mmu_operands_def wl_plant del: of_nat_add of_nat_numeral)

lemma root_entry_plant:
  assumes "q + 8 \<le> 2 ^ 24"
  shows "wl (of_nat (q + 4)) lo (wl (of_nat q) hi m) = plant q (long_bytes hi @ long_bytes lo) m"
  using assms plant_plant [of q "long_bytes hi" "long_bytes lo" m]
  by (simp add: wl_plant del: of_nat_add of_nat_numeral)

text \<open>The root table as one stretch.\<close>

definition table_bytes :: "(nat \<Rightarrow> u32) \<Rightarrow> nat list \<Rightarrow> u8 list" where
  "table_bytes high is = concat (map (\<lambda>i. long_bytes (high i) @ long_bytes (push_bit 20 (of_nat i))) is)"

lemma length_table_bytes [simp]: "length (table_bytes high is) = 8 * length is"
  by (induction "is") (simp_all add: table_bytes_def)

lemma root_table_plant:
  assumes "base + 128 \<le> 2 ^ 24"
  shows "root_table base high m = plant base (table_bytes high [0..<16]) m"
proof -
  have "fold (\<lambda>i m. wl (of_nat (base + i * 8 + 4)) (push_bit 20 (of_nat i)) (wl (of_nat (base + i * 8)) (high i) m)) [0..<n] m =
      plant base (table_bytes high [0..<n]) m" if "n \<le> 16" for n
    using that
  proof (induction n)
    case 0
    then show ?case by (simp add: table_bytes_def)
  next
    case (Suc n)
    let ?t = "table_bytes high [0..<n]"
    have "fold (\<lambda>i m. wl (of_nat (base + i * 8 + 4)) (push_bit 20 (of_nat i)) (wl (of_nat (base + i * 8)) (high i) m)) [0..<Suc n] m =
        wl (of_nat (base + n * 8 + 4)) (push_bit 20 (of_nat n)) (wl (of_nat (base + n * 8)) (high n) (plant base ?t m))"
      using Suc by simp
    also have "\<dots> = plant (base + n * 8) (long_bytes (high n) @ long_bytes (push_bit 20 (of_nat n))) (plant base ?t m)"
      by (rule root_entry_plant) (use assms Suc.prems in simp)
    also have "\<dots> = plant base (?t @ long_bytes (high n) @ long_bytes (push_bit 20 (of_nat n))) m"
      using plant_plant [of base ?t "long_bytes (high n) @ long_bytes (push_bit 20 (of_nat n))" m] by (simp add: mult.commute)
    finally show ?case by (simp add: table_bytes_def)
  qed
  from this [of 16] show ?thesis unfolding root_table_def by simp
qed

section \<open>What the table translates\<close>

text \<open>The table walk of a 68030 with one level of long descriptors, as far as these tables need it: the
  initial shift of the TC operand drops the highest bits of the address, the next TIA bits choose
  the descriptor, an early-termination page maps the remaining bits to its base, and a descriptor of
  another type does not translate.\<close>

definition table_walk :: "u32 \<Rightarrow> u32 \<Rightarrow> ram24 \<Rightarrow> u32 \<Rightarrow> u32 option" where
  "table_walk tc root m a =
     (let shift = unat (drop_bit 16 tc AND 15); tia = unat (drop_bit 12 tc AND 15);
          e = root + 8 * drop_bit (32 - tia) (push_bit shift a)
      in if r32 e m AND 3 = 1
         then Some ((r32 (e + 4) m AND 0xFFFFFF00) + take_bit (32 - shift - tia) a) else None)"

lemma table_entry:
  assumes "stretch base 128 m = table_bytes high [0..<16]" "i < 16" "base + 128 \<le> 2 ^ 24" "base mod 4 = 0"
  shows "r32 (of_nat (base + i * 8)) m = high i" "r32 (of_nat (base + (i * 8 + 4))) m = push_bit 20 (of_nat i)"
proof -
  have "[0..<16] = [0..<i] @ [i] @ [Suc i..<16]"
    using assms(2) upt_add_eq_append [of 0 i "16 - i"] upt_conv_Cons [of i 16] by simp
  then have t: "table_bytes high [0..<16] = table_bytes high [0..<i] @
      (long_bytes (high i) @ long_bytes (push_bit 20 (of_nat i))) @ table_bytes high [Suc i..<16]"
    by (simp add: table_bytes_def)
  have l: "length (table_bytes high [0..<i]) = i * 8" by simp
  show "r32 (of_nat (base + i * 8)) m = high i"
  proof (rule r32_stretch)
    show "stretch (base + i * 8) 4 m = long_bytes (high i)"
      using assms(2) stretch_sub [of "i * 8" 4 128 base m] unfolding assms(1) t by simp
    show "(base + i * 8) mod 4 = 0" using assms(4) by presburger
  qed (use assms(2,3) in simp)
  show "r32 (of_nat (base + (i * 8 + 4))) m = push_bit 20 (of_nat i)"
  proof (rule r32_stretch)
    show "stretch (base + (i * 8 + 4)) 4 m = long_bytes (push_bit 20 (of_nat i))"
      using assms(2) stretch_sub [of "i * 8 + 4" 4 128 base m] unfolding assms(1) t by simp
    show "(base + (i * 8 + 4)) mod 4 = 0" using assms(4) by presburger
  qed (use assms(2,3) in simp)
qed

text \<open>With the operands of the benches every megabyte whose descriptor is a page is mapped to itself.\<close>

lemma identity_bits: "push_bit 20 (drop_bit 28 (push_bit 8 a)) + take_bit 20 a = (a::u32) AND 0x00FFFFFF"
proof -
  have m: "(0x00FFFFFF :: u32) = mask 24" by (simp add: mask_eq_exp_minus_1)
  have "push_bit 20 (drop_bit 28 (push_bit 8 a)) = push_bit 20 (drop_bit 20 (take_bit 24 a))"
  proof (rule bit_word_eqI)
    fix n assume "n < LENGTH(32)"
    consider "n < 20" | j where "n = 20 + j" by (metis le_Suc_ex not_less)
    then show "bit (push_bit 20 (drop_bit 28 (push_bit 8 a))) n = bit (push_bit 20 (drop_bit 20 (take_bit 24 a))) n"
      by cases (auto simp: bit_simps)
  qed
  moreover have "take_bit 20 a = take_bit 20 (take_bit 24 a)" by simp
  ultimately have "push_bit 20 (drop_bit 28 (push_bit 8 a)) + take_bit 20 a = take_bit 24 a"
    using bits_ident [of 20 "take_bit 24 a"] by simp
  then show ?thesis by (simp add: m take_bit_eq_mask)
qed

lemma walk_table:
  assumes "stretch base 128 m = table_bytes high [0..<16]" "base + 128 \<le> 2 ^ 24" "base mod 4 = 0"
  shows "table_walk 0x80F84500 (of_nat base) m a =
    (if high (unat (drop_bit 28 (push_bit 8 a))) AND 3 = 1 then Some (a AND 0x00FFFFFF) else None)"
proof -
  let ?d = "drop_bit 28 (push_bit 8 a)" let ?i = "unat ?d"
  have "?i = unat (push_bit 8 a) div 2 ^ 28" by (simp add: drop_bit_eq_div unat_div_distrib)
  then have i: "?i < 16" using unsigned_less [of "push_bit 8 a", where 'a = nat] by (simp add: less_mult_imp_div_less)
  have e: "(of_nat base :: u32) + 8 * ?d = of_nat (base + ?i * 8)" by simp
  have e4: "(of_nat (base + ?i * 8) :: u32) + 4 = of_nat (base + (?i * 8 + 4))" by simp
  have d: "32 - (4::nat) = 28" "32 - 8 - (4::nat) = 20" by simp_all
  note te = table_entry [OF assms(1) i assms(2,3)]
  have tc: "unat (drop_bit 16 (0x80F84500 :: u32) AND 15) = 8" "unat (drop_bit 12 (0x80F84500 :: u32) AND 15) = 4"
    by simp_all
  have "push_bit 20 ?d AND 0xFFFFFF00 = push_bit 20 ?d"
  proof -
    have "(0xFFFFFF00 :: u32) = push_bit 8 (mask 24)" by (simp add: mask_eq_exp_minus_1)
    show ?thesis unfolding \<open>0xFFFFFF00 = push_bit 8 (mask 24)\<close> by (rule bit_word_eqI) (auto simp: bit_simps)
  qed
  then show ?thesis
    unfolding table_walk_def Let_def tc d e e4 te by (simp add: identity_bits)
qed

lemma ksw_image_high:
  "stretch 0x1900 12 ksw_image = long_bytes 0x7FFF0003 @ long_bytes 0x3000 @ long_bytes 0x80F84500"
  "stretch 0x3000 128 ksw_image = table_bytes (\<lambda>_. 0x7FFFFC19) [0..<16]"
  "stretch 0x1000 (length ksw_program) ksw_image = ksw_program"
  "stretch 0x2004 4 ksw_image = long_bytes 0"
proof -
  let ?o = "long_bytes 0x7FFF0003 @ long_bytes 0x3000 @ long_bytes 0x80F84500"
  let ?t = "table_bytes (\<lambda>_. 0x7FFFFC19) [0..<16]"
  let ?m3 = "plant 0x1808 fault_catcher (plant 0x1800 [0x4E, 0x72, 0x27, 0]
      (plant 0x1000 ksw_program (wl 4 0x1000 (wl 0 0x10000 (\<lambda>_. 0)))))"
  let ?m4 = "all_vectors 0x1808 ?m3"
  have k: "ksw_image = plant 0x00A0010E [0x60, 0xFE] (plant 0x3000 ?t (plant 0x1900 ?o ?m4))"
    by (simp add: ksw_image_def Let_def mmu_operands_plant root_table_plant)
  have l: "length ?o = 12" "length ?t = 128" "length ksw_program = 36" "length fault_catcher = 14"
    by (simp_all add: ksw_program_def fault_catcher_def)
  have low: "stretch q n ksw_image = stretch q n (plant 0x3000 ?t (plant 0x1900 ?o ?m4))" if "q + n \<le> 0x00A0010E" for q n
    unfolding k by (rule stretch_other) (use that in simp)
  show "stretch 0x3000 128 ksw_image = ?t"
    using low [of "0x3000" 128] stretch_same [of "0x3000" ?t] l by simp
  have low2: "stretch q n ksw_image = stretch q n (plant 0x1900 ?o ?m4)" if "q + n \<le> 0x3000" for q n
    using low [of q n] stretch_other [of q n "0x3000" ?t] that by simp
  show "stretch 0x1900 12 ksw_image = ?o"
    using low2 [of "0x1900" 12] stretch_same [of "0x1900" ?o ?m4] l by simp
  have "stretch 0x1000 36 ksw_image = stretch 0x1000 36 ?m4"
    using low2 [of "0x1000" 36] stretch_other [of "0x1000" 36 "0x1900" ?o ?m4] by simp
  also have "\<dots> = stretch 0x1000 36 ?m3" by (rule all_vectors_frame) simp
  also have "\<dots> = ksw_program"
    using stretch_other [of "0x1000" 36 "0x1808" fault_catcher] stretch_other [of "0x1000" 36 "0x1800" "[0x4E, 0x72, 0x27, 0]"]
      stretch_same [of "0x1000" ksw_program] l by simp
  finally show "stretch 0x1000 (length ksw_program) ksw_image = ksw_program" using l by simp
  have "stretch 0x2004 4 ksw_image = stretch 0x2004 4 ?m4"
    using low2 [of "0x2004" 4] stretch_other [of "0x2004" 4 "0x1900" ?o ?m4] l by simp
  also have "\<dots> = stretch 0x2004 4 ?m3" by (rule all_vectors_frame) simp
  also have "\<dots> = stretch 0x2004 4 (wl 4 0x1000 (wl 0 0x10000 (\<lambda>_. 0)))"
    using stretch_other [of "0x2004" 4 "0x1808" fault_catcher] stretch_other [of "0x2004" 4 "0x1800" "[0x4E, 0x72, 0x27, 0]"]
      stretch_other [of "0x2004" 4 "0x1000" ksw_program] l by simp
  also have "\<dots> = long_bytes 0" by (simp add: stretch_def wl_def w8_def long_bytes_def upt_rec)
  finally show "stretch 0x2004 4 ksw_image = long_bytes 0" .
qed

text \<open>The stimulus of the mode-switch bench. The operands the program loads and the table it points
  to translate every address to its low 24 bits; so the alias 0x40A0010E the program jumps to must
  be fetched from 0x00A0010E, where the bench expects it.\<close>

theorem ksw_stimulus:
  "r32 0x1900 ksw_image AND 3 = 3 \<and>
   table_walk (r32 0x1908 ksw_image) (r32 0x1904 ksw_image) ksw_image a = Some (a AND 0x00FFFFFF) \<and>
   table_walk (r32 0x1908 ksw_image) (r32 0x1904 ksw_image) ksw_image 0x40A0010E = Some 0x00A0010E"
proof -
  have s: "stretch 0x1900 4 ksw_image = long_bytes 0x7FFF0003" "stretch 0x1904 4 ksw_image = long_bytes 0x3000"
    "stretch 0x1908 4 ksw_image = long_bytes 0x80F84500"
    using stretch_sub [of 0 4 12 "0x1900" ksw_image] stretch_sub [of 4 4 12 "0x1900" ksw_image]
      stretch_sub [of 8 4 12 "0x1900" ksw_image] by (simp_all add: ksw_image_high(1))
  have "r32 0x1900 ksw_image = 0x7FFF0003" "r32 0x1904 ksw_image = 0x3000" "r32 0x1908 ksw_image = 0x80F84500"
    using r32_stretch [of "0x1900", OF _ _ s(1)] r32_stretch [of "0x1904", OF _ _ s(2)] r32_stretch [of "0x1908", OF _ _ s(3)]
    by simp_all
  then show ?thesis using walk_table [OF ksw_image_high(2)] by simp
qed

section \<open>What a successful run has seen\<close>

definition alias_fetch :: "KswOut \<Rightarrow> bool" where
  "alias_fetch x \<longleftrightarrow> ko_addr_log x = 0x40A0010E \<and> mo_busstate x = 0"

lemma ksw_watch_fields [simp]:
  "kl_jmp_seen (ksw_watch g c x l) = kl_jmp_seen l + (if alias_fetch x then 1 else 0)"
  "kl_alias_fetched (ksw_watch g c x l) = (kl_alias_fetched l \<or> alias_fetch x)"
  "kl_alias_phys (ksw_watch g c x l) = (if \<not> kl_alias_fetched l \<and> alias_fetch x then mo_addr x else kl_alias_phys l)"
  by (simp_all add: ksw_watch_def alias_fetch_def Let_def)

text \<open>The outputs after each of the first N ticks.\<close>

definition ksw_obs :: "'h ksw_eval \<Rightarrow> 'h ksw \<Rightarrow> nat \<Rightarrow> KswOut list" where
  "ksw_obs ev s n = map (\<lambda>j. ks_out ((ksw_tick ev ^^ Suc j) s)) [0..<n]"

lemma ksw_obs_Suc: "ksw_obs ev s (Suc n) = ks_out (ksw_tick ev s) # ksw_obs ev (ksw_tick ev s) n"
  by (simp add: ksw_obs_def funpow_swap1 upt_conv_Cons map_Suc_upt [symmetric] del: upt_Suc)

lemma ksw_loop_trace:
  assumes "ksw_loop ev g n c l s = (e, l', s')" "kl_jmp_seen l < 4"
  shows "\<exists>N\<le>n. s' = (ksw_tick ev ^^ N) s \<and>
    kl_jmp_seen l' = kl_jmp_seen l + length (filter alias_fetch (ksw_obs ev s N)) \<and> kl_jmp_seen l' \<le> 4 \<and>
    (e = Executing \<longleftrightarrow> kl_jmp_seen l' = 4) \<and>
    (\<not> kl_alias_fetched l \<longrightarrow>
      (kl_alias_fetched l' \<longrightarrow> (\<exists>x. find alias_fetch (ksw_obs ev s N) = Some x \<and> kl_alias_phys l' = mo_addr x))) \<and>
    (kl_alias_fetched l \<longrightarrow> kl_alias_fetched l' \<and> kl_alias_phys l' = kl_alias_phys l)"
  using assms
proof (induction n arbitrary: c l s)
  case 0
  then show ?case by (auto simp: ksw_obs_def)
next
  case (Suc n)
  let ?s = "ksw_tick ev s" let ?l = "ksw_watch g c (ks_out ?s) l"
  show ?case
  proof (cases "ksw_stop c ?l (ks_ram ?s)")
    case None
    then have r: "ksw_loop ev g n (c + 1) ?l ?s = (e, l', s')" and j: "kl_jmp_seen ?l < 4"
      using Suc.prems(1) by (auto simp: ksw_stop_def Let_def split: if_splits)
    obtain N where N: "N \<le> n" "s' = (ksw_tick ev ^^ N) ?s"
        "kl_jmp_seen l' = kl_jmp_seen ?l + length (filter alias_fetch (ksw_obs ev ?s N))" "kl_jmp_seen l' \<le> 4"
        "e = Executing \<longleftrightarrow> kl_jmp_seen l' = 4"
        "\<not> kl_alias_fetched ?l \<longrightarrow>
          (kl_alias_fetched l' \<longrightarrow> (\<exists>x. find alias_fetch (ksw_obs ev ?s N) = Some x \<and> kl_alias_phys l' = mo_addr x))"
        "kl_alias_fetched ?l \<longrightarrow> kl_alias_fetched l' \<and> kl_alias_phys l' = kl_alias_phys ?l"
      using Suc.IH [OF r j] by blast
    show ?thesis
      by (rule exI [of _ "Suc N"]) (use N in \<open>auto simp: ksw_obs_Suc funpow_swap1\<close>)
  next
    case (Some e1)
    then have r: "e = e1" "l' = ?l" "s' = ?s" using Suc.prems(1) by (auto simp: Let_def)
    have "e1 = Executing \<longleftrightarrow> 4 \<le> kl_jmp_seen ?l" using Some by (auto simp: ksw_stop_def split: if_splits)
    then show ?thesis using r Suc.prems(2)
      by (intro exI [of _ 1]) (auto simp: ksw_obs_Suc ksw_obs_def)
  qed
qed

text \<open>C31. A pass of the mode-switch bench is earned. For any hardware, when the bench exits with 0 the run
  ended because the jump target was executing: within 200000 ticks exactly four cycles fetched the alias,
  and the first of them was put on the bus at 0x00A0010E.\<close>

theorem ksw_pass_sound:
  assumes "ksw_main ev g h x = 0"
  shows "\<exists>N\<le>200000. let os = ksw_obs ev (ksw_reset ev h x) N in
    length (filter alias_fetch os) = 4 \<and> (\<exists>y. find alias_fetch os = Some y \<and> mo_addr y = 0x00A0010E)"
proof -
  obtain e l s where r: "ksw_loop ev g 200000 0 kswlog_init (ksw_reset ev h x) = (e, l, s)" by (metis prod_cases3)
  have ok: "kl_alias_fetched l" "kl_alias_phys l = 0x00A0010E" "kl_jmp_seen l \<ge> 4"
    using assms r by (auto simp: ksw_main_def split: if_splits)
  have i: "kl_jmp_seen kswlog_init < 4" "\<not> kl_alias_fetched kswlog_init" "kl_jmp_seen kswlog_init = 0"
    by (simp_all add: kswlog_init_def)
  from ksw_loop_trace [OF r i(1)] ok i(2,3) show ?thesis by (auto simp: Let_def)
qed

text \<open>Hardware that fetches the alias in every cycle.\<close>

definition alias_out :: KswOut where
  "alias_out = \<lparr>mo_busstate = 0, mo_addr = 0x00A0010E, mo_data = 0, mo_nUDS = False, mo_nLDS = False, mo_busy = False,
     mo_walker_req = False, mo_walker_we = False, mo_walker_addr = 0, mo_walker_wdat = 0, ko_tc_en = True,
     ko_addr_log = 0x40A0010E\<rparr>"

definition alias_hw :: "unit ksw_eval" where
  "alias_hw h i = (h, alias_out)"

lemma alias_tick: "ks_out (ksw_tick alias_hw s) = alias_out" "ks_ram (ksw_tick alias_hw s) = ks_ram s"
  by (simp_all add: ksw_tick_def Let_def ksw_eval_top_def alias_hw_def ksw_service_def ksw_walker_bus_def ksw_cpu_bus_def
      ksw_clk_def alias_out_def)

lemma alias_reset: "ks_ram (ksw_reset alias_hw h x) = ksw_image"
proof -
  have "ks_ram ((ksw_tick alias_hw ^^ n) s) = ks_ram s" for n s by (induction n) (simp_all add: alias_tick)
  then show ?thesis by (simp add: ksw_reset_def Let_def)
qed

lemma alias_loop:
  assumes "ks_ram s = ksw_image" "kl_jmp_seen l < 3" "kl_last_activity l = c - 1 \<or> c = 0"
  shows "ksw_loop alias_hw g (Suc n) c l s =
    ksw_loop alias_hw g n (c + 1) (ksw_watch g c alias_out l) (ksw_tick alias_hw s)"
proof -
  have "kl_last_activity (ksw_watch g c alias_out l) = c" by (simp add: ksw_watch_def alias_out_def Let_def)
  moreover have "r32 0x2004 ksw_image = 0" using r32_stretch [OF _ _ ksw_image_high(4)] by simp
  moreover have "alias_fetch alias_out" by (simp add: alias_fetch_def alias_out_def)
  ultimately have "ksw_stop c (ksw_watch g c alias_out l) ksw_image = None" using assms(2) by (simp add: ksw_stop_def)
  then show ?thesis using assms(1) by (simp add: alias_tick Let_def)
qed

lemma alias_four:
  assumes "ks_ram s = ksw_image"
  shows "\<exists>l s'. ksw_loop alias_hw g (Suc (Suc (Suc (Suc n)))) 0 kswlog_init s = (Executing, l, s') \<and>
    kl_alias_fetched l \<and> kl_alias_phys l = 0x00A0010E \<and> kl_jmp_seen l = 4"
proof -
  let ?t = "ksw_tick alias_hw" let ?w = "\<lambda>c. ksw_watch g c alias_out"
  have a: "alias_fetch alias_out" by (simp add: alias_fetch_def alias_out_def)
  have act: "kl_last_activity (?w c l) = c" for c l by (simp add: ksw_watch_def alias_out_def Let_def)
  have i: "kl_jmp_seen kswlog_init = 0" "\<not> kl_alias_fetched kswlog_init" by (simp_all add: kswlog_init_def)
  have 1: "ksw_loop alias_hw g (Suc (Suc (Suc (Suc n)))) 0 kswlog_init s =
      ksw_loop alias_hw g (Suc (Suc (Suc n))) (0 + 1) (?w 0 kswlog_init) (?t s)"
    by (rule alias_loop) (use assms i in simp_all)
  have 2: "\<dots> = ksw_loop alias_hw g (Suc (Suc n)) (0 + 1 + 1) (?w (0 + 1) (?w 0 kswlog_init)) (?t (?t s))"
    by (rule alias_loop) (use assms i in \<open>simp_all add: act a alias_tick\<close>)
  have 3: "\<dots> = ksw_loop alias_hw g (Suc n) (0 + 1 + 1 + 1) (?w (0 + 1 + 1) (?w (0 + 1) (?w 0 kswlog_init))) (?t (?t (?t s)))"
    by (rule alias_loop) (use assms i in \<open>simp_all add: act a alias_tick\<close>)
  show ?thesis unfolding 1 2 3 by (simp add: alias_tick ksw_stop_def a i Let_def) (simp add: alias_out_def)
qed

lemma alias_passes: "ksw_main alias_hw g () x = 0"
proof -
  have n: "(200000::nat) = Suc (Suc (Suc (Suc 199996)))" by simp
  from alias_four [OF alias_reset, of g 199996 "()" x] show ?thesis
    unfolding ksw_main_def n [symmetric] by (auto split: prod.split)
qed

theorem ksw_pass_sound_witness:
  "\<exists>N\<le>200000. length (filter alias_fetch (ksw_obs alias_hw (ksw_reset alias_hw () alias_out) N)) = 4"
  using ksw_pass_sound [OF alias_passes, of alias_out] by (auto simp: Let_def)

text \<open>The stall detection counts the activity of the walker only with -v: without it a table walk that
  keeps the processor bus idle for more than 1000 cycles is reported as a stall.\<close>

lemma ksw_walker_activity:
  assumes "mo_busstate x = 1" "mo_walker_req x"
  shows "kl_last_activity (ksw_watch True c x l) = c" "ksw_watch False c x l = l"
  using assms by (simp_all add: ksw_watch_def)

end
