(* ===== verification/BerrBench.thy ===== *)
theory BerrBench
  imports KswBench "HOL-Library.Multiset"
begin

text \<open>
  The bus-error bench (verilator/berr_bench/berr_bench.cpp): probes read through bad pointers, a
  handler patches the stack frame, and markers in memory tell whether the processor resumed with
  the right register and flags. The bench latches a bus error until the processor acknowledges it
  and delays the answers of the table walker. Hardware and memory are as in the mode-switch bench;
  the messages, with the static variables that only choose what to print, are left out.
\<close>

section \<open>State\<close>

record BerrIn = MmuIn +
  bi_berr :: bool

record BerrOut = MmuOut +
  bo_make_berr :: bool
  bo_trap_berr :: bool

type_synonym 'h berr_eval = "'h \<Rightarrow> BerrIn \<Rightarrow> 'h \<times> BerrOut"

record 'h berr =
  be_top :: 'h
  be_in :: BerrIn
  be_out :: BerrOut
  be_ram :: ram24
  berr_pend :: bool
  wcnt :: int
  mberr_edges :: nat
  mberr_d :: bool

section \<open>Buses and clock\<close>

definition bad_addr :: "u32 \<Rightarrow> bool" where
  "bad_addr a \<longleftrightarrow> (let b = a AND 0xFFFFFF in 0xE00000 \<le> b \<and> b < 0xF00000)"

definition berr_cpu_bus :: "'h berr \<Rightarrow> 'h berr" where
  "berr_cpu_bus s =
     (let x = be_out s; bad = bad_addr (mo_addr x)
      in if mo_busstate x = 0 \<or> mo_busstate x = 2
         then s\<lparr>be_in := (be_in s)\<lparr>mi_data_in := (if bad then 0xDEAD else r16 (mo_addr x) (be_ram s))\<rparr>\<rparr>
         else if mo_busstate x = 3 \<and> \<not> bad
         then s\<lparr>be_ram := w16 (mo_addr x) (mo_data x) (\<not> mo_nUDS x) (\<not> mo_nLDS x) (be_ram s)\<rparr>
         else s)"

definition bad_access :: "BerrOut \<Rightarrow> bool" where
  "bad_access x \<longleftrightarrow> (mo_busstate x = 2 \<or> mo_busstate x = 3 \<or> mo_busstate x = 0) \<and> bad_addr (mo_addr x)"

definition berr_latch :: "'h berr \<Rightarrow> 'h berr" where
  "berr_latch s =
     (let x = be_out s;
          s1 = (if bad_access x then s\<lparr>berr_pend := True\<rparr> else s);
          s2 = (if bo_make_berr x \<or> bo_trap_berr x then s1\<lparr>berr_pend := False\<rparr> else s1)
      in s2\<lparr>be_in := (be_in s2)\<lparr>bi_berr := berr_pend s2\<rparr>\<rparr>)"

definition berr_walker_bus :: "int \<Rightarrow> 'h berr \<Rightarrow> 'h berr" where
  "berr_walker_bus walk_delay s =
     (let x = be_out s
      in if mo_walker_req x
         then if wcnt s > 0
              then s\<lparr>wcnt := wcnt s - 1, be_in := (be_in s)\<lparr>mi_walker_ack := False\<rparr>\<rparr>
              else (let s1 = (if mo_walker_we x
                              then s\<lparr>be_ram := wl (mo_walker_addr x) (mo_walker_wdat x) (be_ram s)\<rparr>
                              else s\<lparr>be_in := (be_in s)\<lparr>mi_walker_data := r32 (mo_walker_addr x) (be_ram s)\<rparr>\<rparr>)
                    in s1\<lparr>be_in := (be_in s1)\<lparr>mi_walker_ack := True\<rparr>, wcnt := walk_delay\<rparr>)
         else s\<lparr>be_in := (be_in s)\<lparr>mi_walker_ack := False\<rparr>, wcnt := walk_delay\<rparr>)"

definition berr_service :: "int \<Rightarrow> 'h berr \<Rightarrow> 'h berr" where
  "berr_service walk_delay s = berr_walker_bus walk_delay (berr_latch (berr_cpu_bus s))"

definition berr_eval_top :: "'h berr_eval \<Rightarrow> 'h berr \<Rightarrow> 'h berr" where
  "berr_eval_top ev s = (case ev (be_top s) (be_in s) of (h, x) \<Rightarrow> s\<lparr>be_top := h, be_out := x\<rparr>)"

definition berr_clk :: "bool \<Rightarrow> 'h berr \<Rightarrow> 'h berr" where
  "berr_clk b s = s\<lparr>be_in := (be_in s)\<lparr>mi_clk := b\<rparr>\<rparr>"

definition berr_edge :: "'h berr \<Rightarrow> 'h berr" where
  "berr_edge s =
     (let m = bo_make_berr (be_out s);
          s1 = (if m \<and> \<not> mberr_d s then s\<lparr>mberr_edges := mberr_edges s + 1\<rparr> else s)
      in s1\<lparr>mberr_d := m\<rparr>)"

definition berr_tick :: "'h berr_eval \<Rightarrow> int \<Rightarrow> 'h berr \<Rightarrow> 'h berr" where
  "berr_tick ev walk_delay s =
     (let s1 = berr_eval_top ev (berr_clk False s);
          ena = \<not> (mo_busy (be_out s1) \<or> mo_walker_req (be_out s1));
          s2 = s1\<lparr>be_in := (be_in s1)\<lparr>mi_clkena := ena\<rparr>\<rparr>;
          s3 = berr_eval_top ev (berr_service walk_delay s2);
          s4 = berr_eval_top ev (berr_clk True s3)
      in berr_edge (berr_eval_top ev (berr_service walk_delay s4)))"

section \<open>The program\<close>

text \<open>The emitted instructions, up to each place another stub jumps back to.\<close>

definition berr_part1 :: "u8 list list" where
  "berr_part1 =
     [[0x41, 0xF8, 0x20, 0], [0x21, 0xC8, 0, 0x08], [0x21, 0xCF, 0x30, 0x50],
      [0x4E, 0xF9, 0, 0x02, 0xFF, 0xF8]]"

definition berr_part2 :: "u8 list list" where
  "berr_part2 =
     [[0x4D, 0xF9, 0, 0xE0, 0, 0], [0x70, 0x5A], [0x20, 0x2E, 0, 0x3C], [0x31, 0xFC, 0xAA, 0xAA, 0x30, 0],
      [0x21, 0xC0, 0x30, 0x04], [0x43, 0xF9, 0, 0xE0, 0, 0x40], [0x20, 0x51],
      [0x31, 0xFC, 0xBB, 0xBB, 0x30, 0x08], [0x41, 0xF8, 0x20, 0x10], [0x21, 0xC8, 0, 0x08],
      [0x20, 0x7C, 0, 0xE0, 0, 0x80], [0x72, 0], [0x4A, 0x10], [0x67, 0x08], [0x6A, 0x06],
      [0x31, 0xFC, 0xCC, 0x77, 0x30, 0x18], [0x31, 0xFC, 0xCC, 0xCC, 0x30, 0x0C],
      [0x20, 0x7C, 0, 0xE0, 0, 0xC0], [0x72, 0], [0x08, 0x10, 0, 0x06], [0x67, 0x08], [0x6B, 0x06],
      [0x31, 0xFC, 0xDD, 0x77, 0x30, 0x1C], [0x31, 0xFC, 0xDD, 0xDD, 0x30, 0x10], [0x41, 0xF8, 0x20, 0],
      [0x21, 0xC8, 0, 0x08], [0x20, 0x7C, 0, 0xE0, 0x01, 0x40], [0x72, 0x01], [0x4A, 0x10], [0x66, 0x08],
      [0x6B, 0x06], [0x31, 0xFC, 0x11, 0x77, 0x30, 0x24], [0x31, 0xFC, 0x11, 0x11, 0x30, 0x20],
      [0x20, 0x7C, 0, 0xE0, 0x01, 0x80], [0x72, 0xFF], [0, 0x3C, 0, 0x01], [0x08, 0x10, 0, 0x06],
      [0x66, 0x0A], [0x6A, 0x08], [0x64, 0x06], [0x31, 0xFC, 0x22, 0x77, 0x30, 0x2C],
      [0x31, 0xFC, 0x22, 0x22, 0x30, 0x28], [0x74, 0x33], [0x24, 0x39, 0, 0xE0, 0x02, 0], [0x66, 0x08],
      [0x6B, 0x06], [0x31, 0xFC, 0x33, 0x77, 0x30, 0x38], [0x21, 0xC2, 0x30, 0x30],
      [0x31, 0xFC, 0x33, 0x33, 0x30, 0x34], [0x72, 0x01], [0x4A, 0x39, 0, 0xE0, 0x02, 0x40], [0x66, 0x08],
      [0x6B, 0x06], [0x31, 0xFC, 0x44, 0x77, 0x30, 0x40], [0x31, 0xFC, 0x44, 0x44, 0x30, 0x3C], [0x70, 0],
      [0x78, 0x5A], [0x18, 0x36, 0, 0x10], [0x66, 0x08], [0x6B, 0x06], [0x31, 0xFC, 0x55, 0x77, 0x30, 0x48],
      [0x21, 0xC4, 0x30, 0x4C], [0x31, 0xFC, 0x55, 0x55, 0x30, 0x44], [0x21, 0xCF, 0x30, 0x54],
      [0x21, 0xCF, 0x30, 0x58], [0x41, 0xF8, 0x19, 0], [0x21, 0xC8, 0, 0x08],
      [0xF0, 0x39, 0x4C, 0, 0, 0, 0x1A, 0], [0xF0, 0x39, 0x40, 0, 0, 0, 0x1A, 0x08], [0x4E, 0x71],
      [0x4E, 0x71], [0x4A, 0x38, 0x30, 0], [0x4E, 0x71], [0x4E, 0x71], [0x41, 0xF8, 0x20, 0],
      [0x21, 0xC8, 0, 0x08], [0x20, 0x7C, 0, 0xD0, 0, 0x80], [0x72, 0x01], [0x4A, 0x10], [0x66, 0x08],
      [0x6B, 0x06], [0x31, 0xFC, 0x66, 0x77, 0x30, 0x64], [0x31, 0xFC, 0x66, 0x66, 0x30, 0x60],
      [0x43, 0xF9, 0, 0xD0, 0x01, 0], [0x7A, 0x77], [0x2A, 0x11], [0x66, 0x08], [0x6B, 0x06],
      [0x31, 0xFC, 0x77, 0x88, 0x30, 0x6C], [0x21, 0xC5, 0x30, 0x70], [0x31, 0xFC, 0x77, 0x77, 0x30, 0x68],
      [0x21, 0xCF, 0x30, 0x74], [0x21, 0xCF, 0x30, 0x84], [0x2E, 0x7C, 0, 0x04, 0x80, 0],
      [0x2F, 0x7C, 0, 0, 0x19, 0, 0xFF, 0xFC], [0x4E, 0xF9, 0, 0, 0xFF, 0xF8]]"

definition berr_part3 :: "u8 list list" where
  "berr_part3 =
     [[0x4E, 0xF9, 0, 0x01, 0x80, 0x20]]"

definition berr_part4 :: "u8 list list" where
  "berr_part4 =
     [[0x20, 0x39, 0, 0xE0, 0x01, 0], [0x31, 0xFC, 0xEE, 0xEE, 0x30, 0x14], [0x4E, 0x72, 0x27, 0]]"

definition berr_code :: "u8 list list" where
  "berr_code = berr_part1 @ berr_part2 @ berr_part3 @ berr_part4"

definition code_len :: "u8 list list \<Rightarrow> nat" where
  "code_len cs = sum_list (map length cs)"

definition cont13b :: nat where "cont13b = 0x1000 + code_len berr_part1"
definition cont_addr :: nat where "cont_addr = cont13b + code_len berr_part2"
definition cont13c :: nat where "cont13c = cont_addr + code_len berr_part3"

text \<open>The stubs at fixed places: each a place and its instructions.\<close>

definition jmp_long :: "nat \<Rightarrow> u8 list" where
  "jmp_long a = [0x4E, 0xF9] @ long_bytes (of_nat a)"

definition berr_stubs :: "(nat \<times> u8 list list) list" where
  "berr_stubs =
     [(0x2000, [[0x02, 0x6F, 0xFE, 0xFF, 0x00, 0x0A], [0x42, 0xAF, 0x00, 0x2C], [0x4E, 0x73]]),
      (0x2010, [[0x02, 0x6F, 0xFE, 0xFF, 0x00, 0x0A], [0x70, 0xFF], [0x2F, 0x40, 0x00, 0x2C], [0x4E, 0x73]]),
      (0xFFF8, [[0x4E, 0x71], [0x4E, 0x71], [0x61, 0x00, 0x01, 0x02]]),
      (0x10000, [[0x31, 0xFC, 0x7A, 0x7A, 0x30, 0x88], [0x2E, 0x78, 0x30, 0x84], jmp_long cont_addr]),
      (0x10100, [[0x21, 0xD7, 0x30, 0x80], [0x4E, 0x75]]),
      (0x2FFF8, [[0x4E, 0x71], [0x4E, 0x71], [0x61, 0x00, 0x01, 0x02]]),
      (0x30000, [[0x31, 0xFC, 0x7B, 0x7B, 0x30, 0x8C], jmp_long cont13b]),
      (0x30100, [[0x21, 0xD7, 0x30, 0x90], [0x4E, 0x75]]),
      (0x18020, [[0x61, 0x00, 0x7F, 0xDE], [0x31, 0xFC, 0x7C, 0x7C, 0x30, 0x94], jmp_long cont13c]),
      (0x20000, [[0x21, 0xD7, 0x30, 0x98], [0x4E, 0x75]])]"

definition berr_high :: "nat \<Rightarrow> u32" where
  "berr_high i = (if i = 0xD then 0x7FFFFC18 else 0x7FFFFC19)"

definition berr_image :: ram24 where
  "berr_image =
     (let m1 = wl 4 0x1000 (wl 0 0x10000 (\<lambda>_. 0));
          m2 = all_vectors 0x1900 (plant 0x1900 fault_catcher m1);
          m3 = plant 0x1000 (concat berr_code) m2;
          m4 = root_table 0x4000 berr_high (mmu_operands 0x1A00 0x4000 m3)
      in fold (\<lambda>(p, c). plant p (concat c)) berr_stubs m4)"

section \<open>The run and its verdict\<close>

text \<open>The loop ends at the fault catcher or, 200 ticks after it, at the marker of the last probe.\<close>

fun berr_loop :: "'h berr_eval \<Rightarrow> int \<Rightarrow> nat \<Rightarrow> 'h berr \<Rightarrow> bool \<times> 'h berr" where
  "berr_loop ev w 0 s = (False, s)"
| "berr_loop ev w (Suc n) s =
     (let s1 = berr_tick ev w s
      in if r32 0x2004 (be_ram s1) = 0xDEAD0000 then (True, s1)
         else if r16 0x3014 (be_ram s1) = 0xEEEE then (False, (berr_tick ev w ^^ 200) s1)
         else berr_loop ev w n s1)"

definition resume_markers :: "(u32 \<times> u16) list" where
  "resume_markers = [(0x3000, 0xAAAA), (0x3008, 0xBBBB), (0x300C, 0xCCCC), (0x3010, 0xDDDD), (0x3020, 0x1111),
     (0x3028, 0x2222), (0x3034, 0x3333), (0x303C, 0x4444), (0x3044, 0x5555), (0x3014, 0xEEEE)]"

definition flags_markers :: "(u32 \<times> u16) list" where
  "flags_markers = [(0x3018, 0xCC77), (0x301C, 0xDD77), (0x3024, 0x1177), (0x302C, 0x2277), (0x3038, 0x3377),
     (0x3040, 0x4477), (0x3048, 0x5577)]"

definition pmmu_markers :: "(u32 \<times> u16) list" where
  "pmmu_markers = [(0x3060, 0x6666), (0x3064, 0x6677), (0x3068, 0x7777), (0x306C, 0x7788)]"

definition bsr_markers :: "(u32 \<times> u16) list" where
  "bsr_markers = [(0x308C, 0x7B7B), (0x3094, 0x7C7C)]"

definition marked :: "(u32 \<times> u16) list \<Rightarrow> ram24 \<Rightarrow> bool" where
  "marked ms m = list_all (\<lambda>(a, v). r16 a m = v) ms"

definition berr_ok :: "bool \<Rightarrow> 'h berr \<Rightarrow> bool" where
  "berr_ok caught s \<longleftrightarrow>
     (let m = be_ram s
      in marked resume_markers m \<and> (marked flags_markers m \<and> r32 0x3030 m = 0 \<and> r32 0x304C m = 0) \<and>
         (marked pmmu_markers m \<and> r32 0x3070 m = 0) \<and>
         (r32 0x3054 m = r32 0x3050 m \<and> r32 0x3074 m = r32 0x3058 m) \<and> \<not> caught \<and> mberr_edges s = 10 \<and>
         r32 0x3090 m = 0x30000 \<and> r32 0x3098 m = 0x18024 \<and> marked bsr_markers m)"

definition berr_power :: "int \<Rightarrow> 'h \<Rightarrow> BerrOut \<Rightarrow> 'h berr" where
  "berr_power w h x = \<lparr>be_top = h,
     be_in = \<lparr>mi_reset = True, mi_clk = False, mi_clkena = False, mi_data_in = 0, mi_walker_data = 0,
       mi_walker_ack = False, bi_berr = False\<rparr>,
     be_out = x, be_ram = berr_image, berr_pend = False, wcnt = w, mberr_edges = 0, mberr_d = False\<rparr>"

definition berr_start :: "'h berr_eval \<Rightarrow> int \<Rightarrow> 'h \<Rightarrow> BerrOut \<Rightarrow> 'h berr" where
  "berr_start ev w h x =
     (let s = (berr_tick ev w ^^ 32) (berr_power w h x) in s\<lparr>be_in := (be_in s)\<lparr>mi_reset := False\<rparr>\<rparr>)"

definition berr_main :: "'h berr_eval \<Rightarrow> int \<Rightarrow> 'h \<Rightarrow> BerrOut \<Rightarrow> int" where
  "berr_main ev w h x =
     (case berr_loop ev w 300000 (berr_start ev w h x) of (caught, s) \<Rightarrow> if berr_ok caught s then 0 else 1)"

section \<open>The bus error\<close>

text \<open>A run of service calls over what the hardware shows at each.\<close>

definition berr_services :: "int \<Rightarrow> BerrOut list \<Rightarrow> 'h berr \<Rightarrow> 'h berr" where
  "berr_services w xs s = fold (\<lambda>x s. berr_service w (s\<lparr>be_out := x\<rparr>)) xs s"

definition berr_ack :: "BerrOut \<Rightarrow> bool" where
  "berr_ack x \<longleftrightarrow> bo_make_berr x \<or> bo_trap_berr x"

lemma berr_service_pend [simp]:
  "berr_pend (berr_service w (s\<lparr>be_out := x\<rparr>)) = (\<not> berr_ack x \<and> (berr_pend s \<or> bad_access x))"
  "bi_berr (be_in (berr_service w (s\<lparr>be_out := x\<rparr>))) = (\<not> berr_ack x \<and> (berr_pend s \<or> bad_access x))"
  by (simp_all add: berr_service_def berr_walker_bus_def berr_latch_def berr_cpu_bus_def berr_ack_def Let_def)

lemma berr_services_snoc: "berr_services w (xs @ [x]) s = berr_service w ((berr_services w xs s)\<lparr>be_out := x\<rparr>)"
  by (simp add: berr_services_def)

lemma held_snoc:
  "(\<exists>i<length (xs @ [x]). P ((xs @ [x]) ! i) \<and> (\<forall>j. i \<le> j \<and> j < length (xs @ [x]) \<longrightarrow> \<not> Q ((xs @ [x]) ! j)))
   \<longleftrightarrow> \<not> Q x \<and> ((\<exists>i<length xs. P (xs ! i) \<and> (\<forall>j. i \<le> j \<and> j < length xs \<longrightarrow> \<not> Q (xs ! j))) \<or> P x)"
  (is "(\<exists>i<_. ?A i) \<longleftrightarrow> _ \<and> ((\<exists>i<_. ?B i) \<or> _)")
proof -
  have old: "?A i \<longleftrightarrow> \<not> Q x \<and> ?B i" if "i < length xs" for i
  proof -
    have "(\<forall>j. i \<le> j \<and> j < length (xs @ [x]) \<longrightarrow> \<not> Q ((xs @ [x]) ! j)) \<longleftrightarrow>
        (\<forall>j. i \<le> j \<and> j < length xs \<longrightarrow> \<not> Q ((xs @ [x]) ! j)) \<and> \<not> Q x"
      using that by (simp add: less_Suc_eq) (metis less_imp_le nth_append_length)
    then show ?thesis using that by (auto simp: nth_append)
  qed
  have new: "?A (length xs) \<longleftrightarrow> P x \<and> \<not> Q x"
    by (simp add: less_Suc_eq_le) (metis nth_append_length order.antisym order.refl)
  have "(\<exists>i<length (xs @ [x]). ?A i) \<longleftrightarrow> ?A (length xs) \<or> (\<exists>i<length xs. ?A i)"
    by (simp only: length_append_singleton Ex_less_Suc)
  then show ?thesis using old new by blast
qed

text \<open>C29. The bus error is held until it is taken. Over any run of service calls that starts without a
  pending error, the error line is high exactly when some access since then went to 0xE00000 ..
  0xEFFFFF and the processor has acknowledged none of the calls from that access on.\<close>

theorem berr_held:
  assumes "\<not> berr_pend s" "xs \<noteq> []"
  shows "bi_berr (be_in (berr_services w xs s)) \<longleftrightarrow>
    (\<exists>i<length xs. bad_access (xs ! i) \<and> (\<forall>j. i \<le> j \<and> j < length xs \<longrightarrow> \<not> berr_ack (xs ! j)))"
proof -
  have "berr_pend (berr_services w xs s) \<longleftrightarrow>
      (\<exists>i<length xs. bad_access (xs ! i) \<and> (\<forall>j. i \<le> j \<and> j < length xs \<longrightarrow> \<not> berr_ack (xs ! j)))" for xs
  proof (induction xs rule: rev_induct)
    case Nil
    then show ?case using assms(1) by (simp add: berr_services_def)
  next
    case (snoc x xs)
    then show ?case
      by (simp only: berr_services_snoc berr_service_pend held_snoc snoc.IH)
  qed
  moreover have "bi_berr (be_in (berr_services w xs s)) = berr_pend (berr_services w xs s)"
    using assms(2) by (cases xs rule: rev_cases) (simp_all add: berr_services_snoc)
  ultimately show ?thesis by simp
qed

text \<open>Outputs that read, and one that also acknowledges.\<close>

definition read_out :: "u32 \<Rightarrow> bool \<Rightarrow> BerrOut" where
  "read_out a ack = \<lparr>mo_busstate = 2, mo_addr = a, mo_data = 0, mo_nUDS = False, mo_nLDS = False, mo_busy = False,
     mo_walker_req = False, mo_walker_we = False, mo_walker_addr = 0, mo_walker_wdat = 0, bo_make_berr = ack,
     bo_trap_berr = False\<rparr>"

definition berr_zero :: "int \<Rightarrow> unit berr" where
  "berr_zero w = \<lparr>be_top = (), be_in = \<lparr>mi_reset = False, mi_clk = False, mi_clkena = False, mi_data_in = 0,
     mi_walker_data = 0, mi_walker_ack = False, bi_berr = False\<rparr>, be_out = read_out 0 False, be_ram = (\<lambda>_. 0),
     berr_pend = False, wcnt = w, mberr_edges = 0, mberr_d = False\<rparr>"

theorem berr_held_witness:
  "bi_berr (be_in (berr_services 0 [read_out 0xE00040 False, read_out 0x3000 False] (berr_zero 0))) \<and>
   \<not> bi_berr (be_in (berr_services 0 [read_out 0xE00040 False, read_out 0x3000 True] (berr_zero 0)))"
proof -
  have p: "\<not> berr_pend (berr_zero 0)" by (simp add: berr_zero_def)
  have b: "bad_access (read_out 0xE00040 k)" "\<not> bad_access (read_out 0x3000 k)" for k
    by (simp_all add: bad_access_def bad_addr_def read_out_def Let_def)
  have a: "berr_ack (read_out x k) = k" for x k by (simp add: berr_ack_def read_out_def)
  show ?thesis
    using berr_held [OF p, of "[read_out 0xE00040 False, read_out 0x3000 False]" 0]
      berr_held [OF p, of "[read_out 0xE00040 False, read_out 0x3000 True]" 0]
    by (auto simp: less_Suc_eq a b nth_Cons split: nat.splits)
qed

section \<open>The walker\<close>

definition walker_acks :: "int \<Rightarrow> BerrOut list \<Rightarrow> 'h berr \<Rightarrow> bool list" where
  "walker_acks w xs s = map (\<lambda>k. mi_walker_ack (be_in (berr_services w (take (Suc k) xs) s))) [0..<length xs]"

lemma berr_walker_step:
  assumes "mo_walker_req x" "wcnt s = int d"
  shows "mi_walker_ack (be_in (berr_service w (s\<lparr>be_out := x\<rparr>))) = (d = 0)"
    "wcnt (berr_service w (s\<lparr>be_out := x\<rparr>)) = (if d = 0 then w else int (d - 1))"
  using assms by (auto simp: berr_service_def berr_walker_bus_def berr_latch_def berr_cpu_bus_def Let_def)

lemma berr_walker_count:
  assumes "\<forall>x\<in>set xs. mo_walker_req x" "wcnt s = int N"
  shows "wcnt (berr_services (int N) xs s) = int (N - length xs mod (N + 1))"
  using assms(1)
proof (induction xs rule: rev_induct)
  case Nil
  then show ?case using assms(2) by (simp add: berr_services_def)
next
  case (snoc x xs)
  let ?d = "N - length xs mod (N + 1)"
  have r: "mo_walker_req x" and i: "wcnt (berr_services (int N) xs s) = int ?d" using snoc by simp_all
  obtain j where j: "length xs mod Suc N = j" "j \<le> N" by (simp add: less_Suc_eq_le)
  have "wcnt (berr_services (int N) (xs @ [x]) s) = (if ?d = 0 then int N else int (?d - 1))"
    unfolding berr_services_snoc by (rule berr_walker_step(2) [OF r i])
  also have "\<dots> = int (N - Suc (length xs) mod (N + 1))" using j by (auto simp: mod_Suc)
  finally show ?case by simp
qed

text \<open>The latency of the walker. While the walker keeps its request, the option -w N makes the bench
  answer every (N + 1)-th service call and no other. A tick serves the buses twice, so the answer comes
  after about N / 2 ticks.\<close>

theorem berr_walk_latency:
  assumes "list_all mo_walker_req xs" "wcnt s = int N" "k < length xs"
  shows "walker_acks (int N) xs s ! k = (k mod (N + 1) = N)"
proof -
  have t: "take (Suc k) xs = take k xs @ [xs ! k]" using assms(3) by (rule take_Suc_conv_app_nth)
  have r: "mo_walker_req (xs ! k)" using assms(1,3) by (simp add: list_all_length)
  have "wcnt (berr_services (int N) (take k xs) s) = int (N - k mod (N + 1))"
    using berr_walker_count [of "take k xs" s N] assms by (auto simp: list_all_iff dest: in_set_takeD)
  from berr_walker_step(1) [OF r this, of "int N"]
  have "mi_walker_ack (be_in (berr_services (int N) (take (Suc k) xs) s)) = (N - k mod (N + 1) = 0)"
    by (simp add: t berr_services_snoc)
  moreover obtain j where "k mod Suc N = j" "j \<le> N" by (simp add: less_Suc_eq_le)
  ultimately show ?thesis using assms(3) by (auto simp: walker_acks_def)
qed

theorem berr_walk_latency_witness:
  "walker_acks 2 (replicate 6 ((read_out 0 False)\<lparr>mo_walker_req := True\<rparr>)) (berr_zero 2) ! 5 \<and>
   \<not> walker_acks 2 (replicate 6 ((read_out 0 False)\<lparr>mo_walker_req := True\<rparr>)) (berr_zero 2) ! 4"
  using berr_walk_latency [of "replicate 6 ((read_out 0 False)\<lparr>mo_walker_req := True\<rparr>)" "berr_zero 2" 2 5]
    berr_walk_latency [of "replicate 6 ((read_out 0 False)\<lparr>mo_walker_req := True\<rparr>)" "berr_zero 2" 2 4]
  by (simp add: berr_zero_def list_all_length)

section \<open>The stimulus\<close>

lemma code_len_concat: "length (concat cs) = code_len cs"
  by (simp add: code_len_def length_concat)

fun stubs_apart :: "(nat \<times> u8 list list) list \<Rightarrow> bool" where
  "stubs_apart [] = True"
| "stubs_apart ((p, c) # ss) =
     (list_all (\<lambda>(q, d). p + code_len c \<le> q \<or> q + code_len d \<le> p) ss \<and> stubs_apart ss)"

lemma stubs_frame:
  "list_all (\<lambda>(p, c). q + n \<le> p \<or> p + code_len c \<le> q) ss \<Longrightarrow>
   stretch q n (fold (\<lambda>(p, c). plant p (concat c)) ss m) = stretch q n m"
proof (induction ss arbitrary: m)
  case (Cons pc ss)
  obtain p c where pc: "pc = (p, c)" by (cases pc)
  have "stretch q n (plant p (concat c) m) = stretch q n m"
    by (rule stretch_other) (use Cons.prems in \<open>simp add: pc code_len_concat\<close>)
  then show ?case using Cons.IH [of "plant p (concat c) m"] Cons.prems by (simp add: pc)
qed simp

lemma stubs_planted:
  "stubs_apart ss \<Longrightarrow>
   list_all (\<lambda>(p, c). stretch p (code_len c) (fold (\<lambda>(p, c). plant p (concat c)) ss m) = concat c) ss"
proof (induction ss arbitrary: m rule: stubs_apart.induct)
  case (2 p c ss)
  have "stretch p (code_len c) (fold (\<lambda>(p, c). plant p (concat c)) ss (plant p (concat c) m)) =
      stretch p (code_len c) (plant p (concat c) m)"
    by (rule stubs_frame) (use 2 in simp)
  also have "\<dots> = concat c" using stretch_same [of p "concat c" m] by (simp add: code_len_concat)
  finally show ?case using 2 by simp
qed simp

lemmas berr_code_defs = berr_code_def berr_part1_def berr_part2_def berr_part3_def berr_part4_def

lemma berr_conts: "cont13b = 0x1012" "cont_addr = 0x1190" "cont13c = 0x1196" "code_len berr_code = 422"
  by (simp_all add: cont13b_def cont_addr_def cont13c_def code_len_def berr_code_defs)

lemma stubs_ok: "stubs_apart berr_stubs" "list_all (\<lambda>(p, c). 0x2000 \<le> p \<and> (0x4080 \<le> p \<or> p + code_len c \<le> 0x4000)) berr_stubs"
  by (simp_all add: berr_stubs_def code_len_def jmp_long_def)

lemma berr_image_parts:
  "stretch 0x1A00 12 berr_image = long_bytes 0x7FFF0003 @ long_bytes 0x4000 @ long_bytes 0x80F84500"
  "stretch 0x4000 128 berr_image = table_bytes berr_high [0..<16]"
  "stretch 0x1000 422 berr_image = concat berr_code"
  "list_all (\<lambda>(p, c). stretch p (code_len c) berr_image = concat c) berr_stubs"
proof -
  let ?o = "long_bytes 0x7FFF0003 @ long_bytes 0x4000 @ long_bytes 0x80F84500"
  let ?t = "table_bytes berr_high [0..<16]"
  obtain m2 where k: "berr_image = fold (\<lambda>(p, c). plant p (concat c)) berr_stubs
      (plant 0x4000 ?t (plant 0x1A00 ?o (plant 0x1000 (concat berr_code) m2)))" (is "_ = fold ?f _ ?m4")
    by (simp add: berr_image_def Let_def mmu_operands_plant root_table_plant)
  have l: "length ?o = 12" "length ?t = 128" "length (concat berr_code) = 422"
    by (simp_all add: code_len_concat berr_conts)
  have low: "stretch q n berr_image = stretch q n ?m4" if "q + n \<le> 0x2000" for q n
    unfolding k by (rule stubs_frame) (use that stubs_ok(2) in \<open>auto simp: list_all_iff\<close>)
  have tab: "stretch 0x4000 128 berr_image = stretch 0x4000 128 ?m4"
    unfolding k by (rule stubs_frame) (use stubs_ok(2) in \<open>auto simp: list_all_iff\<close>)
  show "stretch 0x4000 128 berr_image = ?t" using tab stretch_same [of "0x4000" ?t] l by simp
  have low2: "stretch q n berr_image = stretch q n (plant 0x1A00 ?o (plant 0x1000 (concat berr_code) m2))"
    if "q + n \<le> 0x2000" for q n
    using low [OF that] stretch_other [of q n "0x4000" ?t] that by simp
  show "stretch 0x1A00 12 berr_image = ?o"
    using low2 [of "0x1A00" 12] stretch_same [of "0x1A00" ?o] l by simp
  show "stretch 0x1000 422 berr_image = concat berr_code"
    using low2 [of "0x1000" 422] stretch_other [of "0x1000" 422 "0x1A00" ?o] stretch_same [of "0x1000" "concat berr_code" m2] l
    by simp
  show "list_all (\<lambda>(p, c). stretch p (code_len c) berr_image = concat c) berr_stubs"
    unfolding k by (rule stubs_planted [OF stubs_ok(1)])
qed

lemma berr_high_page: "berr_high i AND 3 = 1 \<longleftrightarrow> i \<noteq> 0xD"
  by (simp add: berr_high_def)

lemma megabyte: "unat (drop_bit 28 (push_bit 8 (a::u32))) = unat (drop_bit 20 a AND 0xF)"
proof -
  have m: "(0xF :: u32) = mask 4" by (simp add: mask_eq_exp_minus_1)
  have "drop_bit 28 (push_bit 8 a) = take_bit 4 (drop_bit 20 a)"
    by (rule bit_word_eqI) (auto simp: bit_simps)
  then show ?thesis by (simp add: m take_bit_eq_mask)
qed

text \<open>The stimulus of the bus-error bench. When the run starts the program is whole at 0x1000 and ends
  before the fault catcher, every stub is whole at its place (none overwrites another, the tables or
  the program), and the table translates every address to its low 24 bits, except the megabyte at 0xD00000, which faults.\<close>

theorem berr_stimulus:
  "stretch 0x1000 (code_len berr_code) berr_image = concat berr_code \<and> 0x1000 + code_len berr_code < 0x1900 \<and>
   list_all (\<lambda>(p, c). stretch p (code_len c) berr_image = concat c) berr_stubs \<and>
   table_walk (r32 0x1A08 berr_image) (r32 0x1A04 berr_image) berr_image a =
     (if drop_bit 20 a AND 0xF = 0xD then None else Some (a AND 0x00FFFFFF))"
proof -
  have s: "stretch 0x1A04 4 berr_image = long_bytes 0x4000" "stretch 0x1A08 4 berr_image = long_bytes 0x80F84500"
    using stretch_sub [of 4 4 12 "0x1A00" berr_image] stretch_sub [of 8 4 12 "0x1A00" berr_image]
    by (simp_all add: berr_image_parts(1))
  have r: "r32 0x1A04 berr_image = 0x4000" "r32 0x1A08 berr_image = 0x80F84500"
    using r32_stretch [of "0x1A04", OF _ _ s(1)] r32_stretch [of "0x1A08", OF _ _ s(2)] by simp_all
  have "unat (drop_bit 20 a AND 0xF) = 0xD \<longleftrightarrow> drop_bit 20 a AND 0xF = 0xD" by (simp add: word_unat_eq_iff)
  then show ?thesis
    using walk_table [OF berr_image_parts(2), of a] berr_image_parts(3,4)
    by (simp add: r berr_high_page megabyte berr_conts)
qed

section \<open>Markers and branches\<close>

text \<open>A marker is written by a move.w #v,a.w; a short branch is an opcode with its 8-bit displacement.\<close>

definition is_marker :: "u8 list \<Rightarrow> bool" where
  "is_marker c \<longleftrightarrow> length c = 6 \<and> take 2 c = [0x31, 0xFC]"

definition marker_of :: "u8 list \<Rightarrow> u32 \<times> u16" where
  "marker_of c = (ucast (be16 (c ! 4) (c ! 5)), be16 (c ! 2) (c ! 3))"

definition is_branch :: "u8 list \<Rightarrow> bool" where
  "is_branch c \<longleftrightarrow> length c = 2 \<and> c ! 0 \<in> {0x64, 0x66, 0x67, 0x6A, 0x6B}"

text \<open>Where a taken branch lands, counted in bytes from the next instruction, and what it passes over.\<close>

fun passed_over :: "nat \<Rightarrow> u8 list list \<Rightarrow> u8 list list option" where
  "passed_over d [] = (if d = 0 then Some [] else None)"
| "passed_over d (c # cs) =
     (if d = 0 then Some [] else if length c \<le> d then map_option ((#) c) (passed_over (d - length c) cs) else None)"

fun branch_skips :: "u8 list list \<Rightarrow> u8 list list option list" where
  "branch_skips [] = []"
| "branch_skips (c # cs) =
     (if is_branch c then [passed_over (unat (c ! 1)) cs] else []) @ branch_skips cs"

definition flag_skip :: "u8 list list option \<Rightarrow> (u32 \<times> u16) option" where
  "flag_skip sk = (case sk of None \<Rightarrow> None
     | Some cs \<Rightarrow> (case cs of [] \<Rightarrow> None
         | _ \<Rightarrow> if list_all is_branch (butlast cs) \<and> is_marker (last cs) then Some (marker_of (last cs)) else None))"

lemma berr_markers_code:
  "map marker_of (filter is_marker (berr_code @ concat (map snd berr_stubs))) =
    [(0x3000, 0xAAAA), (0x3008, 0xBBBB), (0x3018, 0xCC77), (0x300C, 0xCCCC), (0x301C, 0xDD77), (0x3010, 0xDDDD),
     (0x3024, 0x1177), (0x3020, 0x1111), (0x302C, 0x2277), (0x3028, 0x2222), (0x3038, 0x3377), (0x3034, 0x3333),
     (0x3040, 0x4477), (0x303C, 0x4444), (0x3048, 0x5577), (0x3044, 0x5555), (0x3064, 0x6677), (0x3060, 0x6666),
     (0x306C, 0x7788), (0x3068, 0x7777), (0x3014, 0xEEEE), (0x3088, 0x7A7A), (0x308C, 0x7B7B), (0x3094, 0x7C7C)]"
  by (simp add: berr_code_defs berr_stubs_def is_marker_def marker_of_def be16_def jmp_long_def)

lemma berr_skips_code:
  "map flag_skip (branch_skips berr_code) = map Some
    [(0x3018, 0xCC77), (0x3018, 0xCC77), (0x301C, 0xDD77), (0x301C, 0xDD77), (0x3024, 0x1177), (0x3024, 0x1177),
     (0x302C, 0x2277), (0x302C, 0x2277), (0x302C, 0x2277), (0x3038, 0x3377), (0x3038, 0x3377), (0x3040, 0x4477),
     (0x3040, 0x4477), (0x3048, 0x5577), (0x3048, 0x5577), (0x3064, 0x6677), (0x3064, 0x6677), (0x306C, 0x7788),
     (0x306C, 0x7788)]"
  by (simp add: berr_code_defs is_marker_def marker_of_def be16_def is_branch_def flag_skip_def)

text \<open>The markers of the verdict, and the informational one of probe 13.\<close>

definition all_markers :: "(u32 \<times> u16) list" where
  "all_markers = resume_markers @ flags_markers @ pmmu_markers @ bsr_markers @ [(0x3088, 0x7A7A)]"

text \<open>The verdict of the bus-error bench fits its program. The program and the stubs write exactly the markers
  the verdict asks for (and the informational one), each by one instruction and each at a place of its own; and
  every conditional branch of the program, when a stale flag makes it taken, passes over branches and one marker
  and lands on the next instruction: the markers so skipped are those of the flags, so stale flags lose a flags
  marker and never a resume marker.\<close>

theorem berr_verdict_fits:
  "mset (map marker_of (filter is_marker (berr_code @ concat (map snd berr_stubs)))) = mset all_markers \<and>
   distinct (map fst all_markers) \<and>
   list_all (\<lambda>sk. flag_skip sk \<noteq> None) (branch_skips berr_code) \<and>
   set (map flag_skip (branch_skips berr_code)) = Some ` set (flags_markers @ [(0x3064, 0x6677), (0x306C, 0x7788)])"
proof (intro conjI)
  show "mset (map marker_of (filter is_marker (berr_code @ concat (map snd berr_stubs)))) = mset all_markers"
  proof -
    let ?w = "map marker_of (filter is_marker (berr_code @ concat (map snd berr_stubs)))"
    have "sort_key fst ?w = sort_key fst all_markers"
      unfolding berr_markers_code all_markers_def
      by (simp add: resume_markers_def flags_markers_def pmmu_markers_def bsr_markers_def)
    then show ?thesis by (metis mset_sort)
  qed
  show "distinct (map fst all_markers)"
    by (simp add: all_markers_def resume_markers_def flags_markers_def pmmu_markers_def bsr_markers_def)
  have "list_all (\<lambda>o1. o1 \<noteq> None) (map flag_skip (branch_skips berr_code))"
    unfolding berr_skips_code by (simp add: list_all_iff)
  then show "list_all (\<lambda>sk. flag_skip sk \<noteq> None) (branch_skips berr_code)" by (simp add: list_all_iff)
  show "set (map flag_skip (branch_skips berr_code)) = Some ` set (flags_markers @ [(0x3064, 0x6677), (0x306C, 0x7788)])"
    unfolding berr_skips_code by (simp add: flags_markers_def)
qed

section \<open>The run\<close>

text \<open>The outputs after each of the first N ticks, and how often a line rises in them.\<close>

definition berr_obs :: "'h berr_eval \<Rightarrow> int \<Rightarrow> 'h berr \<Rightarrow> nat \<Rightarrow> BerrOut list" where
  "berr_obs ev w s n = map (\<lambda>j. be_out ((berr_tick ev w ^^ Suc j) s)) [0..<n]"

fun rises :: "bool \<Rightarrow> bool list \<Rightarrow> nat" where
  "rises d [] = 0"
| "rises d (b # bs) = (if b \<and> \<not> d then 1 else 0) + rises b bs"

lemma berr_obs_Suc: "berr_obs ev w s (Suc n) = be_out (berr_tick ev w s) # berr_obs ev w (berr_tick ev w s) n"
  by (simp add: berr_obs_def funpow_swap1 upt_conv_Cons map_Suc_upt [symmetric] del: upt_Suc)

lemma berr_bus_edges [simp]:
  "mberr_edges (berr_service w s) = mberr_edges s" "mberr_d (berr_service w s) = mberr_d s"
  "mberr_edges (berr_eval_top ev s) = mberr_edges s" "mberr_d (berr_eval_top ev s) = mberr_d s"
  "mberr_edges (berr_clk b s) = mberr_edges s" "mberr_d (berr_clk b s) = mberr_d s"
  by (simp_all add: berr_eval_top_def berr_service_def berr_walker_bus_def berr_latch_def berr_cpu_bus_def berr_clk_def
      Let_def split: prod.splits)

lemma berr_edge_fields [simp]:
  "be_out (berr_edge s) = be_out s" "mberr_d (berr_edge s) = bo_make_berr (be_out s)"
  "mberr_edges (berr_edge s) = mberr_edges s + (if bo_make_berr (be_out s) \<and> \<not> mberr_d s then 1 else 0)"
  by (simp_all add: berr_edge_def Let_def)

lemma berr_tick_edges:
  "mberr_edges (berr_tick ev w s) = mberr_edges s + (if bo_make_berr (be_out (berr_tick ev w s)) \<and> \<not> mberr_d s then 1 else 0)"
  "mberr_d (berr_tick ev w s) = bo_make_berr (be_out (berr_tick ev w s))"
  by (simp_all add: berr_tick_def Let_def)

lemma berr_ticks_edges:
  "mberr_edges ((berr_tick ev w ^^ n) s) = mberr_edges s + rises (mberr_d s) (map bo_make_berr (berr_obs ev w s n))"
proof (induction n arbitrary: s)
  case 0
  then show ?case by (simp add: berr_obs_def)
next
  case (Suc n)
  then show ?case by (simp add: funpow_Suc_right berr_obs_Suc berr_tick_edges del: funpow.simps)
qed

text \<open>How the loop ends: a number of ticks, and the reason.\<close>

lemma berr_loop_ticks:
  "\<exists>N. N \<le> n + 200 \<and> snd (berr_loop ev w n s) = (berr_tick ev w ^^ N) s \<and>
    (fst (berr_loop ev w n s) \<longrightarrow> r32 0x2004 (be_ram (snd (berr_loop ev w n s))) = 0xDEAD0000)"
proof (induction n arbitrary: s)
  case 0
  show ?case by (rule exI [of _ 0]) simp
next
  case (Suc n)
  let ?s = "berr_tick ev w s"
  consider "r32 0x2004 (be_ram ?s) = 0xDEAD0000" | "r32 0x2004 (be_ram ?s) \<noteq> 0xDEAD0000" "r16 0x3014 (be_ram ?s) = 0xEEEE"
    | "r32 0x2004 (be_ram ?s) \<noteq> 0xDEAD0000" "r16 0x3014 (be_ram ?s) \<noteq> 0xEEEE" by blast
  then show ?case
  proof cases
    case 1
    then show ?thesis by (intro exI [of _ 1]) simp
  next
    case 2
    have "(berr_tick ev w ^^ Suc 200) s = (berr_tick ev w ^^ 200) ?s" by (simp only: funpow_Suc_right o_apply)
    with 2 have "berr_loop ev w (Suc n) s = (False, (berr_tick ev w ^^ Suc 200) s)"
      by (simp add: Let_def del: funpow.simps)
    then show ?thesis by (intro exI [of _ "Suc 200"]) (simp del: funpow.simps)
  next
    case 3
    then have "berr_loop ev w (Suc n) s = berr_loop ev w n ?s" by (simp add: Let_def)
    moreover obtain N where "N \<le> n + 200" "snd (berr_loop ev w n ?s) = (berr_tick ev w ^^ N) ?s"
      "fst (berr_loop ev w n ?s) \<longrightarrow> r32 0x2004 (be_ram (snd (berr_loop ev w n ?s))) = 0xDEAD0000" using Suc.IH by blast
    ultimately show ?thesis
      by (intro exI [of _ "Suc N"]) (simp add: funpow_Suc_right del: funpow.simps)
  qed
qed

lemma rises_append: "rises d (as @ bs) = rises d as + rises (if as = [] then d else last as) bs"
  by (induction as arbitrary: d) simp_all

lemma berr_obs_last: "mberr_d ((berr_tick ev w ^^ n) s) = (if n = 0 then mberr_d s else bo_make_berr (last (berr_obs ev w s n)))"
  by (cases n) (simp_all add: berr_obs_def berr_tick_edges)


end
