(* ===== verification/JsonlWriter.thy ===== *)
theory JsonlWriter
  imports BenchRam
begin

text \<open>
  The result writer of the programs that run on the target (SingleStepTests/preboot/common/runtime:
  jsonl_writer.c, freestanding.h): lines of text are collected in a batch of 16 KB, which is
  written to a pre-allocated file through the block driver, rewritten on every commit and advanced when
  full. The driver call (the trap _Write) is a parameter: from the parameter block and the state of
  the device to its next state and the result code.
\<close>

section \<open>State\<close>

abbreviation batch_bytes :: nat where "batch_bytes \<equiv> 16384"

text \<open>The fields of the parameter block the writer sets; the buffer stands for the bytes it points to.\<close>

record WritePb =
  wp_refnum :: "16 word"
  wp_vrefnum :: "16 word"
  wp_buffer :: "u8 list"
  wp_req_count :: u32
  wp_pos_mode :: "16 word"
  wp_pos_offset :: u32

type_synonym 'd write_trap = "WritePb \<Rightarrow> 'd \<Rightarrow> 'd \<times> 16 word"

record JwCtx =
  jc_refnum :: "16 word"
  jc_drive :: "16 word"
  base_offset :: u32
  max_bytes :: u32

text \<open>The number of bytes used is at most 16384, so a natural number stands for the unsigned word.\<close>

record JsonlWriter =
  jw_ctx :: JwCtx
  jw_sector :: "u8 list"
  jw_used :: nat
  jw_written :: u32
  jw_last_err :: "16 word"

type_synonym 'd jw = "JsonlWriter \<times> 'd"

section \<open>Operations\<close>

text \<open>Decimal digits, most significant first: the digits are produced in reverse and turned round.\<close>

fun rev_digits :: "nat \<Rightarrow> string" where
  "rev_digits v = (if v = 0 then [] else char_of (48 + v mod 10) # rev_digits (v div 10))"

declare rev_digits.simps [simp del]

definition f_putul :: "u32 \<Rightarrow> string" where
  "f_putul v = (if v = 0 then ''0'' else rev (rev_digits (unat v)))"

definition driver_write_sector :: "'d write_trap \<Rightarrow> JwCtx \<Rightarrow> u32 \<Rightarrow> u8 list \<Rightarrow> 'd \<Rightarrow> 'd \<times> 16 word" where
  "driver_write_sector trap ctx idx buf d =
     trap \<lparr>wp_refnum = jc_refnum ctx, wp_vrefnum = jc_drive ctx, wp_buffer = buf, wp_req_count = of_nat batch_bytes,
           wp_pos_mode = 1, wp_pos_offset = base_offset ctx + idx * of_nat batch_bytes\<rparr> d"

definition jw_init :: "JwCtx \<Rightarrow> JsonlWriter" where
  "jw_init ctx = \<lparr>jw_ctx = ctx, jw_sector = replicate batch_bytes 0, jw_used = 0, jw_written = 0, jw_last_err = 0\<rparr>"

definition zero_tail :: "JsonlWriter \<Rightarrow> JsonlWriter" where
  "zero_tail w =
     (if jw_used w < batch_bytes
      then w\<lparr>jw_sector := take (jw_used w) (jw_sector w) @ replicate (batch_bytes - jw_used w) 0\<rparr> else w)"

definition write_current_batch :: "'d write_trap \<Rightarrow> 'd jw \<Rightarrow> 'd jw" where
  "write_current_batch trap = (\<lambda>(w, d).
     let w1 = zero_tail w; idx = jw_written w1 div of_nat batch_bytes
     in case driver_write_sector trap (jw_ctx w1) idx (jw_sector w1) d of
          (d1, r) \<Rightarrow> ((if r \<noteq> 0 \<and> jw_last_err w1 = 0 then w1\<lparr>jw_last_err := r\<rparr> else w1), d1))"

definition flush_sector :: "'d write_trap \<Rightarrow> 'd jw \<Rightarrow> 'd jw" where
  "flush_sector trap s =
     (case write_current_batch trap s of
        (w, d) \<Rightarrow> (w\<lparr>jw_written := jw_written w + of_nat batch_bytes, jw_used := 0\<rparr>, d))"

definition jw_putc :: "'d write_trap \<Rightarrow> char \<Rightarrow> 'd jw \<Rightarrow> 'd jw" where
  "jw_putc trap c = (\<lambda>(w, d).
     if jw_written w + of_nat (jw_used w) \<ge> max_bytes (jw_ctx w) then (w, d)
     else let w1 = w\<lparr>jw_sector := (jw_sector w)[jw_used w := of_char c], jw_used := jw_used w + 1\<rparr>
          in if jw_used w1 = batch_bytes then flush_sector trap (w1, d) else (w1, d))"

definition jw_puts :: "'d write_trap \<Rightarrow> string \<Rightarrow> 'd jw \<Rightarrow> 'd jw" where
  "jw_puts trap cs = fold (jw_putc trap) cs"

definition jw_putul :: "'d write_trap \<Rightarrow> u32 \<Rightarrow> 'd jw \<Rightarrow> 'd jw" where
  "jw_putul trap v = jw_puts trap (f_putul v)"

definition jw_commit_line :: "'d write_trap \<Rightarrow> 'd jw \<Rightarrow> 'd jw" where
  "jw_commit_line trap s = (if jw_used (fst s) = 0 then s else write_current_batch trap s)"

definition jw_flush :: "'d write_trap \<Rightarrow> 'd jw \<Rightarrow> 'd jw" where
  "jw_flush trap s = (if jw_used (fst s) > 0 then flush_sector trap s else s)"

section \<open>Decimal numbers\<close>

fun decimal :: "string \<Rightarrow> nat" where
  "decimal [] = 0"
| "decimal (c # cs) = (of_char c - 48) * 10 ^ length cs + decimal cs"

lemma decimal_snoc: "decimal (cs @ [c]) = 10 * decimal cs + (of_char c - 48)"
  by (induction cs) (simp_all add: algebra_simps)

lemma of_digit [simp]: "of_char (char_of (48 + v mod 10 :: nat) :: char) = (48 + v mod 10 :: nat)"
  by simp

lemma rev_digits_value: "decimal (rev (rev_digits v)) = v"
  by (induction v rule: rev_digits.induct) (subst rev_digits.simps, simp add: decimal_snoc)

lemma rev_digits_length: "v < 10 ^ k \<Longrightarrow> length (rev_digits v) \<le> k"
proof (induction k arbitrary: v)
  case 0
  then show ?case by (simp add: rev_digits.simps)
next
  case (Suc k)
  have "v div 10 < 10 ^ k" using Suc.prems by (simp add: less_mult_imp_div_less)
  then show ?case using Suc.IH [of "v div 10"] by (subst rev_digits.simps) simp
qed

lemma rev_digits_last: "v \<noteq> 0 \<Longrightarrow> rev_digits v \<noteq> [] \<and> last (rev_digits v) \<noteq> CHR ''0''"
proof (induction v rule: rev_digits.induct)
  case (1 v)
  have z: "char_of (48 + v mod 10 :: nat) \<noteq> CHR ''0''" if "v < 10"
  proof
    assume "char_of (48 + v mod 10 :: nat) = CHR ''0''"
    then have "of_char (char_of (48 + v mod 10 :: nat) :: char) = (of_char CHR ''0'' :: nat)" by (rule arg_cong)
    then have "48 + v mod 10 = (48::nat)" unfolding of_digit by simp
    then show False using that 1(2) by simp
  qed
  show ?case
  proof (cases "v div 10 = 0")
    case True
    then show ?thesis using z 1(2) by (simp add: rev_digits.simps [of v] rev_digits.simps [of 0])
  next
    case False
    then show ?thesis using 1 by (subst (1 2) rev_digits.simps) simp
  qed
qed

lemma rev_digits_digit: "c \<in> set (rev_digits v) \<Longrightarrow> of_char c \<in> {48..57::nat}"
proof (induction v rule: rev_digits.induct)
  case (1 v)
  then show ?case by (subst (asm) (2) rev_digits.simps) (auto split: if_splits)
qed

text \<open>Numbers are printed exactly. The text of a 32-bit number is its decimal value, has digits only, no leading
  zero, and at most ten of them, so it fits the buffers of the writer.\<close>

theorem putul_decimal:
  "decimal (f_putul v) = unat v \<and> length (f_putul v) \<in> {1..10} \<and> list_all (\<lambda>c. of_char c \<in> {48..57::nat}) (f_putul v) \<and>
   (hd (f_putul v) = CHR ''0'') = (v = 0)"
proof (cases "v = 0")
  case True
  then show ?thesis by (simp add: f_putul_def)
next
  case False
  then have n: "unat v \<noteq> 0" by (simp add: unat_eq_0)
  have "unat v < 10 ^ 10" using unsigned_less [of v, where 'a = nat] by simp
  then have "length (rev_digits (unat v)) \<le> 10" by (rule rev_digits_length)
  moreover have "rev_digits (unat v) \<noteq> []" "last (rev_digits (unat v)) \<noteq> CHR ''0''" using rev_digits_last [OF n] by simp_all
  ultimately show ?thesis
    using False rev_digits_digit [of _ "unat v"]
    by (auto simp: f_putul_def rev_digits_value hd_rev list_all_iff Suc_le_eq)
qed

section \<open>A run of the writer\<close>

datatype jw_op = Put char | Commit

definition jw_step :: "'d write_trap \<Rightarrow> jw_op \<Rightarrow> 'd jw \<Rightarrow> 'd jw" where
  "jw_step trap op = (case op of Put c \<Rightarrow> jw_putc trap c | Commit \<Rightarrow> jw_commit_line trap)"

definition jw_run :: "'d write_trap \<Rightarrow> jw_op list \<Rightarrow> 'd jw \<Rightarrow> 'd jw" where
  "jw_run trap ops = fold (jw_step trap) ops"

fun op_text :: "jw_op list \<Rightarrow> string" where
  "op_text [] = []"
| "op_text (Put c # ops) = c # op_text ops"
| "op_text (Commit # ops) = op_text ops"

lemma op_text_append: "op_text (as @ bs) = op_text as @ op_text bs"
  by (induction as rule: op_text.induct) simp_all

text \<open>What the file should hold: the text up to its capacity, padded with zeros to whole batches.\<close>

definition kept :: "u32 \<Rightarrow> string \<Rightarrow> u8 list" where
  "kept m cs = take (unat m) (map of_char cs)"

definition padded :: "u8 list \<Rightarrow> u8 list" where
  "padded bs = bs @ replicate ((batch_bytes - length bs mod batch_bytes) mod batch_bytes) 0"

text \<open>Documented behaviour of the trap: the requested bytes of the buffer are on the device at the offset, and the
  result is no error.\<close>

definition stores :: "'d write_trap \<Rightarrow> ('d \<Rightarrow> ram24) \<Rightarrow> bool" where
  "stores trap content \<longleftrightarrow> (\<forall>pb d. snd (trap pb d) = 0 \<and>
     content (fst (trap pb d)) = plant (unat (wp_pos_offset pb)) (take (unat (wp_req_count pb)) (wp_buffer pb)) (content d))"

lemma plant_over:
  assumes "n \<le> length bs" "length bs \<le> n + length ys"
  shows "plant (p + n) ys (plant p bs m) = plant p (take n bs @ ys) m"
  using assms by (intro ext) (auto simp: plant_def nth_append)

text \<open>The invariant of a run: the batch holds the last bytes of the text, and the device the batches before it and
  perhaps an older state of this one.\<close>

definition jw_holds :: "JwCtx \<Rightarrow> ('d \<Rightarrow> ram24) \<Rightarrow> ram24 \<Rightarrow> u8 list \<Rightarrow> 'd jw \<Rightarrow> bool" where
  "jw_holds ctx content m0 t = (\<lambda>(w, d).
     jw_ctx w = ctx \<and> length (jw_sector w) = batch_bytes \<and> jw_used w < batch_bytes \<and>
     batch_bytes dvd unat (jw_written w) \<and> length t = unat (jw_written w) + jw_used w \<and>
     take (jw_used w) (jw_sector w) = drop (unat (jw_written w)) t \<and>
     (\<exists>bs. content d = plant (unat (base_offset ctx)) bs m0 \<and> take (unat (jw_written w)) bs = take (unat (jw_written w)) t \<and>
        (length bs = unat (jw_written w) \<or> length bs = unat (jw_written w) + batch_bytes \<and> 0 < jw_used w)))"

text \<open>The context leaves room for a whole last batch.\<close>

definition roomy :: "JwCtx \<Rightarrow> bool" where
  "roomy ctx \<longleftrightarrow> unat (base_offset ctx) + unat (max_bytes ctx) + batch_bytes \<le> 2 ^ 32"

lemma zero_tail_sector:
  assumes "length (jw_sector w) = batch_bytes" "jw_used w \<le> batch_bytes"
  shows "jw_sector (zero_tail w) = take (jw_used w) (jw_sector w) @ replicate (batch_bytes - jw_used w) 0"
    "jw_ctx (zero_tail w) = jw_ctx w" "jw_used (zero_tail w) = jw_used w" "jw_written (zero_tail w) = jw_written w"
    "jw_last_err (zero_tail w) = jw_last_err w"
  using assms by (auto simp: zero_tail_def)

lemma batch_offset:
  assumes "batch_bytes dvd unat (n :: u32)" "unat b + unat n < 2 ^ 32"
  shows "unat (b + n div of_nat batch_bytes * of_nat batch_bytes) = unat b + unat n"
proof -
  have "n div of_nat batch_bytes * of_nat batch_bytes = n"
  proof -
    have "unat (n div of_nat batch_bytes) = unat n div batch_bytes" by (simp add: unat_div_distrib)
    then have "unat (n div of_nat batch_bytes * of_nat batch_bytes) = (unat n div batch_bytes * batch_bytes) mod 2 ^ 32"
      by (simp add: unat_word_ariths)
    also have "\<dots> = unat n" using assms(1) unsigned_less [of n, where 'a = nat] by simp
    finally show ?thesis by (simp add: word_unat_eq_iff)
  qed
  then show ?thesis using assms(2) by (simp add: unat_word_ariths)
qed

text \<open>Writing the batch, whether to commit or to advance.\<close>

lemma write_batch:
  assumes "stores trap content" "roomy ctx" "length t \<le> unat (max_bytes ctx)"
    and "jw_ctx w = ctx" "length (jw_sector w) = batch_bytes" "jw_used w \<le> batch_bytes"
    and "batch_bytes dvd unat (jw_written w)" "length t = unat (jw_written w) + jw_used w"
    and "take (jw_used w) (jw_sector w) = drop (unat (jw_written w)) t"
    and "content d = plant (unat (base_offset ctx)) bs m0" "take (unat (jw_written w)) bs = take (unat (jw_written w)) t"
    and "unat (jw_written w) \<le> length bs" "length bs \<le> unat (jw_written w) + batch_bytes"
  shows "\<exists>w1 d1. write_current_batch trap (w, d) = (w1, d1) \<and> jw_ctx w1 = ctx \<and> jw_used w1 = jw_used w \<and>
    jw_written w1 = jw_written w \<and> jw_last_err w1 = jw_last_err w \<and>
    jw_sector w1 = drop (unat (jw_written w)) t @ replicate (batch_bytes - jw_used w) 0 \<and>
    content d1 = plant (unat (base_offset ctx)) (t @ replicate (batch_bytes - jw_used w) 0) m0"
proof -
  let ?n = "unat (jw_written w)" let ?b = "unat (base_offset ctx)"
  note z = zero_tail_sector [OF assms(5,6)]
  let ?sec = "drop ?n t @ replicate (batch_bytes - jw_used w) 0"
  have sec: "jw_sector (zero_tail w) = ?sec" using z(1) assms(9) by simp
  have l: "length ?sec = batch_bytes" using assms(6,8) by simp
  have off: "unat (base_offset ctx + jw_written w div of_nat batch_bytes * of_nat batch_bytes) = ?b + ?n"
    using assms(2,3,7,8) by (intro batch_offset) (simp_all add: roomy_def)
  obtain d1 where d1: "driver_write_sector trap ctx (jw_written w div of_nat batch_bytes) ?sec d = (d1, 0)"
      "content d1 = plant (?b + ?n) ?sec (content d)"
  proof -
    let ?pb = "\<lparr>wp_refnum = jc_refnum ctx, wp_vrefnum = jc_drive ctx, wp_buffer = ?sec, wp_req_count = of_nat batch_bytes,
       wp_pos_mode = 1, wp_pos_offset = base_offset ctx + jw_written w div of_nat batch_bytes * of_nat batch_bytes\<rparr>"
    have "take (unat (wp_req_count ?pb)) (wp_buffer ?pb) = ?sec"
      unfolding WritePb.simps using l by (intro take_all) simp
    moreover have "unat (wp_pos_offset ?pb) = ?b + ?n" using off by simp
    ultimately have "snd (trap ?pb d) = 0" "content (fst (trap ?pb d)) = plant (?b + ?n) ?sec (content d)"
      using assms(1) unfolding stores_def by metis+
    then show ?thesis using that by (simp add: driver_write_sector_def prod_eq_iff)
  qed
  have "plant (?b + ?n) ?sec (content d) = plant ?b (take ?n bs @ ?sec) m0"
    unfolding assms(10) by (rule plant_over) (use assms(12,13) l in simp_all)
  also have "take ?n bs @ ?sec = t @ replicate (batch_bytes - jw_used w) 0" unfolding assms(11) by simp
  finally show ?thesis
    using d1 z sec assms(4) by (auto simp: write_current_batch_def Let_def)
qed

lemma padded_batch:
  assumes "batch_bytes dvd n" "length t = n + u" "u < batch_bytes" "0 < u"
  shows "t @ replicate (batch_bytes - u) 0 = padded t"
  using assms by (auto simp: padded_def mod_add_left_eq [symmetric] simp flip: mod_eq_0_iff_dvd)

lemma jw_holds_init: "jw_holds ctx content (content d) [] (jw_init ctx, d)"
  by (auto simp: jw_holds_def jw_init_def intro!: exI [of _ "[]"])

lemma commit_holds:
  assumes "stores trap content" "roomy ctx" "length t \<le> unat (max_bytes ctx)" "jw_holds ctx content m0 t s"
  shows "jw_holds ctx content m0 t (jw_commit_line trap s) \<and>
    content (snd (jw_commit_line trap s)) = plant (unat (base_offset ctx)) (padded t) m0"
proof -
  obtain w d where s: "s = (w, d)" by (cases s)
  let ?n = "unat (jw_written w)"
  have h: "jw_ctx w = ctx" "length (jw_sector w) = batch_bytes" "jw_used w < batch_bytes" "batch_bytes dvd ?n"
    "length t = ?n + jw_used w" "take (jw_used w) (jw_sector w) = drop ?n t"
    using assms(4) by (simp_all add: s jw_holds_def)
  obtain bs where bs: "content d = plant (unat (base_offset ctx)) bs m0"
      "take (unat (jw_written w)) bs = take (unat (jw_written w)) t"
      "length bs = unat (jw_written w) \<or> length bs = unat (jw_written w) + batch_bytes \<and> 0 < jw_used w"
    using assms(4) by (auto simp: s jw_holds_def)
  show ?thesis
  proof (cases "jw_used w = 0")
    case True
    then have "bs = t" using bs(2,3) h(5) by simp
    moreover have "padded t = t" using True h by (auto simp: padded_def elim!: dvdE)
    ultimately show ?thesis using True assms(4) bs(1) by (simp add: s jw_commit_line_def)
  next
    case False
    have b: "jw_used w \<le> batch_bytes" "?n \<le> length bs" "length bs \<le> ?n + batch_bytes" using h(3) bs(3) by auto
    obtain w1 d1 where r: "write_current_batch trap (w, d) = (w1, d1)" "jw_ctx w1 = ctx" "jw_used w1 = jw_used w"
        "jw_written w1 = jw_written w" "jw_sector w1 = drop (unat (jw_written w)) t @ replicate (batch_bytes - jw_used w) 0"
        "content d1 = plant (unat (base_offset ctx)) (t @ replicate (batch_bytes - jw_used w) 0) m0"
      using write_batch [OF assms(1-3) h(1,2) b(1) h(4,5,6) bs(1,2) b(2,3)] by blast
    have p: "t @ replicate (batch_bytes - jw_used w) 0 = padded t"
      by (rule padded_batch [of "unat (jw_written w)"]) (use h False in simp_all)
    have "jw_holds ctx content m0 t (w1, d1)"
      unfolding jw_holds_def using r h False
      by (auto intro!: exI [of _ "t @ replicate (batch_bytes - jw_used w) 0"])
    then show ?thesis using False r p by (simp add: s jw_commit_line_def)
  qed
qed

lemma putc_holds:
  assumes "stores trap content" "roomy ctx" "length t \<le> unat (max_bytes ctx)" "jw_holds ctx content m0 t s"
  shows "jw_holds ctx content m0 (take (unat (max_bytes ctx)) (t @ [of_char c])) (jw_putc trap c s)"
proof -
  obtain w d where s: "s = (w, d)" by (cases s)
  let ?n = "unat (jw_written w)" let ?m = "unat (max_bytes ctx)" let ?t = "t @ [of_char c]"
  have h: "jw_ctx w = ctx" "length (jw_sector w) = batch_bytes" "jw_used w < batch_bytes" "batch_bytes dvd ?n"
    "length t = ?n + jw_used w" "take (jw_used w) (jw_sector w) = drop ?n t"
    using assms(4) by (simp_all add: s jw_holds_def)
  obtain bs where bs: "content d = plant (unat (base_offset ctx)) bs m0" "take ?n bs = take ?n t"
      "length bs = ?n \<or> length bs = ?n + batch_bytes \<and> 0 < jw_used w"
    using assms(4) by (auto simp: s jw_holds_def)
  have "unat (jw_written w + of_nat (jw_used w)) = length t"
    using h(5) assms(3) unsigned_less [of "max_bytes ctx", where 'a = nat] h(3)
    by (simp add: unat_word_ariths unat_of_nat)
  then have full: "jw_written w + of_nat (jw_used w) \<ge> max_bytes ctx \<longleftrightarrow> length t = ?m"
    using assms(3) by (auto simp: word_le_nat_alt)
  show ?thesis
  proof (cases "length t = ?m")
    case True
    then show ?thesis using full assms(4) h(1) by (simp add: s jw_putc_def)
  next
    case False
    let ?w = "w\<lparr>jw_sector := (jw_sector w)[jw_used w := of_char c], jw_used := jw_used w + 1\<rparr>"
    have t: "take ?m ?t = ?t" "length ?t \<le> ?m" using False assms(3) by simp_all
    have sec: "take (jw_used ?w) (jw_sector ?w) = drop ?n ?t"
      using h(2,3,5,6) by (simp add: take_Suc_conv_app_nth)
    have bs2: "take ?n bs = take ?n ?t" "?n \<le> length bs" "length bs \<le> ?n + batch_bytes" using bs(2,3) h(5) by auto
    have step: "jw_putc trap c s = (if jw_used ?w = batch_bytes then flush_sector trap (?w, d) else (?w, d))"
      using full False h(1) by (simp add: s jw_putc_def)
    show ?thesis
    proof (cases "jw_used ?w = batch_bytes")
      case True
      obtain w1 d1 where r: "write_current_batch trap (?w, d) = (w1, d1)" "jw_ctx w1 = ctx" "jw_written w1 = jw_written w"
          "jw_sector w1 = drop ?n ?t @ replicate (batch_bytes - jw_used ?w) 0"
          "content d1 = plant (unat (base_offset ctx)) (?t @ replicate (batch_bytes - jw_used ?w) 0) m0"
        using write_batch [OF assms(1,2) t(2), of ?w d bs m0] h bs(1) bs2 sec True by auto
      have "unat (jw_written w + of_nat batch_bytes) = ?n + batch_bytes"
        using t(2) h(5) True assms(2) unsigned_less [of "max_bytes ctx", where 'a = nat]
        by (simp add: unat_word_ariths)
      then have "jw_holds ctx content m0 ?t (flush_sector trap (?w, d))"
        unfolding jw_holds_def flush_sector_def using r h(4,5) True by (auto intro!: exI [of _ ?t])
      then show ?thesis using step True t(1) by simp
    next
      case F: False
      have "jw_holds ctx content m0 ?t (?w, d)"
        unfolding jw_holds_def using h bs bs2 sec F by (auto intro!: exI [of _ bs])
      then show ?thesis using step F t(1) by simp
    qed
  qed
qed

lemma jw_run_holds:
  assumes "stores trap content" "roomy ctx"
  shows "jw_holds ctx content (content d) (kept (max_bytes ctx) (op_text ops)) (jw_run trap ops (jw_init ctx, d))"
proof (induction ops rule: rev_induct)
  case Nil
  show ?case using jw_holds_init by (simp add: jw_run_def kept_def)
next
  case (snoc op ops)
  let ?k = "kept (max_bytes ctx) (op_text ops)"
  have l: "length ?k \<le> unat (max_bytes ctx)" by (simp add: kept_def)
  have r: "jw_run trap (ops @ [op]) (jw_init ctx, d) = jw_step trap op (jw_run trap ops (jw_init ctx, d))"
    by (simp add: jw_run_def)
  show ?case
  proof (cases op)
    case (Put c)
    have "take (unat (max_bytes ctx)) (?k @ [of_char c]) = kept (max_bytes ctx) (op_text (ops @ [op]))"
      by (cases "length (op_text ops) \<le> unat (max_bytes ctx)") (simp_all add: kept_def op_text_append Put)
    then show ?thesis
      using putc_holds [OF assms l snoc.IH, of c] unfolding r by (simp add: jw_step_def Put)
  next
    case Commit
    then show ?thesis
      using commit_holds [OF assms l snoc.IH] unfolding r by (simp add: jw_step_def op_text_append)
  qed
qed

lemma flush_content:
  assumes "stores trap content" "roomy ctx" "length t \<le> unat (max_bytes ctx)" "jw_holds ctx content m0 t s"
  shows "content (snd (jw_flush trap s)) = plant (unat (base_offset ctx)) (padded t) m0"
proof -
  have "snd (jw_flush trap s) = snd (jw_commit_line trap s)"
    by (simp add: jw_flush_def jw_commit_line_def flush_sector_def split: prod.split)
  then show ?thesis using commit_holds [OF assms] by simp
qed

text \<open>C14. What the results file holds. Over any sequence of characters and commits on a device that stores what it is
  given: after a commit, and after the final flush, the file at its offset holds exactly the text so far,
  cut at the capacity of the file, padded with zeros to whole batches of 16 KB, and no other byte of
  the device has changed. So a run that hangs later loses no committed line.\<close>

theorem results_exact:
  assumes "stores trap content" "roomy ctx"
  shows "let file = plant (unat (base_offset ctx)) (padded (kept (max_bytes ctx) (op_text ops))) (content d)
    in content (snd (jw_commit_line trap (jw_run trap ops (jw_init ctx, d)))) = file \<and>
    content (snd (jw_flush trap (jw_run trap ops (jw_init ctx, d)))) = file"
proof -
  have l: "length (kept (max_bytes ctx) (op_text ops)) \<le> unat (max_bytes ctx)" by (simp add: kept_def)
  note h = jw_run_holds [OF assms, of d ops]
  show ?thesis using commit_holds [OF assms l h] flush_content [OF assms l h] by (simp add: Let_def)
qed

text \<open>A device that is its bytes, and a file on it.\<close>

definition byte_trap :: "ram24 write_trap" where
  "byte_trap pb m = (plant (unat (wp_pos_offset pb)) (take (unat (wp_req_count pb)) (wp_buffer pb)) m, 0)"

definition demo_ctx :: JwCtx where
  "demo_ctx = \<lparr>jc_refnum = 0xFFDF, jc_drive = 4, base_offset = 0x8000, max_bytes = 0x8000\<rparr>"

lemma demo_device: "stores byte_trap (\<lambda>m. m)" "roomy demo_ctx"
  by (simp_all add: stores_def byte_trap_def roomy_def demo_ctx_def)

theorem results_exact_witness:
  "take 3 (stretch 0x8000 4 (snd (jw_flush byte_trap
     (jw_run byte_trap [Put CHR ''o'', Put CHR ''k'', Commit, Put CHR ''!''] (jw_init demo_ctx, \<lambda>_. 7))))) = [0x6F, 0x6B, 0x21]"
proof -
  let ?p = "padded [0x6F, 0x6B, 0x21 :: u8]"
  have "kept (max_bytes demo_ctx) (op_text [Put CHR ''o'', Put CHR ''k'', Commit, Put CHR ''!'']) = [0x6F, 0x6B, 0x21]"
    by (simp add: kept_def demo_ctx_def)
  moreover have "unat (base_offset demo_ctx) = 0x8000" by (simp add: demo_ctx_def)
  ultimately have e: "snd (jw_flush byte_trap (jw_run byte_trap [Put CHR ''o'', Put CHR ''k'', Commit, Put CHR ''!'']
      (jw_init demo_ctx, \<lambda>_. 7))) = plant 0x8000 ?p (\<lambda>_. 7)"
    using results_exact [OF demo_device, of "[Put CHR ''o'', Put CHR ''k'', Commit, Put CHR ''!'']" "\<lambda>_. 7"] by (simp add: Let_def)
  have "length ?p = 16384" by (simp add: padded_def)
  then have "stretch 0x8000 16384 (plant 0x8000 ?p m) = ?p" for m using stretch_same [of "0x8000" ?p m] by simp
  then have "stretch 0x8000 3 (plant 0x8000 ?p m) = take 3 ?p" for m
    using stretch_sub [of 0 3 16384 "0x8000" "plant 0x8000 ?p m"] by simp
  moreover have "take 3 (stretch 0x8000 4 m) = stretch 0x8000 3 m" for m
    using stretch_sub [of 0 3 4 "0x8000" m] by simp
  ultimately show ?thesis unfolding e by (simp add: padded_def)
qed

section \<open>Errors\<close>

text \<open>The result codes of the writes a run made: the last error of the writer is the first one that is no success.\<close>

definition logging :: "'d write_trap \<Rightarrow> ('d \<times> 16 word list) write_trap" where
  "logging trap pb = (\<lambda>(d, rs). case trap pb d of (d1, r) \<Rightarrow> ((d1, rs @ [r]), r))"

definition first_error :: "16 word list \<Rightarrow> 16 word" where
  "first_error rs = (case find (\<lambda>r. r \<noteq> 0) rs of None \<Rightarrow> 0 | Some r \<Rightarrow> r)"

lemma first_error_snoc: "first_error (rs @ [r]) = (if first_error rs = 0 then r else first_error rs)"
  by (induction rs) (auto simp: first_error_def)

lemma batch_error:
  assumes "jw_last_err (fst s) = first_error (snd (snd s))"
  shows "jw_last_err (fst (write_current_batch (logging trap) s)) = first_error (snd (snd (write_current_batch (logging trap) s)))"
  using assms
  by (cases s) (auto simp: write_current_batch_def Let_def driver_write_sector_def logging_def first_error_snoc zero_tail_def
      split: prod.splits)

lemma step_error:
  assumes "jw_last_err (fst s) = first_error (snd (snd s))"
  shows "jw_last_err (fst (jw_step (logging trap) op s)) = first_error (snd (snd (jw_step (logging trap) op s)))"
proof -
  have flush: "jw_last_err (fst (flush_sector (logging trap) s)) = first_error (snd (snd (flush_sector (logging trap) s)))"
    if "jw_last_err (fst s) = first_error (snd (snd s))" for s
    using batch_error [OF that, of trap] by (auto simp: flush_sector_def split: prod.split)
  show ?thesis
  proof (cases op)
    case (Put c)
    obtain w e where s: "s = (w, e)" by (cases s)
    show ?thesis
      using assms flush [of "(w\<lparr>jw_sector := (jw_sector w)[jw_used w := of_char c], jw_used := jw_used w + 1\<rparr>, e)"]
      by (cases "jw_used w = 16383") (simp_all add: Put s jw_step_def jw_putc_def Let_def)
  next
    case Commit
    then show ?thesis using assms batch_error [OF assms, of trap] by (simp add: jw_step_def jw_commit_line_def)
  qed
qed

text \<open>The first error is kept. After any run on any device the error code of the writer is the first result of a
  write that was not success, and zero when all succeeded.\<close>

theorem first_error_kept:
  "case jw_run (logging trap) ops (jw_init ctx, (d, [])) of (w, d1, rs) \<Rightarrow> jw_last_err w = first_error rs"
proof -
  have "jw_last_err (fst (jw_run (logging trap) ops s)) = first_error (snd (snd (jw_run (logging trap) ops s)))"
    if "jw_last_err (fst s) = first_error (snd (snd s))" for s
    using that
  proof (induction ops arbitrary: s)
    case (Cons op ops)
    then show ?case using step_error [of s trap op] by (simp add: jw_run_def)
  qed (simp add: jw_run_def)
  moreover have "jw_last_err (fst (jw_init ctx, (d, []))) = first_error (snd (snd (jw_init ctx, (d, []))))"
    by (simp add: jw_init_def first_error_def)
  ultimately have "jw_last_err (fst (jw_run (logging trap) ops (jw_init ctx, (d, [])))) =
      first_error (snd (snd (jw_run (logging trap) ops (jw_init ctx, (d, [])))))" .
  then show ?thesis by (auto split: prod.split)
qed

end
