(* ===== verification/Display1bpp.thy ===== *)
theory Display1bpp
  imports SimPrelude
begin

text \<open>
  The text display of the programs that run on the target
  (SingleStepTests/preboot/common/display/display_1bpp.c): an 8 by 8 font painted byte by byte into a
  frame buffer of one bit per pixel, whose base and row length are read from low memory (the Mac
  builds; the row length is a constant of the build or, in the auto build, read once).
\<close>

section \<open>Memory and font\<close>

type_synonym mem32 = "u32 \<Rightarrow> u8"

definition rd_word :: "u32 \<Rightarrow> mem32 \<Rightarrow> u16" where
  "rd_word a m = be16 (m a) (m (a + 1))"

definition rd_long :: "u32 \<Rightarrow> mem32 \<Rightarrow> u32" where
  "rd_long a m = push_bit 16 (ucast (rd_word a m)) OR ucast (rd_word (a + 2) m)"

definition font_rows :: "u8 list list" where
  "font_rows =
    [
     [0, 0, 0, 0, 0, 0, 0, 0],
     [0x18, 0x18, 0x18, 0x18, 0x18, 0, 0x18, 0],
     [0x36, 0x36, 0x14, 0, 0, 0, 0, 0],
     [0x14, 0x14, 0x7F, 0x14, 0x7F, 0x14, 0x14, 0],
     [0x08, 0x3E, 0x40, 0x3C, 0x02, 0x7C, 0x10, 0],
     [0x62, 0x64, 0x08, 0x10, 0x26, 0x46, 0, 0],
     [0x30, 0x48, 0x30, 0x52, 0x4C, 0x32, 0, 0],
     [0x18, 0x18, 0x10, 0, 0, 0, 0, 0],
     [0x0C, 0x10, 0x20, 0x20, 0x20, 0x10, 0x0C, 0],
     [0x30, 0x08, 0x04, 0x04, 0x04, 0x08, 0x30, 0],
     [0, 0x24, 0x18, 0x7E, 0x18, 0x24, 0, 0],
     [0, 0x08, 0x08, 0x3E, 0x08, 0x08, 0, 0],
     [0, 0, 0, 0, 0, 0x18, 0x18, 0x10],
     [0, 0, 0, 0x3E, 0, 0, 0, 0],
     [0, 0, 0, 0, 0, 0x18, 0x18, 0],
     [0x02, 0x04, 0x08, 0x10, 0x20, 0x40, 0, 0],
     [0x3C, 0x42, 0x46, 0x4A, 0x52, 0x62, 0x3C, 0],
     [0x18, 0x28, 0x08, 0x08, 0x08, 0x08, 0x3E, 0],
     [0x3C, 0x42, 0x02, 0x0C, 0x30, 0x40, 0x7E, 0],
     [0x3C, 0x42, 0x02, 0x1C, 0x02, 0x42, 0x3C, 0],
     [0x04, 0x0C, 0x14, 0x24, 0x7E, 0x04, 0x04, 0],
     [0x7E, 0x40, 0x7C, 0x02, 0x02, 0x42, 0x3C, 0],
     [0x1C, 0x20, 0x40, 0x7C, 0x42, 0x42, 0x3C, 0],
     [0x7E, 0x02, 0x04, 0x08, 0x10, 0x20, 0x20, 0],
     [0x3C, 0x42, 0x42, 0x3C, 0x42, 0x42, 0x3C, 0],
     [0x3C, 0x42, 0x42, 0x3E, 0x02, 0x04, 0x38, 0],
     [0, 0x18, 0x18, 0, 0x18, 0x18, 0, 0],
     [0, 0x18, 0x18, 0, 0x18, 0x18, 0x10, 0],
     [0x04, 0x08, 0x10, 0x20, 0x10, 0x08, 0x04, 0],
     [0, 0, 0x7E, 0, 0x7E, 0, 0, 0],
     [0x20, 0x10, 0x08, 0x04, 0x08, 0x10, 0x20, 0],
     [0x3C, 0x42, 0x02, 0x0C, 0x10, 0, 0x10, 0],
     [0x3C, 0x42, 0x5E, 0x52, 0x5E, 0x40, 0x3E, 0],
     [0x3C, 0x42, 0x42, 0x7E, 0x42, 0x42, 0x42, 0],
     [0x7C, 0x42, 0x42, 0x7C, 0x42, 0x42, 0x7C, 0],
     [0x3C, 0x42, 0x40, 0x40, 0x40, 0x42, 0x3C, 0],
     [0x78, 0x44, 0x42, 0x42, 0x42, 0x44, 0x78, 0],
     [0x7E, 0x40, 0x40, 0x7C, 0x40, 0x40, 0x7E, 0],
     [0x7E, 0x40, 0x40, 0x7C, 0x40, 0x40, 0x40, 0],
     [0x3C, 0x42, 0x40, 0x4E, 0x42, 0x42, 0x3C, 0],
     [0x42, 0x42, 0x42, 0x7E, 0x42, 0x42, 0x42, 0],
     [0x3E, 0x08, 0x08, 0x08, 0x08, 0x08, 0x3E, 0],
     [0x02, 0x02, 0x02, 0x02, 0x02, 0x42, 0x3C, 0],
     [0x42, 0x44, 0x48, 0x70, 0x48, 0x44, 0x42, 0],
     [0x40, 0x40, 0x40, 0x40, 0x40, 0x40, 0x7E, 0],
     [0x42, 0x66, 0x5A, 0x42, 0x42, 0x42, 0x42, 0],
     [0x42, 0x62, 0x52, 0x4A, 0x46, 0x42, 0x42, 0],
     [0x3C, 0x42, 0x42, 0x42, 0x42, 0x42, 0x3C, 0],
     [0x7C, 0x42, 0x42, 0x7C, 0x40, 0x40, 0x40, 0],
     [0x3C, 0x42, 0x42, 0x42, 0x4A, 0x44, 0x3A, 0],
     [0x7C, 0x42, 0x42, 0x7C, 0x48, 0x44, 0x42, 0],
     [0x3C, 0x42, 0x40, 0x3C, 0x02, 0x42, 0x3C, 0],
     [0x7F, 0x08, 0x08, 0x08, 0x08, 0x08, 0x08, 0],
     [0x42, 0x42, 0x42, 0x42, 0x42, 0x42, 0x3C, 0],
     [0x42, 0x42, 0x42, 0x42, 0x42, 0x24, 0x18, 0],
     [0x42, 0x42, 0x42, 0x42, 0x5A, 0x66, 0x42, 0],
     [0x42, 0x42, 0x24, 0x18, 0x24, 0x42, 0x42, 0],
     [0x42, 0x42, 0x42, 0x3C, 0x18, 0x18, 0x18, 0],
     [0x7E, 0x02, 0x04, 0x18, 0x20, 0x40, 0x7E, 0],
     [0x1C, 0x10, 0x10, 0x10, 0x10, 0x10, 0x1C, 0],
     [0x40, 0x20, 0x10, 0x08, 0x04, 0x02, 0, 0],
     [0x38, 0x08, 0x08, 0x08, 0x08, 0x08, 0x38, 0],
     [0x18, 0x24, 0x42, 0, 0, 0, 0, 0],
     [0, 0, 0, 0, 0, 0, 0, 0x7E],
     [0x18, 0x18, 0x08, 0, 0, 0, 0, 0],
     [0, 0, 0x3C, 0x02, 0x3E, 0x42, 0x3E, 0],
     [0x40, 0x40, 0x7C, 0x42, 0x42, 0x42, 0x7C, 0],
     [0, 0, 0x3C, 0x42, 0x40, 0x42, 0x3C, 0],
     [0x02, 0x02, 0x3E, 0x42, 0x42, 0x42, 0x3E, 0],
     [0, 0, 0x3C, 0x42, 0x7E, 0x40, 0x3C, 0],
     [0x0C, 0x10, 0x3E, 0x10, 0x10, 0x10, 0x10, 0],
     [0, 0, 0x3E, 0x42, 0x42, 0x3E, 0x02, 0x3C],
     [0x40, 0x40, 0x7C, 0x42, 0x42, 0x42, 0x42, 0],
     [0x08, 0, 0x18, 0x08, 0x08, 0x08, 0x1C, 0],
     [0x04, 0, 0x0C, 0x04, 0x04, 0x04, 0x44, 0x38],
     [0x40, 0x40, 0x44, 0x48, 0x70, 0x48, 0x44, 0],
     [0x18, 0x08, 0x08, 0x08, 0x08, 0x08, 0x1C, 0],
     [0, 0, 0x76, 0x49, 0x49, 0x49, 0x49, 0],
     [0, 0, 0x7C, 0x42, 0x42, 0x42, 0x42, 0],
     [0, 0, 0x3C, 0x42, 0x42, 0x42, 0x3C, 0],
     [0, 0, 0x7C, 0x42, 0x42, 0x7C, 0x40, 0x40],
     [0, 0, 0x3E, 0x42, 0x42, 0x3E, 0x02, 0x02],
     [0, 0, 0x5C, 0x62, 0x40, 0x40, 0x40, 0],
     [0, 0, 0x3E, 0x40, 0x3C, 0x02, 0x7C, 0],
     [0x10, 0x10, 0x3E, 0x10, 0x10, 0x12, 0x0C, 0],
     [0, 0, 0x42, 0x42, 0x42, 0x42, 0x3E, 0],
     [0, 0, 0x42, 0x42, 0x42, 0x24, 0x18, 0],
     [0, 0, 0x42, 0x42, 0x49, 0x49, 0x36, 0],
     [0, 0, 0x42, 0x24, 0x18, 0x24, 0x42, 0],
     [0, 0, 0x42, 0x42, 0x42, 0x3E, 0x02, 0x3C],
     [0, 0, 0x7E, 0x04, 0x18, 0x20, 0x7E, 0],
     [0x0C, 0x10, 0x10, 0x60, 0x10, 0x10, 0x0C, 0],
     [0x18, 0x18, 0x18, 0x18, 0x18, 0x18, 0x18, 0],
     [0x30, 0x08, 0x08, 0x06, 0x08, 0x08, 0x30, 0],
     [0, 0, 0x32, 0x4C, 0, 0, 0, 0]
    ]"

definition g_font :: "u8 list" where
  "g_font = concat font_rows"

text \<open>The eight bytes of a character; what cannot be printed becomes a question mark.\<close>

definition font_code :: "char \<Rightarrow> nat" where
  "font_code c = (let n = of_char c in if n < 0x20 \<or> n > 0x7E then 0x3F else n)"

definition glyph :: "char \<Rightarrow> u8 list" where
  "glyph c = take 8 (drop ((font_code c - 0x20) * 8) g_font)"

section \<open>Operations\<close>

text \<open>The builds: a constant row length, or the one the ROM left in ScrnRow.\<close>

datatype row_mode = Fixed u32 | Auto

record Display =
  dp_mem :: mem32
  g_row_bytes :: u32

definition display_row_bytes :: "row_mode \<Rightarrow> Display \<Rightarrow> u32 \<times> Display" where
  "display_row_bytes mode d =
     (case mode of
        Fixed n \<Rightarrow> (n, d)
      | Auto \<Rightarrow>
          if g_row_bytes d = 0
          then (let v = (ucast (rd_word 0x0106 (dp_mem d)) :: u32);
                    v1 = (if v < 16 \<or> v > 4096 \<or> v AND 3 \<noteq> 0 then 80 else v)
                in (v1, d\<lparr>g_row_bytes := v1\<rparr>))
          else (g_row_bytes d, d))"

definition fb_base :: "Display \<Rightarrow> u32" where
  "fb_base d = rd_long 0x0824 (dp_mem d)"

definition fb_ok :: "u32 \<Rightarrow> bool" where
  "fb_ok fb \<longleftrightarrow> fb \<noteq> 0 \<and> fb \<ge> 0x00100000"

definition glyph_rows :: "u32 \<Rightarrow> u32 \<Rightarrow> u8 list \<Rightarrow> mem32 \<Rightarrow> mem32" where
  "glyph_rows p stride g m = fold (\<lambda>r m. m(p + of_nat r * stride := NOT (g ! r))) [0..<8] m"

definition paint_glyph_at :: "row_mode \<Rightarrow> u32 \<Rightarrow> char \<Rightarrow> Display \<Rightarrow> Display" where
  "paint_glyph_at mode p c d =
     (case display_row_bytes mode d of (stride, d1) \<Rightarrow> d1\<lparr>dp_mem := glyph_rows p stride (glyph c) (dp_mem d1)\<rparr>)"

text \<open>The cells of a string: its characters up to the terminating zero, then blanks.\<close>

definition cell_chars :: "string \<Rightarrow> nat \<Rightarrow> string" where
  "cell_chars s n =
     (let cs = take n (takeWhile (\<lambda>c. c \<noteq> CHR 0x00) s) in cs @ replicate (n - length cs) CHR '' '')"

fun paint_cells :: "row_mode \<Rightarrow> u32 \<Rightarrow> string \<Rightarrow> Display \<Rightarrow> Display" where
  "paint_cells mode p [] d = d"
| "paint_cells mode p (c # cs) d = paint_cells mode (p + 1) cs (paint_glyph_at mode p c d)"

definition paint_string :: "row_mode \<Rightarrow> u32 \<Rightarrow> u32 \<Rightarrow> string \<Rightarrow> nat \<Rightarrow> Display \<Rightarrow> Display" where
  "paint_string mode row col s max_chars d =
     (if \<not> fb_ok (fb_base d) then d
      else case display_row_bytes mode d of
             (stride, d1) \<Rightarrow> paint_cells mode (fb_base d + row * stride + col) (cell_chars s max_chars) d1)"

definition display_wipe :: "row_mode \<Rightarrow> u32 \<Rightarrow> Display \<Rightarrow> Display" where
  "display_wipe mode rows d =
     (case display_row_bytes mode d of
        (stride, d1) \<Rightarrow>
          if \<not> fb_ok (fb_base d) then d1
          else d1\<lparr>dp_mem := (\<lambda>a. if unat (a - fb_base d) < unat (rows * stride div 4) * 4 then 0xFF else dp_mem d1 a)\<rparr>)"

section \<open>The font\<close>

lemma font_rows_shape: "length font_rows = 95" "list_all (\<lambda>g. length g = 8) font_rows"
  by (simp_all add: font_rows_def)

lemma concat_row: "list_all (\<lambda>g. length g = n) gs \<Longrightarrow> k < length gs \<Longrightarrow> take n (drop (k * n) (concat gs)) = gs ! k"
proof (induction gs arbitrary: k)
  case (Cons g gs)
  then show ?case by (cases k) simp_all
qed simp

lemma glyph_row: "glyph c = font_rows ! (font_code c - 0x20)"
proof -
  have "font_code c - 0x20 < 95" by (auto simp: font_code_def Let_def)
  then show ?thesis using concat_row [OF font_rows_shape(2)] by (simp add: glyph_def g_font_def font_rows_shape(1))
qed

lemma length_glyph [simp]: "length (glyph c) = 8"
proof -
  have "font_code c - 0x20 < length font_rows" by (auto simp: font_code_def Let_def font_rows_shape)
  then show ?thesis using font_rows_shape(2) by (simp add: glyph_row list_all_length)
qed

text \<open>A weighted sum of its bytes tells the glyphs apart.\<close>

definition glyph_key :: "u8 list \<Rightarrow> nat" where
  "glyph_key g = sum_list (map2 (\<lambda>k b. k * unat b) [3, 1, 4, 3, 7, 1, 1, 2] g)"

lemma glyph_keys: "map glyph_key font_rows =
    [
     0, 456, 296, 1577, 676, 810, 1236, 160, 528, 264, 714, 290, 80, 186, 48, 378,
     1480, 294, 816, 478, 1102, 1084, 1332, 596, 1278, 770, 312, 328, 304, 1386, 260, 418,
     1652, 1482, 1726, 1268, 1540, 1708, 1646, 1324, 1500, 376, 162, 1528, 1342, 1452, 1468, 1296,
     1650, 1352, 1712, 822, 517, 1314, 1248, 1524, 864, 924, 882, 368, 342, 352, 372, 252,
     128, 808, 1602, 1012, 1044, 1444, 492, 1092, 1544, 236, 284, 1668, 228, 1348, 1288, 1026,
     1472, 976, 1238, 986, 502, 1052, 984, 1100, 642, 1108, 842, 544, 480, 314, 428
    ]"
  by (simp add: glyph_key_def font_rows_def)

lemma distinct_font: "distinct font_rows"
proof -
  have "distinct (map glyph_key font_rows)" unfolding glyph_keys by simp
  then show ?thesis by (simp add: distinct_map)
qed

lemma glyph_inject: "glyph c = glyph d \<longleftrightarrow> font_code c = font_code d"
proof -
  have b: "font_code x - 0x20 < length font_rows" "font_code x \<ge> 0x20" for x
    by (auto simp: font_code_def Let_def font_rows_shape)
  show ?thesis
    using nth_eq_iff_index_eq [OF distinct_font b(1) [of c] b(1) [of d]] b(2) [of c] b(2) [of d] by (auto simp: glyph_row)
qed

section \<open>What painting does\<close>

text \<open>Once read, the row length does not change.\<close>

definition stable :: "row_mode \<Rightarrow> u32 \<Rightarrow> Display \<Rightarrow> bool" where
  "stable mode stride d \<longleftrightarrow> mode = Fixed stride \<or> mode = Auto \<and> g_row_bytes d = stride \<and> stride \<noteq> 0"

lemma stable_row: "stable mode stride d \<Longrightarrow> display_row_bytes mode d = (stride, d)"
  by (auto simp: stable_def display_row_bytes_def)

lemma display_row_bytes_stable:
  assumes "display_row_bytes mode d = (v, d1)"
  shows "stable mode v d1" "dp_mem d1 = dp_mem d"
proof -
  have z: "v1 \<noteq> 0" if "v1 = (if v < 16 \<or> v > 4096 \<or> v AND 3 \<noteq> 0 then 80 else v)" for v v1 :: u32
    using that by auto
  show "stable mode v d1" using assms z
    by (auto simp: stable_def display_row_bytes_def Let_def split: row_mode.splits if_splits)
  show "dp_mem d1 = dp_mem d" using assms
    by (auto simp: display_row_bytes_def Let_def split: row_mode.splits if_splits)
qed

lemma stable_mem: "stable mode stride d \<Longrightarrow> stable mode stride (d\<lparr>dp_mem := m\<rparr>)"
  by (simp add: stable_def)

lemma paint_glyph_stable:
  assumes "stable mode stride d"
  shows "paint_glyph_at mode p c d = d\<lparr>dp_mem := glyph_rows p stride (glyph c) (dp_mem d)\<rparr>"
    "stable mode stride (paint_glyph_at mode p c d)"
  using stable_mem [OF assms] by (simp_all add: paint_glyph_at_def stable_row [OF assms])

lemma offset_eq:
  assumes "n + r * unat stride < 2 ^ 32"
  shows "a = p + of_nat n + of_nat r * (stride :: u32) \<longleftrightarrow> unat (a - p) = n + r * unat stride"
proof -
  have "of_nat n + of_nat r * stride = of_nat (n + r * unat stride)" by simp
  then have u: "unat (of_nat n + of_nat r * stride) = n + r * unat stride" using assms by (simp only: unat_of_nat) simp
  have "a = p + of_nat n + of_nat r * stride \<longleftrightarrow> a - p = of_nat n + of_nat r * stride" by (auto simp: algebra_simps)
  also have "\<dots> \<longleftrightarrow> unat (a - p) = n + r * unat stride" using u by (metis word_unat_eq_iff)
  finally show ?thesis .
qed

lemma glyph_rows_at:
  assumes "0 < unat stride" "n + 8 * unat stride \<le> 2 ^ 32" "n < unat stride"
  shows "glyph_rows (p + of_nat n) stride g m a =
    (let k = unat (a - p) in if k mod unat stride = n \<and> k div unat stride < 8 then NOT (g ! (k div unat stride)) else m a)"
proof -
  let ?S = "unat stride" let ?k = "unat (a - p)"
  have "fold (\<lambda>r m. m(p + of_nat n + of_nat r * stride := NOT (g ! r))) [0..<j] m a =
      (if ?k mod ?S = n \<and> ?k div ?S < j then NOT (g ! (?k div ?S)) else m a)" if "j \<le> 8" for j
    using that
  proof (induction j)
    case (Suc j)
    have "j * ?S \<le> 7 * ?S" using Suc.prems by simp
    then have b: "n + j * ?S < 2 ^ 32" using assms by linarith
    have "?k = n + j * ?S \<longleftrightarrow> ?k mod ?S = n \<and> ?k div ?S = j"
      using assms(1,3) by auto
    then have "a = p + of_nat n + of_nat j * stride \<longleftrightarrow> ?k mod ?S = n \<and> ?k div ?S = j"
      using offset_eq [OF b, of a p] by simp
    then show ?case using Suc by (auto simp: less_Suc_eq)
  qed simp
  from this [of 8] show ?thesis by (simp add: glyph_rows_def Let_def)
qed

text \<open>The picture of cells: byte k of the area belongs to row k div S of cell k mod S.\<close>

definition cells_mem :: "nat \<Rightarrow> u32 \<Rightarrow> string \<Rightarrow> mem32 \<Rightarrow> mem32" where
  "cells_mem S p cs m a =
     (let k = unat (a - p) in if k mod S < length cs \<and> k div S < 8 then NOT (glyph (cs ! (k mod S)) ! (k div S)) else m a)"

lemma paint_cells_snoc: "paint_cells mode p (cs @ [c]) d = paint_glyph_at mode (p + of_nat (length cs)) c (paint_cells mode p cs d)"
  by (induction cs arbitrary: p d) (simp_all add: algebra_simps)

lemma paint_cells_mem:
  assumes "stable mode stride d" "9 * unat stride \<le> 2 ^ 32" "length cs \<le> unat stride"
  shows "stable mode stride (paint_cells mode p cs d)"
    "dp_mem (paint_cells mode p cs d) = cells_mem (unat stride) p cs (dp_mem d)"
proof -
  have "stable mode stride (paint_cells mode p cs d) \<and>
      dp_mem (paint_cells mode p cs d) = cells_mem (unat stride) p cs (dp_mem d)"
    using assms(3)
  proof (induction cs rule: rev_induct)
    case Nil
    then show ?case using assms(1) by (auto simp: cells_mem_def Let_def)
  next
    case (snoc c cs)
    let ?S = "unat stride"
    have n: "length cs < ?S" "0 < ?S" using snoc.prems by auto
    have b: "length cs + 8 * ?S \<le> 2 ^ 32" using assms(2) n by linarith
    have i: "stable mode stride (paint_cells mode p cs d)" using snoc by simp
    have "dp_mem (paint_cells mode p (cs @ [c]) d) =
        glyph_rows (p + of_nat (length cs)) stride (glyph c) (cells_mem ?S p cs (dp_mem d))"
      using snoc by (simp add: paint_cells_snoc paint_glyph_stable(1) [OF i])
    also have "\<dots> = cells_mem ?S p (cs @ [c]) (dp_mem d)"
      by (rule ext) (auto simp: glyph_rows_at [OF n(2) b n(1)] cells_mem_def Let_def nth_append less_Suc_eq)
    finally show ?case using paint_glyph_stable(2) [OF i] by (simp add: paint_cells_snoc)
  qed
  then show "stable mode stride (paint_cells mode p cs d)"
    "dp_mem (paint_cells mode p cs d) = cells_mem (unat stride) p cs (dp_mem d)" by simp_all
qed

lemma length_cell_chars [simp]: "length (cell_chars s n) = n"
  by (simp add: cell_chars_def Let_def)

section \<open>Reading the screen\<close>

text \<open>What an operator reads in a cell: the printable character with the glyph that is there.\<close>

definition printable :: "char list" where
  "printable = map char_of [0x20..<0x7F :: nat]"

definition read_cell :: "mem32 \<Rightarrow> u32 \<Rightarrow> u32 \<Rightarrow> nat \<Rightarrow> char option" where
  "read_cell m p stride i =
     find (\<lambda>c. map (\<lambda>r. NOT (m (p + of_nat i + of_nat r * stride))) [0..<8] = glyph c) printable"

definition screen_text :: "mem32 \<Rightarrow> u32 \<Rightarrow> u32 \<Rightarrow> nat \<Rightarrow> char option list" where
  "screen_text m p stride n = map (read_cell m p stride) [0..<n]"

definition shown :: "char \<Rightarrow> char" where
  "shown c = char_of (font_code c)"

lemma font_code_range: "0x20 \<le> font_code c" "font_code c < 0x7F"
  by (auto simp: font_code_def Let_def)

lemma font_code_shown [simp]: "font_code (shown c) = font_code c"
proof -
  have "of_char (shown c) = font_code c" using font_code_range [of c] by (simp add: shown_def)
  then show ?thesis using font_code_range [of c] by (simp add: font_code_def [of "shown c"])
qed

lemma shown_printable: "shown c \<in> set printable"
  unfolding printable_def set_map set_upt shown_def by (rule imageI) (simp add: font_code_range)

lemma printable_inject: "c \<in> set printable \<Longrightarrow> d \<in> set printable \<Longrightarrow> font_code c = font_code d \<Longrightarrow> c = d"
proof -
  have "of_char x = font_code x" if "x \<in> set printable" for x
    using that unfolding printable_def set_map set_upt by (auto simp: font_code_def Let_def)
  then show "c \<in> set printable \<Longrightarrow> d \<in> set printable \<Longrightarrow> font_code c = font_code d \<Longrightarrow> c = d"
    by (metis of_char_eq_iff)
qed

lemma shown_self: "0x20 \<le> (of_char c :: nat) \<Longrightarrow> of_char c < (0x7F :: nat) \<Longrightarrow> shown c = c"
  by (simp add: shown_def font_code_def Let_def)

lemma find_unique:
  assumes "y \<in> set xs" "P y" "\<And>x. x \<in> set xs \<Longrightarrow> P x \<Longrightarrow> x = y"
  shows "find P xs = Some y"
proof (cases "find P xs")
  case None
  then show ?thesis using assms(1,2) by (simp add: find_None_iff)
next
  case (Some x)
  then have "P x" "x \<in> set xs" by (auto simp: find_Some_iff)
  then show ?thesis using Some assms(3) by simp
qed

lemma find_glyph: "find (\<lambda>d. glyph c = glyph d) printable = Some (shown c)"
proof (rule find_unique)
  show "shown c \<in> set printable" by (rule shown_printable)
  show "glyph c = glyph (shown c)" by (simp add: glyph_inject)
  fix d assume "d \<in> set printable" "glyph c = glyph d"
  then show "d = shown c" using printable_inject [OF _ shown_printable, of d c] by (simp add: glyph_inject)
qed

lemma read_cells:
  assumes "i < length cs" "length cs \<le> unat stride" "9 * unat stride \<le> 2 ^ 32"
  shows "read_cell (cells_mem (unat stride) p cs m) p stride i = Some (shown (cs ! i))"
proof -
  let ?S = "unat stride"
  have "map (\<lambda>r. NOT (cells_mem ?S p cs m (p + of_nat i + of_nat r * stride))) [0..<8] = glyph (cs ! i)"
  proof (rule nth_equalityI)
    fix r assume "r < length (map (\<lambda>r. NOT (cells_mem ?S p cs m (p + of_nat i + of_nat r * stride))) [0..<8])"
    then have r: "r < 8" by simp
    have "r * ?S \<le> 7 * ?S" using r by simp
    then have b: "i + r * ?S < 2 ^ 32" using assms by linarith
    have "of_nat i + of_nat r * stride = of_nat (i + r * ?S)" by simp
    then have k: "unat (of_nat i + of_nat r * stride) = i + r * ?S" using b by (simp only: unat_of_nat) simp
    have "(i + r * ?S) mod ?S = i" "(i + r * ?S) div ?S = r" using assms(1,2) by simp_all
    then show "map (\<lambda>r. NOT (cells_mem ?S p cs m (p + of_nat i + of_nat r * stride))) [0..<8] ! r = glyph (cs ! i) ! r"
      using r assms(1) by (simp add: cells_mem_def Let_def k)
  qed simp
  then show ?thesis by (simp add: read_cell_def find_glyph)
qed


definition demo_display :: Display where
  "demo_display = \<lparr>dp_mem = (\<lambda>a. if a = 0x824 then 0x50 else 0), g_row_bytes = 0\<rparr>"


end
