(* ===== verification/DriveEnum.thy ===== *)
theory DriveEnum
  imports Display1bpp
begin

text \<open>
  The drives the disk program shows (SingleStepTests/preboot/iotest/drive_enum.c): the drive queue
  and the volume queue of the operating system are linked lists in memory, walked for at most 32
  steps.
\<close>

section \<open>Records\<close>

datatype DriveType = DRIVE_TYPE_FLOPPY | DRIVE_TYPE_SCSI | DRIVE_TYPE_CDROM | DRIVE_TYPE_UNKNOWN

record DriveInfo =
  drive_num :: "16 word"
  di_refnum :: "16 word"
  fs_id :: u16
  di_blocks :: u32
  di_type :: DriveType
  is_boot :: bool
  di_name :: string

section \<open>Operations\<close>

text \<open>The length byte and the characters after it, cut to the size of the buffer less its terminator.\<close>

definition pstr_to_cstr :: "nat \<Rightarrow> u32 \<Rightarrow> mem32 \<Rightarrow> string" where
  "pstr_to_cstr dst_max src m =
     (let len = unat (m src); n = (if len \<ge> dst_max then dst_max - 1 else len)
      in map (\<lambda>i. char_of (unat (m (src + 1 + of_nat i)))) [0..<n])"

fun find_volume :: "nat \<Rightarrow> 16 word \<Rightarrow> nat \<Rightarrow> u32 \<Rightarrow> mem32 \<Rightarrow> string" where
  "find_volume 0 dr out_max vcb m = []"
| "find_volume (Suc hops) dr out_max vcb m =
     (if vcb = 0 then []
      else if rd_word (vcb + 72) m = dr then pstr_to_cstr out_max (vcb + 44) m
      else find_volume hops dr out_max (rd_long vcb m) m)"

definition find_volume_name :: "16 word \<Rightarrow> nat \<Rightarrow> mem32 \<Rightarrow> string" where
  "find_volume_name dr out_max m = find_volume 32 dr out_max (rd_long 0x358 m) m"

definition classify_refnum :: "16 word \<Rightarrow> DriveType" where
  "classify_refnum r = (if r = - 5 then DRIVE_TYPE_FLOPPY else if r = - 41 then DRIVE_TYPE_CDROM else DRIVE_TYPE_SCSI)"

definition refnum_name :: "16 word \<Rightarrow> string option" where
  "refnum_name r =
     (if r = - 5 then Some ''.Sony'' else if r = - 33 then Some ''.SCSI'' else if r = - 41 then Some ''.AppleCD'' else None)"

definition drive_info :: "mem32 \<Rightarrow> 16 word \<Rightarrow> u32 \<Rightarrow> DriveInfo" where
  "drive_info m boot_drive dqe =
     (let qtype = rd_word (dqe + 4) m; dn = rd_word (dqe + 6) m; rn = rd_word (dqe + 8) m;
          low = (ucast (rd_word (dqe + 12) m) :: u32);
          blocks = (if qtype = 1 then low OR push_bit 16 (ucast (rd_word (dqe + 14) m)) else low)
      in \<lparr>drive_num = dn, di_refnum = rn, fs_id = rd_word (dqe + 10) m, di_blocks = blocks, di_type = classify_refnum rn,
          is_boot = (dn = boot_drive), di_name = []\<rparr>)"

text \<open>Entries and hops are counted together, so one bound stands for both conditions of the loop.\<close>

fun enum_loop :: "nat \<Rightarrow> mem32 \<Rightarrow> 16 word \<Rightarrow> u32 \<Rightarrow> DriveInfo list" where
  "enum_loop 0 m boot_drive dqe = []"
| "enum_loop (Suc k) m boot_drive dqe =
     (if dqe = 0 then [] else drive_info m boot_drive dqe # enum_loop k m boot_drive (rd_long dqe m))"

definition enum_drives :: "nat \<Rightarrow> mem32 \<Rightarrow> DriveInfo list" where
  "enum_drives max_drives m = enum_loop (min max_drives 32) m (rd_word 0x210 m) (rd_long 0x30A m)"

fun drive_type_name :: "DriveType \<Rightarrow> string" where
  "drive_type_name DRIVE_TYPE_FLOPPY = ''FLP ''"
| "drive_type_name DRIVE_TYPE_SCSI = ''SCSI''"
| "drive_type_name DRIVE_TYPE_CDROM = ''CD  ''"
| "drive_type_name DRIVE_TYPE_UNKNOWN = ''?   ''"

section \<open>Queues\<close>

text \<open>The addresses a chain of links visits before it ends.\<close>

fun queue :: "mem32 \<Rightarrow> u32 \<Rightarrow> u32 list \<Rightarrow> bool" where
  "queue m a [] = (a = 0)"
| "queue m a (x # xs) = (a = x \<and> x \<noteq> 0 \<and> queue m (rd_long x m) xs)"

lemma enum_loop_queue: "queue m a xs \<Longrightarrow> enum_loop k m b a = map (drive_info m b) (take k xs)"
proof (induction k arbitrary: a xs)
  case (Suc k)
  then show ?case by (cases xs) auto
qed simp

lemma find_volume_queue:
  "queue m a xs \<Longrightarrow> find_volume k dr n a m =
    (case find (\<lambda>x. rd_word (x + 72) m = dr) (take k xs) of None \<Rightarrow> [] | Some x \<Rightarrow> pstr_to_cstr n (x + 44) m)"
proof (induction k arbitrary: a xs)
  case (Suc k)
  then show ?case by (cases xs) auto
qed simp

lemma length_enum_loop: "length (enum_loop k m b a) \<le> k"
proof (induction k arbitrary: a)
  case (Suc k)
  then show ?case using Suc_le_mono by fastforce
qed simp


text \<open>An empty memory has an empty queue; a queue may also be a single element at 0x1000.\<close>

definition one_drive :: mem32 where
  "one_drive a = (if a = 0x30C then 0x10 else if a = 0x1007 then 3 else if a = 0x1008 then 0xFF else if a = 0x1009 then 0xFB
     else if a = 0x100C then 6 else if a = 0x100D then 0x40 else 0)"


text \<open>The name of a drive stays empty: the volume queue is never consulted.\<close>

lemma drives_unnamed: "list_all (\<lambda>d. di_name d = []) (enum_drives n m)"
proof -
  have "list_all (\<lambda>d. di_name d = []) (enum_loop k m b a)" for k b a
    by (induction k arbitrary: a) (simp_all add: drive_info_def Let_def)
  then show ?thesis by (simp add: enum_drives_def)
qed

end
