(* ===== verification/ViaTimer.thy ===== *)
theory ViaTimer
  imports SimPrelude
begin

text \<open>
  The stop watch of the disk program that runs on the target (SingleStepTests/preboot/iotest/timing.c):
  timer T2 of the VIA counts down from 0xFFFF, its flag is polled to count wraps, and the
  ticks are turned into microseconds. Reading and writing a register of the chip are parameters; a
  chip that counts as documented is given to state what the stop watch shows.
\<close>

section \<open>Registers\<close>

record 'v bus =
  bus_rd :: "u32 \<Rightarrow> 'v \<Rightarrow> u8 \<times> 'v"
  bus_wr :: "u32 \<Rightarrow> u8 \<Rightarrow> 'v \<Rightarrow> 'v"

definition VIA1_BASE :: u32 where "VIA1_BASE = 0x50F00000"
definition VIA1_T2CL :: u32 where "VIA1_T2CL = VIA1_BASE + 0x200 * 8"
definition VIA1_T2CH :: u32 where "VIA1_T2CH = VIA1_BASE + 0x200 * 9"
definition VIA1_IER :: u32 where "VIA1_IER = VIA1_BASE + 0x200 * 14"
definition VIA1_IFR :: u32 where "VIA1_IFR = VIA1_BASE + 0x200 * 13"
definition VIA1_ACR :: u32 where "VIA1_ACR = VIA1_BASE + 0x200 * 11"
definition IER_T2 :: u8 where "IER_T2 = 0x20"

record Watch =
  g_wrap_count :: u32
  g_start_t2 :: u16

section \<open>Operations\<close>

definition timer_start :: "'v bus \<Rightarrow> Watch \<times> 'v \<Rightarrow> Watch \<times> 'v" where
  "timer_start b = (\<lambda>(t, v).
     let (acr, v1) = bus_rd b VIA1_ACR v;
         v2 = bus_wr b VIA1_ACR (acr AND NOT 0x20) v1;
         v3 = bus_wr b VIA1_IER IER_T2 v2;
         v4 = bus_wr b VIA1_T2CH 0xFF (bus_wr b VIA1_T2CL 0xFF v3);
         v5 = bus_wr b VIA1_IFR IER_T2 v4
     in (t\<lparr>g_wrap_count := 0, g_start_t2 := 0xFFFF\<rparr>, v5))"

text \<open>Draining the flag: it is not known to end, so the result is optional.\<close>

partial_function (option) drain_wraps :: "'v bus \<Rightarrow> u32 \<Rightarrow> 'v \<Rightarrow> (u32 \<times> 'v) option" where
  [code]: "drain_wraps b n v =
     (if fst (bus_rd b VIA1_IFR v) AND IER_T2 \<noteq> 0
      then drain_wraps b (n + 1) (bus_wr b VIA1_IFR IER_T2 (snd (bus_rd b VIA1_IFR v)))
      else Some (n, snd (bus_rd b VIA1_IFR v)))"

definition read_t2 :: "'v bus \<Rightarrow> 'v \<Rightarrow> u16 \<times> 'v" where
  "read_t2 b v =
     (let (lo, v1) = bus_rd b VIA1_T2CL v; (hi, v2) = bus_rd b VIA1_T2CH v1 in (be16 hi lo, v2))"

definition read_ticks_since_start :: "'v bus \<Rightarrow> Watch \<times> 'v \<Rightarrow> (u32 \<times> Watch \<times> 'v) option" where
  "read_ticks_since_start b = (\<lambda>(t, v).
     map_option (\<lambda>(n, v1).
       let (t2, v2) = read_t2 b v1;
           (fl, v3) = bus_rd b VIA1_IFR v2;
           (n1, t3, v4) =
             (if fl AND IER_T2 \<noteq> 0
              then (let (t2', v') = read_t2 b (bus_wr b VIA1_IFR IER_T2 v3) in (n + 1, t2', v'))
              else (n, t2, v3));
           elapsed = (ucast (g_start_t2 t) - ucast t3) + push_bit 16 n1
       in (elapsed, t\<lparr>g_wrap_count := n1\<rparr>, v4))
     (drain_wraps b (g_wrap_count t) v))"

definition ticks_to_us :: "u32 \<Rightarrow> u32" where
  "ticks_to_us ticks = (ticks * 100) div 127"

definition timer_elapsed_us :: "'v bus \<Rightarrow> Watch \<times> 'v \<Rightarrow> (u32 \<times> Watch \<times> 'v) option" where
  "timer_elapsed_us b s = map_option (\<lambda>(ticks, s1). (ticks_to_us ticks, s1)) (read_ticks_since_start b s)"

section \<open>A chip as documented\<close>

text \<open>Ticks since the counter was loaded, and the flag a wrap sets; reading the low byte or writing a one
  to the flag clears it.\<close>

record T2 =
  t2_time :: nat
  t2_flag :: bool

definition t2_count :: "T2 \<Rightarrow> u16" where
  "t2_count v = of_nat (0xFFFF - t2_time v mod 0x10000)"

definition t2_bus :: "T2 bus" where
  "t2_bus = \<lparr>bus_rd = (\<lambda>a v.
      if a = VIA1_T2CL then (lo8 (t2_count v), v\<lparr>t2_flag := False\<rparr>)
      else if a = VIA1_T2CH then (hi8 (t2_count v), v)
      else if a = VIA1_IFR then (if t2_flag v then IER_T2 else 0, v)
      else (0, v)),
    bus_wr = (\<lambda>a x v.
      if a = VIA1_T2CH then \<lparr>t2_time = 0, t2_flag = False\<rparr>
      else if a = VIA1_IFR \<and> x AND IER_T2 \<noteq> 0 then v\<lparr>t2_flag := False\<rparr>
      else v)\<rparr>"

definition t2_wait :: "nat \<Rightarrow> T2 \<Rightarrow> T2" where
  "t2_wait n v = v\<lparr>t2_time := t2_time v + n, t2_flag := t2_flag v \<or> (t2_time v + n) div 0x10000 \<noteq> t2_time v div 0x10000\<rparr>"

lemmas via_addrs = VIA1_BASE_def VIA1_T2CL_def VIA1_T2CH_def VIA1_IER_def VIA1_IFR_def VIA1_ACR_def

lemma t2_bus_rd:
  "bus_rd t2_bus VIA1_T2CL v = (lo8 (t2_count v), v\<lparr>t2_flag := False\<rparr>)"
  "bus_rd t2_bus VIA1_T2CH v = (hi8 (t2_count v), v)"
  "bus_rd t2_bus VIA1_IFR v = (if t2_flag v then IER_T2 else 0, v)"
  "bus_rd t2_bus VIA1_ACR v = (0, v)"
  by (simp_all add: t2_bus_def via_addrs)

lemma t2_bus_wr:
  "bus_wr t2_bus VIA1_T2CH x v = \<lparr>t2_time = 0, t2_flag = False\<rparr>"
  "bus_wr t2_bus VIA1_IFR IER_T2 v = v\<lparr>t2_flag := False\<rparr>"
  "bus_wr t2_bus VIA1_T2CL x v = v" "bus_wr t2_bus VIA1_IER x v = v" "bus_wr t2_bus VIA1_ACR x v = v"
  by (simp_all add: t2_bus_def via_addrs IER_T2_def)

lemma drain_t2: "drain_wraps t2_bus n v = Some (if t2_flag v then n + 1 else n, v\<lparr>t2_flag := False\<rparr>)"
proof -
  have e: "IER_T2 AND IER_T2 \<noteq> 0" by (simp add: IER_T2_def)
  have f: "drain_wraps t2_bus n v = Some (n, v)" if "\<not> t2_flag v" for n v
    using that by (subst drain_wraps.simps) (simp add: t2_bus_rd)
  show ?thesis
  proof (cases "t2_flag v")
    case True
    then show ?thesis
      using f [of "v\<lparr>t2_flag := False\<rparr>" "n + 1"] e by (subst drain_wraps.simps) (simp add: t2_bus_rd t2_bus_wr)
  next
    case False
    then show ?thesis using f [OF False, of n] by simp
  qed
qed

lemma t2_count_ticks: "(ucast (0xFFFF :: u16) :: u32) - ucast (t2_count v) = of_nat (t2_time v mod 0x10000)"
proof -
  have c: "unat (t2_count v) = 0xFFFF - t2_time v mod 0x10000"
    unfolding t2_count_def unat_of_nat by simp
  have "(ucast (t2_count v) :: u32) = of_nat (unat (t2_count v))" by (rule of_nat_unat [symmetric])
  then have "(ucast (t2_count v) :: u32) = of_nat (0xFFFF - t2_time v mod 0x10000)" unfolding c .
  moreover have "t2_time v mod 0x10000 \<le> 0xFFFF" by (simp add: less_Suc_eq_le [symmetric])
  ultimately show ?thesis by (simp add: of_nat_diff)
qed

lemma unat_ticks_to_us: "unat n * 100 < 2 ^ 32 \<Longrightarrow> unat (ticks_to_us n) = unat n * 100 div 127"
  by (simp add: ticks_to_us_def unat_div_distrib unat_word_ariths)

lemma ticks_to_us_of_nat:
  assumes "n * 100 < 2 ^ 32"
  shows "ticks_to_us (of_nat n) = of_nat (n * 100 div 127)"
proof -
  have n: "unat (of_nat n :: u32) = n" using assms by (simp add: unat_of_nat)
  have "n * 100 div 127 < 2 ^ 32" using assms by linarith
  then have "unat (of_nat (n * 100 div 127) :: u32) = n * 100 div 127" by (simp add: unat_of_nat)
  then show ?thesis using unat_ticks_to_us [of "of_nat n"] assms n by (simp only: word_unat_eq_iff)
qed


text \<open>The stop watch runs slow. A tick of the 783360 Hz timer lasts 1.2766 microseconds, but the conversion divides
  where it should multiply: the time shown is at most ten sixteenths of the true time, for every number of
  ticks whose product with 100 fits 32 bits.\<close>

theorem timer_underreports:
  assumes "unat n * 100 < 2 ^ 32"
  shows "16 * (unat (ticks_to_us n) * 783360) \<le> 10 * (unat n * 1000000)"
proof -
  have "127 * unat (ticks_to_us n) \<le> unat n * 100" by (simp add: unat_ticks_to_us [OF assms])
  then show ?thesis by linarith
qed

theorem timer_underreports_witness:
  "unat (ticks_to_us 783360) = 616818 \<and> 16 * (unat (ticks_to_us 783360) * 783360) \<le> 10 * (783360 * 1000000)"
  using timer_underreports [of 783360] by (simp add: ticks_to_us_def)

end
