(* ===== verification/IoTest.thy ===== *)
theory IoTest
  imports JsonlWriter DriveEnum ViaTimer
begin

text \<open>
  The disk program that runs on the target (SingleStepTests/preboot/iotest: diskio_main.c, sizes.c and
  sizes.h): for each size it times a read, and in the full mode a write with readback and
  comparison, paints the outcome and writes a line of results. Parameters are the traps of the block driver
  (which may fault and are then abandoned), the timer chip, and whether the walk of the drive
  queue faults; memory, display, results writer and stop watch are those of the theories imported.
\<close>

section \<open>Sizes\<close>

record IoTestSize =
  sz_label :: string
  sz_length :: u32
  read_offset :: u32
  write_offset :: u32

datatype variant = HDA | DSK

definition shared_sizes :: "(string \<times> u32) list" where
  "shared_sizes = [(''1B'', 1), (''512B'', 512), (''1KB'', 1024), (''2KB'', 2048), (''16KB'', 16384), (''32KB'', 32768),
     (''64KB'', 65536)]"

definition dsk_last_size :: "(string \<times> u32) list" where
  "dsk_last_size = [(''128KB'', 131072)]"

definition hda_large_sizes :: "(string \<times> u32) list" where
  "hda_large_sizes = [(''256KB'', 262144), (''512KB'', 524288), (''1MB'', 1048576), (''2MB'', 2097152), (''4MB'', 4194304)]"

text \<open>The offsets are patched into the image: a parameter.\<close>

definition iotest_sizes :: "variant \<Rightarrow> (string \<Rightarrow> u32 \<times> u32) \<Rightarrow> IoTestSize list" where
  "iotest_sizes v offs = map (\<lambda>(l, n). \<lparr>sz_label = l, sz_length = n, read_offset = fst (offs l), write_offset = snd (offs l)\<rparr>)
     (shared_sizes @ (case v of HDA \<Rightarrow> hda_large_sizes | DSK \<Rightarrow> dsk_last_size))"

section \<open>The machine\<close>

record IoPb =
  io_refnum :: "16 word"
  io_vrefnum :: "16 word"
  io_buffer :: u32
  io_req_count :: u32
  io_pos_mode :: u16
  io_pos_offset :: u32

datatype trap_end = Returned "16 word" | Faulted u16

type_synonym 'd io_trap = "IoPb \<Rightarrow> mem32 \<Rightarrow> 'd \<Rightarrow> trap_end \<times> mem32 \<times> 'd"

text \<open>The traps, the block write of the results writer, the timer chip, the fault (if any) of walking the drive
  queue, the eject call of the floppy driver, and the two words the boot stub hands over.\<close>

record 'd machine =
  mc_read :: "'d io_trap"
  mc_write :: "'d io_trap"
  mc_jwrite :: "'d write_trap"
  mc_via :: "'d bus"
  mc_queue_fault :: "mem32 \<Rightarrow> u16 option"
  mc_eject :: "16 word \<Rightarrow> 'd \<Rightarrow> 16 word \<times> 'd"
  handoff_refnum :: "16 word"
  handoff_drive :: "16 word"

record build =
  bd_variant :: variant
  bd_read_only :: bool
  bd_rows :: row_mode
  bd_results_offset :: u32
  bd_offsets :: "string \<Rightarrow> u32 \<times> u32"

record 'd World =
  wd_disp :: Display
  wd_dev :: 'd
  wd_jw :: JsonlWriter
  wd_watch :: Watch
  last_exc_vector :: u16

definition IOBUF_BASE :: u32 where "IOBUF_BASE = 0x200000"
definition EXC_ERR_BASE :: "16 word" where "EXC_ERR_BASE = 30000"

definition vector_to_err :: "u16 \<Rightarrow> 16 word" where
  "vector_to_err vec = EXC_ERR_BASE + vec"

definition sector_round_up :: "u32 \<Rightarrow> u32" where
  "sector_round_up n = (if n = 0 then 512 else (n + 511) AND NOT 511)"

definition pb_init :: "'d machine \<Rightarrow> u32 \<Rightarrow> u32 \<Rightarrow> u32 \<Rightarrow> IoPb" where
  "pb_init mc buf offset len =
     \<lparr>io_refnum = handoff_refnum mc, io_vrefnum = handoff_drive mc, io_buffer = buf, io_req_count = sector_round_up len,
      io_pos_mode = 1, io_pos_offset = offset\<rparr>"

definition wd_mem :: "'d World \<Rightarrow> mem32" where
  "wd_mem w = dp_mem (wd_disp w)"

definition set_mem :: "mem32 \<Rightarrow> 'd World \<Rightarrow> 'd World" where
  "set_mem m w = w\<lparr>wd_disp := (wd_disp w)\<lparr>dp_mem := m\<rparr>\<rparr>"

text \<open>A trap that faults is abandoned: what it had done to memory and device stays.\<close>

definition trap_with_recovery :: "'d io_trap \<Rightarrow> IoPb \<Rightarrow> 'd World \<Rightarrow> 16 word \<times> 'd World" where
  "trap_with_recovery trap pb w =
     (let w1 = w\<lparr>last_exc_vector := 0\<rparr>
      in case trap pb (wd_mem w1) (wd_dev w1) of
           (e, m, d) \<Rightarrow>
             (let w2 = (set_mem m w1)\<lparr>wd_dev := d\<rparr>
              in case e of Returned r \<Rightarrow> (r, w2) | Faulted vec \<Rightarrow> (vector_to_err vec, w2\<lparr>last_exc_vector := vec\<rparr>)))"

section \<open>Pattern\<close>

definition pattern_byte :: "u32 \<Rightarrow> u8 \<Rightarrow> u8" where
  "pattern_byte i seed = ucast ((i XOR drop_bit 8 i XOR ucast seed) AND 0xFF)"

definition fill_pattern :: "u32 \<Rightarrow> u32 \<Rightarrow> u8 \<Rightarrow> mem32 \<Rightarrow> mem32" where
  "fill_pattern buf len seed m = (\<lambda>a. if a - buf < len then pattern_byte (a - buf) seed else m a)"

record VerifyResult =
  first_off :: u32
  vr_count :: u32
  vr_expected :: u8
  vr_actual :: u8

definition VERIFY_MATCH :: u32 where "VERIFY_MATCH = - 1"

definition verify_step :: "u32 \<Rightarrow> u8 \<Rightarrow> mem32 \<Rightarrow> nat \<Rightarrow> VerifyResult \<Rightarrow> VerifyResult" where
  "verify_step buf seed m k r =
     (let i = of_nat k; ex = pattern_byte i seed; b = m (buf + i)
      in if b \<noteq> ex
         then (let r1 = (if first_off r = VERIFY_MATCH then r\<lparr>first_off := i, vr_expected := ex, vr_actual := b\<rparr> else r)
               in r1\<lparr>vr_count := vr_count r1 + 1\<rparr>)
         else r)"

definition verify_pattern :: "u32 \<Rightarrow> u32 \<Rightarrow> u8 \<Rightarrow> mem32 \<Rightarrow> VerifyResult" where
  "verify_pattern buf len seed m =
     fold (verify_step buf seed m) [0..<unat len] \<lparr>first_off = VERIFY_MATCH, vr_count = 0, vr_expected = 0, vr_actual = 0\<rparr>"

text \<open>The buffer is cleared in long words.\<close>

definition clear_buffer :: "u32 \<Rightarrow> u32 \<Rightarrow> mem32 \<Rightarrow> mem32" where
  "clear_buffer buf len m = (\<lambda>a. if unat (a - buf) < 4 * unat ((len + 3) div 4) then 0 else m a)"

section \<open>Result lines\<close>

definition hex_digit :: "u8 \<Rightarrow> char" where
  "hex_digit b = ''0123456789ABCDEF'' ! unat (b AND 0xF)"

definition hex_byte :: "u8 \<Rightarrow> string" where
  "hex_byte b = [hex_digit (drop_bit 4 b), hex_digit b]"

definition eol :: string where "eol = [CHR 0x0A]"

definition line_head :: "IoTestSize \<Rightarrow> string" where
  "line_head s = ''{\"size\":\"'' @ sz_label s @ ''\",\"len\":'' @ f_putul (sz_length s)"

definition skip_line :: "IoTestSize \<Rightarrow> string \<Rightarrow> u32 \<Rightarrow> string" where
  "skip_line s reason mem_top =
     line_head s @ '',\"op\":\"skip\",\"reason\":\"'' @ reason @ ''\",\"mem_top\":0x'' @ f_putul mem_top @
     '',\"iobuf_base\":0x'' @ f_putul IOBUF_BASE @ ''}'' @ eol"

definition sense_fields :: "u8 list \<Rightarrow> string" where
  "sense_fields sense =
     '',\"sense_key\":'' @ f_putul (ucast (sense ! 2 AND 0x0F)) @ '',\"asc\":'' @ f_putul (ucast (sense ! 12)) @
     '',\"ascq\":'' @ f_putul (ucast (sense ! 13)) @ '',\"sense_raw\":\"'' @ concat (map hex_byte (take 18 sense)) @ ''\"''"

definition opt_sense :: "u8 list option \<Rightarrow> string" where
  "opt_sense o1 = (case o1 of None \<Rightarrow> [] | Some x \<Rightarrow> sense_fields x)"

definition read_line :: "IoTestSize \<Rightarrow> u32 \<Rightarrow> 16 word \<Rightarrow> u8 list option \<Rightarrow> string" where
  "read_line s us err sense =
     line_head s @ '',\"op\":\"read\",\"us\":'' @ f_putul us @ '',\"err\":'' @ f_putul (scast err) @ opt_sense sense @ ''}'' @ eol"

definition verified :: "16 word \<Rightarrow> VerifyResult \<Rightarrow> bool" where
  "verified read_err vr \<longleftrightarrow> read_err = 0 \<and> vr_count vr = 0"

definition write_line :: "IoTestSize \<Rightarrow> u32 \<Rightarrow> 16 word \<Rightarrow> u32 \<Rightarrow> 16 word \<Rightarrow> VerifyResult \<Rightarrow> u8 list option \<Rightarrow> string" where
  "write_line s write_us write_err read_us read_err vr sense =
     line_head s @ '',\"op\":\"write\",\"us\":'' @ f_putul write_us @ '',\"err\":'' @ f_putul (scast write_err) @
     '',\"readback_us\":'' @ f_putul read_us @ '',\"readback_err\":'' @ f_putul (scast read_err) @
     '',\"verified\":'' @ f_putul (if verified read_err vr then 1 else 0) @
     (if vr_count vr \<noteq> 0
      then '',\"mismatch_offset\":'' @ f_putul (first_off vr) @ '',\"expected\":'' @ f_putul (ucast (vr_expected vr)) @
           '',\"actual\":'' @ f_putul (ucast (vr_actual vr)) @ '',\"mismatch_count\":'' @ f_putul (vr_count vr)
      else []) @ opt_sense sense @ ''}'' @ eol"

text \<open>A line is put character by character and committed.\<close>

definition emit_line1 :: "'d machine \<Rightarrow> string \<Rightarrow> 'd World \<Rightarrow> 'd World" where
  "emit_line1 mc l w =
     (case jw_commit_line (mc_jwrite mc) (jw_puts (mc_jwrite mc) l (wd_jw w, wd_dev w)) of
        (j, d) \<Rightarrow> w\<lparr>wd_jw := j, wd_dev := d\<rparr>)"

section \<open>Cells of the screen\<close>

definition STATUS_W :: nat where "STATUS_W = 8"

definition ioerr_names :: "(int \<times> string) list" where
  "ioerr_names = [(-33, ''dirFull''), (-34, ''dskFull''), (-35, ''nsvErr''), (-36, ''ioErr''), (-37, ''bdNamErr''),
     (-38, ''fnOpnErr''), (-39, ''eofErr''), (-40, ''posErr''), (-42, ''tmfoErr''), (-43, ''fnfErr''), (-49, ''opWrErr''),
     (-50, ''paramErr''), (-51, ''rfNumErr''), (-53, ''volOffLn''), (-54, ''permErr''), (-55, ''volOnLn''),
     (-56, ''nsDrvErr''), (-57, ''noMacDsk''), (-58, ''extFSErr''), (-59, ''fsRnErr''), (-60, ''badMDB''),
     (-61, ''wrPermErr''), (-64, ''lastDsk''), (-65, ''offLine''), (-66, ''noNibble''), (-67, ''noAdrMrk''),
     (-68, ''dataVerf'')]"

definition copy_padded :: "nat \<Rightarrow> string \<Rightarrow> string" where
  "copy_padded n src = take n src @ replicate (n - length src) CHR '' ''"

definition digit_char :: "nat \<Rightarrow> char" where
  "digit_char n = char_of (48 + n)"

text \<open>Decimal digits by a table of divisors, without leading zeros but at least the last.\<close>

fun table_digits :: "nat list \<Rightarrow> bool \<Rightarrow> nat \<Rightarrow> string" where
  "table_digits [] started v = []"
| "table_digits (d # ds) started v =
     (let g = v div d mod 10
      in if g \<noteq> 0 \<or> started \<or> ds = [] then digit_char g # table_digits ds True v else table_digits ds started v)"

definition fmt_status :: "16 word \<Rightarrow> string" where
  "fmt_status err =
     (if err = 0 then copy_padded STATUS_W ''pass''
      else case map_of ioerr_names (sint err) of
             Some n \<Rightarrow> copy_padded STATUS_W n
           | None \<Rightarrow>
               copy_padded STATUS_W
                 ([CHR ''E'', if sint err < 0 then CHR ''-'' else CHR '' ''] @
                  table_digits [10000, 1000, 100, 10, 1] False (nat \<bar>sint err\<bar>)))"

definition fmt_verify_fail :: "VerifyResult \<Rightarrow> string" where
  "fmt_verify_fail vr =
     (let off = unat (first_off vr)
      in copy_padded STATUS_W
           (''@'' @ (if off \<ge> 10 then [digit_char (off div 10 mod 10)] else []) @ [digit_char (off mod 10)] @ '' '' @
            hex_byte (vr_expected vr) @ ''/'' @ hex_byte (vr_actual vr)))"

definition mismatch_text :: "VerifyResult \<Rightarrow> string" where
  "mismatch_text vr =
     ''Mismatched byte @'' @ table_digits [1000000, 100000, 10000, 1000, 100, 10, 1] False (unat (first_off vr)) @
     '' ex:'' @ hex_byte (vr_expected vr) @ '' ac:'' @ hex_byte (vr_actual vr)"

definition LINE :: "u32 \<Rightarrow> u32" where "LINE n = n * 12"
definition COL_SIZE :: u32 where "COL_SIZE = 1"
definition COL_READ :: u32 where "COL_READ = 10"
definition COL_WRITE :: u32 where "COL_WRITE = 20"

definition paint :: "build \<Rightarrow> u32 \<Rightarrow> u32 \<Rightarrow> string \<Rightarrow> nat \<Rightarrow> 'd World \<Rightarrow> 'd World" where
  "paint bd row col s n w = w\<lparr>wd_disp := paint_string (bd_rows bd) row col s n (wd_disp w)\<rparr>"

definition paint_mismatch_detail :: "build \<Rightarrow> VerifyResult \<Rightarrow> 'd World \<Rightarrow> 'd World" where
  "paint_mismatch_detail bd vr = paint bd (LINE 21) COL_SIZE (mismatch_text vr) (length (mismatch_text vr))"

definition paint_cell :: "build \<Rightarrow> nat \<Rightarrow> u32 \<Rightarrow> string \<Rightarrow> 'd World \<Rightarrow> 'd World" where
  "paint_cell bd i col s = paint bd (LINE (8 + of_nat i)) col s STATUS_W"

definition paint_row_skeleton :: "build \<Rightarrow> nat \<Rightarrow> string \<Rightarrow> 'd World \<Rightarrow> 'd World" where
  "paint_row_skeleton bd i label w =
     (let w1 = paint_cell bd i COL_READ ''. . . . '' (paint bd (LINE (8 + of_nat i)) COL_SIZE label 8 w)
      in if bd_read_only bd then w1 else paint_cell bd i COL_WRITE ''. . . . '' w1)"

section \<open>One size\<close>

text \<open>A trap timed by the stop watch; None if the stop watch does not return.\<close>

definition timed_trap :: "'d machine \<Rightarrow> 'd io_trap \<Rightarrow> IoPb \<Rightarrow> 'd World \<Rightarrow> (u32 \<times> 16 word \<times> 'd World) option" where
  "timed_trap mc trap pb w =
     (case timer_start (mc_via mc) (wd_watch w, wd_dev w) of
        (t, d) \<Rightarrow>
          (case trap_with_recovery trap pb (w\<lparr>wd_watch := t, wd_dev := d\<rparr>) of
             (err, w1) \<Rightarrow>
               map_option (\<lambda>(us, t1, d1). (us, err, w1\<lparr>wd_watch := t1, wd_dev := d1\<rparr>))
                 (timer_elapsed_us (mc_via mc) (wd_watch w1, wd_dev w1))))"

definition read_phase :: "'d machine \<Rightarrow> build \<Rightarrow> nat \<Rightarrow> IoTestSize \<Rightarrow> 'd World \<Rightarrow> 'd World option" where
  "read_phase mc bd i s w =
     map_option (\<lambda>(us, err, w1). paint_cell bd i COL_READ (fmt_status err) (emit_line1 mc (read_line s us err None) w1))
       (timed_trap mc (mc_read mc) (pb_init mc IOBUF_BASE (read_offset s) (sz_length s)) w)"

text \<open>Write, clear the buffer, read back, compare: times and results of both traps, and the comparison.\<close>

definition write_readback :: "'d machine \<Rightarrow> nat \<Rightarrow> IoTestSize \<Rightarrow> 'd World \<Rightarrow>
    ((u32 \<times> 16 word) \<times> (u32 \<times> 16 word) \<times> VerifyResult \<times> 'd World) option" where
  "write_readback mc i s w =
     (let pb = pb_init mc IOBUF_BASE (write_offset s) (sz_length s); seed = of_nat i
      in case timed_trap mc (mc_write mc) pb (set_mem (fill_pattern IOBUF_BASE (sz_length s) seed (wd_mem w)) w) of
           None \<Rightarrow> None
         | Some (wr_us, wr_err, w1) \<Rightarrow>
             map_option (\<lambda>(us, err, w2).
                 ((wr_us, wr_err), (us, err), verify_pattern IOBUF_BASE (sz_length s) seed (wd_mem w2), w2))
               (timed_trap mc (mc_read mc) pb (set_mem (clear_buffer IOBUF_BASE (sz_length s) (wd_mem w1)) w1)))"

definition write_phase :: "'d machine \<Rightarrow> build \<Rightarrow> nat \<Rightarrow> IoTestSize \<Rightarrow> 'd World \<Rightarrow> 'd World option" where
  "write_phase mc bd i s w =
     map_option (\<lambda>((wr_us, wr_err), (us, err), vr, w1).
       let w2 = emit_line1 mc (write_line s wr_us wr_err us err vr None) w1;
           (status, w3) =
             (if wr_err \<noteq> 0 then (fmt_status wr_err, w2)
              else if err \<noteq> 0 then (fmt_status err, w2)
              else if vr_count vr \<noteq> 0 then (fmt_verify_fail vr, paint_mismatch_detail bd vr w2)
              else (fmt_status 0, w2))
       in paint_cell bd i COL_WRITE status w3) (write_readback mc i s w)"

definition too_large :: "u32 \<Rightarrow> IoTestSize \<Rightarrow> bool" where
  "too_large mem_top s \<longleftrightarrow> IOBUF_BASE + sz_length s > mem_top \<or> sz_length s > mem_top - IOBUF_BASE"

definition run_size :: "'d machine \<Rightarrow> build \<Rightarrow> u32 \<Rightarrow> nat \<Rightarrow> IoTestSize \<Rightarrow> 'd World \<Rightarrow> 'd World option" where
  "run_size mc bd mem_top i s w =
     (let w1 = paint_row_skeleton bd i (sz_label s) w
      in if too_large mem_top s
         then (let w2 = paint_cell bd i COL_READ ''SKIP    '' w1;
                   w3 = (if bd_read_only bd then w2 else paint_cell bd i COL_WRITE ''SKIP    '' w2)
               in Some (emit_line1 mc (skip_line s ''insufficient_ram'' mem_top) w3))
         else if bd_read_only bd then read_phase mc bd i s w1
         else Option.bind (read_phase mc bd i s w1) (write_phase mc bd i s))"

fun run_sizes :: "'d machine \<Rightarrow> build \<Rightarrow> u32 \<Rightarrow> nat \<Rightarrow> IoTestSize list \<Rightarrow> 'd World \<Rightarrow> 'd World option" where
  "run_sizes mc bd mem_top i [] w = Some w"
| "run_sizes mc bd mem_top i (s # ss) w = Option.bind (run_size mc bd mem_top i s w) (run_sizes mc bd mem_top (i + 1) ss)"

section \<open>The table of drives\<close>

definition type_text :: "DriveType \<Rightarrow> string" where
  "type_text t = (case t of DRIVE_TYPE_FLOPPY \<Rightarrow> ''Floppy'' | DRIVE_TYPE_CDROM \<Rightarrow> ''CD-ROM'' | DRIVE_TYPE_SCSI \<Rightarrow> ''SCSI Disk''
     | DRIVE_TYPE_UNKNOWN \<Rightarrow> ''Drive'')"

text \<open>The size in kilobytes or megabytes, rounded; the product with 512 is one of 32 bits.\<close>

definition size_text :: "u32 \<Rightarrow> string" where
  "size_text blocks =
     (let bytes = blocks * 512
      in if bytes \<ge> 1048576 then f_putul ((bytes + 524288) div 1048576) @ ''MB''
         else f_putul ((bytes + 512) div 1024) @ ''KB'')"

text \<open>The drive number is printed by adding its signed digits to the character zero.\<close>

definition number_text :: "16 word \<Rightarrow> string" where
  "number_text dn =
     (let v = sint dn; r = (if v < 0 then - ((- v) mod 10) else v mod 10)
      in (if v \<ge> 10 then [char_of (nat (48 + v div 10 mod 10))] else []) @ [char_of (nat (48 + r))])"

definition drive_text :: "DriveInfo \<Rightarrow> string" where
  "drive_text d =
     number_text (drive_num d) @ '' '' @ type_text (di_type d) @ '' '' @ size_text (di_blocks d) @
     (if is_boot d then '' *BOOT'' else [])"

fun paint_drives :: "build \<Rightarrow> nat \<Rightarrow> DriveInfo list \<Rightarrow> 'd World \<Rightarrow> 'd World" where
  "paint_drives bd j [] w =
     fold (\<lambda>j. paint bd (LINE (2 + of_nat j)) COL_SIZE (replicate 40 CHR '' '') 40) [j..<4] w"
| "paint_drives bd j (d # ds) w =
     paint_drives bd (j + 1) ds (paint bd (LINE (2 + of_nat j)) COL_SIZE (drive_text d) (length (drive_text d)) w)"

definition fault_text :: "u16 \<Rightarrow> string" where
  "fault_text vec =
     (let n = unat vec
      in ''DRIVES: exception vec '' @ (if n \<ge> 10 then [digit_char (n div 10 mod 10)] else []) @ [digit_char (n mod 10)])"

definition drives_table :: "'d machine \<Rightarrow> build \<Rightarrow> 'd World \<Rightarrow> 'd World" where
  "drives_table mc bd w =
     (case mc_queue_fault mc (wd_mem w) of
        Some vec \<Rightarrow> paint bd (LINE 1) COL_SIZE (fault_text vec) (length (fault_text vec)) w
      | None \<Rightarrow> (let ds = enum_drives 4 (wd_mem w)
                 in paint_drives bd 0 ds (paint bd (LINE 1) COL_SIZE ''DRIVES'' 6 w)))"

section \<open>The program\<close>

definition results_ctx :: "'d machine \<Rightarrow> build \<Rightarrow> JwCtx" where
  "results_ctx mc bd = \<lparr>jc_refnum = handoff_refnum mc, jc_drive = handoff_drive mc, base_offset = bd_results_offset bd,
     max_bytes = 32768\<rparr>"

definition banner :: "build \<Rightarrow> 'd World \<Rightarrow> 'd World" where
  "banner bd = (case bd_variant bd of
      HDA \<Rightarrow> paint bd (LINE 0) COL_SIZE ''IOTEST: HARD DISK I/O BENCH'' 28
    | DSK \<Rightarrow> paint bd (LINE 0) COL_SIZE ''IOTEST: FLOPPY DISK I/O BENCH'' 30)"

definition headers :: "build \<Rightarrow> 'd World \<Rightarrow> 'd World" where
  "headers bd w =
     (let w1 = paint bd (LINE 7) COL_READ ''READ'' 4 (paint bd (LINE 7) COL_SIZE ''SIZE'' 4 w)
      in if bd_read_only bd then w1 else paint bd (LINE 7) COL_WRITE ''WRITE'' 5 w1)"

definition finish_run :: "'d machine \<Rightarrow> build \<Rightarrow> 'd World \<Rightarrow> 'd World" where
  "finish_run mc bd w =
     (let (j, d) = jw_flush (mc_jwrite mc) (wd_jw w, wd_dev w);
          w1 = paint bd (LINE 21 + 12) COL_SIZE ''Done!'' 5 (w\<lparr>wd_jw := j, wd_dev := d\<rparr>)
      in case bd_variant bd of
           HDA \<Rightarrow> w1
         | DSK \<Rightarrow> (case mc_eject mc (handoff_drive mc) (wd_dev w1) of
                     (ej, d1) \<Rightarrow>
                       paint bd (LINE 21 + 24) COL_READ (fmt_status ej) STATUS_W
                         (paint bd (LINE 21 + 24) COL_SIZE ''EJECT:'' 6 (w1\<lparr>wd_dev := d1\<rparr>))))"

definition diskio_main :: "'d machine \<Rightarrow> build \<Rightarrow> 'd World \<Rightarrow> 'd World option" where
  "diskio_main mc bd w =
     (let w1 = w\<lparr>wd_jw := jw_init (results_ctx mc bd)\<rparr>;
          w2 = headers bd (drives_table mc bd (banner bd w1));
          mem_top = rd_long 0x108 (wd_mem w2)
      in map_option (finish_run mc bd)
           (run_sizes mc bd mem_top 0 (iotest_sizes (bd_variant bd) (bd_offsets bd)) w2))"

section \<open>Sectors\<close>

lemma round_mask: "(n + 511) AND NOT 511 = (512 :: u32) * ((n + 511) div 512)"
proof -
  have m: "(511 :: u32) = mask 9" by (simp add: mask_eq_exp_minus_1)
  have "(n + 511) AND NOT 511 = push_bit 9 (drop_bit 9 (n + 511))"
    unfolding m by (rule bit_word_eqI) (auto simp: bit_simps)
  then show ?thesis by (simp add: push_bit_eq_mult drop_bit_eq_div mult.commute)
qed

lemma unat_sector_round_up:
  assumes "unat n \<le> 2 ^ 32 - 512"
  shows "unat (sector_round_up n) = (if n = 0 then 512 else 512 * ((unat n + 511) div 512))"
proof -
  have a: "unat (n + 511) = unat n + 511" using assms by (simp add: unat_word_ariths)
  have "unat ((n + 511) div 512) = (unat n + 511) div 512" by (simp add: unat_div_distrib a)
  moreover have "512 * ((unat n + 511) div 512) < 2 ^ 32"
  proof -
    have "512 * ((unat n + 511) div 512) \<le> unat n + 511" by simp
    then show ?thesis using assms by simp
  qed
  ultimately have "unat (512 * ((n + 511) div 512)) = 512 * ((unat n + 511) div 512)"
    by (simp add: unat_word_ariths)
  then show ?thesis unfolding sector_round_up_def round_mask by (cases "n = 0") (simp_all only: if_True if_False refl, simp)
qed

lemma sector_round_up_ge: "unat n \<le> 2 ^ 32 - 512 \<Longrightarrow> n \<le> sector_round_up n"
  by (auto simp: word_le_nat_alt unat_sector_round_up)

text \<open>Transfers are whole sectors. For every length up to 2^32 - 512 the requested count is the least multiple of
  512 that is positive and holds the length.\<close>

theorem sector_round_up_least:
  assumes "unat n \<le> 2 ^ 32 - 512"
  shows "512 dvd unat (sector_round_up n) \<and> 0 < unat (sector_round_up n) \<and> unat n \<le> unat (sector_round_up n) \<and>
    (\<forall>k. 512 dvd k \<and> 0 < k \<and> unat n \<le> k \<longrightarrow> unat (sector_round_up n) \<le> k)"
proof (cases "n = 0")
  case True
  then show ?thesis by (auto simp: sector_round_up_def dest: dvd_imp_le)
next
  case False
  then have "0 < unat n" by (simp add: unat_gt_0)
  then show ?thesis using False by (auto simp: unat_sector_round_up [OF assms] elim!: dvdE)
qed

theorem sector_round_up_least_witness: "unat (sector_round_up 513) = 1024"
proof -
  have "512 dvd unat (sector_round_up 513) \<and> 513 \<le> unat (sector_round_up 513) \<and> unat (sector_round_up 513) \<le> 1024"
    using sector_round_up_least [of 513] by simp
  then show ?thesis by (auto elim!: dvdE)
qed

section \<open>Comparison\<close>

definition mismatches :: "u32 \<Rightarrow> u32 \<Rightarrow> u8 \<Rightarrow> mem32 \<Rightarrow> nat list" where
  "mismatches buf len seed m = filter (\<lambda>k. m (buf + of_nat k) \<noteq> pattern_byte (of_nat k) seed) [0..<unat len]"

lemma verify_state:
  fixes buf len :: u32 and seed :: u8 and m :: mem32
  defines "r \<equiv> verify_pattern buf len seed m" and "ks \<equiv> mismatches buf len seed m"
  shows "vr_count r = of_nat (length ks) \<and> first_off r = (if ks = [] then VERIFY_MATCH else of_nat (hd ks)) \<and>
      (first_off r = VERIFY_MATCH) = (ks = []) \<and>
      (vr_expected r, vr_actual r) =
        (if ks = [] then (0, 0) else (pattern_byte (of_nat (hd ks)) seed, m (buf + of_nat (hd ks))))"
proof -
  let ?ks = "\<lambda>n. filter (\<lambda>k. m (buf + of_nat k) \<noteq> pattern_byte (of_nat k) seed) [0..<n]"
  let ?r = "\<lambda>n. fold (verify_step buf seed m) [0..<n] \<lparr>first_off = VERIFY_MATCH, vr_count = 0, vr_expected = 0, vr_actual = 0\<rparr>"
  have small: "(of_nat k :: u32) \<noteq> VERIFY_MATCH" if "k < unat len" for k
  proof -
    have "unat (of_nat k :: u32) = k" using that unsigned_less [of len, where 'a = nat] by (simp add: unat_of_nat)
    moreover have "unat VERIFY_MATCH = 2 ^ 32 - 1" by (simp add: VERIFY_MATCH_def unsigned_minus_1_eq_mask mask_eq_exp_minus_1)
    ultimately show ?thesis using that unsigned_less [of len, where 'a = nat] by auto
  qed
  have "vr_count (?r n) = of_nat (length (?ks n)) \<and> first_off (?r n) = (if ?ks n = [] then VERIFY_MATCH else of_nat (hd (?ks n))) \<and>
      (first_off (?r n) = VERIFY_MATCH) = (?ks n = []) \<and>
      (vr_expected (?r n), vr_actual (?r n)) =
        (if ?ks n = [] then (0, 0) else (pattern_byte (of_nat (hd (?ks n))) seed, m (buf + of_nat (hd (?ks n)))))"
    if "n \<le> unat len" for n
    using that
  proof (induction n)
    case (Suc n)
    then show ?case using small [of n] by (auto simp: verify_step_def Let_def hd_append)
  qed simp
  from this [of "unat len"] show ?thesis unfolding r_def ks_def verify_pattern_def mismatches_def by blast
qed

lemma verify_count: "unat (vr_count (verify_pattern buf len seed m)) = length (mismatches buf len seed m)"
proof -
  have "length (mismatches buf len seed m) \<le> unat len"
    using length_filter_le [of "\<lambda>k. m (buf + of_nat k) \<noteq> pattern_byte (of_nat k) seed" "[0..<unat len]"]
    by (simp add: mismatches_def)
  then have "length (mismatches buf len seed m) < 2 ^ 32" using unsigned_less [of len, where 'a = nat] by simp
  then show ?thesis by (simp add: verify_state [THEN conjunct1] unat_of_nat)
qed

lemma verify_count_0:
  "vr_count (verify_pattern buf len seed m) = 0 \<longleftrightarrow> (\<forall>k < unat len. m (buf + of_nat k) = pattern_byte (of_nat k) seed)"
proof -
  have "vr_count (verify_pattern buf len seed m) = 0 \<longleftrightarrow> mismatches buf len seed m = []"
    using verify_count [of buf len seed m] by (metis length_0_conv unat_eq_0)
  then show ?thesis by (auto simp: mismatches_def filter_empty_conv)
qed

text \<open>The comparison is exact. It counts the bytes that differ from the pattern, and its offset and two bytes are those
  of the first that does; the offset is the mark for a match exactly when none differs.\<close>

theorem verify_exact:
  "let r = verify_pattern buf len seed m; ks = mismatches buf len seed m
   in unat (vr_count r) = length ks \<and> first_off r = (if ks = [] then VERIFY_MATCH else of_nat (hd ks)) \<and>
      (first_off r = VERIFY_MATCH) = (ks = []) \<and>
      (vr_expected r, vr_actual r) =
        (if ks = [] then (0, 0) else (pattern_byte (of_nat (hd ks)) seed, m (buf + of_nat (hd ks))))"
  unfolding Let_def verify_count using verify_state [of buf len seed m] by blast

section \<open>Write and readback\<close>

text \<open>A driver that works: a write puts the requested bytes of memory on the disk, a read brings them back, neither
  fails; and the stop watch touches no disk and returns.\<close>

definition mem_bytes :: "mem32 \<Rightarrow> u32 \<Rightarrow> nat \<Rightarrow> u8 list" where
  "mem_bytes m a n = map (\<lambda>k. m (a + of_nat k)) [0..<n]"

definition works :: "'d machine \<Rightarrow> ('d \<Rightarrow> ram24) \<Rightarrow> bool" where
  "works mc disk \<longleftrightarrow>
     (\<forall>pb m d. \<exists>d1. mc_write mc pb m d = (Returned 0, m, d1) \<and>
        disk d1 = plant (unat (io_pos_offset pb)) (mem_bytes m (io_buffer pb) (unat (io_req_count pb))) (disk d)) \<and>
     (\<forall>pb m d. \<exists>d1. mc_read mc pb m d = (Returned 0, (\<lambda>a. if a - io_buffer pb < io_req_count pb
         then disk d (unat (io_pos_offset pb) + unat (a - io_buffer pb)) else m a), d1) \<and> disk d1 = disk d) \<and>
     (\<forall>s. disk (snd (timer_start (mc_via mc) s)) = disk (snd s)) \<and>
     (\<forall>s. \<exists>us t d. timer_elapsed_us (mc_via mc) s = Some (us, t, d) \<and> disk d = disk (snd s))"

lemma timed_write:
  assumes "works mc disk"
  shows "\<exists>us w1. timed_trap mc (mc_write mc) pb w = Some (us, 0, w1) \<and> wd_mem w1 = wd_mem w \<and>
    disk (wd_dev w1) = plant (unat (io_pos_offset pb)) (mem_bytes (wd_mem w) (io_buffer pb) (unat (io_req_count pb))) (disk (wd_dev w))"
proof -
  obtain t d where t: "timer_start (mc_via mc) (wd_watch w, wd_dev w) = (t, d)" by fastforce
  then have d: "disk d = disk (wd_dev w)" using assms unfolding works_def by (metis snd_conv)
  obtain d1 where d1: "mc_write mc pb (wd_mem w) d = (Returned 0, wd_mem w, d1)"
      "disk d1 = plant (unat (io_pos_offset pb)) (mem_bytes (wd_mem w) (io_buffer pb) (unat (io_req_count pb))) (disk d)"
    using assms unfolding works_def by blast
  obtain us t1 d2 where e: "timer_elapsed_us (mc_via mc) (t, d1) = Some (us, t1, d2)" "disk d2 = disk d1"
    using assms unfolding works_def by (metis snd_conv)
  show ?thesis
    using t d d1 e by (simp add: timed_trap_def trap_with_recovery_def set_mem_def wd_mem_def Let_def)
qed

lemma timed_read:
  assumes "works mc disk"
  shows "\<exists>us w1. timed_trap mc (mc_read mc) pb w = Some (us, 0, w1) \<and> disk (wd_dev w1) = disk (wd_dev w) \<and>
    wd_mem w1 = (\<lambda>a. if a - io_buffer pb < io_req_count pb
       then disk (wd_dev w) (unat (io_pos_offset pb) + unat (a - io_buffer pb)) else wd_mem w a)"
proof -
  obtain t d where t: "timer_start (mc_via mc) (wd_watch w, wd_dev w) = (t, d)" by fastforce
  then have d: "disk d = disk (wd_dev w)" using assms unfolding works_def by (metis snd_conv)
  let ?m = "\<lambda>a. if a - io_buffer pb < io_req_count pb
       then disk d (unat (io_pos_offset pb) + unat (a - io_buffer pb)) else wd_mem w a"
  obtain d1 where d1: "mc_read mc pb (wd_mem w) d = (Returned 0, ?m, d1)" "disk d1 = disk d"
    using assms unfolding works_def by blast
  obtain us t1 d2 where e: "timer_elapsed_us (mc_via mc) (t, d1) = Some (us, t1, d2)" "disk d2 = disk d1"
    using assms unfolding works_def by (metis snd_conv)
  show ?thesis
    using t d1 e unfolding d by (simp add: timed_trap_def trap_with_recovery_def set_mem_def wd_mem_def Let_def d)
qed

lemma wd_mem_set_mem [simp]: "wd_mem (set_mem m w) = m" "wd_dev (set_mem m w) = wd_dev w"
  by (simp_all add: wd_mem_def set_mem_def)

lemma pb_init_fields [simp]:
  "io_buffer (pb_init mc b off n) = b" "io_req_count (pb_init mc b off n) = sector_round_up n"
  "io_pos_offset (pb_init mc b off n) = off"
  by (simp_all add: pb_init_def)

text \<open>C18. A disk that works passes. On a driver that works, the write test of every size returns no error and compares
  equal, and the disk then holds the pattern of the test at its offset.\<close>

theorem working_disk_passes:
  assumes "works mc disk" "unat (sz_length s) \<le> 2 ^ 32 - 512"
  shows "\<exists>wr_us us vr w1. write_readback mc i s w = Some ((wr_us, 0), (us, 0), vr, w1) \<and> verified 0 vr \<and>
    stretch (unat (write_offset s)) (unat (sz_length s)) (disk (wd_dev w1)) =
      map (\<lambda>k. pattern_byte (of_nat k) (of_nat i)) [0..<unat (sz_length s)]"
proof -
  let ?n = "sz_length s" let ?off = "write_offset s" let ?seed = "of_nat i :: u8"
  let ?pb = "pb_init mc IOBUF_BASE ?off ?n" let ?R = "unat (sector_round_up ?n)"
  define m1 where "m1 = fill_pattern IOBUF_BASE ?n ?seed (wd_mem w)"
  define w0 where "w0 = set_mem m1 w"
  obtain wr_us w1 where 1: "timed_trap mc (mc_write mc) ?pb w0 = Some (wr_us, 0, w1)"
      "disk (wd_dev w1) = plant (unat ?off) (mem_bytes m1 IOBUF_BASE ?R) (disk (wd_dev w0))"
    using timed_write [OF assms(1), of ?pb w0] by (auto simp: w0_def)
  define w2 where "w2 = set_mem (clear_buffer IOBUF_BASE ?n (wd_mem w1)) w1"
  obtain us w3 where 2: "timed_trap mc (mc_read mc) ?pb w2 = Some (us, 0, w3)" "disk (wd_dev w3) = disk (wd_dev w2)"
      "wd_mem w3 = (\<lambda>a. if a - IOBUF_BASE < sector_round_up ?n
         then disk (wd_dev w2) (unat ?off + unat (a - IOBUF_BASE)) else wd_mem w2 a)"
    using timed_read [OF assms(1), of ?pb w2, unfolded pb_init_fields] by blast
  have r: "write_readback mc i s w = Some ((wr_us, 0), (us, 0), verify_pattern IOBUF_BASE ?n ?seed (wd_mem w3), w3)"
    using 1(1) 2(1) by (simp add: write_readback_def Let_def w0_def m1_def w2_def)
  have u: "unat (of_nat k :: u32) = k" if "k < unat ?n" for k
    using that unsigned_less [of ?n, where 'a = nat] by (simp add: unat_of_nat)
  have le: "unat ?n \<le> ?R" using sector_round_up_ge [OF assms(2)] by (simp add: word_le_nat_alt)
  have m1: "m1 (IOBUF_BASE + of_nat k) = pattern_byte (of_nat k) ?seed" if "k < unat ?n" for k
    using u [OF that] that by (simp add: m1_def fill_pattern_def word_less_nat_alt)
  have dk: "disk (wd_dev w1) (unat ?off + k) = pattern_byte (of_nat k) ?seed" if "k < unat ?n" for k
    using that le m1 by (simp add: 1(2) plant_def mem_bytes_def)
  have read_back: "wd_mem w3 (IOBUF_BASE + of_nat k) = pattern_byte (of_nat k) ?seed" if "k < unat ?n" for k
    using u [OF that] that le dk [OF that] by (simp add: 2(3) w2_def word_less_nat_alt)
  have "vr_count (verify_pattern IOBUF_BASE ?n ?seed (wd_mem w3)) = 0" by (simp add: verify_count_0 read_back)
  moreover have "stretch (unat ?off) (unat ?n) (disk (wd_dev w3)) = map (\<lambda>k. pattern_byte (of_nat k) ?seed) [0..<unat ?n]"
    by (rule nth_equalityI) (simp_all add: stretch_def 2(2) w2_def dk)
  ultimately show ?thesis using r by (auto simp: verified_def)
qed

text \<open>A machine whose disk is an array of bytes.\<close>

definition byte_disk :: "(ram24 \<times> u32) machine" where
  "byte_disk =
     \<lparr>mc_read = (\<lambda>pb m d. (Returned 0, (\<lambda>a. if a - io_buffer pb < io_req_count pb
         then fst d (unat (io_pos_offset pb) + unat (a - io_buffer pb)) else m a), d)),
      mc_write = (\<lambda>pb m d. (Returned 0, m,
         (plant (unat (io_pos_offset pb)) (mem_bytes m (io_buffer pb) (unat (io_req_count pb))) (fst d), snd d))),
      mc_jwrite = (\<lambda>pb d. (d, 0)), mc_via = \<lparr>bus_rd = (\<lambda>a v. (0, v)), bus_wr = (\<lambda>a x v. v)\<rparr>, mc_queue_fault = (\<lambda>m. None),
      mc_eject = (\<lambda>r d. (0, d)), handoff_refnum = - 33, handoff_drive = 8\<rparr>"

lemma drain_quiet: "drain_wraps \<lparr>bus_rd = (\<lambda>a v. (0, v)), bus_wr = w\<rparr> n v = Some (n, v)"
  by (subst drain_wraps.simps) simp

lemma works_byte_disk: "works byte_disk fst"
  by (auto simp: works_def byte_disk_def timer_start_def timer_elapsed_us_def read_ticks_since_start_def drain_quiet read_t2_def
      split_beta)

theorem working_disk_passes_witness:
  "\<forall>w. \<exists>wr_us us vr w1. write_readback byte_disk 3 \<lparr>sz_label = ''1KB'', sz_length = 1024, read_offset = 0, write_offset = 4096\<rparr> w =
       Some ((wr_us, 0), (us, 0), vr, w1) \<and> verified 0 vr \<and>
     stretch 4096 1024 (fst (wd_dev w1)) = map (\<lambda>k. pattern_byte (of_nat k) 3) [0..<1024]"
proof
  fix w
  show "\<exists>wr_us us vr w1. write_readback byte_disk 3 \<lparr>sz_label = ''1KB'', sz_length = 1024, read_offset = 0, write_offset = 4096\<rparr> w =
       Some ((wr_us, 0), (us, 0), vr, w1) \<and> verified 0 vr \<and>
     stretch 4096 1024 (fst (wd_dev w1)) = map (\<lambda>k. pattern_byte (of_nat k) 3) [0..<1024]"
    using working_disk_passes [OF works_byte_disk, of "\<lparr>sz_label = ''1KB'', sz_length = 1024, read_offset = 0, write_offset = 4096\<rparr>" 3 w]
    by (simp del: upt_rec_numeral)
qed

section \<open>A driver that does nothing\<close>

text \<open>Every trap returns without an error and moves nothing; the stop watch returns.\<close>

definition idle :: "'d machine \<Rightarrow> bool" where
  "idle mc \<longleftrightarrow>
     (\<forall>pb m d. mc_read mc pb m d = (Returned 0, m, d)) \<and> (\<forall>pb m d. mc_write mc pb m d = (Returned 0, m, d)) \<and>
     (\<forall>s. timer_elapsed_us (mc_via mc) s \<noteq> None)"

lemma timed_idle:
  assumes "idle mc" "trap = mc_read mc \<or> trap = mc_write mc"
  shows "\<exists>us w1. timed_trap mc trap pb w = Some (us, 0, w1) \<and> wd_mem w1 = wd_mem w"
proof -
  obtain t d where t: "timer_start (mc_via mc) (wd_watch w, wd_dev w) = (t, d)" by fastforce
  obtain us t1 d1 where e: "timer_elapsed_us (mc_via mc) (t, d) = Some (us, t1, d1)" using assms(1) unfolding idle_def by fast
  have "trap pb m d = (Returned 0, m, d)" for m using assms unfolding idle_def by blast
  then show ?thesis using t e by (simp add: timed_trap_def trap_with_recovery_def set_mem_def wd_mem_def Let_def)
qed

lemma cleared_buffer:
  assumes "k < unat len" "unat len + 3 < 2 ^ 32"
  shows "clear_buffer buf len m (buf + of_nat k) = 0"
proof -
  have "unat (of_nat k :: u32) = k" using assms by (simp add: unat_of_nat)
  moreover have "unat ((len + 3) div 4) = (unat len + 3) div 4" using assms(2) by (simp add: unat_div_distrib unat_word_ariths)
  moreover have "k < 4 * ((unat len + 3) div 4)" using assms(1) by linarith
  ultimately show ?thesis by (simp add: clear_buffer_def)
qed

lemma pattern_byte_0: "pattern_byte 0 seed = seed"
proof -
  have m: "(0xFF :: u32) = mask 8" by (simp add: mask_eq_exp_minus_1)
  show ?thesis unfolding pattern_byte_def m by (rule bit_word_eqI) (auto simp: bit_simps)
qed

lemma pattern_zero: "(\<forall>k < n. pattern_byte (of_nat k) seed = 0) \<longleftrightarrow> n = 0 \<or> n = 1 \<and> seed = 0"
proof -
  have 1: "pattern_byte 1 0 = 1" by (simp add: pattern_byte_def)
  show ?thesis
  proof (cases "n \<le> 1")
    case True
    then show ?thesis by (cases "n = 0") (auto simp: pattern_byte_0 le_Suc_eq)
  next
    case False
    then have "0 < n" "1 < n" by simp_all
    moreover have "pattern_byte (of_nat 0) seed = seed" "pattern_byte (of_nat 1) 0 \<noteq> 0" by (simp_all add: pattern_byte_0 1)
    ultimately show ?thesis by (metis less_numeral_extra(4) less_nat_zero_code)
  qed
qed

text \<open>C33. What a driver that moves nothing is told. If both traps return without an error and transfer no byte, the write test
  sees the cleared buffer, and reports it verified exactly for an empty length or one byte in test 0 (or 256, ...), whose
  pattern is the zero of the cleared buffer: the first size of every build is that test.\<close>

theorem idle_driver:
  assumes "idle mc" "unat (sz_length s) + 3 < 2 ^ 32"
  shows "\<exists>wr_us us vr w1. write_readback mc i s w = Some ((wr_us, 0), (us, 0), vr, w1) \<and>
    (verified 0 vr \<longleftrightarrow> sz_length s = 0 \<or> sz_length s = 1 \<and> of_nat i = (0 :: u8))"
proof -
  let ?n = "sz_length s" let ?seed = "of_nat i :: u8"
  let ?pb = "pb_init mc IOBUF_BASE (write_offset s) ?n"
  define w0 where "w0 = set_mem (fill_pattern IOBUF_BASE ?n ?seed (wd_mem w)) w"
  obtain wr_us w1 where 1: "timed_trap mc (mc_write mc) ?pb w0 = Some (wr_us, 0, w1)"
    using timed_idle [OF assms(1), of "mc_write mc" ?pb w0] by blast
  define w2 where "w2 = set_mem (clear_buffer IOBUF_BASE ?n (wd_mem w1)) w1"
  obtain us w3 where 2: "timed_trap mc (mc_read mc) ?pb w2 = Some (us, 0, w3)" "wd_mem w3 = wd_mem w2"
    using timed_idle [OF assms(1), of "mc_read mc" ?pb w2] by blast
  have r: "write_readback mc i s w = Some ((wr_us, 0), (us, 0), verify_pattern IOBUF_BASE ?n ?seed (wd_mem w3), w3)"
    using 1 2(1) by (simp add: write_readback_def Let_def w0_def w2_def)
  have "vr_count (verify_pattern IOBUF_BASE ?n ?seed (wd_mem w3)) = 0 \<longleftrightarrow> (\<forall>k < unat ?n. pattern_byte (of_nat k) ?seed = 0)"
    by (auto simp: verify_count_0 2(2) w2_def cleared_buffer [OF _ assms(2)])
  also have "... \<longleftrightarrow> ?n = 0 \<or> ?n = 1 \<and> ?seed = 0"
    unfolding pattern_zero by (simp add: word_unat_eq_iff)
  finally show ?thesis using r by (simp add: verified_def)
qed

text \<open>A disk whose traps return at once.\<close>

definition dead_disk :: "(ram24 \<times> u32) machine" where
  "dead_disk = byte_disk\<lparr>mc_read := \<lambda>pb m d. (Returned 0, m, d), mc_write := \<lambda>pb m d. (Returned 0, m, d)\<rparr>"

lemma idle_dead_disk: "idle dead_disk"
  by (auto simp: idle_def dead_disk_def byte_disk_def timer_elapsed_us_def read_ticks_since_start_def drain_quiet
      split_beta)

theorem idle_driver_witness:
  "\<forall>w. \<exists>wr_us us vr w1. write_readback dead_disk 0 \<lparr>sz_label = ''1B'', sz_length = 1, read_offset = 0, write_offset = 4096\<rparr> w =
     Some ((wr_us, 0), (us, 0), vr, w1) \<and> verified 0 vr"
proof
  fix w
  show "\<exists>wr_us us vr w1. write_readback dead_disk 0 \<lparr>sz_label = ''1B'', sz_length = 1, read_offset = 0, write_offset = 4096\<rparr> w =
     Some ((wr_us, 0), (us, 0), vr, w1) \<and> verified 0 vr"
    using idle_driver [OF idle_dead_disk, of "\<lparr>sz_label = ''1B'', sz_length = 1, read_offset = 0, write_offset = 4096\<rparr>" 0 w] by simp
qed

section \<open>Reading a status cell\<close>

definition status_cells :: "(string \<times> int) list" where
  "status_cells = (copy_padded STATUS_W ''pass'', 0) # map (\<lambda>(c, n). (copy_padded STATUS_W n, c)) ioerr_names"

definition dec_digit :: "char \<Rightarrow> bool" where
  "dec_digit c \<longleftrightarrow> 48 \<le> (of_char c :: nat) \<and> (of_char c :: nat) < 58"

definition dec_value :: "nat \<Rightarrow> string \<Rightarrow> nat" where
  "dec_value a cs = foldl (\<lambda>a c. 10 * a + (of_char c - 48)) a cs"

definition read_status :: "string \<Rightarrow> int" where
  "read_status s =
     (case map_of status_cells s of
        Some c \<Rightarrow> c
      | None \<Rightarrow> (let v = int (dec_value 0 (filter dec_digit (drop 2 s))) in if s ! 1 = CHR ''-'' then - v else v))"

lemma digit_char_nat: "d < 10 \<Longrightarrow> of_char (digit_char d) = (48 + d :: nat)"
  by (simp add: digit_char_def)

lemma dec_digit_char: "d < 10 \<Longrightarrow> dec_digit (digit_char d)"
  by (simp add: dec_digit_def digit_char_nat)

lemma filter_table_digits: "filter dec_digit (table_digits ds st v) = table_digits ds st v"
  by (induction ds arbitrary: st) (auto simp: Let_def dec_digit_char)

lemma length_table_digits: "length (table_digits ds st v) \<le> length ds"
  by (induction ds arbitrary: st) (auto simp: Let_def intro: le_SucI)

lemma decimal_table:
  "st \<or> a = 0 \<Longrightarrow> dec_value a (table_digits (map (\<lambda>k. 10 ^ k) (rev [0..<n])) st v) = a * 10 ^ n + v mod 10 ^ n"
proof (induction n arbitrary: st a)
  case (Suc n)
  let ?g = "v div 10 ^ n mod 10"
  have v: "v mod 10 ^ Suc n = ?g * 10 ^ n + v mod 10 ^ n"
    by (metis add.commute mod_mult2_eq mult.commute power_Suc2)
  have d: "dec_value a (digit_char ?g # cs) = dec_value (10 * a + ?g) cs" for cs
    by (simp add: dec_value_def digit_char_nat)
  show ?case
  proof (cases "?g \<noteq> 0 \<or> st \<or> n = 0")
    case True
    then have "dec_value a (table_digits (map (\<lambda>k. 10 ^ k) (rev [0..<Suc n])) st v) = (10 * a + ?g) * 10 ^ n + v mod 10 ^ n"
      using Suc.IH [of True "10 * a + ?g"] by (auto simp: Let_def d)
    then show ?thesis unfolding v by (simp add: algebra_simps del: table_digits.simps upt_Suc)
  next
    case False
    then have "dec_value a (table_digits (map (\<lambda>k. 10 ^ k) (rev [0..<Suc n])) st v) = a * 10 ^ n + v mod 10 ^ n"
      using Suc.IH [of False a] Suc.prems by (auto simp: Let_def)
    then show ?thesis using False Suc.prems unfolding v by (simp del: table_digits.simps upt_Suc)
  qed
qed (simp add: dec_value_def)

lemma five_places: "[10000, 1000, 100, 10, 1 :: nat] = map (\<lambda>k. 10 ^ k) (rev [0..<5])"
  by code_simp

lemma known_cells:
  "list_all (\<lambda>(c, n). map_of status_cells (copy_padded STATUS_W n) = Some c) ioerr_names"
  by code_simp

lemma other_cells: "list_all (\<lambda>(s, c). s ! 1 \<noteq> CHR ''-'' \<and> s ! 1 \<noteq> CHR '' '') status_cells"
  by code_simp

text \<open>C37. A status cell is a name of its error. The cells of the screen are read back to the error they show, for every
  16-bit result: names, faults (30000 and up) and the rest alike, so no two errors look the same.\<close>

theorem status_readable: "length (fmt_status err) = STATUS_W \<and> read_status (fmt_status err) = sint err"
proof -
  have len: "length (copy_padded STATUS_W s) = STATUS_W" for s by (simp add: copy_padded_def STATUS_W_def)
  consider (zero) "err = 0" | (known) n where "err \<noteq> 0" "map_of ioerr_names (sint err) = Some n"
    | (other) "err \<noteq> 0" "map_of ioerr_names (sint err) = None" by blast
  then have "read_status (fmt_status err) = sint err"
  proof cases
    case zero
    then show ?thesis by (simp add: fmt_status_def read_status_def status_cells_def)
  next
    case known
    then have "(sint err, n) \<in> set ioerr_names" by (simp add: map_of_SomeD)
    then have "map_of status_cells (copy_padded STATUS_W n) = Some (sint err)" using known_cells by (auto simp: list_all_iff)
    then show ?thesis using known by (simp add: fmt_status_def read_status_def)
  next
    case other
    let ?v = "nat \<bar>sint err\<bar>" let ?sg = "if sint err < 0 then CHR ''-'' else CHR '' ''"
    let ?ds = "table_digits [10000, 1000, 100, 10, 1] False ?v"
    have f: "fmt_status err = copy_padded STATUS_W ([CHR ''E'', ?sg] @ ?ds)" using other by (simp add: fmt_status_def)
    have l: "length ?ds \<le> 5" using length_table_digits [of "[10000, 1000, 100, 10, 1]" False ?v] by simp
    then have c: "fmt_status err = CHR ''E'' # ?sg # ?ds @ replicate (6 - length ?ds) CHR '' ''"
      by (simp add: f copy_padded_def STATUS_W_def)
    have "fmt_status err ! 1 = ?sg" by (simp add: c)
    then have "(fmt_status err, b) \<notin> set status_cells" for b
      using other_cells unfolding list_all_iff by (fastforce split: if_splits)
    then have none: "map_of status_cells (fmt_status err) = None" by (auto simp: map_of_eq_None_iff)
    have "- (2 ^ 15) \<le> sint err" "sint err < 2 ^ 15" using sint_range_size [of err] by (simp_all add: word_size)
    then have "?v < 10 ^ 5" by auto
    then have "dec_value 0 ?ds = ?v" unfolding five_places by (subst decimal_table) simp_all
    moreover have "filter dec_digit (drop 2 (fmt_status err)) = ?ds"
      by (simp add: c filter_table_digits del: table_digits.simps) (simp add: dec_digit_def filter_empty_conv)
    ultimately show ?thesis using none by (simp add: read_status_def c del: table_digits.simps)
  qed
  then show ?thesis by (simp add: fmt_status_def len split: option.split)
qed

end
