(* ===== verification/DiskCopy.thy ===== *)
theory DiskCopy
  imports IoTest
begin

text \<open>
  The floppy copier that runs on the target (SingleStepTests/preboot/diskcopy/diskcopy_main.c, with
  eject.c): an 800K disk is read into memory, the destination is formatted, and the image is
  written out; the operator is asked by keys what to do and whether to retry. Parameters are the
  traps of the floppy driver (read, write and control, which may fault) and the key map, whose
  bytes may change with every look.
\<close>

section \<open>The machine\<close>

record CtlPb =
  ct_vrefnum :: "16 word"
  ct_refnum :: "16 word"
  ct_cscode :: "16 word"

record 'd copier =
  cp_read :: "'d io_trap"
  cp_write :: "'d io_trap"
  cp_control :: "CtlPb \<Rightarrow> mem32 \<Rightarrow> 'd \<Rightarrow> trap_end \<times> mem32 \<times> 'd"
  cp_keymap :: "u32 \<Rightarrow> 'd \<Rightarrow> u8 \<times> 'd"
  cp_rows :: row_mode
  cp_boot_drive :: "16 word"

record 'd Desk =
  dk_disp :: Display
  dk_dev :: 'd

definition DISK_BYTES :: u32 where "DISK_BYTES = 819200"
definition CHUNK_BYTES :: u32 where "CHUNK_BYTES = 32768"
definition SONY_REFNUM :: "16 word" where "SONY_REFNUM = - 5"
definition KEYMAP_BASE :: u32 where "KEYMAP_BASE = 0x174"
definition KC_1 :: u8 where "KC_1 = 0x12"
definition KC_2 :: u8 where "KC_2 = 0x13"
definition KC_RETURN :: u8 where "KC_RETURN = 0x24"
definition KC_ESC :: u8 where "KC_ESC = 0x35"

definition say :: "'d copier \<Rightarrow> u32 \<Rightarrow> u32 \<Rightarrow> string \<Rightarrow> nat \<Rightarrow> 'd Desk \<Rightarrow> 'd Desk" where
  "say cm row col s n w = w\<lparr>dk_disp := paint_string (cp_rows cm) row col s n (dk_disp w)\<rparr>"

definition blank_line :: "'d copier \<Rightarrow> u32 \<Rightarrow> 'd Desk \<Rightarrow> 'd Desk" where
  "blank_line cm row = say cm row 1 (replicate 40 CHR '' '') 40"

section \<open>Keys\<close>

definition key_down :: "'d copier \<Rightarrow> u8 \<Rightarrow> 'd Desk \<Rightarrow> bool \<times> 'd Desk" where
  "key_down cm kc w =
     (case cp_keymap cm (KEYMAP_BASE + ucast (drop_bit 3 kc)) (dk_dev w) of
        (b, d) \<Rightarrow> (bit b (unat (kc AND 7)), w\<lparr>dk_dev := d\<rparr>))"

text \<open>Waiting for a key may never end: the results are optional.\<close>

partial_function (option) poll_until :: "'d copier \<Rightarrow> u8 \<Rightarrow> bool \<Rightarrow> 'd Desk \<Rightarrow> 'd Desk option" where
  [code]: "poll_until cm kc v w =
     (case key_down cm kc w of (b, w1) \<Rightarrow> if b = v then Some w1 else poll_until cm kc v w1)"

definition wait_key :: "'d copier \<Rightarrow> u8 \<Rightarrow> 'd Desk \<Rightarrow> 'd Desk option" where
  "wait_key cm kc w = Option.bind (poll_until cm kc True w) (poll_until cm kc False)"

text \<open>The loops that take one of two keys: True for the first.\<close>

partial_function (option) choose_key :: "'d copier \<Rightarrow> u8 \<Rightarrow> u8 \<Rightarrow> 'd Desk \<Rightarrow> (bool \<times> 'd Desk) option" where
  [code]: "choose_key cm k1 k2 w =
     (case key_down cm k1 w of (b1, w1) \<Rightarrow>
        if b1 then map_option (Pair True) (wait_key cm k1 w1)
        else (case key_down cm k2 w1 of (b2, w2) \<Rightarrow>
                if b2 then map_option (Pair False) (wait_key cm k2 w2) else choose_key cm k1 k2 w2))"

section \<open>Traps\<close>

definition control :: "'d copier \<Rightarrow> CtlPb \<Rightarrow> 'd Desk \<Rightarrow> trap_end \<times> 'd Desk" where
  "control cm pb w =
     (case cp_control cm pb (dp_mem (dk_disp w)) (dk_dev w) of
        (e, m, d) \<Rightarrow> (e, w\<lparr>dk_disp := (dk_disp w)\<lparr>dp_mem := m\<rparr>, dk_dev := d\<rparr>))"

text \<open>A fault of the eject call meets a stale recovery point: undefined.\<close>

definition eject_floppy :: "'d copier \<Rightarrow> 16 word \<Rightarrow> 'd Desk \<Rightarrow> (16 word \<times> 'd Desk) option" where
  "eject_floppy cm dr w =
     (case control cm \<lparr>ct_vrefnum = dr, ct_refnum = SONY_REFNUM, ct_cscode = 7\<rparr> w of
        (Returned r, w1) \<Rightarrow> Some (r, w1)
      | (Faulted vec, w1) \<Rightarrow> None)"

definition sony_format :: "'d copier \<Rightarrow> 16 word \<Rightarrow> 'd Desk \<Rightarrow> 16 word \<times> 'd Desk" where
  "sony_format cm dr w =
     (case control cm \<lparr>ct_vrefnum = dr, ct_refnum = SONY_REFNUM, ct_cscode = 6\<rparr> w of
        (Returned r, w1) \<Rightarrow> (r, w1)
      | (Faulted vec, w1) \<Rightarrow> (vector_to_err vec, w1))"

definition copy_pb :: "16 word \<Rightarrow> u32 \<Rightarrow> u32 \<Rightarrow> u32 \<Rightarrow> IoPb" where
  "copy_pb dr buf offset len =
     \<lparr>io_refnum = SONY_REFNUM, io_vrefnum = dr, io_buffer = buf, io_req_count = len, io_pos_mode = 1, io_pos_offset = offset\<rparr>"

definition xfer :: "'d copier \<Rightarrow> bool \<Rightarrow> 16 word \<Rightarrow> u32 \<Rightarrow> u32 \<Rightarrow> u32 \<Rightarrow> 'd Desk \<Rightarrow> 16 word \<times> 'd Desk" where
  "xfer cm is_write dr buf offset len w =
     (case (if is_write then cp_write cm else cp_read cm) (copy_pb dr buf offset len) (dp_mem (dk_disp w)) (dk_dev w) of
        (e, m, d) \<Rightarrow>
          (case e of Returned r \<Rightarrow> r | Faulted vec \<Rightarrow> vector_to_err vec, w\<lparr>dk_disp := (dk_disp w)\<lparr>dp_mem := m\<rparr>, dk_dev := d\<rparr>))"

section \<open>Texts\<close>

text \<open>Right-justified decimal digits, cut to the width.\<close>

definition put_dec :: "u32 \<Rightarrow> nat \<Rightarrow> string" where
  "put_dec v width = (let ds = f_putul v in take width (replicate (width - length ds) CHR '' '' @ ds))"

definition result_text :: "string \<Rightarrow> 16 word \<Rightarrow> string" where
  "result_text label res =
     take 24 label @ ''res='' @ (if sint res < 0 then ''-'' else []) @
     (let ds = dropWhile (\<lambda>c. c = CHR '' '') (put_dec (of_int \<bar>sint res\<bar>) 5) in if ds = [] then ''0'' else ds)"

definition paint_result :: "'d copier \<Rightarrow> u32 \<Rightarrow> string \<Rightarrow> 16 word \<Rightarrow> 'd Desk \<Rightarrow> 'd Desk" where
  "paint_result cm row label res = say cm row 1 (result_text label res) (length (result_text label res))"

definition progress_text :: "string \<Rightarrow> u32 \<Rightarrow> string" where
  "progress_text ph off =
     copy_padded 13 (take 12 ph) @ filter (\<lambda>c. c \<noteq> CHR '' '') (put_dec (off * 100 div DISK_BYTES) 3) @ ''% ('' @
     put_dec (off div 512) 4 @ ''/1600)''"

section \<open>Transfers\<close>

function transfer_from :: "'d copier \<Rightarrow> bool \<Rightarrow> 16 word \<Rightarrow> string \<Rightarrow> u32 \<Rightarrow> u32 \<Rightarrow> 'd Desk \<Rightarrow> 16 word \<times> 'd Desk" where
  "transfer_from cm is_write dr ph prog_row off w =
     (if off < DISK_BYTES
      then (let chunk = (if DISK_BYTES - off > CHUNK_BYTES then CHUNK_BYTES else DISK_BYTES - off)
            in case xfer cm is_write dr (IOBUF_BASE + off) off chunk w of
                 (r, w1) \<Rightarrow>
                   if r \<noteq> 0 then (r, w1)
                   else (let off1 = off + chunk; s = progress_text ph off1
                         in transfer_from cm is_write dr ph prog_row off1 (say cm prog_row 1 s (length s) w1)))
      else (0, w))"
  by pat_completeness auto

lemma chunk_step:
  assumes "off < DISK_BYTES"
  shows "unat (off + (if DISK_BYTES - off > CHUNK_BYTES then CHUNK_BYTES else DISK_BYTES - off)) =
      min (unat off + 32768) 819200" "unat off < 819200"
proof -
  show o: "unat off < 819200" using assms by (simp add: DISK_BYTES_def word_less_nat_alt)
  have d: "unat (DISK_BYTES - off) = 819200 - unat off"
    using o by (simp add: DISK_BYTES_def unat_sub_if_size word_size)
  show "unat (off + (if DISK_BYTES - off > CHUNK_BYTES then CHUNK_BYTES else DISK_BYTES - off)) = min (unat off + 32768) 819200"
    using o d by (auto simp: word_less_nat_alt CHUNK_BYTES_def unat_word_ariths min_def)
qed

lemma chunk_less:
  "off < DISK_BYTES \<Longrightarrow>
     819200 - unat (off + (if DISK_BYTES - off > CHUNK_BYTES then CHUNK_BYTES else DISK_BYTES - off)) < 819200 - unat off"
  using chunk_step [of off] by linarith

termination transfer_from
  by (relation "measure (\<lambda>(cm, wr, dr, ph, row, off, w). 819200 - unat off)") (use chunk_less in \<open>simp_all\<close>)

declare transfer_from.simps [simp del]

definition transfer_all :: "'d copier \<Rightarrow> bool \<Rightarrow> 16 word \<Rightarrow> string \<Rightarrow> u32 \<Rightarrow> 'd Desk \<Rightarrow> 16 word \<times> 'd Desk" where
  "transfer_all cm is_write dr ph prog_row = transfer_from cm is_write dr ph prog_row 0"

text \<open>True if the operator gave up.\<close>

partial_function (option) transfer_with_retry ::
    "'d copier \<Rightarrow> bool \<Rightarrow> 16 word \<Rightarrow> string \<Rightarrow> u32 \<Rightarrow> u32 \<Rightarrow> 'd Desk \<Rightarrow> (bool \<times> 'd Desk) option" where
  [code]: "transfer_with_retry cm is_write dr ph prog_row msg_row w =
     (case transfer_all cm is_write dr ph prog_row w of
        (r, w1) \<Rightarrow>
          if r = 0 then Some (False, w1)
          else Option.bind (choose_key cm KC_RETURN KC_ESC
                 (say cm (msg_row + 12) 1 ''RETURN=retry  ESC=abort                 '' 40
                   (paint_result cm msg_row (if is_write then ''WRITE failed '' else ''READ failed '') r w1)))
               (\<lambda>(again, w2).
                  if again
                  then transfer_with_retry cm is_write dr ph prog_row msg_row
                         (blank_line cm (msg_row + 12) (blank_line cm msg_row w2))
                  else Some (True, w2)))"

partial_function (option) format_with_retry :: "'d copier \<Rightarrow> 16 word \<Rightarrow> 'd Desk \<Rightarrow> (bool \<times> 'd Desk) option" where
  [code]: "format_with_retry cm dst w =
     (case sony_format cm dst (say cm (LINE 13) 1 ''Formatting dest ...                     '' 40 w) of
        (fr, w1) \<Rightarrow>
          if fr = 0 then Some (False, say cm (LINE 13) 1 ''Formatting dest ... done                '' 40 w1)
          else Option.bind (choose_key cm KC_RETURN KC_ESC
                 (say cm (LINE 17) 1 ''RETURN=retry   ESC=abort                '' 40
                   (paint_result cm (LINE 16) ''FORMAT failed '' fr w1)))
               (\<lambda>(again, w2).
                  if again then format_with_retry cm dst (blank_line cm (LINE 17) (blank_line cm (LINE 16) w2))
                  else Some (True, w2)))"

section \<open>The program\<close>

definition other_drive :: "16 word \<Rightarrow> 16 word" where
  "other_drive src = (if src = 1 then 2 else 1)"

definition digit_cell :: "16 word \<Rightarrow> string" where
  "digit_cell dr = put_dec (scast dr) 1"

definition menu :: "'d copier \<Rightarrow> 16 word \<Rightarrow> 'd Desk \<Rightarrow> (bool \<times> 'd Desk) option" where
  "menu cm src w =
     (let w1 = say cm (LINE 0) 1 ''DISKCOPY: 800K floppy duplicator'' 32 w;
          w2 = say cm (LINE 2) 20 (digit_cell src) 1 (say cm (LINE 2) 1 ''Boot/source drive:'' 18 w1);
          w3 = say cm (LINE 5) 1 ''  1 = single-drive (swap source then dest)'' 42
                 (say cm (LINE 4) 1 ''Choose copy mode:'' 17 w2);
          w4 = say cm (LINE 7) 1 ''Press 1 or 2 ...'' 16
                 (say cm (LINE 6) 1 ''  2 = two-drive (source=boot drive, dest=other)'' 47 w3)
      in map_option (\<lambda>(one, w5). (\<not> one, w5)) (choose_key cm KC_1 KC_2 w4))"

definition blank_lines :: "'d copier \<Rightarrow> u32 list \<Rightarrow> 'd Desk \<Rightarrow> 'd Desk" where
  "blank_lines cm rows w = fold (\<lambda>r. say cm r 1 (replicate 50 CHR '' '') 50) rows w"

text \<open>The warning before anything is erased: True if the operator goes on.\<close>

definition warning :: "'d copier \<Rightarrow> bool \<Rightarrow> 16 word \<Rightarrow> 16 word \<Rightarrow> 'd Desk \<Rightarrow> (bool \<times> 'd Desk) option" where
  "warning cm two_drive src dst w =
     (let w1 = say cm (LINE 4) 1 (if two_drive then ''Mode: TWO-DRIVE'' else ''Mode: SINGLE-DRIVE (swap)'') 25
                 (blank_lines cm [LINE 4, LINE 5, LINE 6, LINE 7] w);
          w2 = say cm (LINE 5) 15 (digit_cell src) 1 (say cm (LINE 5) 1 ''Source drive:'' 13 w1);
          w3 = say cm (LINE 5) 30 (digit_cell dst) 1 (say cm (LINE 5) 18 ''Dest drive:'' 11 w2);
          t = ''ALL DATA on DEST drive '' @ digit_cell dst @ '' will be ERASED'';
          w4 = say cm (LINE 8) 1 t (length t) (say cm (LINE 7) 1 ''*** WARNING ***'' 15 w3);
          w5 = say cm (LINE 10) 1 ''RETURN=continue   ESC=abort'' 27
                 (say cm (LINE 9) 1 ''(destination is low-level formatted first)'' 42 w4)
      in choose_key cm KC_RETURN KC_ESC w5)"

definition stage_source :: "'d copier \<Rightarrow> bool \<Rightarrow> 16 word \<Rightarrow> 'd Desk \<Rightarrow> 'd Desk option" where
  "stage_source cm two_drive src w =
     Option.bind (eject_floppy cm src (blank_lines cm [LINE 7, LINE 8, LINE 9, LINE 10] w)) (\<lambda>(ej, w1).
       let w2 = paint_result cm (LINE 7) ''Eject boot disk '' ej w1;
           w3 = (if two_drive
                 then say cm (LINE 10) 1 ''blank DEST in other drive.'' 26 (say cm (LINE 9) 1 ''Insert SOURCE in boot drive,'' 28 w2)
                 else say cm (LINE 10) 1 ''(destination comes later)'' 25 (say cm (LINE 9) 1 ''Insert SOURCE disk in the drive.'' 32 w2))
       in map_option (blank_line cm (LINE 11)) (wait_key cm KC_RETURN (say cm (LINE 11) 1 ''Press RETURN when ready ...'' 27 w3)))"

definition swap_disk :: "'d copier \<Rightarrow> 16 word \<Rightarrow> 'd Desk \<Rightarrow> 'd Desk option" where
  "swap_disk cm src w =
     Option.bind (eject_floppy cm src w) (\<lambda>(ej, w1).
       let w2 = say cm (LINE 9) 1 ''Insert DEST disk (will be erased).      '' 40 (paint_result cm (LINE 11) ''Eject source '' ej w1);
           w3 = say cm (LINE 12) 1 ''Press RETURN when ready ...'' 27 (blank_line cm (LINE 10) w2)
       in map_option (blank_line cm (LINE 12)) (wait_key cm KC_RETURN w3))"

text \<open>From the source in its drive to the image on the destination: True if given up.\<close>

definition copy_disk :: "'d copier \<Rightarrow> bool \<Rightarrow> 16 word \<Rightarrow> 16 word \<Rightarrow> 'd Desk \<Rightarrow> (bool \<times> 'd Desk) option" where
  "copy_disk cm two_drive src dst w =
     Option.bind (transfer_with_retry cm False src ''Reading'' (LINE 13) (LINE 16) w) (\<lambda>(ab, w1).
       if ab then Some (True, w1)
       else Option.bind (if two_drive then Some w1 else swap_disk cm src w1) (\<lambda>w2.
              Option.bind (format_with_retry cm dst w2) (\<lambda>(ab, w3).
                if ab then Some (True, w3)
                else transfer_with_retry cm True dst ''Writing'' (LINE 14) (LINE 16) w3)))"

definition eject_all :: "'d copier \<Rightarrow> bool \<Rightarrow> 16 word \<Rightarrow> 16 word \<Rightarrow> 'd Desk \<Rightarrow> 'd Desk option" where
  "eject_all cm two_drive src dst w =
     (if two_drive
      then Option.bind (eject_floppy cm src w) (\<lambda>(e1, w1).
             map_option (\<lambda>(e2, w2). paint_result cm (LINE 17) ''Eject dest '' e2 (paint_result cm (LINE 16) ''Eject source '' e1 w2))
               (eject_floppy cm dst w1))
      else map_option (\<lambda>(e2, w1). paint_result cm (LINE 16) ''Eject dest '' e2 w1) (eject_floppy cm dst w))"

definition aborted :: "'d copier \<Rightarrow> 'd Desk \<Rightarrow> bool \<times> 'd Desk" where
  "aborted cm w = (False, say cm (LINE 19) 1 ''ABORTED. Power-cycle when done.'' 31 w)"

text \<open>The program ends in a loop that does nothing: True after a complete copy.\<close>

definition copier_main :: "'d copier \<Rightarrow> 'd Desk \<Rightarrow> (bool \<times> 'd Desk) option" where
  "copier_main cm w =
     (let src = cp_boot_drive cm
      in Option.bind (menu cm src w) (\<lambda>(two_drive, w1).
           let dst = (if two_drive then other_drive src else src)
           in Option.bind (warning cm two_drive src dst w1) (\<lambda>(go_on, w2).
                if \<not> go_on then Some (aborted cm w2)
                else Option.bind (stage_source cm two_drive src w2) (\<lambda>w3.
                       Option.bind (copy_disk cm two_drive src dst w3) (\<lambda>(ab, w4).
                         if ab then Some (aborted cm w4)
                         else map_option (\<lambda>w5. (True, say cm (LINE 19) 1 ''COPY COMPLETE. Power-cycle when done.'' 37 w5))
                                (eject_all cm two_drive src dst w4))))))"

section \<open>What stays\<close>

text \<open>The addresses that matter: the image, and the pointer to the frame buffer.\<close>

definition watched :: "u32 set" where
  "watched = {a. a - IOBUF_BASE < DISK_BYTES} \<union> {a. a - 0x824 < 4}"

definition requested :: "IoPb \<Rightarrow> u32 set" where
  "requested pb = {a. a - io_buffer pb < io_req_count pb}"

definition same_on :: "u32 set \<Rightarrow> mem32 \<Rightarrow> mem32 \<Rightarrow> bool" where
  "same_on A m m1 \<longleftrightarrow> (\<forall>a \<in> A. m1 a = m a)"

definition mm :: "'d Desk \<Rightarrow> mem32" where
  "mm w = dp_mem (dk_disp w)"

text \<open>The frame buffer, if valid, lies apart from the image.\<close>

definition screen_clear :: "'d copier \<Rightarrow> u32 \<Rightarrow> 'd Desk \<Rightarrow> bool" where
  "screen_clear cm stride w \<longleftrightarrow> stable (cp_rows cm) stride (dk_disp w) \<and> 80 \<le> unat stride \<and> unat stride \<le> 4096 \<and>
     (let fb = fb_base (dk_disp w)
      in fb_ok fb \<longrightarrow> unat fb + 256 * unat stride \<le> 2 ^ 32 \<and> (unat fb + 256 * unat stride \<le> 0x200000 \<or> 0x2C8000 \<le> unat fb))"

text \<open>What the drives promise: a read without an error brings the bytes of the disk and no transfer touches more than
  it was asked for; a write without an error stores them; a control call concerns its own drive (after an
  eject the next disk is whatever the operator puts in); looking at the keys moves no disk; vectors are
  numbers below 1024. Failed transfers may leave anything in their own range.\<close>

definition drives :: "'d copier \<Rightarrow> ('d \<Rightarrow> 16 word \<Rightarrow> ram24) \<Rightarrow> bool" where
  "drives cm disk \<longleftrightarrow>
     (\<forall>pb m d e m1 d1. cp_read cm pb m d = (e, m1, d1) \<longrightarrow> disk d1 = disk d \<and> same_on (watched - requested pb) m m1 \<and>
        (e = Returned 0 \<longrightarrow> (\<forall>k < unat (io_req_count pb).
           m1 (io_buffer pb + of_nat k) = disk d (io_vrefnum pb) (unat (io_pos_offset pb) + k)))) \<and>
     (\<forall>pb m d e m1 d1. cp_write cm pb m d = (e, m1, d1) \<longrightarrow> same_on watched m m1 \<and>
        (\<forall>n. n \<noteq> io_vrefnum pb \<longrightarrow> disk d1 n = disk d n) \<and>
        (e = Returned 0 \<longrightarrow> disk d1 (io_vrefnum pb) =
           plant (unat (io_pos_offset pb)) (mem_bytes m (io_buffer pb) (unat (io_req_count pb))) (disk d (io_vrefnum pb)))) \<and>
     (\<forall>pb m d e m1 d1. cp_control cm pb m d = (e, m1, d1) \<longrightarrow> same_on watched m m1 \<and>
        (\<forall>n. n \<noteq> ct_vrefnum pb \<longrightarrow> disk d1 n = disk d n)) \<and>
     (\<forall>a d. disk (snd (cp_keymap cm a d)) = disk d) \<and>
     (\<forall>pb m d vec m1 d1. cp_read cm pb m d = (Faulted vec, m1, d1) \<or> cp_write cm pb m d = (Faulted vec, m1, d1) \<longrightarrow> unat vec < 1024)"

text \<open>A step that leaves the watched memory and the disks of some drives alone.\<close>

definition keeps_still :: "'d copier \<Rightarrow> ('d \<Rightarrow> 16 word \<Rightarrow> ram24) \<Rightarrow> u32 \<Rightarrow> 16 word set \<Rightarrow> 'd Desk \<Rightarrow> 'd Desk \<Rightarrow> bool" where
  "keeps_still cm disk stride N w w1 \<longleftrightarrow>
     (screen_clear cm stride w \<longrightarrow> screen_clear cm stride w1 \<and> same_on watched (mm w) (mm w1) \<and>
        (\<forall>n \<in> N. disk (dk_dev w1) n = disk (dk_dev w) n))"

lemma still_refl [simp]: "keeps_still cm disk stride N w w"
  by (simp add: keeps_still_def same_on_def)

lemma still_trans: "keeps_still cm disk stride N w w1 \<Longrightarrow> keeps_still cm disk stride N w1 w2 \<Longrightarrow> keeps_still cm disk stride N w w2"
  by (simp add: keeps_still_def same_on_def)

lemma still_mono: "keeps_still cm disk stride N w w1 \<Longrightarrow> M \<subseteq> N \<Longrightarrow> keeps_still cm disk stride M w w1"
  by (auto simp: keeps_still_def)

lemma fb_base_same:
  assumes "same_on {a. a - 0x824 < 4} (dp_mem d) (dp_mem d1)"
  shows "fb_base d1 = fb_base d"
proof -
  have "dp_mem d1 (0x824 + k) = dp_mem d (0x824 + k)" if "k < 4" for k
    using assms that by (simp add: same_on_def)
  from this [of 0] this [of 1] this [of 2] this [of 3] show ?thesis by (simp add: fb_base_def rd_long_def rd_word_def)
qed

lemma screen_clear_mem:
  assumes "screen_clear cm stride w" "same_on {a. a - 0x824 < 4} (mm w) m"
  shows "screen_clear cm stride (w\<lparr>dk_disp := (dk_disp w)\<lparr>dp_mem := m\<rparr>, dk_dev := d\<rparr>)"
proof -
  have "fb_base ((dk_disp w)\<lparr>dp_mem := m\<rparr>) = fb_base (dk_disp w)" by (rule fb_base_same) (use assms(2) in \<open>simp add: mm_def\<close>)
  then show ?thesis using assms(1) stable_mem by (simp add: screen_clear_def)
qed

lemma watched_far:
  assumes "a \<in> watched" "fb_ok fb" "unat fb + L \<le> 2 ^ 32" "unat fb + L \<le> 0x200000 \<or> 0x2C8000 \<le> unat fb"
  shows "L \<le> unat (a - fb)"
proof -
  have f: "0x100000 \<le> unat fb" using assms(2) by (simp add: fb_ok_def word_le_nat_alt)
  have s: "unat (a - fb) = (if unat fb \<le> unat a then unat a - unat fb else unat a + 2 ^ 32 - unat fb)"
    by (simp add: unat_sub_if_size word_size)
  have "0x200000 \<le> unat a \<and> unat a < 0x2C8000 \<or> unat a < 0x828"
  proof (cases "a - IOBUF_BASE < DISK_BYTES")
    case True
    define k where "k = unat (a - IOBUF_BASE)"
    have k: "k < 819200" using True by (simp add: k_def DISK_BYTES_def word_less_nat_alt)
    have "a = IOBUF_BASE + of_nat k" by (simp add: k_def)
    then have "unat a = 0x200000 + k" using k by (simp add: IOBUF_BASE_def unat_word_ariths unat_of_nat)
    then show ?thesis using k by simp
  next
    case False
    define k where "k = unat (a - 0x824)"
    have k: "k < 4" using False assms(1) by (simp add: k_def watched_def word_less_nat_alt)
    have "a = 0x824 + of_nat k" by (simp add: k_def)
    then have "unat a = 0x824 + k" using k by (simp add: unat_word_ariths unat_of_nat)
    then show ?thesis using k by simp
  qed
  then show ?thesis using assms(3,4) f unfolding s by auto
qed

lemma cells_far:
  assumes "unat stride * 8 \<le> unat (a - p)" "0 < unat stride"
  shows "cells_mem (unat stride) p cs m a = m a"
proof -
  have "8 \<le> unat (a - p) div unat stride" using div_le_mono [OF assms(1), of "unat stride"] assms(2) by simp
  then show ?thesis by (simp add: cells_mem_def Let_def)
qed

lemma say_still:
  assumes "unat row \<le> 228" "unat col \<le> 30" "n \<le> 50"
  shows "keeps_still cm disk stride N w (say cm row col s n w)"
proof (cases "screen_clear cm stride w \<and> fb_ok (fb_base (dk_disp w))")
  case True
  let ?d = "dk_disp w" let ?fb = "fb_base (dk_disp w)" let ?p = "?fb + row * stride + col"
  have st: "stable (cp_rows cm) stride ?d" and S: "80 \<le> unat stride" "unat stride \<le> 4096"
    and L: "unat ?fb + 256 * unat stride \<le> 2 ^ 32" "unat ?fb + 256 * unat stride \<le> 0x200000 \<or> 0x2C8000 \<le> unat ?fb"
    using True by (simp_all add: screen_clear_def Let_def)
  have "length (cell_chars s n) \<le> unat stride" "9 * unat stride \<le> 2 ^ 32" using assms(3) S by simp_all
  note P = paint_cells_mem [OF st this(2) this(1), of ?p]
  have d: "paint_string (cp_rows cm) row col s n ?d = paint_cells (cp_rows cm) ?p (cell_chars s n) ?d"
    using True by (simp add: paint_string_def stable_row [OF st])
  have "cells_mem (unat stride) ?p (cell_chars s n) m a = m a" if a: "a \<in> watched" for a m
  proof (rule cells_far)
    have far: "256 * unat stride \<le> unat (a - ?fb)" by (rule watched_far [OF a _ L]) (use True in simp)
    have rs: "unat row * unat stride \<le> 228 * unat stride" using assms(1) by simp
    then have o: "unat (row * stride + col) = unat row * unat stride + unat col"
    proof -
      have "unat row * unat stride + unat col < 4294967296" using rs assms(2) S by linarith
      then show ?thesis by (simp add: unat_word_ariths)
    qed
    have "a - ?p = (a - ?fb) - (row * stride + col)" by simp
    moreover have "unat (row * stride + col) \<le> unat (a - ?fb)" using o rs far assms(2) S by linarith
    ultimately have "unat (a - ?p) = unat (a - ?fb) - unat (row * stride + col)"
      by (simp only: unat_sub_if_size if_True)
    then show "unat stride * 8 \<le> unat (a - ?p)" using o rs far assms(2) S by linarith
    show "0 < unat stride" using S by simp
  qed
  then have m: "same_on watched (mm w) (mm (say cm row col s n w))"
    by (simp add: same_on_def mm_def say_def d P(2))
  then have "same_on {a. a - 0x824 < 4} (dp_mem ?d) (dp_mem (paint_string (cp_rows cm) row col s n ?d))"
    by (simp add: same_on_def mm_def say_def watched_def)
  then have "fb_base (dk_disp (say cm row col s n w)) = ?fb" by (simp add: fb_base_same say_def)
  then have "screen_clear cm stride (say cm row col s n w)"
    using True P(1) by (simp add: screen_clear_def say_def d)
  then show ?thesis using m by (simp add: keeps_still_def say_def)
next
  case False
  then show ?thesis by (auto simp: keeps_still_def say_def paint_string_def same_on_def mm_def)
qed

lemmas still_intros = still_refl say_still

lemma length_result_text: "length (result_text label res) \<le> 34"
proof -
  define ds where "ds = dropWhile (\<lambda>c. c = CHR '' '') (put_dec (of_int \<bar>sint res\<bar>) 5)"
  have "length ds \<le> 5"
    unfolding ds_def by (rule order_trans [OF length_dropWhile_le]) (simp add: put_dec_def Let_def)
  moreover have "length (take 24 label) \<le> 24" by simp
  ultimately show ?thesis unfolding result_text_def Let_def ds_def [symmetric] by (cases "ds = []"; cases "sint res < 0") simp_all
qed

lemma paint_result_still: "unat row \<le> 228 \<Longrightarrow> keeps_still cm disk stride N w (paint_result cm row label res w)"
  unfolding paint_result_def by (rule say_still) (use length_result_text [of label res] in \<open>simp_all\<close>)

lemma blank_line_still: "unat row \<le> 228 \<Longrightarrow> keeps_still cm disk stride N w (blank_line cm row w)"
  unfolding blank_line_def by (rule say_still) simp_all

lemma key_down_still:
  assumes "drives cm disk" "key_down cm kc w = (b, w1)"
  shows "keeps_still cm disk stride N w w1"
proof -
  obtain x d where k: "cp_keymap cm (KEYMAP_BASE + ucast (drop_bit 3 kc)) (dk_dev w) = (x, d)" by fastforce
  have "\<forall>a d. disk (snd (cp_keymap cm a d)) = disk d" using assms(1) unfolding drives_def by blast
  then have "disk d = disk (dk_dev w)" using k by (metis snd_conv)
  moreover have "w1 = w\<lparr>dk_dev := d\<rparr>" using assms(2) k by (simp add: key_down_def)
  ultimately show ?thesis by (simp add: keeps_still_def screen_clear_def same_on_def mm_def)
qed

lemma poll_until_still:
  "poll_until cm kc v w = Some w1 \<Longrightarrow> drives cm disk \<Longrightarrow> keeps_still cm disk stride N w w1"
proof (induction cm kc v w w1 rule: poll_until.raw_induct [rotated, consumes 1])
  case (1 poll cm kc v w w1)
  obtain b w2 where k: "key_down cm kc w = (b, w2)" by fastforce
  note s = key_down_still [OF 1(3) k, of stride N]
  show ?case
  proof (cases "b = v")
    case True
    then show ?thesis using 1(2) k s by simp
  next
    case False
    then have "poll cm kc v w2 = Some w1" using 1(2) k by simp
    then show ?thesis using 1(1) [OF _ 1(3)] still_trans [OF s] by blast
  qed
qed

lemma wait_key_still: "drives cm disk \<Longrightarrow> wait_key cm kc w = Some w1 \<Longrightarrow> keeps_still cm disk stride N w w1"
  unfolding wait_key_def by (auto simp: bind_eq_Some_conv intro: still_trans poll_until_still)

lemma choose_key_cases:
  assumes "choose_key cm k1 k2 w = Some r" "drives cm disk"
  shows "keeps_still cm disk stride N w (snd r)"
  using assms
proof (induction cm k1 k2 w r rule: choose_key.raw_induct [rotated, consumes 1])
  case (1 choice cm k1 k2 w r)
  obtain b1 w1 where k1: "key_down cm k1 w = (b1, w1)" by fastforce
  obtain b2 w2 where k2: "key_down cm k2 w1 = (b2, w2)" by fastforce
  note s1 = key_down_still [OF 1(3) k1, of stride N]
  note s2 = still_trans [OF s1 key_down_still [OF 1(3) k2, of stride N]]
  consider (first) w3 where "wait_key cm k1 w1 = Some w3" "snd r = w3"
    | (second) w3 where "wait_key cm k2 w2 = Some w3" "snd r = w3"
    | (neither) "choice cm k1 k2 w2 = Some r"
    using 1(2) k1 k2 by (cases b1; cases b2) auto
  then show ?case
  proof cases
    case first
    then show ?thesis using still_trans [OF s1 wait_key_still [OF 1(3)]] by blast
  next
    case second
    then show ?thesis using still_trans [OF s2 wait_key_still [OF 1(3)]] by blast
  next
    case neither
    then show ?thesis using still_trans [OF s2 1(1) [OF _ 1(3)]] by blast
  qed
qed

lemmas choose_key_still = choose_key_cases [where r = "(b, w1)" for b w1, unfolded snd_conv]

lemma control_still:
  assumes "drives cm disk" "control cm pb w = (e, w1)"
  shows "keeps_still cm disk stride (- {ct_vrefnum pb}) w w1"
proof -
  obtain m d where c: "cp_control cm pb (dp_mem (dk_disp w)) (dk_dev w) = (e, m, d)"
      "w1 = w\<lparr>dk_disp := (dk_disp w)\<lparr>dp_mem := m\<rparr>, dk_dev := d\<rparr>"
    using assms(2) by (auto simp: control_def split: prod.splits)
  have s: "same_on watched (mm w) m" "\<And>n. n \<noteq> ct_vrefnum pb \<Longrightarrow> disk d n = disk (dk_dev w) n"
    using assms(1) c(1) unfolding drives_def mm_def by blast+
  then have "same_on {a. a - 0x824 < 4} (mm w) m" by (simp add: same_on_def watched_def)
  then show ?thesis using s screen_clear_mem [of cm stride w m d] by (simp add: keeps_still_def c(2)) (simp add: mm_def)
qed

lemma eject_still:
  assumes "drives cm disk" "eject_floppy cm dr w = Some (r, w1)"
  shows "keeps_still cm disk stride (- {dr}) w w1"
  using assms(2) control_still [OF assms(1), of "\<lparr>ct_vrefnum = dr, ct_refnum = SONY_REFNUM, ct_cscode = 7\<rparr>" w _ w1 stride]
  by (auto simp: eject_floppy_def split: prod.splits trap_end.splits)

lemma sony_format_still:
  assumes "drives cm disk" "sony_format cm dr w = (r, w1)"
  shows "keeps_still cm disk stride (- {dr}) w w1"
  using assms(2) control_still [OF assms(1), of "\<lparr>ct_vrefnum = dr, ct_refnum = SONY_REFNUM, ct_cscode = 6\<rparr>" w _ w1 stride]
  by (auto simp: sony_format_def split: prod.splits trap_end.splits)

lemma rows_small:
  "unat (LINE 9) = 108" "unat (LINE 10) = 120" "unat (LINE 11) = 132" "unat (LINE 12) = 144" "unat (LINE 13) = 156"
  "unat (LINE 14) = 168" "unat (LINE 16) = 192" "unat (LINE 17) = 204" "unat (LINE 16 + 12) = 204"
  by (simp_all add: LINE_def)

lemma swap_still:
  assumes "drives cm disk" "swap_disk cm src w = Some w1"
  shows "keeps_still cm disk stride (- {src}) w w1"
proof -
  obtain ej w2 where e: "eject_floppy cm src w = Some (ej, w2)" using assms(2) by (auto simp: swap_disk_def bind_eq_Some_conv)
  define w3 where "w3 = say cm (LINE 9) 1 ''Insert DEST disk (will be erased).      '' 40 (paint_result cm (LINE 11) ''Eject source '' ej w2)"
  define w4 where "w4 = say cm (LINE 12) 1 ''Press RETURN when ready ...'' 27 (blank_line cm (LINE 10) w3)"
  obtain w5 where k: "wait_key cm KC_RETURN w4 = Some w5" "w1 = blank_line cm (LINE 12) w5"
    using assms(2) e by (auto simp: swap_disk_def w4_def w3_def Let_def)
  note t = still_trans [where cm = cm and disk = disk and stride = stride and N = "- {src}"]
  show ?thesis
  proof -
    have 1: "keeps_still cm disk stride (- {src}) w w2" by (rule eject_still [OF assms(1) e])
    have 2: "keeps_still cm disk stride (- {src}) w2 w3"
      unfolding w3_def by (rule t [OF paint_result_still say_still]) (simp_all add: rows_small)
    have 3: "keeps_still cm disk stride (- {src}) w3 w4"
      unfolding w4_def by (rule t [OF blank_line_still say_still]) (simp_all add: rows_small)
    have 4: "keeps_still cm disk stride (- {src}) w4 w5" by (rule wait_key_still [OF assms(1) k(1)])
    have "keeps_still cm disk stride (- {src}) w5 w1" unfolding k(2) by (rule blank_line_still) (simp add: rows_small)
    then show ?thesis using t [OF 1 t [OF 2 t [OF 3 t [OF 4]]]] by blast
  qed
qed

text \<open>A retry: two lines are painted, a key is taken, the lines are cleared.\<close>

lemma retry_still:
  assumes "drives cm disk" "unat row \<le> 200" "unat row1 \<le> 220"
    "choose_key cm k1 k2 (say cm row1 1 t 40 (paint_result cm row lbl r w)) = Some (b, w1)"
  shows "keeps_still cm disk stride N w w1" "keeps_still cm disk stride N w (blank_line cm row1 (blank_line cm row w1))"
proof -
  note t = still_trans [where cm = cm and disk = disk and stride = stride and N = N]
  have "keeps_still cm disk stride N w (say cm row1 1 t 40 (paint_result cm row lbl r w))"
    by (rule t [OF paint_result_still say_still]) (use assms(2,3) in simp_all)
  then show 1: "keeps_still cm disk stride N w w1" using t choose_key_still [OF assms(4,1)] by blast
  show "keeps_still cm disk stride N w (blank_line cm row1 (blank_line cm row w1))"
    by (rule t [OF 1], rule t [OF blank_line_still blank_line_still]) (use assms(2,3) in simp_all)
qed

lemma format_still:
  assumes "format_with_retry cm dst w = Some r" "drives cm disk"
  shows "keeps_still cm disk stride (- {dst}) w (snd r)"
  using assms
proof (induction cm dst w r rule: format_with_retry.raw_induct [rotated, consumes 1])
  case (1 fmt cm dst w r)
  note t = still_trans [where cm = cm and disk = disk and stride = stride and N = "- {dst}"]
  obtain fr w1 where f: "sony_format cm dst (say cm (LINE 13) 1 ''Formatting dest ...                     '' 40 w) = (fr, w1)"
    by fastforce
  have s: "keeps_still cm disk stride (- {dst}) w w1"
    by (rule t [OF say_still sony_format_still [OF 1(3) f]]) (simp_all add: rows_small)
  show ?case
  proof (cases "fr = 0")
    case True
    then have "r = (False, say cm (LINE 13) 1 ''Formatting dest ... done                '' 40 w1)" using 1(2) f by simp
    then show ?thesis using t [OF s say_still] by (simp add: rows_small)
  next
    case False
    then obtain b w2 where c: "choose_key cm KC_RETURN KC_ESC (say cm (LINE 17) 1 ''RETURN=retry   ESC=abort                '' 40
        (paint_result cm (LINE 16) ''FORMAT failed '' fr w1)) = Some (b, w2)"
        "(if b then fmt cm dst (blank_line cm (LINE 17) (blank_line cm (LINE 16) w2)) else Some (True, w2)) = Some r"
      using 1(2) f by (auto simp: bind_eq_Some_conv)
    note k = retry_still [OF 1(3) _ _ c(1), of stride "- {dst}", unfolded rows_small, simplified]
    show ?thesis
    proof (cases b)
      case True
      then have "fmt cm dst (blank_line cm (LINE 17) (blank_line cm (LINE 16) w2)) = Some r" using c(2) by simp
      then show ?thesis using 1(1) [OF _ 1(3)] t [OF s t [OF k(2)]] by blast
    next
      case False
      then have "r = (True, w2)" using c(2) by simp
      then show ?thesis using t [OF s k(1)] by simp
    qed
  qed
qed

section \<open>Transfers are exact\<close>

lemma fault_not_0: "unat vec < 1024 \<Longrightarrow> vector_to_err vec \<noteq> 0"
proof
  assume v: "unat vec < 1024" and "vector_to_err vec = 0"
  then have "unat (30000 + vec) = 0" by (simp add: vector_to_err_def EXC_ERR_BASE_def)
  then show False using v by (simp add: unat_word_ariths)
qed

lemma xfer_write:
  assumes "drives cm disk" "xfer cm True dr buf off len w = (r, w1)"
  shows "keeps_still cm disk stride (- {dr}) w w1"
    "r = 0 \<Longrightarrow> disk (dk_dev w1) dr = plant (unat off) (mem_bytes (mm w) buf (unat len)) (disk (dk_dev w) dr)"
proof -
  let ?pb = "copy_pb dr buf off len"
  obtain e m d where c: "cp_write cm ?pb (mm w) (dk_dev w) = (e, m, d)"
      "r = (case e of Returned r \<Rightarrow> r | Faulted vec \<Rightarrow> vector_to_err vec)"
      "w1 = w\<lparr>dk_disp := (dk_disp w)\<lparr>dp_mem := m\<rparr>, dk_dev := d\<rparr>"
    using assms(2) by (auto simp: xfer_def mm_def split: prod.splits)
  have s: "same_on watched (mm w) m" "\<And>n. n \<noteq> dr \<Longrightarrow> disk d n = disk (dk_dev w) n"
    and z: "e = Returned 0 \<Longrightarrow> disk d dr = plant (unat off) (mem_bytes (mm w) buf (unat len)) (disk (dk_dev w) dr)"
    and f: "\<And>vec. e = Faulted vec \<Longrightarrow> unat vec < 1024"
    using assms(1) c(1) unfolding drives_def by (fastforce simp: copy_pb_def)+
  have "same_on {a. a - 0x824 < 4} (mm w) m" using s(1) by (simp add: same_on_def watched_def)
  then show "keeps_still cm disk stride (- {dr}) w w1"
    using s screen_clear_mem [of cm stride w m d] by (simp add: keeps_still_def c(3)) (simp add: mm_def)
  show "disk (dk_dev w1) dr = plant (unat off) (mem_bytes (mm w) buf (unat len)) (disk (dk_dev w) dr)" if "r = 0"
    using that c(2) z f fault_not_0 by (cases e) (auto simp: c(3))
qed

lemma length_put_dec: "length (put_dec v n) \<le> n"
  by (simp add: put_dec_def Let_def)

lemma length_progress_text: "length (progress_text ph off) \<le> 50"
proof -
  have "length (filter (\<lambda>c. c \<noteq> CHR '' '') (put_dec (off * 100 div DISK_BYTES) 3)) \<le> 3"
    by (rule order_trans [OF length_filter_le length_put_dec])
  moreover have "length (put_dec (off div 512) 4) \<le> 4" by (rule length_put_dec)
  moreover have "length (copy_padded 13 (take 12 ph)) = 13" by (simp add: copy_padded_def)
  ultimately show ?thesis unfolding progress_text_def length_append by simp
qed

lemma chunk_length:
  assumes "off < DISK_BYTES" "chunk = (if DISK_BYTES - off > CHUNK_BYTES then CHUNK_BYTES else DISK_BYTES - off)"
  shows "unat (off + chunk) = unat off + unat chunk" "unat off + unat chunk \<le> 819200" "0 < unat chunk"
proof -
  note s = chunk_step [OF assms(1)]
  have d: "unat (DISK_BYTES - off) = 819200 - unat off"
    using s(2) by (simp add: DISK_BYTES_def unat_sub_if_size word_size)
  have "unat chunk = min 32768 (819200 - unat off)"
    unfolding assms(2) using d by (auto simp: word_less_nat_alt CHUNK_BYTES_def)
  then show "unat (off + chunk) = unat off + unat chunk" "unat off + unat chunk \<le> 819200" "0 < unat chunk"
    using s unfolding assms(2) by auto
qed

lemma write_from:
  assumes "drives cm disk" "unat row \<le> 228"
  shows "transfer_from cm True dr ph row off w = (r, w1) \<Longrightarrow> screen_clear cm stride w \<Longrightarrow>
    keeps_still cm disk stride (- {dr}) w w1 \<and>
    (r = 0 \<longrightarrow> (\<forall>k < 819200. disk (dk_dev w1) dr k = (if k < unat off then disk (dk_dev w) dr k else mm w (IOBUF_BASE + of_nat k))))"
proof (induction "819200 - unat off" arbitrary: off w rule: less_induct)
  case less
  show ?case
  proof (cases "off < DISK_BYTES")
    case False
    then have "819200 \<le> unat off" by (simp add: DISK_BYTES_def word_less_nat_alt)
    then show ?thesis using less(2) False by (simp add: transfer_from.simps [of cm True])
  next
    case True
    define chunk where "chunk = (if DISK_BYTES - off > CHUNK_BYTES then CHUNK_BYTES else DISK_BYTES - off)"
    note c = chunk_length [OF True chunk_def]
    obtain r2 w2 where x: "xfer cm True dr (IOBUF_BASE + off) off chunk w = (r2, w2)" by fastforce
    note k = xfer_write(1) [OF assms(1) x, of stride]
    show ?thesis
    proof (cases "r2 = 0")
      case False
      then have "r = r2 \<and> w1 = w2" using less(2) True x by (simp add: transfer_from.simps [of cm True] chunk_def [symmetric] Let_def)
      then show ?thesis using k False by simp
    next
      case z: True
      define w3 where "w3 = say cm row 1 (progress_text ph (off + chunk)) (length (progress_text ph (off + chunk))) w2"
      have rest: "transfer_from cm True dr ph row (off + chunk) w3 = (r, w1)"
        using less(2) True x z by (simp add: transfer_from.simps [of cm True dr ph row off] chunk_def [symmetric] Let_def w3_def)
      have s: "keeps_still cm disk stride UNIV w2 w3"
        unfolding w3_def by (rule say_still) (use assms(2) length_progress_text in simp_all)
      have k3: "keeps_still cm disk stride (- {dr}) w w3" using still_trans [OF k still_mono [OF s]] by simp
      then have sc: "screen_clear cm stride w3" "same_on watched (mm w) (mm w3)" using less(3) by (simp_all add: keeps_still_def)
      have "819200 - unat (off + chunk) < 819200 - unat off" using c True by (simp add: DISK_BYTES_def word_less_nat_alt)
      note IH = less(1) [OF this rest sc(1)]
      have d3: "disk (dk_dev w3) dr = plant (unat off) (mem_bytes (mm w) (IOBUF_BASE + off) (unat chunk)) (disk (dk_dev w) dr)"
        using s k less(3) xfer_write(2) [OF assms(1) x z] by (simp add: keeps_still_def)
      have im: "mm w3 (IOBUF_BASE + of_nat j) = mm w (IOBUF_BASE + of_nat j)" if "j < 819200" for j
        using sc(2) that by (simp add: same_on_def watched_def word_less_nat_alt DISK_BYTES_def unat_of_nat)
      have "disk (dk_dev w1) dr j = (if j < unat off then disk (dk_dev w) dr j else mm w (IOBUF_BASE + of_nat j))"
        if r: "r = 0" and j: "j < 819200" for j
      proof -
        have "disk (dk_dev w1) dr j = (if j < unat off + unat chunk then disk (dk_dev w3) dr j else mm w3 (IOBUF_BASE + of_nat j))"
          using IH r j by (simp add: c(1))
        moreover have "mem_bytes (mm w) (IOBUF_BASE + off) (unat chunk) ! (j - unat off) = mm w (IOBUF_BASE + of_nat j)"
          if "unat off \<le> j" "j < unat off + unat chunk"
        proof -
          have "off + of_nat (j - unat off) = of_nat j" using that by (simp add: of_nat_diff)
          then show ?thesis using that by (simp add: mem_bytes_def add.assoc)
        qed
        ultimately show ?thesis using im [OF j] by (auto simp: d3 plant_def mem_bytes_def)
      qed
      then show ?thesis using still_trans [OF k3] IH by blast
    qed
  qed
qed

lemma pointer_apart:
  assumes "unat off + unat len \<le> 819200" "a - 0x824 < 4"
  shows "\<not> a - (IOBUF_BASE + off) < len"
proof
  assume l: "a - (IOBUF_BASE + off) < len"
  define j where "j = unat (a - (IOBUF_BASE + off))"
  have "j < unat len" using l by (simp add: j_def word_less_nat_alt)
  have "a = IOBUF_BASE + (off + of_nat j)" by (simp add: j_def)
  moreover have "unat (off + of_nat j) = unat off + j" using assms(1) \<open>j < unat len\<close> by (simp add: unat_word_ariths unat_of_nat)
  ultimately have "unat a = 0x200000 + (unat off + j)"
    using assms(1) \<open>j < unat len\<close> by (simp add: IOBUF_BASE_def unat_word_ariths)
  moreover define i where "i = unat (a - 0x824)"
  moreover have "i < 4" using assms(2) by (simp add: i_def word_less_nat_alt)
  moreover have "a = 0x824 + of_nat i" by (simp add: i_def)
  then have "unat a = 0x824 + i" using \<open>i < 4\<close> by (simp add: unat_word_ariths unat_of_nat)
  ultimately show False by simp
qed

lemma xfer_read:
  assumes "drives cm disk" "xfer cm False dr (IOBUF_BASE + off) off len w = (r, w1)" "unat off + unat len \<le> 819200"
  shows "screen_clear cm stride w \<Longrightarrow> screen_clear cm stride w1" "disk (dk_dev w1) = disk (dk_dev w)"
    "r = 0 \<Longrightarrow> j < 819200 \<Longrightarrow> mm w1 (IOBUF_BASE + of_nat j) =
       (if unat off \<le> j \<and> j < unat off + unat len then disk (dk_dev w) dr j else mm w (IOBUF_BASE + of_nat j))"
proof -
  let ?pb = "copy_pb dr (IOBUF_BASE + off) off len"
  obtain e m d where c: "cp_read cm ?pb (mm w) (dk_dev w) = (e, m, d)"
      "r = (case e of Returned r \<Rightarrow> r | Faulted vec \<Rightarrow> vector_to_err vec)"
      "w1 = w\<lparr>dk_disp := (dk_disp w)\<lparr>dp_mem := m\<rparr>, dk_dev := d\<rparr>"
    using assms(2) by (auto simp: xfer_def mm_def split: prod.splits)
  have s: "same_on (watched - requested ?pb) (mm w) m" "disk d = disk (dk_dev w)"
    and z: "e = Returned 0 \<Longrightarrow> i < unat len \<Longrightarrow> m (IOBUF_BASE + off + of_nat i) = disk (dk_dev w) dr (unat off + i)"
    and f: "\<And>vec. e = Faulted vec \<Longrightarrow> unat vec < 1024" for i
    using assms(1) c(1) unfolding drives_def by (fastforce simp: copy_pb_def)+
  have "same_on {a. a - 0x824 < 4} (mm w) m"
    using s(1) pointer_apart [OF assms(3)] by (simp add: same_on_def watched_def requested_def copy_pb_def)
  then show "screen_clear cm stride w \<Longrightarrow> screen_clear cm stride w1"
    using screen_clear_mem [of cm stride w m d] by (simp add: c(3))
  show "disk (dk_dev w1) = disk (dk_dev w)" by (simp add: c(3) s(2))
  assume r: "r = 0" and j: "j < 819200"
  have e: "e = Returned 0" using r c(2) f fault_not_0 by (cases e) auto
  show "mm w1 (IOBUF_BASE + of_nat j) =
       (if unat off \<le> j \<and> j < unat off + unat len then disk (dk_dev w) dr j else mm w (IOBUF_BASE + of_nat j))"
  proof (cases "unat off \<le> j \<and> j < unat off + unat len")
    case True
    then have "off + of_nat (j - unat off) = of_nat j" by (simp add: of_nat_diff)
    moreover have "j - unat off < unat len" using True by linarith
    ultimately have "m (IOBUF_BASE + of_nat j) = disk (dk_dev w) dr j" using z [OF e, of "j - unat off"] True by (simp add: add.assoc)
    then show ?thesis using True by (simp add: c(3) mm_def)
  next
    case False
    have u: "unat (of_nat j :: u32) = j" using j by (simp add: unat_of_nat)
    have "\<not> of_nat j - off < len"
    proof
      assume "of_nat j - off < len"
      then have "unat (of_nat j - off) < unat len" by (simp add: word_less_nat_alt)
      moreover have "unat off \<le> j"
      proof (rule ccontr)
        assume "\<not> unat off \<le> j"
        then have "unat (of_nat j - off) = j + 4294967296 - unat off" by (simp add: unat_sub_if_size word_size u)
        then show False using \<open>unat (of_nat j - off) < unat len\<close> assms(3) by linarith
      qed
      moreover from this have "unat (of_nat j - off) = j - unat off" by (simp add: unat_sub_if_size word_size u)
      ultimately show False using False by linarith
    qed
    moreover have "IOBUF_BASE + of_nat j - (IOBUF_BASE + off) = of_nat j - off" by simp
    ultimately have "IOBUF_BASE + of_nat j \<in> watched - requested ?pb"
      using j by (simp add: watched_def requested_def copy_pb_def word_less_nat_alt DISK_BYTES_def u)
    then have "m (IOBUF_BASE + of_nat j) = mm w (IOBUF_BASE + of_nat j)" using s(1) unfolding same_on_def by blast
    then show ?thesis unfolding if_not_P [OF False] by (simp add: c(3) mm_def)
  qed
qed

lemma image_same: "same_on watched (mm w) (mm w1) \<Longrightarrow> j < 819200 \<Longrightarrow> mm w1 (IOBUF_BASE + of_nat j) = mm w (IOBUF_BASE + of_nat j)"
  by (simp add: same_on_def watched_def word_less_nat_alt DISK_BYTES_def unat_of_nat)

lemma read_from:
  assumes "drives cm disk" "unat row \<le> 228"
  shows "transfer_from cm False dr ph row off w = (r, w1) \<Longrightarrow> screen_clear cm stride w \<Longrightarrow>
    screen_clear cm stride w1 \<and> disk (dk_dev w1) = disk (dk_dev w) \<and>
    (r = 0 \<longrightarrow> (\<forall>j < 819200. mm w1 (IOBUF_BASE + of_nat j) =
       (if j < unat off then mm w (IOBUF_BASE + of_nat j) else disk (dk_dev w) dr j)))"
proof (induction "819200 - unat off" arbitrary: off w rule: less_induct)
  case less
  show ?case
  proof (cases "off < DISK_BYTES")
    case False
    then have "819200 \<le> unat off" by (simp add: DISK_BYTES_def word_less_nat_alt)
    then show ?thesis using less(2,3) False by (simp add: transfer_from.simps [of cm False])
  next
    case True
    define chunk where "chunk = (if DISK_BYTES - off > CHUNK_BYTES then CHUNK_BYTES else DISK_BYTES - off)"
    note c = chunk_length [OF True chunk_def]
    obtain r2 w2 where x: "xfer cm False dr (IOBUF_BASE + off) off chunk w = (r2, w2)" by fastforce
    note X = xfer_read [OF assms(1) x c(2)]
    show ?thesis
    proof (cases "r2 = 0")
      case False
      then have "r = r2 \<and> w1 = w2" using less(2) True x by (simp add: transfer_from.simps [of cm False] chunk_def [symmetric] Let_def)
      then show ?thesis using X(1) [OF less(3)] X(2) False by simp
    next
      case z: True
      define w3 where "w3 = say cm row 1 (progress_text ph (off + chunk)) (length (progress_text ph (off + chunk))) w2"
      have rest: "transfer_from cm False dr ph row (off + chunk) w3 = (r, w1)"
        using less(2) True x z by (simp add: transfer_from.simps [of cm False dr ph row off] chunk_def [symmetric] Let_def w3_def)
      have "keeps_still cm disk stride UNIV w2 w3"
        unfolding w3_def by (rule say_still) (use assms(2) length_progress_text in simp_all)
      then have sc: "screen_clear cm stride w3" "same_on watched (mm w2) (mm w3)" "disk (dk_dev w3) = disk (dk_dev w)"
        using X(1) [OF less(3)] X(2) by (auto simp: keeps_still_def)
      have "819200 - unat (off + chunk) < 819200 - unat off" using c True by (simp add: DISK_BYTES_def word_less_nat_alt)
      note IH = less(1) [OF this rest sc(1)]
      have "mm w1 (IOBUF_BASE + of_nat j) = (if j < unat off then mm w (IOBUF_BASE + of_nat j) else disk (dk_dev w) dr j)"
        if "r = 0" "j < 819200" for j
        using IH that X(3) [OF z that(2)] image_same [OF sc(2) that(2)] by (auto simp: c(1) sc(3))
      then show ?thesis using IH sc(3) by simp
    qed
  qed
qed

section \<open>The copy\<close>

lemma read_retry:
  assumes "transfer_with_retry cm False src ph row row1 w = Some r" "drives cm disk"
    "unat row \<le> 228" "unat row1 \<le> 200" "screen_clear cm stride w"
  shows "screen_clear cm stride (snd r) \<and> disk (dk_dev (snd r)) = disk (dk_dev w) \<and>
    (\<not> fst r \<longrightarrow> (\<forall>j < 819200. mm (snd r) (IOBUF_BASE + of_nat j) = disk (dk_dev w) src j))"
  using assms
proof (induction cm "False" src ph row row1 w r rule: transfer_with_retry.raw_induct [rotated, consumes 1])
  case (1 retry cm src ph row row1 w r)
  obtain e w1 where x: "transfer_all cm False src ph row w = (e, w1)" by fastforce
  note X = read_from [OF 1(3,4) x [unfolded transfer_all_def] 1(6)]
  show ?case
  proof (cases "e = 0")
    case True
    then have "r = (False, w1)" using 1(2) x by simp
    then show ?thesis using X True by simp
  next
    case False
    then obtain b w2 where c: "choose_key cm KC_RETURN KC_ESC (say cm (row1 + 12) 1 ''RETURN=retry  ESC=abort                 '' 40
        (paint_result cm row1 ''READ failed '' e w1)) = Some (b, w2)"
        "(if b then retry cm False src ph row row1 (blank_line cm (row1 + 12) (blank_line cm row1 w2)) else Some (True, w2)) = Some r"
      using 1(2) x by (auto simp: bind_eq_Some_conv)
    have "unat (row1 + 12) \<le> 220" using 1(5) by (simp add: unat_word_ariths)
    note k = retry_still [OF 1(3) 1(5) this c(1), of stride UNIV]
    then have s: "screen_clear cm stride w2" "disk (dk_dev w2) = disk (dk_dev w)"
        "screen_clear cm stride (blank_line cm (row1 + 12) (blank_line cm row1 w2))"
        "disk (dk_dev (blank_line cm (row1 + 12) (blank_line cm row1 w2))) = disk (dk_dev w)"
      using X by (auto simp: keeps_still_def)
    show ?thesis
    proof (cases b)
      case True
      then show ?thesis using 1(1) [OF _ 1(3,4,5) s(3)] c(2) s(4) by simp
    next
      case False
      then have "r = (True, w2)" using c(2) by simp
      then show ?thesis using s by simp
    qed
  qed
qed

lemma write_retry:
  assumes "transfer_with_retry cm True dst ph row row1 w = Some r" "drives cm disk"
    "unat row \<le> 228" "unat row1 \<le> 200" "screen_clear cm stride w"
  shows "keeps_still cm disk stride (- {dst}) w (snd r) \<and>
    (\<not> fst r \<longrightarrow> (\<forall>j < 819200. disk (dk_dev (snd r)) dst j = mm w (IOBUF_BASE + of_nat j)))"
  using assms
proof (induction cm "True" dst ph row row1 w r rule: transfer_with_retry.raw_induct [rotated, consumes 1])
  case (1 retry cm dst ph row row1 w r)
  obtain e w1 where x: "transfer_all cm True dst ph row w = (e, w1)" by fastforce
  note X = write_from [OF 1(3,4) x [unfolded transfer_all_def] 1(6)]
  show ?case
  proof (cases "e = 0")
    case True
    then have "r = (False, w1)" using 1(2) x by simp
    then show ?thesis using X True by simp
  next
    case False
    then obtain b w2 where c: "choose_key cm KC_RETURN KC_ESC (say cm (row1 + 12) 1 ''RETURN=retry  ESC=abort                 '' 40
        (paint_result cm row1 ''WRITE failed '' e w1)) = Some (b, w2)"
        "(if b then retry cm True dst ph row row1 (blank_line cm (row1 + 12) (blank_line cm row1 w2)) else Some (True, w2)) = Some r"
      using 1(2) x by (auto simp: bind_eq_Some_conv)
    have "unat (row1 + 12) \<le> 220" using 1(5) by (simp add: unat_word_ariths)
    note k = retry_still [OF 1(3) 1(5) this c(1), of stride "- {dst}"]
    let ?w3 = "blank_line cm (row1 + 12) (blank_line cm row1 w2)"
    have s: "keeps_still cm disk stride (- {dst}) w w2" "keeps_still cm disk stride (- {dst}) w ?w3"
      using still_trans k X by blast+
    then have sc: "screen_clear cm stride ?w3" "same_on watched (mm w) (mm ?w3)" using 1(6) by (simp_all add: keeps_still_def)
    show ?thesis
    proof (cases b)
      case True
      then show ?thesis using 1(1) [OF _ 1(3,4,5) sc(1)] c(2) still_trans [OF s(2)] image_same [OF sc(2)] by simp
    next
      case False
      then have "r = (True, w2)" using c(2) by simp
      then show ?thesis using s by simp
    qed
  qed
qed

text \<open>Drives on which no trap fails.\<close>

definition flawless :: "'d copier \<Rightarrow> bool" where
  "flawless cm \<longleftrightarrow>
     (\<forall>pb m d. fst (cp_read cm pb m d) = Returned 0 \<and> fst (cp_write cm pb m d) = Returned 0) \<and>
     (\<forall>pb m d. fst (cp_control cm pb m d) = Returned 0)"

lemma flawless_xfer:
  assumes "flawless cm"
  shows "fst (xfer cm wr dr buf off len w) = 0"
proof -
  obtain e m d where t: "(if wr then cp_write cm else cp_read cm) (copy_pb dr buf off len) (dp_mem (dk_disp w)) (dk_dev w) = (e, m, d)"
    by (metis prod_cases3)
  have "fst ((if wr then cp_write cm else cp_read cm) (copy_pb dr buf off len) (dp_mem (dk_disp w)) (dk_dev w)) = Returned 0"
    using assms by (simp add: flawless_def)
  then have "e = Returned 0" unfolding t by simp
  then show ?thesis by (simp add: xfer_def t)
qed

lemma flawless_format:
  assumes "flawless cm"
  shows "fst (sony_format cm dr w) = 0"
proof -
  obtain e m d where t: "cp_control cm \<lparr>ct_vrefnum = dr, ct_refnum = SONY_REFNUM, ct_cscode = 6\<rparr> (dp_mem (dk_disp w)) (dk_dev w) = (e, m, d)"
    by (metis prod_cases3)
  have "fst (cp_control cm \<lparr>ct_vrefnum = dr, ct_refnum = SONY_REFNUM, ct_cscode = 6\<rparr> (dp_mem (dk_disp w)) (dk_dev w)) = Returned 0"
    using assms by (simp add: flawless_def)
  then have "e = Returned 0" unfolding t by simp
  then show ?thesis by (simp add: sony_format_def control_def t)
qed

lemma flawless_transfer:
  assumes "flawless cm"
  shows "fst (transfer_from cm wr dr ph row off w) = 0"
proof (induction "819200 - unat off" arbitrary: off w rule: less_induct)
  case less
  show ?case
  proof (cases "off < DISK_BYTES")
    case True
    define chunk where "chunk = (if DISK_BYTES - off > CHUNK_BYTES then CHUNK_BYTES else DISK_BYTES - off)"
    note c = chunk_length [OF True chunk_def]
    have "fst (xfer cm wr dr (IOBUF_BASE + off) off chunk w) = 0" by (rule flawless_xfer [OF assms])
    then obtain w2 where x: "xfer cm wr dr (IOBUF_BASE + off) off chunk w = (0, w2)" by (metis prod.collapse)
    have "819200 - unat (off + chunk) < 819200 - unat off" using c True by (simp add: DISK_BYTES_def word_less_nat_alt)
    note IH = less [OF this]
    show ?thesis
      by (subst transfer_from.simps) (simp add: True chunk_def [symmetric] Let_def x IH)
  qed (simp add: transfer_from.simps [of cm])
qed

lemma flawless_copy:
  assumes "flawless cm"
  shows "\<exists>w1. copy_disk cm True src dst w = Some (False, w1)"
proof -
  have t: "\<exists>w1. transfer_with_retry cm wr dr ph row row1 w = Some (False, w1)" for wr dr ph row row1 w
  proof -
    obtain w1 where "transfer_all cm wr dr ph row w = (0, w1)"
      using flawless_transfer [OF assms, of wr dr ph row 0 w] unfolding transfer_all_def by (metis prod.collapse)
    then show ?thesis by (subst transfer_with_retry.simps) simp
  qed
  have f: "\<exists>w1. format_with_retry cm dst w = Some (False, w1)" for w
  proof -
    obtain w1 where "sony_format cm dst (say cm (LINE 13) 1 ''Formatting dest ...                     '' 40 w) = (0, w1)"
      using flawless_format [OF assms] by (metis prod.collapse)
    then show ?thesis by (subst format_with_retry.simps) simp
  qed
  obtain w1 where "transfer_with_retry cm False src ''Reading'' (LINE 13) (LINE 16) w = Some (False, w1)" using t by blast
  moreover obtain w2 where "format_with_retry cm dst w1 = Some (False, w2)" using f by blast
  moreover obtain w3 where "transfer_with_retry cm True dst ''Writing'' (LINE 14) (LINE 16) w2 = Some (False, w3)" using t by blast
  ultimately show ?thesis by (simp add: copy_disk_def)
qed

text \<open>C15. A complete copy is exact. Whatever fails on the way and however often the operator retries, when the copy of a disk
  ends without being given up, the 800K of the destination are those of the source when the copy began, and in
  two-drive mode the source is unchanged. And if no trap fails, the copy in two-drive mode does end, without a key.\<close>

theorem copy_exact:
  assumes "drives cm disk" "screen_clear cm stride w" "two_drive \<longleftrightarrow> dst \<noteq> src"
  shows "(\<forall>w1. copy_disk cm two_drive src dst w = Some (False, w1) \<longrightarrow>
      (\<forall>j < 819200. disk (dk_dev w1) dst j = disk (dk_dev w) src j) \<and>
      (two_drive \<longrightarrow> disk (dk_dev w1) src = disk (dk_dev w) src)) \<and>
    (two_drive \<and> flawless cm \<longrightarrow> (\<exists>w1. copy_disk cm two_drive src dst w = Some (False, w1)))"
proof (intro conjI allI impI)
  show "\<exists>w1. copy_disk cm two_drive src dst w = Some (False, w1)" if "two_drive \<and> flawless cm"
    using that flawless_copy [of cm src dst w] by simp
next
  fix w1 assume complete: "copy_disk cm two_drive src dst w = Some (False, w1)"
  obtain ab w2 where r: "transfer_with_retry cm False src ''Reading'' (LINE 13) (LINE 16) w = Some (ab, w2)"
      and n: "\<not> ab" using complete by (auto simp: copy_disk_def bind_eq_Some_conv split: if_splits)
  note R = read_retry [OF r assms(1) _ _ assms(2), unfolded rows_small, simplified]
  obtain w3 where s: "(if two_drive then Some w2 else swap_disk cm src w2) = Some w3"
    using complete r n by (auto simp: copy_disk_def bind_eq_Some_conv)
  obtain ab2 w4 where f: "format_with_retry cm dst w3 = Some (ab2, w4)" and n2: "\<not> ab2"
    and wr: "transfer_with_retry cm True dst ''Writing'' (LINE 14) (LINE 16) w4 = Some (False, w1)"
    using complete r n s by (auto simp: copy_disk_def bind_eq_Some_conv split: if_splits)
  have S: "keeps_still cm disk stride (- {dst}) w2 w3"
    using s assms(3) swap_still [OF assms(1), of src w2 w3 stride] by (cases two_drive) auto
  have F: "keeps_still cm disk stride (- {dst}) w2 w4"
    using still_trans [OF S] format_still [OF f assms(1), of stride] by simp
  have sc: "screen_clear cm stride w2" using R by simp
  then have sc4: "screen_clear cm stride w4" "same_on watched (mm w2) (mm w4)" using F by (simp_all add: keeps_still_def)
  note W = write_retry [OF wr assms(1) _ _ sc4(1), unfolded rows_small, simplified]
  have "disk (dk_dev w1) dst j = disk (dk_dev w) src j" if "j < 819200" for j
    using W R n image_same [OF sc4(2) that] that by simp
  moreover have "disk (dk_dev w1) src = disk (dk_dev w) src" if "two_drive"
    using F W R sc sc4(1) that assms(3) by (simp add: keeps_still_def)
  ultimately show "\<And>j. j < 819200 \<Longrightarrow> disk (dk_dev w1) dst j = disk (dk_dev w) src j"
    "two_drive \<Longrightarrow> disk (dk_dev w1) src = disk (dk_dev w) src" by blast+
qed

section \<open>Two drives\<close>

definition two_floppies :: "(16 word \<Rightarrow> ram24) copier" where
  "two_floppies =
     \<lparr>cp_read = (\<lambda>pb m d. (Returned 0, (\<lambda>a. if a - io_buffer pb < io_req_count pb
         then d (io_vrefnum pb) (unat (io_pos_offset pb) + unat (a - io_buffer pb)) else m a), d)),
      cp_write = (\<lambda>pb m d. (Returned 0, m, d(io_vrefnum pb :=
         plant (unat (io_pos_offset pb)) (mem_bytes m (io_buffer pb) (unat (io_req_count pb))) (d (io_vrefnum pb))))),
      cp_control = (\<lambda>pb m d. (Returned 0, m, d)), cp_keymap = (\<lambda>a d. (0, d)), cp_rows = Fixed 80, cp_boot_drive = 1\<rparr>"

definition two_desk :: "(16 word \<Rightarrow> ram24) Desk" where
  "two_desk = \<lparr>dk_disp = demo_display, dk_dev = (\<lambda>n k. if n = 1 then of_nat k else 0)\<rparr>"

lemma drives_two_floppies: "drives two_floppies id"
proof -
  have u: "unat (of_nat k :: u32) = k \<and> of_nat k < n" if "k < unat (n :: u32)" for k n
    using that unsigned_less [of n, where 'a = nat] by (simp add: unat_of_nat word_less_nat_alt)
  show ?thesis
    by (auto simp: drives_def two_floppies_def same_on_def requested_def u)
qed

lemma flawless_two_floppies: "flawless two_floppies"
  by (simp add: flawless_def two_floppies_def)

lemma screen_two_desk: "screen_clear two_floppies 80 two_desk"
  by (simp add: screen_clear_def stable_def two_floppies_def two_desk_def fb_base_def demo_display_def rd_long_def rd_word_def
      be16_def Let_def)

theorem copy_exact_witness:
  "\<exists>w1. copy_disk two_floppies True 1 2 two_desk = Some (False, w1) \<and> (\<forall>j < 819200. dk_dev w1 2 j = of_nat j)"
proof -
  note e = copy_exact [OF drives_two_floppies screen_two_desk, of True 2 1, simplified flawless_two_floppies, simplified]
  then show ?thesis by (auto simp: two_desk_def)
qed

end
