(* ===== verification/SupervisorBench.thy ===== *)
theory SupervisorBench
  imports IoTest
begin

text \<open>
  The CPU bench that runs on the target in supervisor mode (SingleStepTests/preboot/supervisor_bench/
  bench_main.c, with Snapshot of common/runtime/bench_types.h and CpuTestSpec of gen/cpu_tests.h): for every
  test of the corpus it assembles a program around the instruction under test, runs it with recovery
  from exceptions, and writes the state it left as a line of results. Parameters are the addresses of its
  buffers, the run of a program, the block write of the results writer and the eject call. The four
  instructions the state dumps consist of are given as documented for the processor, to say what a dump stores.
\<close>

section \<open>Tests and snapshots\<close>

record BenchSpec =
  bs_name :: string
  bs_preload :: "u8 list"
  bs_test :: "u8 list"
  bs_ram_init :: "u8 list option"
  bs_hw_unsafe :: bool

definition CPU_SCRATCH_LEN :: nat where "CPU_SCRATCH_LEN = 64"
definition CPU_TEST_MAX_PRELOAD :: nat where "CPU_TEST_MAX_PRELOAD = 30"
definition CPU_TEST_MAX_TEST :: nat where "CPU_TEST_MAX_TEST = 18"

record Snap =
  ss_d :: "u32 list"
  ss_a :: "u32 list"
  ss_ccr :: u8
  ss_ram :: "u8 list"

text \<open>Where the buffers of the bench lie.\<close>

record buffers =
  at_init :: u32
  at_final :: u32
  at_scratch :: u32
  at_prog :: u32

section \<open>The emitters\<close>

definition put_w :: "u16 \<Rightarrow> u8 list" where
  "put_w v = [hi8 v, lo8 v]"

definition put_l :: "u32 \<Rightarrow> u8 list" where
  "put_l v = [ucast (drop_bit 24 v), ucast (drop_bit 16 v), ucast (drop_bit 8 v), ucast v]"

definition emit_move_l_dn_to_abs :: "nat \<Rightarrow> u32 \<Rightarrow> u8 list" where
  "emit_move_l_dn_to_abs dn addr = put_w (0x23C0 OR of_nat (dn mod 8)) @ put_l addr"

definition emit_move_l_an_to_abs :: "nat \<Rightarrow> u32 \<Rightarrow> u8 list" where
  "emit_move_l_an_to_abs an addr = put_w (0x23C8 OR of_nat (an mod 8)) @ put_l addr"

definition emit_movea_l_imm_to_an :: "nat \<Rightarrow> u32 \<Rightarrow> u8 list" where
  "emit_movea_l_imm_to_an an imm = put_w (0x207C OR push_bit 9 (of_nat (an mod 8))) @ put_l imm"

definition emit_move_w_imm_to_ccr :: "u16 \<Rightarrow> u8 list" where
  "emit_move_w_imm_to_ccr imm = put_w 0x44FC @ put_w (imm AND 0xFF)"

definition emit_ccr :: "u32 \<Rightarrow> u8 list" where
  "emit_ccr snap = put_w 0x42F9 @ put_l (snap + 0x40)"

definition emit_copy :: "u32 \<Rightarrow> u32 \<Rightarrow> u8 list" where
  "emit_copy from to = put_w 0x23F9 @ put_l from @ put_l to"

definition emit_state_dump :: "u32 \<Rightarrow> u32 \<Rightarrow> bool \<Rightarrow> u8 list" where
  "emit_state_dump scratch snap is_init =
     (if \<not> is_init then emit_ccr snap else []) @
     concat (map (\<lambda>n. emit_move_l_an_to_abs n (snap + 0x20 + of_nat n * 4)) [0..<8]) @
     concat (map (\<lambda>n. emit_move_l_dn_to_abs n (snap + 0 + of_nat n * 4)) [0..<8]) @
     concat (map (\<lambda>i. emit_copy (scratch + of_nat i * 4) (snap + 0x44 + of_nat i * 4)) [0..<CPU_SCRATCH_LEN div 4]) @
     (if is_init then emit_ccr snap else [])"

definition preamble :: "buffers \<Rightarrow> u8 list" where
  "preamble b =
     concat (map (\<lambda>n. put_w (0x7000 OR push_bit 9 (of_nat n))) [0..<8]) @
     concat (map (\<lambda>n. put_w (0x91C8 OR push_bit 9 (of_nat n) OR of_nat n)) [0..<6]) @
     put_w 0x7005 @ put_w 0x4E7B @ put_w 0x0000 @ put_w 0x4E7B @ put_w 0x0001 @ put_w 0x7000 @
     emit_movea_l_imm_to_an 6 (at_scratch b) @ emit_move_w_imm_to_ccr 0"

definition before_test :: "buffers \<Rightarrow> BenchSpec \<Rightarrow> u8 list" where
  "before_test b t = preamble b @ bs_preload t @ emit_state_dump (at_scratch b) (at_init b) True"

definition init_pc :: "buffers \<Rightarrow> BenchSpec \<Rightarrow> u32" where
  "init_pc b t = at_prog b + of_nat (length (before_test b t))"

definition final_pc :: "buffers \<Rightarrow> BenchSpec \<Rightarrow> u32" where
  "final_pc b t = at_prog b + of_nat (length (before_test b t @ bs_test t))"

definition build_program :: "buffers \<Rightarrow> BenchSpec \<Rightarrow> u8 list" where
  "build_program b t =
     before_test b t @ bs_test t @ emit_state_dump (at_scratch b) (at_final b) False @ [0x4E, 0x75]"

section \<open>Result lines\<close>

definition commas :: "string list \<Rightarrow> string" where
  "commas xs = concat (case xs of [] \<Rightarrow> [] | x # ys \<Rightarrow> x # map (\<lambda>y. '','' @ y) ys)"

definition snap_text :: "Snap \<Rightarrow> u32 \<Rightarrow> string" where
  "snap_text s pc =
     ''{\"d\":['' @ commas (map f_putul (ss_d s)) @ ''],\"a\":['' @ commas (map f_putul (ss_a s)) @
     ''],\"ccr\":'' @ f_putul (ucast (ss_ccr s)) @ '',\"pc\":'' @ f_putul pc @
     '',\"ram\":['' @ commas (map (\<lambda>x. f_putul (ucast x)) (ss_ram s)) @ '']}''"

definition escape :: "string \<Rightarrow> string" where
  "escape name = concat (map (\<lambda>c. if c = CHR 0x22 \<or> c = CHR 0x5C then [CHR 0x5C, c] else [c]) name)"

definition name_text :: "string \<Rightarrow> string" where
  "name_text name = [CHR 0x22] @ escape name @ [CHR 0x22]"

definition result_line :: "string \<Rightarrow> u32 \<Rightarrow> Snap \<Rightarrow> u32 \<Rightarrow> string" where
  "result_line name vec s pc =
     ''{\"name\":'' @ name_text name @ '',\"vec\":'' @ f_putul vec @
     (if vec \<noteq> 0 then '',\"trap_state\":'' else '',\"final\":'') @ snap_text s pc @ ''}'' @ eol"

definition format_decimal :: "u32 \<Rightarrow> nat \<Rightarrow> string" where
  "format_decimal v width = (let ds = f_putul v in replicate (width - length ds) CHR '' '' @ ds)"

definition format_hex32 :: "u32 \<Rightarrow> string" where
  "format_hex32 v = map (\<lambda>i. hex_digit (ucast (drop_bit (28 - 4 * i) v))) [0..<8]"

section \<open>The bench\<close>

text \<open>A run of a program: vector (0 if it returned), the two snapshots (zeroed before it), and what it did to memory and
  device. Its arguments are the program and the scratch bytes.\<close>

record 'd super =
  sv_invoke :: "u8 list \<Rightarrow> u8 list \<Rightarrow> mem32 \<Rightarrow> 'd \<Rightarrow> u32 \<times> Snap \<times> Snap \<times> mem32 \<times> 'd"
  sv_jwrite :: "'d write_trap"
  sv_eject :: "16 word \<Rightarrow> 'd \<Rightarrow> 16 word \<times> 'd"
  sv_rows :: row_mode
  sv_buffers :: buffers
  sv_ctx :: JwCtx

record 'd Bench =
  be_disp :: Display
  be_dev :: 'd
  be_jw :: JsonlWriter
  n_run :: u32
  n_ok :: u32
  n_trap :: u32

definition show_at :: "'d super \<Rightarrow> u32 \<Rightarrow> u32 \<Rightarrow> string \<Rightarrow> nat \<Rightarrow> 'd Bench \<Rightarrow> 'd Bench" where
  "show_at sv row col s n w = w\<lparr>be_disp := paint_string (sv_rows sv) row col s n (be_disp w)\<rparr>"

definition wipe_screen :: "'d super \<Rightarrow> 'd Bench \<Rightarrow> 'd Bench" where
  "wipe_screen sv w = w\<lparr>be_disp := display_wipe (sv_rows sv) 480 (be_disp w)\<rparr>"

definition scratch_of :: "BenchSpec \<Rightarrow> u8 list" where
  "scratch_of t = (case bs_ram_init t of None \<Rightarrow> replicate CPU_SCRATCH_LEN 0 | Some r \<Rightarrow> take CPU_SCRATCH_LEN r)"

definition tally :: "'d super \<Rightarrow> u32 \<Rightarrow> 'd Bench \<Rightarrow> 'd Bench" where
  "tally sv vec w =
     (let w1 = show_at sv 28 8 (format_decimal (n_run w) 4) 4 (show_at sv 28 4 ''run='' 4 w);
          w2 = show_at sv 28 17 (format_decimal (n_ok w1) 4) 4 (show_at sv 28 14 ''ok='' 3 w1);
          w3 = show_at sv 28 29 (format_decimal (n_trap w2) 4) 4 (show_at sv 28 24 ''trap='' 5 w2)
      in show_at sv 28 44 (drop 6 (format_hex32 vec)) 2 (show_at sv 28 36 ''lastvec='' 8 w3))"

definition emit_result :: "'d super \<Rightarrow> string \<Rightarrow> 'd Bench \<Rightarrow> 'd Bench" where
  "emit_result sv l w =
     (case jw_puts (sv_jwrite sv) l (be_jw w, be_dev w) of (j, d) \<Rightarrow> w\<lparr>be_jw := j, be_dev := d\<rparr>)"

definition run_test :: "'d super \<Rightarrow> nat \<Rightarrow> BenchSpec \<Rightarrow> 'd Bench \<Rightarrow> 'd Bench" where
  "run_test sv idx t w =
     (if bs_hw_unsafe t then w
      else
        (let w1 = w\<lparr>n_run := n_run w + 1\<rparr>;
             w2 = show_at sv 16 16 (bs_name t) 60 (show_at sv 16 9 (format_decimal (of_nat (idx + 1)) 4) 4 w1);
             b = sv_buffers sv
         in case sv_invoke sv (build_program b t) (scratch_of t) (dp_mem (be_disp w2)) (be_dev w2) of
              (vec, si, sf, m, d) \<Rightarrow>
                (let w3 = w2\<lparr>be_disp := (be_disp w2)\<lparr>dp_mem := m\<rparr>, be_dev := d\<rparr>;
                     (s, pc) = (if vec \<noteq> 0 then (si, init_pc b t) else (sf, final_pc b t));
                     w4 = (if vec \<noteq> 0 then w3\<lparr>n_trap := n_trap w3 + 1\<rparr> else w3\<lparr>n_ok := n_ok w3 + 1\<rparr>)
                 in emit_result sv (result_line (bs_name t) vec s pc) (tally sv vec w4))))"

fun run_tests :: "'d super \<Rightarrow> nat \<Rightarrow> BenchSpec list \<Rightarrow> 'd Bench \<Rightarrow> 'd Bench" where
  "run_tests sv idx [] w = w"
| "run_tests sv idx (t # ts) w = run_tests sv (idx + 1) ts (run_test sv idx t w)"

definition bench_header :: "'d super \<Rightarrow> 'd Bench \<Rightarrow> 'd Bench" where
  "bench_header sv w =
     show_at sv 16 14 '': '' 2 (show_at sv 16 4 ''Test '' 5
       (show_at sv 4 4 ''SUPERVISOR CPU BENCH - full corpus'' 40 (wipe_screen sv w)))"

definition bench_end :: "'d super \<Rightarrow> 'd Bench \<Rightarrow> 'd Bench" where
  "bench_end sv w =
     (let w1 = show_at sv 4 4 ''ALL TESTS DONE - writing results...'' 40 (wipe_screen sv w);
          w2 = (case jw_flush (sv_jwrite sv) (be_jw w1, be_dev w1) of (j, d) \<Rightarrow> w1\<lparr>be_jw := j, be_dev := d\<rparr>);
          err = (ucast (jw_last_err (be_jw w2)) :: u32);
          w3 = show_at sv 28 13 (drop 4 (format_hex32 err)) 4 (show_at sv 28 4 ''ioResult='' 9 w2);
          w4 = show_at sv 52 4 ''Power off and extract /Results.jsonl'' 40 w3;
          dr = jc_drive (sv_ctx sv)
      in if dr = 1 \<or> dr = 2
         then (case sv_eject sv dr (be_dev w4) of
                 (ej, d) \<Rightarrow>
                   (let w5 = show_at sv 76 4 ''EJECT drv='' 10 (w4\<lparr>be_dev := d\<rparr>);
                        w6 = show_at sv 76 14 (format_decimal (scast dr) 1) 1 w5
                    in show_at sv 76 20 (drop 4 (format_hex32 (ucast ej))) 4 (show_at sv 76 16 ''res='' 4 w6)))
         else w4)"

definition super_main :: "'d super \<Rightarrow> BenchSpec list \<Rightarrow> 'd Bench \<Rightarrow> 'd Bench" where
  "super_main sv tests w =
     bench_end sv (run_tests sv 0 tests
       (bench_header sv (w\<lparr>be_jw := jw_init (sv_ctx sv), n_run := 0, n_ok := 0, n_trap := 0\<rparr>)))"

section \<open>The program fits\<close>

lemma length_puts [simp]: "length (put_w v) = 2" "length (put_l a) = 4"
  by (simp_all add: put_w_def put_l_def)

lemma length_concat_map: "(\<And>x. x \<in> set xs \<Longrightarrow> length (f x) = k) \<Longrightarrow> length (concat (map f xs)) = k * length xs"
  by (induction xs) simp_all

lemma length_state_dump: "length (emit_state_dump scratch snap is_init) = 262"
  by (simp add: emit_state_dump_def emit_ccr_def emit_copy_def emit_move_l_an_to_abs_def emit_move_l_dn_to_abs_def CPU_SCRATCH_LEN_def
      length_concat_map [where k = 6] length_concat_map [where k = 10] del: length_concat upt_rec_numeral)

lemma length_preamble: "length (preamble b) = 50"
  by (simp add: preamble_def emit_movea_l_imm_to_an_def emit_move_w_imm_to_ccr_def length_concat_map [where k = 2]
      del: length_concat upt_rec_numeral)

lemma length_before_test: "length (before_test b t) = 312 + length (bs_preload t)"
  by (simp add: before_test_def length_preamble length_state_dump)

text \<open>C38. The program fits. For every test within the bounds of its table the program takes at most 624 of the 1024 bytes of
  its buffer; between the two program counters the bench records lies exactly the code under test, which stands there in the program,
  and the last instruction is the return.\<close>

theorem program_fits:
  assumes "length (bs_preload t) \<le> CPU_TEST_MAX_PRELOAD" "length (bs_test t) \<le> CPU_TEST_MAX_TEST"
  shows "length (build_program b t) \<le> 624 \<and> unat (final_pc b t - init_pc b t) = length (bs_test t) \<and>
    take (length (bs_test t)) (drop (unat (init_pc b t - at_prog b)) (build_program b t)) = bs_test t \<and>
    drop (length (build_program b t) - 2) (build_program b t) = [0x4E, 0x75]"
proof -
  let ?n = "length (before_test b t)"
  have n: "?n \<le> 342" using assms by (simp add: length_before_test CPU_TEST_MAX_PRELOAD_def)
  have "unat (init_pc b t - at_prog b) = ?n" using n by (simp add: init_pc_def unat_of_nat)
  moreover have "unat (final_pc b t - init_pc b t) = length (bs_test t)"
    using assms by (simp add: init_pc_def final_pc_def unat_of_nat CPU_TEST_MAX_TEST_def)
  moreover have "length (build_program b t) = 576 + length (bs_preload t) + length (bs_test t)"
    by (simp add: build_program_def length_before_test length_state_dump)
  moreover have "drop (length xs + 0) (xs @ ys) = ys" for xs ys :: "u8 list" by simp
  ultimately show ?thesis using assms
    by (simp add: build_program_def CPU_TEST_MAX_PRELOAD_def CPU_TEST_MAX_TEST_def)
qed

theorem program_fits_witness:
  "\<exists>b. unat (final_pc b \<lparr>bs_name = ''NOP'', bs_preload = [], bs_test = [0x4E, 0x71], bs_ram_init = None, bs_hw_unsafe = False\<rparr> -
     init_pc b \<lparr>bs_name = ''NOP'', bs_preload = [], bs_test = [0x4E, 0x71], bs_ram_init = None, bs_hw_unsafe = False\<rparr>) = 2"
  using program_fits [of "\<lparr>bs_name = ''NOP'', bs_preload = [], bs_test = [0x4E, 0x71], bs_ram_init = None, bs_hw_unsafe = False\<rparr>"]
  by (simp add: CPU_TEST_MAX_PRELOAD_def CPU_TEST_MAX_TEST_def)

section \<open>The instructions of a dump\<close>

record m68k =
  md :: "nat \<Rightarrow> u32"
  ma :: "nat \<Rightarrow> u32"
  mccr :: u8
  mmem :: mem32

definition poke :: "u32 \<Rightarrow> u8 list \<Rightarrow> mem32 \<Rightarrow> mem32" where
  "poke a bs m = (\<lambda>x. if unat (x - a) < length bs then bs ! unat (x - a) else m x)"

definition long_at :: "mem32 \<Rightarrow> u32 \<Rightarrow> u32" where
  "long_at m a = be_long (m a) (m (a + 1)) (m (a + 2)) (m (a + 3))"

text \<open>A move sets N and Z by the value, clears V and C and keeps X.\<close>

definition move_flags :: "u32 \<Rightarrow> u8 \<Rightarrow> u8" where
  "move_flags v old = (old AND 0x10) OR (if v = 0 then 4 else 0) OR (if bit v 31 then 8 else 0)"

definition move_to :: "u32 \<Rightarrow> u32 \<Rightarrow> m68k \<Rightarrow> m68k" where
  "move_to v a c = c\<lparr>mmem := poke a (put_l v) (mmem c), mccr := move_flags v (mccr c)\<rparr>"

text \<open>MOVE.L Dn,(xxx).L; MOVE.L An,(xxx).L; MOVE CCR,(xxx).L; MOVE.L (xxx).L,(xxx).L.\<close>

fun run_code :: "u8 list \<Rightarrow> m68k \<Rightarrow> m68k option" where
  "run_code [] c = Some c"
| "run_code (b0 # b1 # a0 # a1 # a2 # a3 # code) c =
     (let op = be16 b0 b1; addr = be_long a0 a1 a2 a3
      in if op AND 0xFFF8 = 0x23C0 then run_code code (move_to (md c (unat (op AND 7))) addr c)
         else if op AND 0xFFF8 = 0x23C8 then run_code code (move_to (ma c (unat (op AND 7))) addr c)
         else if op = 0x42F9 then run_code code (c\<lparr>mmem := poke addr [0, mccr c] (mmem c)\<rparr>)
         else if op = 0x23F9 then
           (case code of
              d0 # d1 # d2 # d3 # rest \<Rightarrow> run_code rest (move_to (long_at (mmem c) addr) (be_long d0 d1 d2 d3) c)
            | _ \<Rightarrow> None)
         else None)"
| "run_code _ c = None"

lemma below_8: "n < 8 \<Longrightarrow> n = 0 \<or> n = 1 \<or> n = 2 \<or> n = 3 \<or> n = 4 \<or> n = 5 \<or> n = 6 \<or> n = (7 :: nat)"
  by linarith

lemma run_dn: "n < 8 \<Longrightarrow> run_code (emit_move_l_dn_to_abs n a @ rest) c = run_code rest (move_to (md c n) a c)"
  by (drule below_8) (auto simp: emit_move_l_dn_to_abs_def put_w_def put_l_def)

lemma run_an: "n < 8 \<Longrightarrow> run_code (emit_move_l_an_to_abs n a @ rest) c = run_code rest (move_to (ma c n) a c)"
  by (drule below_8) (auto simp: emit_move_l_an_to_abs_def put_w_def put_l_def)

lemma run_ccr: "run_code (emit_ccr snap @ rest) c = run_code rest (c\<lparr>mmem := poke (snap + 0x40) [0, mccr c] (mmem c)\<rparr>)"
  by (simp add: emit_ccr_def put_w_def put_l_def)

lemma run_copy: "run_code (emit_copy x y @ rest) c = run_code rest (move_to (long_at (mmem c) x) y c)"
  by (simp add: emit_copy_def put_w_def put_l_def)

lemma run_concat:
  "(\<And>n c rest. n \<in> set ns \<Longrightarrow> run_code (e n @ rest) c = run_code rest (f n c)) \<Longrightarrow>
   run_code (concat (map e ns) @ rest) c = run_code rest (fold f ns c)"
  by (induction ns arbitrary: c) simp_all

section \<open>What a dump stores\<close>

lemma poke_at:
  assumes "n + length bs \<le> 2 ^ 32"
  shows "poke (b + of_nat n) bs m x =
    (if n \<le> unat (x - b) \<and> unat (x - b) < n + length bs then bs ! (unat (x - b) - n) else m x)"
proof (cases "bs = []")
  case False
  then have n: "n < 2 ^ 32" using assms by (cases bs) simp_all
  then have u: "unat (of_nat n :: u32) = n" by (simp add: unat_of_nat)
  let ?i = "unat (x - b)"
  have i: "?i < 2 ^ 32" using unsigned_less [of "x - b", where 'a = nat] by simp
  have "unat (x - (b + of_nat n)) = unat ((x - b) - of_nat n)" by (simp add: algebra_simps)
  also have "\<dots> = (if n \<le> ?i then ?i - n else ?i + 2 ^ 32 - n)" by (simp add: unat_sub_if_size word_size u)
  finally have "unat (x - (b + of_nat n)) = (if n \<le> ?i then ?i - n else ?i + 4294967296 - n)" by simp
  then show ?thesis using assms i unfolding poke_def by auto
next
  case True
  then have "\<not> (n \<le> unat (x - b) \<and> unat (x - b) < n + length bs)" by simp
  then show ?thesis by (auto simp: poke_def True)
qed

lemma poke_append:
  assumes "length xs + length ys \<le> 2 ^ 32"
  shows "poke (a + of_nat (length xs)) ys (poke a xs m) = poke a (xs @ ys) m"
  by (rule ext, unfold poke_at [OF assms]) (auto simp: poke_def nth_append)

lemma fold_moves:
  assumes "\<And>j c'. j < k \<Longrightarrow> md c' = md c \<Longrightarrow> ma c' = ma c \<Longrightarrow>
      mmem c' = poke a (concat (map (\<lambda>n. put_l (w n)) [0..<j])) (mmem c) \<Longrightarrow> v j c' = w j"
    and "4 * k \<le> 2 ^ 32"
  shows "md (fold (\<lambda>n c. move_to (v n c) (a + of_nat n * 4) c) [0..<k] c) = md c \<and>
    ma (fold (\<lambda>n c. move_to (v n c) (a + of_nat n * 4) c) [0..<k] c) = ma c \<and>
    mmem (fold (\<lambda>n c. move_to (v n c) (a + of_nat n * 4) c) [0..<k] c) = poke a (concat (map (\<lambda>n. put_l (w n)) [0..<k])) (mmem c)"
  using assms
proof (induction k)
  case 0
  then show ?case by (simp add: poke_def)
next
  case (Suc k)
  let ?c = "fold (\<lambda>n c. move_to (v n c) (a + of_nat n * 4) c) [0..<k] c" and ?xs = "concat (map (\<lambda>n. put_l (w n)) [0..<k])"
  have IH: "md ?c = md c" "ma ?c = ma c" "mmem ?c = poke a ?xs (mmem c)" using Suc by simp_all
  have v: "v k ?c = w k" using Suc.prems(1) [of k ?c] IH by simp
  have l: "length ?xs = 4 * k" by (simp add: length_concat_map [where k = 4] del: length_concat)
  have "poke (a + of_nat k * 4) (put_l (w k)) (poke a ?xs (mmem c)) = poke a (?xs @ put_l (w k)) (mmem c)"
    using poke_append [of ?xs "put_l (w k)" a "mmem c"] Suc.prems(2) unfolding l by (simp add: mult.commute)
  then show ?case using IH v by (simp add: move_to_def)
qed

lemma put_l_be_long: "put_l (be_long a b c d) = [a, b, c, d]"
  using be_long_bytes [of "be_long a b c d"] unfolding be_long_inject put_l_def by simp

lemma longs_bytes: "concat (map (\<lambda>j. put_l (long_at m (s + of_nat j * 4))) [0..<k]) = mem_bytes m s (4 * k)"
proof (induction k)
  case (Suc k)
  have "[0..<4 * k + 4] = [0..<4 * k] @ [4 * k..<4 * k + 4]" by (rule upt_add_eq_append) simp
  also have "[4 * k..<4 * k + 4] = [4 * k, 4 * k + 1, 4 * k + 2, 4 * k + 3]" by (simp add: upt_conv_Cons)
  finally have "[0..<4 * Suc k] = [0..<4 * k] @ [4 * k, 4 * k + 1, 4 * k + 2, 4 * k + 3]" by (simp only: mult_Suc_right add.commute)
  then have "mem_bytes m s (4 * Suc k) = mem_bytes m s (4 * k) @ put_l (long_at m (s + of_nat k * 4))"
    by (simp add: mem_bytes_def long_at_def put_l_be_long algebra_simps)
  then show ?case using Suc by simp
qed (simp add: mem_bytes_def)

definition dump_addresses :: "u32 \<Rightarrow> m68k \<Rightarrow> m68k" where
  "dump_addresses snap c = fold (\<lambda>n c. move_to (ma c n) (snap + 0x20 + of_nat n * 4) c) [0..<8] c"

definition dump_data :: "u32 \<Rightarrow> m68k \<Rightarrow> m68k" where
  "dump_data snap c = fold (\<lambda>n c. move_to (md c n) (snap + 0 + of_nat n * 4) c) [0..<8] c"

definition dump_scratch :: "u32 \<Rightarrow> u32 \<Rightarrow> m68k \<Rightarrow> m68k" where
  "dump_scratch scratch snap c =
     fold (\<lambda>n c. move_to (long_at (mmem c) (scratch + of_nat n * 4)) (snap + 0x44 + of_nat n * 4) c) [0..<16] c"

definition store_ccr :: "u32 \<Rightarrow> m68k \<Rightarrow> m68k" where
  "store_ccr snap c = c\<lparr>mmem := poke (snap + 0x40) [0, mccr c] (mmem c)\<rparr>"

definition dumped :: "u32 \<Rightarrow> u32 \<Rightarrow> bool \<Rightarrow> m68k \<Rightarrow> m68k" where
  "dumped scratch snap is_init c =
     (let c3 = dump_scratch scratch snap (dump_data snap (dump_addresses snap (if is_init then c else store_ccr snap c)))
      in if is_init then store_ccr snap c3 else c3)"

lemma run_state_dump: "run_code (emit_state_dump scratch snap is_init) c = Some (dumped scratch snap is_init c)"
proof -
  have an: "run_code (concat (map (\<lambda>n. emit_move_l_an_to_abs n (snap + 0x20 + of_nat n * 4)) [0..<8]) @ rest) c =
      run_code rest (fold (\<lambda>n c. move_to (ma c n) (snap + 0x20 + of_nat n * 4) c) [0..<8] c)" for rest c
    by (rule run_concat) (simp add: run_an del: upt_rec_numeral)
  have dn: "run_code (concat (map (\<lambda>n. emit_move_l_dn_to_abs n (snap + 0 + of_nat n * 4)) [0..<8]) @ rest) c =
      run_code rest (fold (\<lambda>n c. move_to (md c n) (snap + 0 + of_nat n * 4) c) [0..<8] c)" for rest c
    by (rule run_concat) (simp add: run_dn del: upt_rec_numeral)
  have cp: "run_code (concat (map (\<lambda>i. emit_copy (scratch + of_nat i * 4) (snap + 0x44 + of_nat i * 4)) [0..<16]) @ rest) c =
      run_code rest (fold (\<lambda>n c. move_to (long_at (mmem c) (scratch + of_nat n * 4)) (snap + 0x44 + of_nat n * 4) c) [0..<16] c)" for rest c
    by (rule run_concat) (simp add: run_copy)
  have sz: "CPU_SCRATCH_LEN div 4 = 16" by (simp add: CPU_SCRATCH_LEN_def)
  note parts = emit_state_dump_def sz dumped_def Let_def dump_scratch_def dump_data_def dump_addresses_def store_ccr_def
  show ?thesis
  proof (cases is_init)
    case True
    then show ?thesis unfolding parts
      by (simp only: simp_thms if_True if_False append_Nil an dn cp run_ccr [of snap "[]", unfolded append_Nil2] run_code.simps(1))
  next
    case False
    then show ?thesis unfolding parts
      by (simp only: simp_thms if_True if_False an dn cp run_ccr run_code.simps(1))
  qed
qed

text \<open>The register parts: two blocks of long words.\<close>

definition reg_bytes :: "(nat \<Rightarrow> u32) \<Rightarrow> u8 list" where
  "reg_bytes f = concat (map (\<lambda>n. put_l (f n)) [0..<8])"

lemma length_reg_bytes [simp]: "length (reg_bytes f) = 32"
  by (simp add: reg_bytes_def length_concat_map [where k = 4] del: length_concat upt_rec_numeral)

lemma dump_registers:
  defines "c2 \<equiv> \<lambda>snap c. dump_data snap (dump_addresses snap c)"
  shows "md (c2 snap c) = md c" "ma (c2 snap c) = ma c"
    "mmem (c2 snap c) x = (let i = unat (x - snap) in if i < 32 then reg_bytes (md c) ! i
       else if i < 64 then reg_bytes (ma c) ! (i - 32) else mmem c x)"
proof -
  define c1 where "c1 = dump_addresses snap c"
  have 1: "md c1 = md c" "ma c1 = ma c" "mmem c1 = poke (snap + 0x20) (reg_bytes (ma c)) (mmem c)"
    using fold_moves [of 8 c "snap + 0x20" "ma c" "\<lambda>n c. ma c n"] unfolding c1_def dump_addresses_def reg_bytes_def by simp_all
  have 2: "md (dump_data snap c1) = md c" "ma (dump_data snap c1) = ma c"
      "mmem (dump_data snap c1) = poke (snap + 0) (reg_bytes (md c)) (mmem c1)"
    using fold_moves [of 8 c1 "snap + 0" "md c" "\<lambda>n c. md c n"] 1 unfolding dump_data_def reg_bytes_def by simp_all
  show "md (c2 snap c) = md c" "ma (c2 snap c) = ma c" using 2 unfolding c2_def c1_def by simp_all
  show "mmem (c2 snap c) x = (let i = unat (x - snap) in if i < 32 then reg_bytes (md c) ! i
       else if i < 64 then reg_bytes (ma c) ! (i - 32) else mmem c x)"
    unfolding c2_def c1_def [symmetric] 1 2
    using poke_at [of 0 "reg_bytes (md c)" snap "poke (snap + 32) (reg_bytes (ma c)) (mmem c)" x]
      poke_at [of 32 "reg_bytes (ma c)" snap "mmem c" x]
    by (simp add: Let_def)
qed

text \<open>The scratch bytes, when they lie outside the snapshot and have not changed.\<close>

lemma dump_scratch_bytes:
  assumes "\<forall>i < 64. 132 \<le> unat (scratch + of_nat i - snap)" "\<And>x. 132 \<le> unat (x - snap) \<Longrightarrow> mmem c2 x = m x"
  shows "md (dump_scratch scratch snap c2) = md c2" "ma (dump_scratch scratch snap c2) = ma c2"
    "mmem (dump_scratch scratch snap c2) = poke (snap + 68) (mem_bytes m scratch 64) (mmem c2)"
proof -
  have long: "long_at (poke (snap + 68) bs (mmem c2)) (scratch + of_nat j * 4) = long_at m (scratch + of_nat j * 4)"
    if "j < 16" "length bs \<le> 64" for bs j
  proof -
    have "poke (snap + 68) bs (mmem c2) (scratch + of_nat j * 4 + of_nat i) = m (scratch + of_nat j * 4 + of_nat i)" if "i < 4" for i
    proof -
      have "4 * j + i < 64" using \<open>j < 16\<close> that by linarith
      then have "132 \<le> unat (scratch + of_nat (4 * j + i) - snap)" using assms(1) by blast
      then have "132 \<le> unat (scratch + of_nat j * 4 + of_nat i - snap)" by (simp add: algebra_simps)
      then show ?thesis using poke_at [of 68 bs snap "mmem c2"] \<open>length bs \<le> 64\<close> assms(2) by simp
    qed
    from this [of 0] this [of 1] this [of 2] this [of 3] show ?thesis by (simp add: long_at_def add.assoc)
  qed
  have p: "long_at (mmem c') (scratch + of_nat j * 4) = long_at m (scratch + of_nat j * 4)"
    if "j < 16" "mmem c' = poke (snap + 0x44) (concat (map (\<lambda>n. put_l (long_at m (scratch + of_nat n * 4))) [0..<j])) (mmem c2)" for j c'
    unfolding that(2) by (rule long) (use that(1) in \<open>simp_all add: length_concat_map [where k = 4] del: length_concat\<close>)
  have "md (dump_scratch scratch snap c2) = md c2 \<and> ma (dump_scratch scratch snap c2) = ma c2 \<and> mmem (dump_scratch scratch snap c2) =
      poke (snap + 0x44) (concat (map (\<lambda>n. put_l (long_at m (scratch + of_nat n * 4))) [0..<16])) (mmem c2)"
    unfolding dump_scratch_def by (rule fold_moves) (use p in blast, simp)
  then show "md (dump_scratch scratch snap c2) = md c2" "ma (dump_scratch scratch snap c2) = ma c2"
    "mmem (dump_scratch scratch snap c2) = poke (snap + 68) (mem_bytes m scratch 64) (mmem c2)"
    unfolding longs_bytes by simp_all
qed

lemma ccr_at:
  "poke (snap + 0x40) [0, b] m x = (let i = unat (x - snap) in if 64 \<le> i \<and> i < 66 then [0, b] ! (i - 64) else m x)"
  using poke_at [of 64 "[0, b]" snap m x] by (simp add: Let_def)

lemma dumped_memory:
  assumes "\<forall>i < 64. 132 \<le> unat (scratch + of_nat i - snap)"
  shows "md (dumped scratch snap is_init c) = md c" "ma (dumped scratch snap is_init c) = ma c"
    "mmem (dumped scratch snap is_init c) x = (let i = unat (x - snap) in if i < 32 then reg_bytes (md c) ! i
       else if i < 64 then reg_bytes (ma c) ! (i - 32)
       else if i < 66 then [0, if is_init then mccr (dumped scratch snap is_init c) else mccr c] ! (i - 64)
       else if 68 \<le> i \<and> i < 132 then mem_bytes (mmem c) scratch 64 ! (i - 68) else mmem c x)"
proof -
  define c0 where "c0 = (if is_init then c else store_ccr snap c)"
  define c2 where "c2 = dump_data snap (dump_addresses snap c0)"
  have m0: "mmem c0 x = (let i = unat (x - snap) in if \<not> is_init \<and> 64 \<le> i \<and> i < 66 then [0, mccr c] ! (i - 64) else mmem c x)" for x
    by (simp add: c0_def store_ccr_def ccr_at Let_def)
  have r0: "md c0 = md c" "ma c0 = ma c" by (simp_all add: c0_def store_ccr_def)
  note R = dump_registers [of snap c0, unfolded c2_def [symmetric] r0]
  have far: "mmem c2 x = mmem c x" if "132 \<le> unat (x - snap)" for x using that by (simp add: R m0 Let_def)
  note S = dump_scratch_bytes [OF assms far]
  have d: "dumped scratch snap is_init c = (if is_init then store_ccr snap (dump_scratch scratch snap c2) else dump_scratch scratch snap c2)"
    by (simp add: dumped_def Let_def c2_def c0_def)
  show "md (dumped scratch snap is_init c) = md c" "ma (dumped scratch snap is_init c) = ma c"
    by (simp_all add: d store_ccr_def S R)
  have cc: "(if is_init then mccr (dumped scratch snap is_init c) else mccr c) =
      (if is_init then mccr (dump_scratch scratch snap c2) else mccr c)"
    unfolding d by (simp add: store_ccr_def)
  have "length (mem_bytes (mmem c) scratch 64) = 64" by (simp add: mem_bytes_def)
  then show "mmem (dumped scratch snap is_init c) x = (let i = unat (x - snap) in if i < 32 then reg_bytes (md c) ! i
       else if i < 64 then reg_bytes (ma c) ! (i - 32)
       else if i < 66 then [0, if is_init then mccr (dumped scratch snap is_init c) else mccr c] ! (i - 64)
       else if 68 \<le> i \<and> i < 132 then mem_bytes (mmem c) scratch 64 ! (i - 68) else mmem c x)"
    unfolding cc using poke_at [of 68 "mem_bytes (mmem c) scratch 64" snap "mmem c2" x]
    by (auto simp: d store_ccr_def ccr_at S R m0 Let_def)
qed

text \<open>Bytes read back by their number.\<close>

lemma mem_bytes_eq:
  assumes "n = length bs" "\<And>k. k < n \<Longrightarrow> m (a + of_nat k) = bs ! k"
  shows "mem_bytes m a n = bs"
  by (rule nth_equalityI) (simp_all add: mem_bytes_def assms)

lemma three_parts:
  assumes "length D = 32" "length A = 32" "k < 66"
  shows "(D @ A @ [0, b]) ! k = (if k < 32 then D ! k else if k < 64 then A ! (k - 32) else [0, b] ! (k - 64))"
proof (cases "k < 32")
  case False
  then have "k - 32 < 32 \<longleftrightarrow> k < 64" "k - 32 - 32 = k - 64" by linarith+
  then show ?thesis using False assms by (simp add: nth_append del: diff_diff_left)
qed (simp add: nth_append assms)

text \<open>C26. A state dump is exact. Run on a processor whose moves behave as documented, the dump changes no register and, when
  the buffer of the snapshot does not overlap the scratch memory, leaves in it the eight data registers, the eight
  address registers, the condition codes and the scratch bytes, and nothing outside it. In the dump after the test the
  condition codes are those the test left; in the one before it they are those the test starts with.\<close>

theorem state_dump_exact:
  assumes "\<forall>i < 64. 132 \<le> unat (scratch + of_nat i - snap)"
  shows "\<exists>c'. run_code (emit_state_dump scratch snap is_init) c = Some c' \<and> md c' = md c \<and> ma c' = ma c \<and>
    mem_bytes (mmem c') snap 66 = concat (map (\<lambda>n. put_l (md c n)) [0..<8]) @ concat (map (\<lambda>n. put_l (ma c n)) [0..<8]) @
      [0, if is_init then mccr c' else mccr c] \<and>
    mem_bytes (mmem c') (snap + 0x44) 64 = mem_bytes (mmem c) scratch 64 \<and>
    (\<forall>x. 132 \<le> unat (x - snap) \<longrightarrow> mmem c' x = mmem c x)"
proof -
  let ?c = "dumped scratch snap is_init c"
  define cc where "cc = (if is_init then mccr ?c else mccr c)"
  note M = dumped_memory [OF assms, of is_init c, folded cc_def]
  have u: "unat (snap + of_nat k - snap) = k" "unat (snap + 68 + of_nat k - snap) = 68 + k" if "k < 70" for k
  proof -
    have "snap + 68 + of_nat k - snap = of_nat (68 + k)" by simp
    then show "unat (snap + 68 + of_nat k - snap) = 68 + k" using that by (simp only: unat_of_nat) simp
    show "unat (snap + of_nat k - snap) = k" using that by (simp add: unat_of_nat)
  qed
  have "mem_bytes (mmem ?c) snap 66 = reg_bytes (md c) @ reg_bytes (ma c) @ [0, cc]"
  proof (rule mem_bytes_eq)
    fix k :: nat assume k: "k < 66"
    show "mmem ?c (snap + of_nat k) = (reg_bytes (md c) @ reg_bytes (ma c) @ [0, cc]) ! k"
      using k unfolding M(3) Let_def three_parts [OF length_reg_bytes length_reg_bytes k] by (simp only: u(1) [of k] if_True)
  qed simp
  moreover have "mem_bytes (mmem ?c) (snap + 68) 64 = mem_bytes (mmem c) scratch 64"
  proof (rule mem_bytes_eq)
    fix k :: nat assume k: "k < 64"
    then show "mmem ?c (snap + 68 + of_nat k) = mem_bytes (mmem c) scratch 64 ! k" unfolding M(3) Let_def by (simp only: u(2) [of k]) simp
  qed (simp add: mem_bytes_def)
  moreover have "\<forall>x. 132 \<le> unat (x - snap) \<longrightarrow> mmem ?c x = mmem c x" by (simp add: M(3) Let_def)
  ultimately show ?thesis using run_state_dump M(1,2) unfolding cc_def reg_bytes_def by auto
qed

theorem state_dump_exact_witness:
  "\<forall>c. \<exists>c'. run_code (emit_state_dump 0x20000 0x10000 False) c = Some c' \<and> md c' = md c \<and>
     mem_bytes (mmem c') 0x10044 64 = mem_bytes (mmem c) 0x20000 64"
proof
  fix c
  have "\<forall>i < 64. 132 \<le> unat ((0x20000 :: u32) + of_nat i - 0x10000)"
  proof (intro allI impI)
    fix i :: nat assume "i < 64"
    have "(0x20000 :: u32) + of_nat i - 0x10000 = of_nat (0x10000 + i)" by simp
    then show "132 \<le> unat ((0x20000 :: u32) + of_nat i - 0x10000)" using \<open>i < 64\<close> by (simp only: unat_of_nat) simp
  qed
  from state_dump_exact [OF this, of False c]
  show "\<exists>c'. run_code (emit_state_dump 0x20000 0x10000 False) c = Some c' \<and> md c' = md c \<and>
     mem_bytes (mmem c') 0x10044 64 = mem_bytes (mmem c) 0x20000 64" by auto
qed

section \<open>Names\<close>

text \<open>How a reader of JSON takes the escapes back.\<close>

fun unescape :: "string \<Rightarrow> string" where
  "unescape [] = []"
| "unescape (c # cs) = (if c = CHR 0x5C then (case cs of [] \<Rightarrow> [] | d # ds \<Rightarrow> d # unescape ds) else c # unescape cs)"

lemma unescape_escape: "unescape (escape name) = name"
  by (induction name) (auto simp: escape_def)

end
