(* ===== verification/AdbBench.thy ===== *)
theory AdbBench
  imports SimPrelude
begin

text \<open>
  The bench of the keyboard and mouse port (verilator/adb_bench/sim_adb_main.cpp): it drives the host line of the
  device with bit cells of scripted lengths. The device is a parameter: a function of its state, the reset, the
  clock and the line. What a receiver sees of the line are the lengths of its high phases at the falling edges;
  a threshold turns them into bits.
\<close>

section \<open>The bench\<close>

record 'h Adb =
  ab_hw :: 'h
  ab_reset :: bool
  ab_clk :: bool
  line_drive :: bool
  tcyc :: nat

type_synonym 'h adb_device = "bool \<Rightarrow> bool \<Rightarrow> bool \<Rightarrow> 'h \<Rightarrow> 'h"

definition adb_eval :: "'h adb_device \<Rightarrow> bool \<Rightarrow> 'h Adb \<Rightarrow> 'h Adb" where
  "adb_eval dev c s = s\<lparr>ab_clk := c, ab_hw := dev (ab_reset s) c (line_drive s) (ab_hw s)\<rparr>"

definition adb_cycle :: "'h adb_device \<Rightarrow> 'h Adb \<Rightarrow> 'h Adb" where
  "adb_cycle dev s = (let s1 = adb_eval dev True (adb_eval dev False s) in s1\<lparr>tcyc := tcyc s1 + 1\<rparr>)"

definition adb_step :: "'h adb_device \<Rightarrow> nat \<Rightarrow> bool \<Rightarrow> 'h Adb \<Rightarrow> 'h Adb" where
  "adb_step dev cycles l s = (adb_cycle dev ^^ cycles) (s\<lparr>line_drive := l\<rparr>)"

definition adb_cell :: "'h adb_device \<Rightarrow> nat \<times> nat \<Rightarrow> 'h Adb \<Rightarrow> 'h Adb" where
  "adb_cell dev c s = adb_step dev (snd c) True (adb_step dev (fst c) False s)"

text \<open>A pair of cells: low and high phase of a zero and of a one.\<close>

type_synonym cells = "(nat \<times> nat) \<times> (nat \<times> nat)"

definition bit_cell :: "cells \<Rightarrow> nat \<Rightarrow> nat \<Rightarrow> nat \<times> nat" where
  "bit_cell cs v b = (if odd (v div 2 ^ b) then snd cs else fst cs)"

definition adb_bits :: "'h adb_device \<Rightarrow> cells \<Rightarrow> nat \<Rightarrow> nat \<Rightarrow> 'h Adb \<Rightarrow> 'h Adb" where
  "adb_bits dev cs n v = fold (\<lambda>b. adb_cell dev (bit_cell cs v b)) (rev [0..<n])"

definition byte_cells :: "'h adb_device \<Rightarrow> cells \<Rightarrow> nat \<Rightarrow> 'h Adb \<Rightarrow> 'h Adb" where
  "byte_cells dev cs v = adb_bits dev cs 8 v"

definition attention :: "'h adb_device \<Rightarrow> 'h Adb \<Rightarrow> 'h Adb" where
  "attention dev s = adb_step dev 70 True (adb_step dev 3500 False (adb_step dev 6000 True s))"

definition listen_r3 :: "'h adb_device \<Rightarrow> nat \<Rightarrow> nat \<Rightarrow> cells \<Rightarrow> cells \<Rightarrow> 'h Adb \<Rightarrow> 'h Adb" where
  "listen_r3 dev cmd payload c p s =
     (let s1 = byte_cells dev c cmd (attention dev s);
          s2 = adb_step dev 1400 True (adb_cell dev (fst c) s1);
          s3 = adb_bits dev p 16 payload (adb_cell dev (snd p) s2)
      in adb_step dev 4000 True (adb_cell dev (fst p) s3))"

definition adb_talk :: "'h adb_device \<Rightarrow> nat \<Rightarrow> cells \<Rightarrow> 'h Adb \<Rightarrow> 'h Adb" where
  "adb_talk dev cmd c s = adb_step dev 6000 True (adb_cell dev (fst c) (byte_cells dev c cmd (attention dev s)))"

definition adb_reset_pulse :: "'h adb_device \<Rightarrow> 'h Adb \<Rightarrow> 'h Adb" where
  "adb_reset_pulse dev s =
     (let s1 = adb_step dev 20 True (s\<lparr>ab_reset := True\<rparr>) in adb_step dev 20 True (s1\<lparr>ab_reset := False\<rparr>))"

definition nominal :: cells where "nominal = ((600, 340), (340, 600))"

definition scaled :: "nat \<Rightarrow> cells" where
  "scaled pct = ((600 * pct div 100, 340 * pct div 100), (340 * pct div 100, 600 * pct div 100))"

definition sweep :: "nat list" where
  "sweep = map (\<lambda>k. 60 + 10 * k) [0..<9]"

definition sweep_step :: "'h adb_device \<Rightarrow> nat \<Rightarrow> 'h Adb \<Rightarrow> 'h Adb" where
  "sweep_step dev pct s =
     adb_talk dev 0xFF nominal (listen_r3 dev 0x2B 0x0FFE nominal (scaled pct) (adb_reset_pulse dev s))"

definition adb_main :: "'h adb_device \<Rightarrow> 'h Adb \<Rightarrow> 'h Adb" where
  "adb_main dev s =
     (let s1 = listen_r3 dev 0x2B 0x0FFE nominal nominal (adb_reset_pulse dev s);
          s2 = adb_talk dev 0x2F nominal (adb_talk dev 0xFF nominal s1)
      in fold (sweep_step dev) sweep s2)"

section \<open>The line\<close>

text \<open>The levels of the line, one for each cycle.\<close>

definition feed :: "'h adb_device \<Rightarrow> bool list \<Rightarrow> 'h Adb \<Rightarrow> 'h Adb" where
  "feed dev ls s = fold (\<lambda>l s. adb_cycle dev (s\<lparr>line_drive := l\<rparr>)) ls s"

definition cell_wave :: "nat \<times> nat \<Rightarrow> bool list" where
  "cell_wave c = replicate (fst c) False @ replicate (snd c) True"

definition bits_wave :: "cells \<Rightarrow> nat \<Rightarrow> nat \<Rightarrow> bool list" where
  "bits_wave cs n v = concat (map (\<lambda>b. cell_wave (bit_cell cs v b)) (rev [0..<n]))"

definition listen_wave :: "nat \<Rightarrow> nat \<Rightarrow> cells \<Rightarrow> cells \<Rightarrow> bool list" where
  "listen_wave cmd payload c p =
     replicate 6000 True @ replicate 3500 False @ replicate 70 True @ bits_wave c 8 cmd @ cell_wave (fst c) @
     replicate 1400 True @ cell_wave (snd p) @ bits_wave p 16 payload @ cell_wave (fst p) @ replicate 4000 True"

lemma feed_append: "feed dev (xs @ ys) s = feed dev ys (feed dev xs s)"
  by (simp add: feed_def)

lemma adb_cycle_line: "line_drive (adb_cycle dev s) = line_drive s"
  by (simp add: adb_cycle_def adb_eval_def Let_def)

lemma cycles_feed: "0 < n \<Longrightarrow> adb_step dev n l s = feed dev (replicate n l) s"
proof (induction n arbitrary: s)
  case (Suc n)
  show ?case
  proof (cases n)
    case (Suc k)
    let ?s = "adb_cycle dev (s\<lparr>line_drive := l\<rparr>)"
    have same: "?s\<lparr>line_drive := l\<rparr> = ?s" using adb_cycle_line [of dev "s\<lparr>line_drive := l\<rparr>"] by simp
    have "adb_step dev (Suc n) l s = adb_step dev n l ?s"
      by (simp only: adb_step_def same funpow_Suc_right o_apply)
    then show ?thesis using Suc.IH [of ?s] Suc by (simp add: feed_def)
  qed (simp add: adb_step_def feed_def)
qed simp

lemma cell_feed: "0 < fst c \<Longrightarrow> 0 < snd c \<Longrightarrow> adb_cell dev c s = feed dev (cell_wave c) s"
  by (simp add: adb_cell_def cycles_feed cell_wave_def feed_append)

text \<open>Cells whose phases are not empty.\<close>

definition proper :: "cells \<Rightarrow> bool" where
  "proper cs \<longleftrightarrow> 0 < fst (fst cs) \<and> 0 < snd (fst cs) \<and> 0 < fst (snd cs) \<and> 0 < snd (snd cs)"

lemma bits_feed: "proper cs \<Longrightarrow> adb_bits dev cs n v s = feed dev (bits_wave cs n v) s"
proof -
  assume p: "proper cs"
  have c: "adb_cell dev (bit_cell cs v b) s = feed dev (cell_wave (bit_cell cs v b)) s" for b s
    by (rule cell_feed) (use p in \<open>simp_all add: bit_cell_def proper_def\<close>)
  have "fold (\<lambda>b. adb_cell dev (bit_cell cs v b)) bs s = feed dev (concat (map (\<lambda>b. cell_wave (bit_cell cs v b)) bs)) s" for bs
    by (induction bs arbitrary: s) (simp_all add: c feed_append, simp add: feed_def)
  then show ?thesis by (simp add: adb_bits_def bits_wave_def)
qed

section \<open>A receiver\<close>

text \<open>The lengths of the high phases, each taken at the falling edge that ends it.\<close>

fun highs :: "nat \<Rightarrow> bool list \<Rightarrow> nat list" where
  "highs h [] = []"
| "highs h (True # ls) = highs (h + 1) ls"
| "highs h (False # ls) = (if h > 0 then h # highs 0 ls else highs 0 ls)"

lemma highs_up: "highs h (replicate n True @ ls) = highs (h + n) ls"
  by (induction n arbitrary: h) simp_all

lemma highs_down: "highs h (replicate n False @ ls) = (if n = 0 then highs h ls else if h > 0 then h # highs 0 ls else highs 0 ls)"
proof (induction n arbitrary: h)
  case (Suc n)
  then show ?case by (cases "h = 0") simp_all
qed simp

lemma highs_cell: "0 < fst c \<Longrightarrow> 0 < h \<Longrightarrow> highs h (cell_wave c @ ls) = h # highs (snd c) ls"
  by (simp add: cell_wave_def highs_down highs_up)

lemma highs_bits:
  assumes "proper cs"
  shows "0 < h \<Longrightarrow> highs h (bits_wave cs n v @ replicate k False @ ls) =
    (if k = 0 then highs h (bits_wave cs n v @ ls)
     else h # map (\<lambda>b. snd (bit_cell cs v b)) (rev [0..<n]) @ highs 0 ls)"
proof -
  have lo: "0 < fst (bit_cell cs v b)" "0 < snd (bit_cell cs v b)" for b
    using assms by (simp_all add: bit_cell_def proper_def)
  have "0 < k \<Longrightarrow> 0 < h \<Longrightarrow> highs h (concat (map (\<lambda>b. cell_wave (bit_cell cs v b)) bs) @ replicate k False @ ls) =
      h # map (\<lambda>b. snd (bit_cell cs v b)) bs @ highs 0 ls" for bs
    by (induction bs arbitrary: h) (simp_all add: highs_down highs_cell lo)
  then show "0 < h \<Longrightarrow> highs h (bits_wave cs n v @ replicate k False @ ls) =
    (if k = 0 then highs h (bits_wave cs n v @ ls)
     else h # map (\<lambda>b. snd (bit_cell cs v b)) (rev [0..<n]) @ highs 0 ls)"
    by (simp add: bits_wave_def)
qed

lemma highs_end: "highs h (replicate n True) = []"
  using highs_up [of h n "[]"] by simp

text \<open>After the two phases of the attention come the command, the stop bit with the gap, the start bit, the payload.\<close>

lemma listen_highs:
  assumes "proper c" "proper p"
  shows "highs 0 (listen_wave cmd payload c p) =
    6000 # 70 # map (\<lambda>b. snd (bit_cell c cmd b)) (rev [0..<8]) @
    (snd (fst c) + 1400) # snd (snd p) # map (\<lambda>b. snd (bit_cell p payload b)) (rev [0..<16])"
proof -
  have pos: "0 < fst (fst c)" "0 < fst (snd p)" "0 < snd (snd p)" "0 < fst (fst p)"
    using assms by (simp_all add: proper_def)
  show ?thesis
    using pos highs_bits [OF assms(1), of 70 8 cmd "fst (fst c)"] highs_bits [OF assms(2), of "snd (snd p)" 16 payload "fst (fst p)"]
    by (simp add: listen_wave_def cell_wave_def highs_up highs_down highs_end del: upt_rec_numeral)
qed

definition value_of :: "nat \<Rightarrow> nat list \<Rightarrow> nat" where
  "value_of T hs = foldl (\<lambda>a h. 2 * a + (if T \<le> h then 1 else 0)) 0 hs"

definition received :: "nat \<Rightarrow> bool list \<Rightarrow> nat \<times> nat" where
  "received T ls = (let hs = highs 0 ls in (value_of T (take 8 (drop 2 hs)), value_of T (take 16 (drop 12 hs))))"

lemma value_bits:
  assumes "snd (fst cs) < T" "T \<le> snd (snd cs)"
  shows "value_of T (map (\<lambda>b. snd (bit_cell cs v b)) (rev [0..<n])) = v mod 2 ^ n"
proof -
  have f: "foldl (\<lambda>a h. 2 * a + (if T \<le> h then 1 else 0)) a (map (\<lambda>b. snd (bit_cell cs v b)) (rev [0..<n])) = a * 2 ^ n + v mod 2 ^ n" for a
  proof (induction n arbitrary: a)
    case (Suc n)
    have "v mod 2 ^ Suc n = (if odd (v div 2 ^ n) then 2 ^ n else 0) + v mod 2 ^ n"
    proof -
      have "v mod (2 ^ n * 2) = 2 ^ n * (v div 2 ^ n mod 2) + v mod 2 ^ n" by (rule mod_mult2_eq)
      then show ?thesis by (simp add: mult.commute mod_2_eq_odd)
    qed
    then show ?case using Suc assms by (auto simp: bit_cell_def algebra_simps)
  qed simp
  show ?thesis unfolding value_of_def f by simp
qed

text \<open>The device is fed the wave, and a receiver whose threshold separates the two cells reads command and payload from
  it.\<close>

theorem adb_listen_received:
  assumes "proper c" "proper p" "snd (fst c) < T" "T \<le> snd (snd c)" "snd (fst p) < T" "T \<le> snd (snd p)" "cmd < 2 ^ 8" "payload < 2 ^ 16"
  shows "listen_r3 dev cmd payload c p s = feed dev (listen_wave cmd payload c p) s \<and>
    received T (listen_wave cmd payload c p) = (cmd, payload)"
proof
  have pos: "0 < fst (fst c)" "0 < snd (fst c)" "0 < fst (snd p)" "0 < snd (snd p)" "0 < fst (fst p)" "0 < snd (fst p)"
    using assms(1,2) by (simp_all add: proper_def)
  show "listen_r3 dev cmd payload c p s = feed dev (listen_wave cmd payload c p) s"
    by (simp add: listen_r3_def byte_cells_def attention_def cycles_feed cell_feed pos bits_feed assms(1,2) listen_wave_def feed_append Let_def)
  show "received T (listen_wave cmd payload c p) = (cmd, payload)"
    using value_bits [OF assms(3,4), of cmd 8] value_bits [OF assms(5,6), of payload 16] assms(7,8)
    by (simp add: received_def listen_highs [OF assms(1,2)] Let_def del: upt_rec_numeral)
qed

theorem adb_listen_received_witness:
  "received 470 (listen_wave 0x2B 0x0FFE nominal nominal) = (0x2B, 0x0FFE)"
  using adb_listen_received [of nominal nominal 470 "0x2B" "0x0FFE" "\<lambda>_ _ _ h. h"
    "\<lparr>ab_hw = (0 :: nat), ab_reset = False, ab_clk = False, line_drive = True, tcyc = 0\<rparr>"] by (simp add: proper_def nominal_def)

text \<open>The sweep around the threshold of 470 cycles: payload cells from 80 to 130 percent are read, shorter ones as all
  zeros, longer ones as all ones.\<close>

theorem adb_sweep:
  "map (\<lambda>pct. received 470 (listen_wave 0x2B 0x0FFE nominal (scaled pct))) sweep =
    [(0x2B, 0), (0x2B, 0), (0x2B, 0x0FFE), (0x2B, 0x0FFE), (0x2B, 0x0FFE), (0x2B, 0x0FFE), (0x2B, 0x0FFE), (0x2B, 0x0FFE),
     (0x2B, 0xFFFF)]"
proof -
  have r: "received 470 (listen_wave 0x2B 0x0FFE nominal p) =
      (0x2B, value_of 470 (map (\<lambda>b. snd (bit_cell p 0x0FFE b)) (rev [0..<16])))" if "proper p" for p
    using value_bits [of nominal 470 "0x2B" 8] that
    by (simp add: received_def listen_highs proper_def nominal_def Let_def del: upt_rec_numeral)
  have l: "value_of 470 (map (\<lambda>b. snd (bit_cell p v b)) bs) = 0" if "snd (fst p) < 470" "snd (snd p) < 470" for p v bs
    by (induction bs rule: rev_induct) (use that in \<open>simp_all add: value_of_def bit_cell_def\<close>)
  have h: "value_of 470 (map (\<lambda>b. snd (bit_cell p v b)) bs) + 1 = 2 ^ length bs" if "470 \<le> snd (fst p)" "470 \<le> snd (snd p)" for p v bs
    by (induction bs rule: rev_induct) (use that in \<open>auto simp: value_of_def bit_cell_def\<close>)
  have m: "value_of 470 (map (\<lambda>b. snd (bit_cell p 0x0FFE b)) (rev [0..<16])) = 0x0FFE" if "snd (fst p) < 470" "470 \<le> snd (snd p)" for p
    using value_bits [OF that, of "0x0FFE" 16] by (simp del: upt_rec_numeral)
  have s: "sweep = [60, 70, 80, 90, 100, 110, 120, 130, 140]" by code_simp
  show ?thesis
    unfolding s using h [of "scaled 140" "0x0FFE" "rev [0..<16]"]
    by (simp add: r l m proper_def scaled_def del: upt_rec_numeral)
qed

end
