(* ===== verification/PmmuBench.thy ===== *)
theory PmmuBench
  imports SimPrelude
begin

text \<open>
  The bench of the memory management unit alone (verilator/pmmu_bench/pmmu_bench.cpp): it writes
  the translation registers, serves the table walker from a map of descriptors, and asks for translations. The unit
  is a parameter: a function of its state and input lines that gives the next state and the output lines.
\<close>

section \<open>Lines and state\<close>

record PmmuIn =
  pi_clk :: bool
  pi_nreset :: bool
  pi_cpu_reset :: bool
  pi_reg_we :: bool
  pi_reg_re :: bool
  pi_reg_sel :: u8
  pi_reg_wdat :: u32
  pi_reg_part :: bool
  pi_reg_fd :: bool
  pi_ptest_req :: bool
  pi_pflush_req :: bool
  pi_pload_req :: bool
  pi_pmmu_fc :: u8
  pi_pmmu_addr :: u32
  pi_pmmu_brief :: u16
  pi_req :: bool
  pi_is_insn :: bool
  pi_rw :: bool
  pi_rmw :: bool
  pi_fc :: u8
  pi_addr_log :: u32
  pi_mem_ack :: bool
  pi_mem_berr :: bool
  pi_mem_rdat :: u32
  pi_mmu_config_ack :: bool
  pi_mmudis :: bool

record PmmuOut =
  po_mem_req :: bool
  po_mem_we :: bool
  po_mem_addr :: u32
  po_mem_wdat :: u32
  po_busy :: bool
  po_wstate :: u8
  po_addr_phys :: u32

type_synonym 'h pmmu = "PmmuIn \<Rightarrow> 'h \<Rightarrow> 'h \<times> PmmuOut"

record 'h Pmmu =
  pm_top :: 'h
  pm_in :: PmmuIn
  pm_out :: PmmuOut
  pm_mem :: "u32 \<rightharpoonup> u32"
  pm_time :: nat

section \<open>Operations\<close>

definition pmmu_align :: "u32 \<Rightarrow> u32" where
  "pmmu_align a = a AND NOT 3"

definition mem_lookup :: "(u32 \<rightharpoonup> u32) \<Rightarrow> u32 \<Rightarrow> u32" where
  "mem_lookup m a = (case m (pmmu_align a) of None \<Rightarrow> 0xDEADBEEF | Some v \<Rightarrow> v)"

definition pmmu_eval :: "'h pmmu \<Rightarrow> 'h Pmmu \<Rightarrow> 'h Pmmu" where
  "pmmu_eval u s = (case u (pm_in s) (pm_top s) of (h, x) \<Rightarrow> s\<lparr>pm_top := h, pm_out := x\<rparr>)"

definition drive_in :: "(PmmuIn \<Rightarrow> PmmuIn) \<Rightarrow> 'h Pmmu \<Rightarrow> 'h Pmmu" where
  "drive_in f s = s\<lparr>pm_in := f (pm_in s)\<rparr>"

text \<open>The memory of the walker answers in the same tick.\<close>

definition serve_walker :: "'h Pmmu \<Rightarrow> 'h Pmmu" where
  "serve_walker s =
     (let x = pm_out s
      in if po_mem_req x
         then (if po_mem_we x
               then drive_in (\<lambda>i. i\<lparr>pi_mem_ack := True\<rparr>) (s\<lparr>pm_mem := (pm_mem s)(pmmu_align (po_mem_addr x) \<mapsto> po_mem_wdat x)\<rparr>)
               else drive_in (\<lambda>i. i\<lparr>pi_mem_rdat := mem_lookup (pm_mem s) (po_mem_addr x), pi_mem_ack := True\<rparr>) s)
         else drive_in (\<lambda>i. i\<lparr>pi_mem_ack := False\<rparr>) s)"

definition pmmu_tick :: "'h pmmu \<Rightarrow> 'h Pmmu \<Rightarrow> 'h Pmmu" where
  "pmmu_tick u s =
     (let s1 = serve_walker (pmmu_eval u (drive_in (\<lambda>i. i\<lparr>pi_clk := False\<rparr>) s));
          s2 = pmmu_eval u (drive_in (\<lambda>i. i\<lparr>pi_clk := True\<rparr>) (pmmu_eval u s1))
      in s2\<lparr>pm_time := pm_time s2 + 1\<rparr>)"

definition pmmu_reg_write :: "'h pmmu \<Rightarrow> u8 \<Rightarrow> u32 \<Rightarrow> bool \<Rightarrow> bool \<Rightarrow> 'h Pmmu \<Rightarrow> 'h Pmmu" where
  "pmmu_reg_write u sel v part fd s =
     (let s1 = pmmu_tick u (drive_in (\<lambda>i. i\<lparr>pi_reg_sel := sel, pi_reg_wdat := v, pi_reg_part := part, pi_reg_fd := fd,
                 pi_reg_we := True\<rparr>) s)
      in pmmu_tick u (drive_in (\<lambda>i. i\<lparr>pi_reg_we := False, pi_reg_re := False\<rparr>) s1))"

text \<open>The loop that waits for a walk: busy must have risen, and then three ticks in a row must be idle.\<close>

fun walk_loop :: "'h pmmu \<Rightarrow> nat \<Rightarrow> bool \<Rightarrow> nat \<Rightarrow> 'h Pmmu \<Rightarrow> 'h Pmmu" where
  "walk_loop u 0 saw_busy idle_after s = s"
| "walk_loop u (Suc n) saw_busy idle_after s =
     (let s1 = pmmu_tick u s;
          saw = (saw_busy \<or> po_busy (pm_out s1));
          finished = (saw \<and> \<not> po_busy (pm_out s1) \<and> po_wstate (pm_out s1) = 0)
      in if finished
         then (if idle_after + 1 \<ge> 3 then s1 else walk_loop u n saw (idle_after + 1) s1)
         else walk_loop u n saw 0 s1)"

definition translate :: "'h pmmu \<Rightarrow> u32 \<Rightarrow> u8 \<Rightarrow> bool \<Rightarrow> bool \<Rightarrow> 'h Pmmu \<Rightarrow> u32 \<times> 'h Pmmu" where
  "translate u addr fc rw insn s =
     (let s1 = walk_loop u 400 False 0 (drive_in (\<lambda>i. i\<lparr>pi_addr_log := addr, pi_fc := fc, pi_rw := rw, pi_is_insn := insn,
                 pi_rmw := False, pi_req := True\<rparr>) s)
      in (po_addr_phys (pm_out s1), pmmu_tick u (pmmu_tick u (drive_in (\<lambda>i. i\<lparr>pi_req := False\<rparr>) s1))))"

definition reset_lines :: "PmmuIn \<Rightarrow> PmmuIn" where
  "reset_lines i = i\<lparr>pi_nreset := False, pi_cpu_reset := True, pi_reg_we := False, pi_reg_re := False, pi_reg_sel := 0,
     pi_reg_wdat := 0, pi_reg_part := False, pi_reg_fd := False, pi_ptest_req := False, pi_pflush_req := False,
     pi_pload_req := False, pi_pmmu_fc := 0, pi_pmmu_addr := 0, pi_pmmu_brief := 0, pi_req := False, pi_is_insn := False,
     pi_rw := True, pi_rmw := False, pi_fc := 0, pi_addr_log := 0, pi_mem_ack := False, pi_mem_berr := False,
     pi_mem_rdat := 0, pi_mmu_config_ack := False, pi_mmudis := False\<rparr>"

definition pmmu_reset_dut :: "'h pmmu \<Rightarrow> 'h Pmmu \<Rightarrow> 'h Pmmu" where
  "pmmu_reset_dut u s =
     (let s1 = (pmmu_tick u ^^ 16) (drive_in reset_lines s)
      in (pmmu_tick u ^^ 4) (drive_in (\<lambda>i. i\<lparr>pi_nreset := True, pi_cpu_reset := False\<rparr>) s1))"

definition REG_TC :: u8 where "REG_TC = 0x10"
definition REG_CRP :: u8 where "REG_CRP = 0x13"

definition root_tables :: "u32 \<rightharpoonup> u32" where
  "root_tables = [0x009FE870 \<mapsto> 0x7FFFFC19, 0x009FE874 \<mapsto> 0x00A00000]"

definition fresh :: "'h pmmu \<Rightarrow> 'h Pmmu \<Rightarrow> 'h Pmmu" where
  "fresh u s = (pmmu_reset_dut u s)\<lparr>pm_mem := root_tables\<rparr>"

definition set_tc :: "'h pmmu \<Rightarrow> 'h Pmmu \<Rightarrow> 'h Pmmu" where
  "set_tc u = pmmu_reg_write u REG_TC 0x80F84500 False False"

definition set_crp :: "'h pmmu \<Rightarrow> 'h Pmmu \<Rightarrow> 'h Pmmu" where
  "set_crp u s = pmmu_reg_write u REG_CRP 0x009FE820 False False (pmmu_reg_write u REG_CRP 0x7FFF0003 True False s)"

definition fetch :: "'h pmmu \<Rightarrow> u32 \<Rightarrow> 'h Pmmu \<Rightarrow> u32 \<times> 'h Pmmu" where
  "fetch u addr = translate u addr 6 True True"

text \<open>The four translations whose results the bench compares.\<close>

definition scenarios :: "'h pmmu \<Rightarrow> 'h Pmmu \<Rightarrow> u32 list" where
  "scenarios u s =
     (let (p1, s1) = fetch u 0x40A0010E (set_crp u (set_tc u (fresh u s)));
          (p2, s2) = fetch u 0x00A41B8E s1;
          (p3, s3) = fetch u 0x40A0010E (set_tc u (set_crp u (fresh u s2)));
          (q1, s4) = fetch u 0x40A04000 (set_tc u (set_crp u (fresh u s3)));
          (q2, s5) = fetch u 0x00A08000 s4;
          (p4, s6) = fetch u 0x40A0010E (set_tc u s5)
      in [p1, p2, p3, p4])"

definition expected :: "u32 list" where
  "expected = [0x00A0010E, 0x00A41B8E, 0x00A0010E, 0x00A0010E]"

text \<open>The number of failures, and the exit code.\<close>

definition pmmu_main :: "'h pmmu \<Rightarrow> 'h Pmmu \<Rightarrow> nat \<times> nat" where
  "pmmu_main u s = (length (filter (\<lambda>(p, e). p \<noteq> e) (zip (scenarios u s) expected)), 0)"

section \<open>When a walk counts as finished\<close>

definition idle_tick :: "'h Pmmu \<Rightarrow> bool" where
  "idle_tick s \<longleftrightarrow> \<not> po_busy (pm_out s) \<and> po_wstate (pm_out s) = 0"

abbreviation after_ticks :: "'h pmmu \<Rightarrow> 'h Pmmu \<Rightarrow> nat \<Rightarrow> 'h Pmmu" where
  "after_ticks u s k \<equiv> (pmmu_tick u ^^ k) s"

lemma after_ticks_Suc: "after_ticks u (pmmu_tick u s) k = after_ticks u s (Suc k)"
  by (simp add: funpow_swap1)

definition last_idle :: "'h pmmu \<Rightarrow> 'h Pmmu \<Rightarrow> nat \<Rightarrow> nat \<Rightarrow> bool" where
  "last_idle u s k n \<longleftrightarrow> n \<le> k \<and> (\<forall>j. k < j + n \<and> j \<le> k \<longrightarrow> idle_tick (after_ticks u s j))"

definition seen_busy :: "'h pmmu \<Rightarrow> 'h Pmmu \<Rightarrow> nat \<Rightarrow> bool" where
  "seen_busy u s k \<longleftrightarrow> (\<exists>j. 0 < j \<and> j \<le> k \<and> po_busy (pm_out (after_ticks u s j)))"

lemma last_idle_Suc: "last_idle u (pmmu_tick u s) k n \<Longrightarrow> n \<le> k \<Longrightarrow> last_idle u s (Suc k) n"
  unfolding last_idle_def after_ticks_Suc
proof (intro conjI allI impI)
  fix j assume h: "n \<le> k \<and> (\<forall>j. k < j + n \<and> j \<le> k \<longrightarrow> idle_tick (after_ticks u s (Suc j)))" "Suc k < j + n \<and> j \<le> Suc k"
  then obtain i where "j = Suc i" by (cases j) auto
  then show "idle_tick (after_ticks u s j)" using h by auto
qed auto

lemma last_idle_all: "last_idle u (pmmu_tick u s) k k \<Longrightarrow> idle_tick (pmmu_tick u s) \<Longrightarrow> last_idle u s (Suc k) (Suc k)"
  unfolding last_idle_def after_ticks_Suc
proof (intro conjI allI impI)
  fix j assume h: "k \<le> k \<and> (\<forall>j. k < j + k \<and> j \<le> k \<longrightarrow> idle_tick (after_ticks u s (Suc j)))" "idle_tick (pmmu_tick u s)"
    "Suc k < j + Suc k \<and> j \<le> Suc k"
  then obtain i where "j = Suc i" by (cases j) auto
  then show "idle_tick (after_ticks u s j)" using h by (cases i) auto
qed auto

lemma seen_busy_Suc: "seen_busy u (pmmu_tick u s) k \<or> po_busy (pm_out (pmmu_tick u s)) \<Longrightarrow> seen_busy u s (Suc k)"
  unfolding seen_busy_def after_ticks_Suc
proof (elim disjE exE conjE)
  assume "po_busy (pm_out (pmmu_tick u s))"
  then have "po_busy (pm_out (after_ticks u s 1))" by simp
  then show "\<exists>j>0. j \<le> Suc k \<and> po_busy (pm_out (after_ticks u s j))" by (metis Suc_le_mono le0 less_numeral_extra(1) One_nat_def)
qed auto

lemma walk_loop_ticks:
  assumes "i < 3"
  shows "\<exists>k \<le> n. walk_loop u n saw i s = after_ticks u s k \<and>
    (k = n \<or> (saw \<or> seen_busy u s k) \<and> (k = 3 - i \<and> last_idle u s k k \<or> last_idle u s k 3))"
  using assms
proof (induction n arbitrary: saw i s)
  case (Suc n)
  let ?s = "pmmu_tick u s" let ?saw = "saw \<or> po_busy (pm_out ?s)"
  show ?case
  proof (cases "?saw \<and> idle_tick ?s")
    case False
    then have w: "walk_loop u (Suc n) saw i s = walk_loop u n ?saw 0 ?s" by (auto simp: Let_def idle_tick_def)
    obtain k where k: "k \<le> n" "walk_loop u n ?saw 0 ?s = after_ticks u ?s k"
        "k = n \<or> (?saw \<or> seen_busy u ?s k) \<and> (k = 3 \<and> last_idle u ?s k k \<or> last_idle u ?s k 3)"
      using Suc.IH [of 0 ?saw ?s] by auto
    have "k = n \<or> (saw \<or> seen_busy u s (Suc k)) \<and> last_idle u s (Suc k) 3"
      using k(3) seen_busy_Suc [of u s k] last_idle_Suc [of u s k 3] by (auto simp: last_idle_def)
    then show ?thesis using k(1,2) unfolding w after_ticks_Suc by (intro exI [of _ "Suc k"]) auto
  next
    case True
    then have saw: saw by (auto simp: idle_tick_def)
    show ?thesis
    proof (cases "i = 2")
      case two: True
      then have "walk_loop u (Suc n) saw i s = after_ticks u s 1" using True saw by (simp add: Let_def idle_tick_def)
      moreover have "last_idle u s 1 1" using True by (auto simp: last_idle_def le_Suc_eq)
      moreover have "saw \<or> seen_busy u s 1" using True seen_busy_Suc [of u s 0] by auto
      ultimately show ?thesis using two by (intro exI [of _ 1]) auto
    next
      case no: False
      then have i: "i + 1 < 3" using Suc.prems by linarith
      then have w: "walk_loop u (Suc n) saw i s = walk_loop u n True (i + 1) ?s"
        using True saw no by (simp add: Let_def idle_tick_def)
      obtain k where k: "k \<le> n" "walk_loop u n True (i + 1) ?s = after_ticks u ?s k"
          "k = n \<or> k = 3 - (i + 1) \<and> last_idle u ?s k k \<or> last_idle u ?s k 3"
        using Suc.IH [of "i + 1" True ?s] i by auto
      have "saw \<or> seen_busy u s (Suc k)" using True seen_busy_Suc [of u s k] by auto
      moreover have "k = n \<or> Suc k = 3 - i \<and> last_idle u s (Suc k) (Suc k) \<or> last_idle u s (Suc k) 3"
        using k(3) last_idle_Suc [of u s k 3] last_idle_all [of u s k] True i by (auto simp: last_idle_def)
      ultimately show ?thesis using k(1,2) unfolding w after_ticks_Suc by (intro exI [of _ "Suc k"]) auto
    qed
  qed
qed simp

lemma tick_time: "pm_time (pmmu_tick u s) = pm_time s + 1"
  by (simp add: pmmu_tick_def pmmu_eval_def serve_walker_def drive_in_def Let_def split: prod.splits)

lemma pmmu_ticks_time: "pm_time (after_ticks u s k) = pm_time s + k"
  by (induction k) (simp_all add: tick_time)

text \<open>A translation ends after at most 402 ticks. What it returns is the physical address of the last tick of its loop, and unless
  that was the 400th, the walker had been busy before and was idle in the last three ticks.\<close>

theorem translate_settles:
  "let s1 = drive_in (\<lambda>i. i\<lparr>pi_addr_log := addr, pi_fc := fc, pi_rw := rw, pi_is_insn := insn, pi_rmw := False, pi_req := True\<rparr>) s
   in \<exists>k \<le> 400. fst (translate u addr fc rw insn s) = po_addr_phys (pm_out (after_ticks u s1 k)) \<and>
      pm_time (snd (translate u addr fc rw insn s)) = pm_time s + k + 2 \<and>
      (k = 400 \<or> seen_busy u s1 k \<and> last_idle u s1 k 3)"
proof -
  define s1 where "s1 = drive_in (\<lambda>i. i\<lparr>pi_addr_log := addr, pi_fc := fc, pi_rw := rw, pi_is_insn := insn, pi_rmw := False, pi_req := True\<rparr>) s"
  have t: "pm_time (drive_in f s) = pm_time s" for f and s :: "'a Pmmu" by (simp add: drive_in_def)
  obtain k where k: "k \<le> 400" "walk_loop u 400 False 0 s1 = after_ticks u s1 k"
      "k = 400 \<or> seen_busy u s1 k \<and> (k = 3 \<and> last_idle u s1 k k \<or> last_idle u s1 k 3)"
    using walk_loop_ticks [of 0 400 u False s1] by auto
  have "translate u addr fc rw insn s = (po_addr_phys (pm_out (after_ticks u s1 k)),
      pmmu_tick u (pmmu_tick u (drive_in (\<lambda>i. i\<lparr>pi_req := False\<rparr>) (after_ticks u s1 k))))"
    unfolding translate_def s1_def [symmetric] k(2) Let_def ..
  moreover have "pm_time s1 = pm_time s" by (simp add: s1_def t)
  ultimately have "fst (translate u addr fc rw insn s) = po_addr_phys (pm_out (after_ticks u s1 k)) \<and>
      pm_time (snd (translate u addr fc rw insn s)) = pm_time s + k + 2 \<and> (k = 400 \<or> seen_busy u s1 k \<and> last_idle u s1 k 3)"
    using k(3) by (auto simp: tick_time t pmmu_ticks_time)
  then show ?thesis using k(1) unfolding s1_def [symmetric] Let_def by blast
qed

text \<open>The memory of the walker: what is written to a long word is read back at any of its four addresses.\<close>

lemma walker_memory:
  assumes "po_mem_req (pm_out s)" "po_mem_we (pm_out s)" "pmmu_align a = pmmu_align (po_mem_addr (pm_out s))"
  shows "mem_lookup (pm_mem (serve_walker s)) a = po_mem_wdat (pm_out s)"
  using assms by (simp add: serve_walker_def mem_lookup_def drive_in_def Let_def)

text \<open>The exit code does not depend on the hardware.\<close>

lemma pmmu_exit_zero: "snd (pmmu_main u s) = 0"
  by (simp add: pmmu_main_def)

end
