(* ===== verification/Spec2Isabelle.thy ===== *)
theory Spec2Isabelle
  imports ScsiMain SimLoop CpuHarness BerrBench DiskCopy SupervisorBench AdbBench PmmuBench
begin

text \<open>
  \<^bold>\<open>The simulator of the Macintosh IIvi core, verified.\<close>

  The repository is a Macintosh IIvi for the MiSTer FPGA board. Its C++ program is the Verilator
  simulator under src/verilator: the compiled hardware is clocked by C++ components that play the
  world around it (a serial terminal, a block device with disk images, the download bus of the
  ROM loader, a debug console) and by benches that drive one part of the hardware with a scripted
  host. This development models those C++ components.

  \<^bold>\<open>Parts.\<close>

  \<^item> SimPrelude: integer widths, big-endian words, regions of bytes and the interfaces (locales):
    clocked (an invariant over a run of ticks), bounded_log (newest entries only),
    region_store (a store written and read in regions) and phase (a stretch of calls of a
    component against a partner that may react to what it sees).

  \<^item> SoftUart (sim/sim_serial.h, class SoftUART): the bit-level transmitter and receiver. Shown: a
    byte sent by one UART is received by another in every frame format and clock divisor; the exact
    shape of a frame; false starts and framing errors; setup round trip.

  \<^item> SerialTerm (sim/sim_serial.cpp): the terminal on top of the UART: received characters become
    lines, typed lines become bytes, null-run detection. Shown: a typed line is
    sent byte for byte; the buffers stay bounded in every run.

  \<^item> Console (sim/sim_console.cpp): log, command history, completion. Shown: invariants of
    every reachable console, what the log keeps, what completion produces, and that one button
    always leaves defined behaviour.

  \<^item> DownloadBus (sim/sim_bus.cpp): the queue of files streamed into the core. Shown: under any
    pattern of waits the memory of the core ends with exactly the specified words; the two-argument
    queue function loses the file.

  \<^item> BlockDev (sim/sim_blkdevice.cpp): ten disks served sector by sector. Shown: exact sector read
    and write with their timing, the round trip, and the mount pulse.

  \<^item> ClockAudio (sim/sim_clock.cpp, sim/sim_audio.cpp): the clock divider with its edge detection and
    the audio sampler. Shown: which calls are rising edges, and which samples are kept.

  \<^item> VideoOut (sim/sim_video.cpp, save_screenshot of sim_main.cpp): the capture of the picture.
    Shown: a frame is captured exactly, in buffer, texture and screenshot; every run stays inside the
    buffer; what rotation and flip lose.

  \<^item> KeyInput (sim/sim_input.cpp): key tables, keyboard scan, paced delivery. Shown: every event is
    delivered in order for its time; the events lead from the old to the new keyboard.

  \<^item> CpuTrace (the tracer in verilate of sim_main.cpp, sim/m68k_dasm_stubs.cpp): Shown: the trace
    lists exactly the instructions of straight runs; its invariants hold in every run.

  \<^item> SimArgs, MousePort (main of sim_main.cpp): the command line, and the mouse packets. Shown: the
    settings index their tables; the core reads back the motion.

  \<^item> SimMain (verilate and resetSim of sim_main.cpp): the components wired to the core, which is a
    function from its state and input lines to its next state and output lines. Shown: every run is
    defined and keeps the invariants of all components; the exact reset windows; what the reset
    button does after a warm reset.

  \<^item> SimLoop (main of sim_main.cpp): set-up, headless loop, windowed loop. Shown: for every
    command line and core the program is safe, takes exactly the requested screenshots it passes and
    ends only where it should.

  \<^item> Toolbox (scsi_bench/scsi_bench.cpp, struct TbHps): the file transfer service. Shown: uploads
    and downloads are exact, responses are read back exactly, what a lost block does.

  \<^item> HpsModel (scsi_bench/scsi_bench.cpp, struct Hps): the block-device server of the bench with
    its stall injection. Shown: exact fetches, flushes and Toolbox blocks with their timing, the
    fate of a deferred request, uploads through the server, and how far the data pattern detects
    stale sectors.

  \<^item> StateProg: programs that thread a state (the state monad) with the loops the bench uses: n
    times, until the first failure, a bounded number of attempts. A program keeps a set of states
    when it leads from each of its states to such a state; the rules of that notion are collected
    and carry the invariants of every program built on top.

  \<^item> ScsiHost (scsi_bench/scsi_bench.cpp, tick to lcg): the bench state (the compiled hardware, the
    lines of the host, the server), one clock tick, register cycles, pseudo-DMA cycles, polling
    and reset. The hardware is a parameter: a function from its state, the clock level and the
    input lines to the next state with its outputs; nothing is assumed of it. The locales
    bench_frame and bench_inv say what a property of the bench must keep over a tick and a change
    of lines, and give it for every bus operation; they are interpreted for the released bus, for
    the bounds of the server and for its stall settings. Shown: the exact polling, the exact
    timing of a read cycle.

  \<^item> ScsiRead (run_read, run_write, the sweep of main): the six access modes. Shown: a run that
    reports no failure has transferred exactly the pattern, whatever the hardware did; the verdict
    of the sweep.

  \<^item> ScsiToolbox (tb_cmd, run_toolbox and its variants): locales toolbox_frame and toolbox_inv
    extend those of the bench by the folders of the Toolbox service. Shown: the verdict of the
    upload test, and that stalled runs remove their stalls on every path.

  \<^item> ScsiMain (run_cdvol, run_gapcmds, main): command line, choice of the run, exit code. Shown:
    for any hardware and command line every index of the server stays inside its array and the
    host bus is left released.

  \<^item> BenchRam: the byte memory of the three benches below, with its 16-bit and 32-bit accesses and the
    planting of stretches (an interpretation of region_store).

  \<^item> CpuHarness (SingleStepTests/tg68k/sim_main.cpp, and where sim_main_maclc.cpp differs): runs a corpus of
    single-instruction tests on the processor. Shown: what the planted memory holds; what a run
    captures and when it ends; when a test passes; the exit code.

  \<^item> KswBench (ksw_bench/ksw_bench.cpp): the mode switch of the memory management unit. Shown: what
    the planted tables translate (against a reference walk), what a pass means, how -v
    changes the stall detection.

  \<^item> BerrBench (berr_bench/berr_bench.cpp): continuing past bus errors. Shown: the error latch, the latency of
    the walker, program and tables in memory, that the verdict fits the program, what a pass means.

  \<^item> AdbBench (adb_bench/sim_adb_main.cpp): the bit cells sent to the keyboard port. Shown: what a receiver with a
    threshold reads of them, and which cells of the sweep it reads.

  \<^item> PmmuBench (pmmu_bench/pmmu_bench.cpp): the memory management unit alone. Shown: when a translation
    ends and what it returns, and how the descriptor memory answers.

  \<^item> JsonlWriter (preboot/common/runtime/jsonl_writer.c, freestanding.h): the writer of result lines of the
    programs that run on the target. Shown: what the file holds after each commit, how numbers
    are printed, which error is kept.

  \<^item> Display1bpp (preboot/common/display/display_1bpp.c): their text display. Shown: what is painted can be
    read back, and nothing else changes.

  \<^item> ViaTimer, DriveEnum (preboot/iotest/timing.c, drive_enum.c): the stop watch of the disk program and its
    list of drives. Shown: what the stop watch shows for every span, with a chip that counts as
    documented; that the walk of the drive queue ends on any memory, and what it lists.

  \<^item> IoTest (preboot/iotest/diskio_main.c, sizes.c, sizes.h): the disk program: for each size a timed
    read, a timed write with readback and comparison, status cells and result lines. The traps of
    the block driver are functions of parameter block, memory and device, and may fault. Shown: a
    disk that works passes, what a driver that does nothing is told, that the comparison is exact,
    and that a status cell can be read back.

  \<^item> DiskCopy (preboot/diskcopy/diskcopy_main.c, common/runtime/eject.c): the floppy copier, with traps
    that may fail or fault and keys that may come or not. Shown: a copy that completes is exact, and
    with drives that do not fail it completes.

  \<^item> SupervisorBench (preboot/supervisor_bench/bench_main.c): the CPU bench: machine code assembled around
    each test, result lines, tally. Shown: the program fits its buffer and the program counters bracket
    the test; the state dump stores the registers exactly, with the instructions it uses as documented.

  \<^bold>\<open>State and time.\<close> A component is a record with the fields of its class and the lines it drives; one
  call of its clocked function is one HOL function on that record, built from one definition per
  branch. The rest of the world (the compiled core, the user, the file system) enters as an
  argument of the call. Closed loops (drive, blk_drive) let the core answer to what it sees.
  Loops of the code are structural recursions or bounded by the data; the number of calls of a
  transaction is stated exactly in each theorem. The bounds that remain are those of the code: a
  DMA cycle waits at most 500000 ticks for its request line, a drain lasts 200000 ticks, polling
  has its number of attempts. The mixed-width read loop gets as many rounds as there are bytes
  to read, which is enough because each round reads at least one; the bound of the download client
  of Toolbox is part of its theorem. Numbers of the command line are naturals: negative counts and
  identifiers are outside the model.

  \<^bold>\<open>Not modelled.\<close> The hardware itself (Verilog, VHDL), the vendored libraries (ImGui, stb, the
  Verilator runtime, the JSON library, the disassembler), drawing and audio output, the other
  programs that run on the emulated machine, and scripts. printf output is left out; where it is
  what the user sees of a decision, the decision is modelled. Of verilate the bring-up loggers
  between the evaluation of the core and the tracer are left out: they read internal nets of the
  compiled core, keep static counters and print to stderr, and nothing else reads those counters;
  so are the RAM and peripheral logs, which constants disable.
\<close>

end
